(* ===== verification/Prelude.thy ===== *)
theory Prelude
  imports Main "HOL-Library.Word" "HOL-Library.Monad_Syntax"
begin

unbundle bit_operations_syntax

text \<open>
  Shared vocabulary of the development: the machine word types of the 32-bit
  process, C strings, the search along an array of pointers that stops at the
  first hit, and the generic facts on options, lists and words that the
  components use.

  Every operation that can trap (a null or unmapped pointer, a division by zero,
  \<open>abort\<close>) or fail to return is a function into \<open>option\<close>: \<open>None\<close> means that the
  call does not return to its caller.  What the C code reports as an error
  (\<open>NULL\<close>, \<open>false\<close>, \<open>-1\<close>) is an ordinary value under \<open>Some\<close>.
\<close>

type_synonym u8 = "8 word"
type_synonym u16 = "16 word"
type_synonym u32 = "32 word"

named_theorems run_simps
  \<comment> \<open>equations that run a piece of the model on a concrete state\<close>

named_theorems frame_simps
  \<comment> \<open>what an operation leaves unchanged\<close>

section \<open>Search for the first hit\<close>

text \<open>
  The linker's searches run a probe on one object after the other and stop at
  the first one that answers.  The probe itself may trap (\<open>None\<close>), pass
  (\<open>Some None\<close>) or answer (\<open>Some (Some r)\<close>).
\<close>

fun first_hit :: "('a \<Rightarrow> 'r option option) \<Rightarrow> 'a list \<Rightarrow> 'r option option" where
  "first_hit probe [] = Some None"
| "first_hit probe (a # as) =
     do { r \<leftarrow> probe a;
          (case r of None \<Rightarrow> first_hit probe as | Some x \<Rightarrow> Some (Some x)) }"

lemma first_hit_append:
  "first_hit probe (as @ bs) =
     do { r \<leftarrow> first_hit probe as;
          (case r of None \<Rightarrow> first_hit probe bs | Some x \<Rightarrow> Some (Some x)) }"
  by (induction as) (auto split: option.splits simp: bind_eq_None_conv Option.bind_eq_Some_conv
      intro!: Option.bind_cong)

lemma first_hit_cong:
  "as = bs \<Longrightarrow> (\<And>a. a \<in> set bs \<Longrightarrow> f a = g a) \<Longrightarrow> first_hit f as = first_hit g bs"
proof (induction as arbitrary: bs)
  case Nil
  then show ?case by simp
next
  case (Cons a as)
  from Cons.prems have fa: "f a = g a" by auto
  have "first_hit f as = first_hit g as"
    using Cons.prems by (intro Cons.IH) auto
  with fa Cons.prems(1) show ?case by auto
qed

lemma first_hit_map: "first_hit f (map g as) = first_hit (\<lambda>a. f (g a)) as"
  by (induction as) (auto split: option.splits)

lemma first_hit_find:
  "first_hit (\<lambda>a. Some (if P a then Some (g a) else None)) as = Some (map_option g (find P as))"
  by (induction as) auto

text \<open>
  The contract a search relies on: on the objects it visits the probe returns.
  The laws of the search are proved once from it.
\<close>

locale probing =
  fixes probe :: "'a \<Rightarrow> 'r option option"
    and sound :: "'a \<Rightarrow> bool"
  assumes probe_returns: "sound a \<Longrightarrow> probe a \<noteq> None"
begin

lemma search_returns: "\<forall>a \<in> set as. sound a \<Longrightarrow> first_hit probe as \<noteq> None"
  by (induction as) (use probe_returns in \<open>auto split: option.splits simp: Option.bind_eq_None_conv\<close>)

lemma search_miss_iff:
  assumes "\<forall>a \<in> set as. sound a"
  shows "first_hit probe as = Some None \<longleftrightarrow> (\<forall>a \<in> set as. probe a = Some None)"
  using assms
  by (induction as) (use probe_returns in \<open>auto split: option.splits simp: Option.bind_eq_Some_conv\<close>)

lemma search_hit_iff:
  "first_hit probe as = Some (Some r) \<longleftrightarrow>
     (\<exists>ys a zs. as = ys @ a # zs \<and> (\<forall>y \<in> set ys. probe y = Some None) \<and> probe a = Some (Some r))"
proof (induction as)
  case Nil
  then show ?case by simp
next
  case (Cons b as)
  show ?case (is "?l \<longleftrightarrow> ?r")
  proof
    assume l: ?l
    show ?r
    proof (cases "probe b")
      case None
      with l show ?thesis by simp
    next
      case (Some q)
      show ?thesis
      proof (cases q)
        case None
        with l Some Cons.IH obtain ys a zs where
          "as = ys @ a # zs" "\<forall>y \<in> set ys. probe y = Some None" "probe a = Some (Some r)"
          by auto
        with Some None show ?thesis
          by (intro exI[of _ "b # ys"] exI[of _ a] exI[of _ zs]) auto
      next
        case (Some q')
        with l \<open>probe b = Some q\<close> show ?thesis
          by (intro exI[of _ "[]"] exI[of _ b] exI[of _ as]) auto
      qed
    qed
  next
    assume ?r
    then obtain ys a zs where d: "b # as = ys @ a # zs"
      and m: "\<forall>y \<in> set ys. probe y = Some None" and h: "probe a = Some (Some r)"
      by blast
    show ?l
    proof (cases ys)
      case Nil
      with d h show ?thesis by simp
    next
      case (Cons y ys')
      with d m h have "\<exists>ys a zs. as = ys @ a # zs \<and> (\<forall>y \<in> set ys. probe y = Some None) \<and>
          probe a = Some (Some r)" and "probe b = Some None" by auto
      with Cons.IH show ?thesis by simp
    qed
  qed
qed

end

section \<open>Words\<close>

lemma unat_less_4294967296 [simp]: "unat (x :: u32) < 4294967296"
  using unsigned_less [where w = x] by simp

lemma unat_le_4294967295 [simp]: "unat (x :: u32) \<le> 4294967295"
  using unat_less_4294967296 [of x] by linarith

lemma unat_of_nat_u32 [simp]: "n < 4294967296 \<Longrightarrow> unat (of_nat n :: u32) = n"
  by (simp add: unat_of_nat take_bit_eq_mod)

lemma unat_ucast_u16 [simp]: "unat (ucast (x :: u16) :: u32) = unat x"
proof -
  have "unat x < 65536" using unsigned_less [where w = x] by simp
  then have "take_bit 32 (unat x) = unat x" by (simp add: take_bit_eq_mod)
  then show ?thesis by (simp add: unsigned_ucast_eq)
qed

lemma unat_add_u32: "unat ((x :: u32) + y) = (unat x + unat y) mod 4294967296"
  by (simp add: unat_word_ariths)

lemma unat_add_no_wrap: "unat (x :: u32) + unat y < 4294967296 \<Longrightarrow> unat (x + y) = unat x + unat y"
  by (simp add: unat_add_u32)

lemma unat_add_of_nat:
  "unat (x :: u32) + n < 4294967296 \<Longrightarrow> unat (x + of_nat n) = unat x + n"
  by (subst unat_add_no_wrap) auto

lemma unat_minus_1_u32 [simp]: "unat (- 1 :: u32) = 4294967295"
  by (simp add: unsigned_minus_1_eq_mask mask_eq_exp_minus_1)

lemma addr_Suc: "(a :: u32) + of_nat (Suc i) = (a + 1) + of_nat i"
  by (simp add: add.assoc)

text \<open>An address lies in the block of \<open>n\<close> bytes at \<open>a\<close>; the block may wrap.\<close>

definition in_block :: "u32 \<Rightarrow> nat \<Rightarrow> u32 \<Rightarrow> bool" where
  "in_block a n x \<longleftrightarrow> unat (x - a) < n"

lemma in_block_offset: "i < n \<Longrightarrow> i < 4294967296 \<Longrightarrow> in_block a n (a + of_nat i)"
  by (simp add: in_block_def)

lemma in_blockE:
  assumes "in_block a n x"
  obtains i where "i < n" and "x = a + of_nat i"
  using assms by (intro that [of "unat (x - a)"]) (auto simp: in_block_def)

lemma in_block_mono: "in_block a n x \<Longrightarrow> n \<le> k \<Longrightarrow> in_block a k x"
  by (simp add: in_block_def)

lemma in_block_no_wrap:
  "unat a + n \<le> 4294967296 \<Longrightarrow> in_block a n x \<longleftrightarrow> unat a \<le> unat x \<and> unat x < unat a + n"
  unfolding in_block_def by (simp add: unat_sub_if_size word_size) linarith

lemma find_map_comp: "find P (map f xs) = map_option f (find (\<lambda>x. P (f x)) xs)"
  by (induction xs) auto

lemma find_upt_nth: "find P xs = map_option (\<lambda>i. xs ! i) (find (\<lambda>i. P (xs ! i)) [0..<length xs])"
  by (subst map_nth [symmetric], subst find_map_comp) simp

end
