(* ===== verification/Machine.thy ===== *)
theory Machine
  imports Prelude
begin

text \<open>
  The process the emulator runs in: a 32-bit address space of bytes with a
  write permission per address, the C runtime's table of open files, the files
  on disk and \<open>errno\<close>.  Reads and writes of unmapped memory, and writes of
  read-only memory, trap.  The C library's \<open>open\<close>, \<open>read\<close>, \<open>lseek\<close> and
  \<open>close\<close>, and its string functions on memory, are modelled here as far as
  the sources use them.
\<close>

section \<open>The machine state\<close>

record open_file =
  f_data :: "u8 list"
  f_pos :: nat

record mach =
  vbytes :: "u32 \<Rightarrow> u8 option"
  vwr :: "u32 \<Rightarrow> bool"
  fs :: "string \<Rightarrow> u8 list option"
  fds :: "open_file option list"
  errno :: u32

section \<open>Byte memory\<close>

definition load8 :: "mach \<Rightarrow> u32 \<Rightarrow> u8 option" where
  "load8 m a = vbytes m a"

definition writable :: "mach \<Rightarrow> u32 \<Rightarrow> bool" where
  "writable m a \<longleftrightarrow> vbytes m a \<noteq> None \<and> vwr m a"

definition store8 :: "mach \<Rightarrow> u32 \<Rightarrow> u8 \<Rightarrow> mach option" where
  "store8 m a b = (if writable m a then Some (m\<lparr>vbytes := (vbytes m)(a \<mapsto> b)\<rparr>) else None)"

fun load_bytes :: "mach \<Rightarrow> u32 \<Rightarrow> nat \<Rightarrow> u8 list option" where
  "load_bytes m a 0 = Some []"
| "load_bytes m a (Suc n) = do { b \<leftarrow> load8 m a; bs \<leftarrow> load_bytes m (a + 1) n; Some (b # bs) }"

fun store_bytes :: "mach \<Rightarrow> u32 \<Rightarrow> u8 list \<Rightarrow> mach option" where
  "store_bytes m a [] = Some m"
| "store_bytes m a (b # bs) = do { m' \<leftarrow> store8 m a b; store_bytes m' (a + 1) bs }"

definition writable_block :: "mach \<Rightarrow> u32 \<Rightarrow> nat \<Rightarrow> bool" where
  "writable_block m a n \<longleftrightarrow> (\<forall>i<n. writable m (a + of_nat i))"

text \<open>The memory after the bytes \<open>bs\<close> have been written at \<open>a\<close>, as one update.\<close>

definition put_bytes :: "u32 \<Rightarrow> u8 list \<Rightarrow> mach \<Rightarrow> mach" where
  "put_bytes a bs m =
     m\<lparr>vbytes := (\<lambda>x. if in_block a (length bs) x then Some (bs ! unat (x - a)) else vbytes m x)\<rparr>"

lemma put_bytes_Nil [simp]: "put_bytes a [] m = m"
  by (simp add: put_bytes_def in_block_def)

lemma put_bytes_sel [simp]:
  "vwr (put_bytes a bs m) = vwr m" "fs (put_bytes a bs m) = fs m"
  "fds (put_bytes a bs m) = fds m" "errno (put_bytes a bs m) = errno m"
  by (simp_all add: put_bytes_def)

lemma load8_put_bytes:
  "load8 (put_bytes a bs m) x = (if in_block a (length bs) x then Some (bs ! unat (x - a)) else load8 m x)"
  by (simp add: load8_def put_bytes_def)

lemma load8_put_bytes_in:
  "i < length bs \<Longrightarrow> length bs \<le> 4294967296 \<Longrightarrow> load8 (put_bytes a bs m) (a + of_nat i) = Some (bs ! i)"
  by (simp add: load8_put_bytes in_block_def)

lemma writable_put_bytes [simp]:
  "writable_block m a (length bs) \<Longrightarrow> length bs \<le> 4294967296 \<Longrightarrow>
     writable (put_bytes a bs m) x \<longleftrightarrow> writable m x"
  by (auto simp: writable_def writable_block_def put_bytes_def elim!: in_blockE)

lemma writable_block_put_bytes [simp]:
  "writable_block m a (length bs) \<Longrightarrow> length bs \<le> 4294967296 \<Longrightarrow>
     writable_block (put_bytes a bs m) c n \<longleftrightarrow> writable_block m c n"
  by (simp add: writable_block_def [of _ c])

lemma writable_block_mono: "writable_block m a n \<Longrightarrow> k \<le> n \<Longrightarrow> writable_block m a k"
  by (auto simp: writable_block_def)

lemma writable_block_Suc:
  "writable_block m a (Suc n) \<longleftrightarrow> writable m a \<and> writable_block m (a + 1) n"
proof -
  have "(\<forall>i<Suc n. writable m (a + of_nat i)) \<longleftrightarrow>
      writable m (a + of_nat 0) \<and> (\<forall>i<n. writable m (a + of_nat (Suc i)))"
    by (rule All_less_Suc2)
  then show ?thesis
    by (simp only: writable_block_def addr_Suc) simp
qed

lemma put_bytes_Cons:
  assumes "Suc (length bs) \<le> 4294967296"
  shows "put_bytes (a + 1) bs (m\<lparr>vbytes := (vbytes m)(a \<mapsto> b)\<rparr>) = put_bytes a (b # bs) m"
proof -
  have shift: "x \<noteq> a \<Longrightarrow> unat (x - a) = Suc (unat (x - (a + 1)))" for x
  proof -
    assume "x \<noteq> a"
    then have "x - a \<noteq> 0" by simp
    then have "unat (x - a - 1) = unat (x - a) - 1" and "0 < unat (x - a)"
      by (rule unat_minus_one, simp add: unat_gt_0)
    then have "unat (x - a) = Suc (unat (x - a - 1))" by linarith
    moreover have "x - a - 1 = x - (a + 1)" by (rule diff_diff_eq)
    ultimately show ?thesis by (simp only:)
  qed
  have "\<not> in_block (a + 1) (length bs) a"
    using assms by (simp add: in_block_def)
  with shift show ?thesis
    by (auto simp: put_bytes_def in_block_def fun_eq_iff)
qed

text \<open>Writing byte by byte is one block update, and traps where a byte is not writable.\<close>

lemma store_bytes_eq:
  "length bs \<le> 4294967296 \<Longrightarrow>
     store_bytes m a bs = (if writable_block m a (length bs) then Some (put_bytes a bs m) else None)"
proof (induction bs arbitrary: m a)
  case Nil
  then show ?case by (simp add: writable_block_def)
next
  case (Cons b bs)
  let ?m = "m\<lparr>vbytes := (vbytes m)(a \<mapsto> b)\<rparr>"
  have wr: "writable m a \<Longrightarrow> writable ?m x \<longleftrightarrow> writable m x" for x
    by (auto simp: writable_def)
  show ?case
    using Cons wr
    by (simp add: store8_def writable_block_Suc put_bytes_Cons, simp add: writable_block_def)
qed

lemma load_bytes_nth:
  "load_bytes m a n = Some bs \<Longrightarrow> length bs = n \<and> (\<forall>i<n. load8 m (a + of_nat i) = Some (bs ! i))"
proof (induction n arbitrary: a bs)
  case 0
  then show ?case by simp
next
  case (Suc n)
  then obtain b cs where b: "load8 m a = Some b" and cs: "load_bytes m (a + 1) n = Some cs"
    and bs: "bs = b # cs" by (auto simp: Option.bind_eq_Some_conv)
  from Suc.IH [OF cs] have l: "length cs = n"
    and h: "\<And>i. i < n \<Longrightarrow> load8 m (a + 1 + of_nat i) = Some (cs ! i)" by auto
  have "load8 m (a + of_nat i) = Some (bs ! i)" if "i < Suc n" for i
    using that b bs h by (cases i) (auto simp: add.assoc)
  with l bs show ?case by simp
qed

lemma load_bytes_cong:
  "(\<And>i. i < n \<Longrightarrow> load8 m (a + of_nat i) = load8 m' (a + of_nat i)) \<Longrightarrow> load_bytes m a n = load_bytes m' a n"
proof (induction n arbitrary: a)
  case 0
  then show ?case by simp
next
  case (Suc n)
  have "load8 m a = load8 m' a" using Suc.prems [of 0] by simp
  moreover have "load_bytes m (a + 1) n = load_bytes m' (a + 1) n"
    using Suc.prems [of "Suc _"] by (intro Suc.IH) (simp add: add.assoc)
  ultimately show ?case by simp
qed

section \<open>Little-endian half words and words\<close>

definition le16 :: "u8 \<Rightarrow> u8 \<Rightarrow> u16" where
  "le16 b0 b1 = ucast b0 OR push_bit 8 (ucast b1)"

definition le32 :: "u8 \<Rightarrow> u8 \<Rightarrow> u8 \<Rightarrow> u8 \<Rightarrow> u32" where
  "le32 b0 b1 b2 b3 =
     ucast b0 OR push_bit 8 (ucast b1) OR push_bit 16 (ucast b2) OR push_bit 24 (ucast b3)"

definition bytes16 :: "u16 \<Rightarrow> u8 list" where
  "bytes16 v = [ucast v, ucast (drop_bit 8 v)]"

definition bytes32 :: "u32 \<Rightarrow> u8 list" where
  "bytes32 v = [ucast v, ucast (drop_bit 8 v), ucast (drop_bit 16 v), ucast (drop_bit 24 v)]"

definition load16 :: "mach \<Rightarrow> u32 \<Rightarrow> u16 option" where
  "load16 m a = do { b0 \<leftarrow> load8 m a; b1 \<leftarrow> load8 m (a + 1); Some (le16 b0 b1) }"

definition load32 :: "mach \<Rightarrow> u32 \<Rightarrow> u32 option" where
  "load32 m a = do { b0 \<leftarrow> load8 m a; b1 \<leftarrow> load8 m (a + 1); b2 \<leftarrow> load8 m (a + 2); b3 \<leftarrow> load8 m (a + 3);
     Some (le32 b0 b1 b2 b3) }"

lemma load32_mapped: "load32 m a = Some v \<Longrightarrow> in_block a 4 x \<Longrightarrow> load8 m x \<noteq> None"
  by (erule in_blockE) (auto simp: load32_def less_Suc_eq numeral_eq_Suc split: Option.bind_split_asm)

definition store32 :: "mach \<Rightarrow> u32 \<Rightarrow> u32 \<Rightarrow> mach option" where
  "store32 m a v = store_bytes m a (bytes32 v)"

lemma length_bytes32 [simp]: "length (bytes32 v) = 4"
  by (simp add: bytes32_def)

lemma le16_bytes16: "le16 (ucast v) (ucast (drop_bit 8 v)) = v"
  by (rule bit_word_eqI) (auto simp: le16_def bit_simps)

lemma le32_bytes32:
  "le32 (ucast v) (ucast (drop_bit 8 v)) (ucast (drop_bit 16 v)) (ucast (drop_bit 24 v)) = v"
proof (rule bit_word_eqI)
  fix n :: nat
  assume "n < LENGTH(32)"
  then consider "n < 8" | "8 \<le> n" "n < 16" | "16 \<le> n" "n < 24" | "24 \<le> n" "n < 32"
    by fastforce
  then show "bit (le32 (ucast v) (ucast (drop_bit 8 v)) (ucast (drop_bit 16 v)) (ucast (drop_bit 24 v))) n =
      bit v n"
    by cases (auto simp: le32_def bit_simps)
qed

lemma store32_eq:
  "store32 m a v = (if writable_block m a 4 then Some (put_bytes a (bytes32 v) m) else None)"
  by (simp add: store32_def store_bytes_eq)

lemma load32_store32: "store32 m a v = Some m' \<Longrightarrow> load32 m' a = Some v"
  using le32_bytes32 [of v] load8_put_bytes_in [of 0 "bytes32 v" a m]
    load8_put_bytes_in [of 1 "bytes32 v" a m] load8_put_bytes_in [of 2 "bytes32 v" a m]
    load8_put_bytes_in [of 3 "bytes32 v" a m]
  by (auto simp: store32_eq load32_def bytes32_def split: if_splits)

lemma load32_put_bytes_other:
  "(\<And>i. i < 4 \<Longrightarrow> \<not> in_block a (length bs) (b + of_nat i)) \<Longrightarrow> load32 (put_bytes a bs m) b = load32 m b"
proof -
  assume h: "\<And>i. i < 4 \<Longrightarrow> \<not> in_block a (length bs) (b + of_nat i)"
  have "load8 (put_bytes a bs m) (b + of_nat i) = load8 m (b + of_nat i)" if "i < 4" for i
    using h [OF that] by (simp add: load8_put_bytes)
  from this [of 0] this [of 1] this [of 2] this [of 3]
  show "load32 (put_bytes a bs m) b = load32 m b"
    by (simp add: load32_def)
qed

text \<open>Two words do not overlap.\<close>

definition apart4 :: "u32 \<Rightarrow> u32 \<Rightarrow> bool" where
  "apart4 a b \<longleftrightarrow> 4 \<le> unat (b - a) \<and> 4 \<le> unat (a - b)"

lemma apart4_sym: "apart4 a b \<longleftrightarrow> apart4 b a"
  by (auto simp: apart4_def)

lemma apart4_not_in_block:
  assumes "apart4 a b" and "i < 4"
  shows "\<not> in_block a 4 (b + of_nat i)"
proof -
  have s: "b + of_nat i - a = (b - a) + of_nat i" by simp
  show ?thesis
  proof (cases "unat (b - a) + i < 4294967296")
    case True
    then have "unat (b + of_nat i - a) = unat (b - a) + i"
      unfolding s by (rule unat_add_of_nat)
    with assms show ?thesis by (simp add: in_block_def apart4_def)
  next
    case False
    have "b - a \<noteq> 0" using assms by (auto simp: apart4_def)
    then have "unat (a - b) = 4294967296 - unat (b - a)"
      using unat_sub_if_size [of 0 "b - a"] by (auto simp: word_size unat_eq_0)
    with False assms show ?thesis by (auto simp: apart4_def)
  qed
qed

lemma load32_store32_other:
  "store32 m a v = Some m' \<Longrightarrow> apart4 a b \<Longrightarrow> load32 m' b = load32 m b"
  using load32_put_bytes_other [of a "bytes32 v" b m] apart4_not_in_block [of a b]
  by (auto simp: store32_eq split: if_splits)

section \<open>C strings in memory\<close>

definition byte_char :: "u8 \<Rightarrow> char" where
  "byte_char b = char_of (unat b)"

definition char_byte :: "char \<Rightarrow> u8" where
  "char_byte c = of_nat (of_char c)"

lemma byte_char_byte [simp]: "byte_char (char_byte c) = c"
  by (simp add: byte_char_def char_byte_def unat_of_nat take_bit_eq_mod)

lemma char_byte_char [simp]: "char_byte (byte_char b) = b"
proof -
  have "unat b < 256" using unsigned_less [where w = b] by simp
  then show ?thesis by (simp add: byte_char_def char_byte_def)
qed

lemma char_byte_eq_iff [simp]: "char_byte c = char_byte d \<longleftrightarrow> c = d"
  by (metis byte_char_byte)

text \<open>The string that starts at \<open>a\<close>, up to its terminating NUL.\<close>

partial_function (option) cstr :: "mach \<Rightarrow> u32 \<Rightarrow> string option" where
  "cstr m a =
     do { b \<leftarrow> load8 m a;
          (if b = 0 then Some [] else do { s \<leftarrow> cstr m (a + 1); Some (byte_char b # s) }) }"

text \<open>\<open>strcmp\<close> of the string at \<open>a\<close> with a given one: equal or not.  It stops at the first difference.\<close>

fun strcmp_eq :: "mach \<Rightarrow> u32 \<Rightarrow> string \<Rightarrow> bool option" where
  "strcmp_eq m a [] = do { b \<leftarrow> load8 m a; Some (b = 0) }"
| "strcmp_eq m a (c # cs) =
     do { b \<leftarrow> load8 m a; (if b = char_byte c then strcmp_eq m (a + 1) cs else Some False) }"

text \<open>The string \<open>s\<close> is stored, with its NUL, at \<open>a\<close>.\<close>

fun str_at :: "mach \<Rightarrow> u32 \<Rightarrow> string \<Rightarrow> bool" where
  "str_at m a [] \<longleftrightarrow> load8 m a = Some 0"
| "str_at m a (c # cs) \<longleftrightarrow> load8 m a = Some (char_byte c) \<and> char_byte c \<noteq> 0 \<and> str_at m (a + 1) cs"

lemma cstr_str_at: "str_at m a s \<Longrightarrow> cstr m a = Some s"
  by (induction m a s rule: str_at.induct) (auto simp: cstr.simps)

lemma strcmp_eq_str_at:
  assumes "str_at m a s" and "\<forall>c \<in> set t. char_byte c \<noteq> 0"
  shows "strcmp_eq m a t = Some (s = t)"
  using assms
proof (induction t arbitrary: a s)
  case Nil
  then show ?case by (cases s) auto
next
  case (Cons c cs)
  then show ?case by (cases s) auto
qed

section \<open>Open files\<close>

definition fd_file :: "mach \<Rightarrow> int \<Rightarrow> open_file option" where
  "fd_file m fd = (if 0 \<le> fd \<and> nat fd < length (fds m) then fds m ! nat fd else None)"

definition set_fd :: "int \<Rightarrow> open_file option \<Rightarrow> mach \<Rightarrow> mach" where
  "set_fd fd f m = m\<lparr>fds := (fds m)[nat fd := f]\<rparr>"

fun first_free :: "'a option list \<Rightarrow> nat" where
  "first_free [] = 0"
| "first_free (None # xs) = 0"
| "first_free (Some _ # xs) = Suc (first_free xs)"

lemma first_free_le: "first_free xs \<le> length xs"
  by (induction xs rule: first_free.induct) auto

lemma first_free_None: "first_free xs < length xs \<Longrightarrow> xs ! first_free xs = None"
  by (induction xs rule: first_free.induct) auto

text \<open>\<open>open\<close> for reading: the lowest free descriptor, or -1 when there is no such file.\<close>

definition c_open :: "string \<Rightarrow> mach \<Rightarrow> int \<times> mach" where
  "c_open path m =
     (case fs m path of
        None \<Rightarrow> (-1, m)
      | Some d \<Rightarrow>
          (let n = first_free (fds m); f = Some \<lparr>f_data = d, f_pos = 0\<rparr>
           in (int n, m\<lparr>fds := (if n < length (fds m) then (fds m)[n := f] else fds m @ [f])\<rparr>)))"

definition c_close :: "int \<Rightarrow> mach \<Rightarrow> mach" where
  "c_close fd m = (if fd_file m fd = None then m else set_fd fd None m)"

definition c_lseek :: "int \<Rightarrow> u32 \<Rightarrow> mach \<Rightarrow> mach" where
  "c_lseek fd off m =
     (case fd_file m fd of None \<Rightarrow> m | Some f \<Rightarrow> set_fd fd (Some (f\<lparr>f_pos := unat off\<rparr>)) m)"

text \<open>\<open>read\<close> into an object of the program: the bytes read, or \<open>None\<close> for the error -1.\<close>

definition c_read :: "int \<Rightarrow> nat \<Rightarrow> mach \<Rightarrow> u8 list option \<times> mach" where
  "c_read fd n m =
     (case fd_file m fd of
        None \<Rightarrow> (None, m)
      | Some f \<Rightarrow>
          (let bs = take n (drop (f_pos f) (f_data f))
           in (Some bs, set_fd fd (Some (f\<lparr>f_pos := f_pos f + length bs\<rparr>)) m)))"

text \<open>
  \<open>read\<close> into memory.  A buffer that is not writable throughout makes the call
  fail (-1) without touching memory or the file position.
\<close>

definition c_read_mem :: "int \<Rightarrow> u32 \<Rightarrow> nat \<Rightarrow> mach \<Rightarrow> int \<times> mach" where
  "c_read_mem fd a n m =
     (if writable_block m a n
      then (case c_read fd n m of (None, m') \<Rightarrow> (-1, m')
            | (Some bs, m') \<Rightarrow> (int (length bs), put_bytes a bs m'))
      else (-1, m))"

lemma set_fd_sel [simp]:
  "vbytes (set_fd fd f m) = vbytes m" "vwr (set_fd fd f m) = vwr m"
  "fs (set_fd fd f m) = fs m" "errno (set_fd fd f m) = errno m"
  "length (fds (set_fd fd f m)) = length (fds m)"
  by (simp_all add: set_fd_def)

lemma fd_file_set_fd:
  "fd_file m fd \<noteq> None \<Longrightarrow> fd_file (set_fd fd f m) k = (if k = fd then f else fd_file m k)"
  by (auto simp: fd_file_def set_fd_def nth_list_update split: if_splits)

lemma load8_set_fd [simp]: "load8 (set_fd fd f m) = load8 m"
  by (simp add: load8_def fun_eq_iff)

lemma writable_set_fd [simp]: "writable (set_fd fd f m) = writable m"
  by (simp add: writable_def fun_eq_iff)

lemma writable_block_set_fd [simp]: "writable_block (set_fd fd f m) = writable_block m"
  by (simp add: writable_block_def fun_eq_iff)

lemma fd_file_put_bytes [simp]: "fd_file (put_bytes a bs m) fd = fd_file m fd"
  by (simp add: fd_file_def)

lemma c_open_fd:
  "fs m path = Some d \<Longrightarrow> c_open path m = (fd, m') \<Longrightarrow>
     fd_file m' fd = Some \<lparr>f_data = d, f_pos = 0\<rparr> \<and> fd \<noteq> -1"
  using first_free_le [of "fds m"]
  by (auto simp: c_open_def fd_file_def Let_def nth_append split: if_splits)

lemma c_open_missing: "fs m path = None \<Longrightarrow> c_open path m = (-1, m)"
  by (simp add: c_open_def)

end
