(* ===== verification/Engine.thy ===== *)
theory Engine
  imports Machine
begin

text \<open>
  The helpers of emulator/engine.cpp: the bounded string copy \<open>s_strlcpy\<close> and
  \<open>s_open\<close>.  The source string is a value; reading its position \<open>i\<close> gives its
  \<open>i\<close>-th byte, and the terminating NUL at its length.  The destination is the
  buffer's bytes, and a write outside the buffer traps.
\<close>

definition str_byte :: "string \<Rightarrow> nat \<Rightarrow> u8 option" where
  "str_byte s i =
     (if i < length s then Some (char_byte (s ! i)) else if i = length s then Some 0 else None)"

definition put_at :: "u8 list \<Rightarrow> nat \<Rightarrow> u8 \<Rightarrow> u8 list option" where
  "put_at dst d c = (if d < length dst then Some (dst[d := c]) else None)"

text \<open>\<open>while (--n != 0)\<close>: the new destination, \<open>d\<close>, \<open>s\<close> and \<open>n\<close> when the loop is left.\<close>

fun strlcpy_copy :: "u8 list \<Rightarrow> string \<Rightarrow> nat \<Rightarrow> nat \<Rightarrow> nat \<Rightarrow> (u8 list \<times> nat \<times> nat \<times> nat) option" where
  "strlcpy_copy dst src d s 0 = Some (dst, d, s, 0)"
| "strlcpy_copy dst src d s (Suc n) =
     (if n = 0 then Some (dst, d, s, 0)
      else do { c \<leftarrow> str_byte src s; dst' \<leftarrow> put_at dst d c;
                (if c = 0 then Some (dst', d + 1, s + 1, n)
                 else strlcpy_copy dst' src (d + 1) (s + 1) n) })"

text \<open>\<open>while (*s++)\<close>: one past the first NUL at or after \<open>s\<close>.\<close>

function strlcpy_skip :: "string \<Rightarrow> nat \<Rightarrow> nat option" where
  "strlcpy_skip src s =
     (case str_byte src s of
        None \<Rightarrow> None
      | Some c \<Rightarrow> (if c = 0 then Some (s + 1) else strlcpy_skip src (s + 1)))"
  by pat_completeness auto
termination
  by (relation "measure (\<lambda>(src, s). Suc (length src) - s)") (auto simp: str_byte_def split: if_splits)

declare strlcpy_skip.simps [simp del]

definition s_strlcpy :: "u8 list \<Rightarrow> string \<Rightarrow> nat \<Rightarrow> (nat \<times> u8 list) option" where
  "s_strlcpy dst src siz =
     do { (dst, d, s, n) \<leftarrow> (if siz \<noteq> 0 then strlcpy_copy dst src 0 0 siz else Some (dst, 0, 0, 0));
          (dst, s) \<leftarrow> (if n = 0
                      then do { dst \<leftarrow> (if siz \<noteq> 0 then put_at dst d 0 else Some dst);
                                s \<leftarrow> strlcpy_skip src s; Some (dst, s) }
                      else Some (dst, s));
          Some (s - 1, dst) }"

definition s_open :: "string \<Rightarrow> mach \<Rightarrow> int \<times> mach" where
  "s_open pathname m = c_open pathname m"

text \<open>The string a buffer holds: its bytes before the first NUL.\<close>

definition buf_str :: "u8 list \<Rightarrow> string" where
  "buf_str b = map byte_char (takeWhile (\<lambda>c. c \<noteq> 0) b)"

definition no_nul :: "string \<Rightarrow> bool" where
  "no_nul s \<longleftrightarrow> (\<forall>c \<in> set s. char_byte c \<noteq> 0)"

lemma no_nul_nth: "no_nul s \<Longrightarrow> i < length s \<Longrightarrow> char_byte (s ! i) \<noteq> 0"
  by (simp add: no_nul_def)

lemma strlcpy_skip_eq: "no_nul src \<Longrightarrow> s \<le> length src \<Longrightarrow> strlcpy_skip src s = Some (length src + 1)"
proof (induction src s rule: strlcpy_skip.induct)
  case (1 src s)
  show ?case
  proof (cases "s < length src")
    case True
    with 1 show ?thesis
      by (subst strlcpy_skip.simps) (auto simp: str_byte_def no_nul_nth)
  next
    case False
    with 1 show ?thesis by (subst strlcpy_skip.simps) (auto simp: str_byte_def)
  qed
qed

text \<open>
  The copy loop from position \<open>k\<close>: it stops with \<open>n = 0\<close> after \<open>n - 1\<close> bytes,
  or behind the copied NUL.
\<close>

lemma strlcpy_copy_eq:
  assumes "no_nul src" and "k \<le> length src" and "k + n \<le> length dst" and "0 < n"
  shows "strlcpy_copy dst src k k n =
     (if length src < k + n - 1
      then Some (take k dst @ map char_byte (drop k src) @ 0 # drop (length src + 1) dst,
                 length src + 1, length src + 1, n - (length src - k) - 1)
      else Some (take k dst @ map char_byte (take (n - 1) (drop k src)) @ drop (k + n - 1) dst,
                 k + n - 1, k + n - 1, 0))"
  using assms
proof (induction n arbitrary: k dst)
  case 0
  then show ?case by simp
next
  case (Suc n)
  show ?case
  proof (cases "n = 0")
    case True
    with Suc.prems show ?thesis by simp
  next
    case False
    show ?thesis
    proof (cases "k < length src")
      case False
      with Suc.prems \<open>n \<noteq> 0\<close> show ?thesis
        by (simp add: str_byte_def put_at_def upd_conv_take_nth_drop)
    next
      case True
      let ?c = "char_byte (src ! k)"
      have "strlcpy_copy dst src k k (Suc n) = strlcpy_copy (dst[k := ?c]) src (Suc k) (Suc k) n"
        using True False Suc.prems by (simp add: str_byte_def put_at_def no_nul_nth)
      moreover have "take (Suc k) (dst[k := ?c]) = take k dst @ [?c]"
        using Suc.prems True by (simp add: take_Suc_conv_app_nth)
      moreover have "drop k src = src ! k # drop (Suc k) src"
        using True by (rule Cons_nth_drop_Suc [symmetric])
      moreover have "drop j (dst[k := ?c]) = drop j dst" if "k < j" for j
        using that by (simp add: drop_update_cancel)
      ultimately show ?thesis
        using Suc.IH [of "Suc k" "dst[k := ?c]"] Suc.prems True False
        by (simp add: take_Cons' less_diff_conv)
    qed
  qed
qed

text \<open>
  The copy in full: the result is the length of the source; the destination
  holds the longest prefix that fits, terminated, and its other bytes keep
  their values.
\<close>

lemma strlcpy_result:
  assumes "no_nul src" and "0 < siz" and "siz \<le> length dst"
  shows "s_strlcpy dst src siz =
    Some (length src,
          map char_byte (take (siz - 1) src) @ 0 # drop (min (siz - 1) (length src) + 1) dst)"
proof (cases "length src < siz - 1")
  case True
  then have "\<not> siz \<le> Suc (length src)" by simp
  with True assms show ?thesis
    by (simp add: s_strlcpy_def strlcpy_copy_eq)
next
  case False
  have "put_at (map char_byte (take (siz - 1) src) @ drop (siz - 1) dst) (siz - 1) 0 =
      Some (map char_byte (take (siz - 1) src) @ 0 # drop siz dst)"
    using assms False by (simp add: put_at_def list_update_append upd_conv_take_nth_drop)
  moreover have "strlcpy_skip src (siz - 1) = Some (length src + 1)"
    using assms(1) False by (intro strlcpy_skip_eq) auto
  ultimately show ?thesis
    using False assms by (simp add: s_strlcpy_def strlcpy_copy_eq min_def)
qed

lemma strlcpy_fits:
  assumes "no_nul src" and "length src < length dst"
  shows "map_option (\<lambda>r. buf_str (snd r)) (s_strlcpy dst src (length dst)) = Some src"
proof -
  have "takeWhile (\<lambda>c. c \<noteq> 0) (map char_byte src @ 0 # xs) = map char_byte src" for xs
    using assms(1) by (subst takeWhile_append2) (auto simp: no_nul_def)
  with assms show ?thesis
    by (subst strlcpy_result) (auto simp: buf_str_def comp_def)
qed

end
