(* ===== verification/Elf.thy ===== *)
theory Elf
  imports Machine
begin

text \<open>
  The ELF32 data of emulator/elf.h: the constants the linker tests, the
  structures, with how each is read from memory or from the bytes of a file,
  and the macros that pack and unpack \<open>st_info\<close> and \<open>r_info\<close>.  A structure is
  read as a whole, field by field in the order of its declaration.
\<close>

section \<open>Constants\<close>

definition STB_LOCAL :: u8 where [simp]: "STB_LOCAL = 0"
definition STB_GLOBAL :: u8 where [simp]: "STB_GLOBAL = 1"
definition STB_WEAK :: u8 where [simp]: "STB_WEAK = 2"
definition SHN_UNDEF :: u16 where [simp]: "SHN_UNDEF = 0"

definition R_ARM_NONE :: u32 where [simp]: "R_ARM_NONE = 0"
definition R_ARM_ABS32 :: u32 where [simp]: "R_ARM_ABS32 = 2"
definition R_ARM_REL32 :: u32 where [simp]: "R_ARM_REL32 = 3"
definition R_ARM_COPY :: u32 where [simp]: "R_ARM_COPY = 20"
definition R_ARM_GLOB_DAT :: u32 where [simp]: "R_ARM_GLOB_DAT = 21"
definition R_ARM_JUMP_SLOT :: u32 where [simp]: "R_ARM_JUMP_SLOT = 22"
definition R_ARM_RELATIVE :: u32 where [simp]: "R_ARM_RELATIVE = 23"

definition DT_NULL :: u32 where [simp]: "DT_NULL = 0"
definition DT_NEEDED :: u32 where [simp]: "DT_NEEDED = 1"
definition DT_PLTRELSZ :: u32 where [simp]: "DT_PLTRELSZ = 2"
definition DT_PLTGOT :: u32 where [simp]: "DT_PLTGOT = 3"
definition DT_HASH :: u32 where [simp]: "DT_HASH = 4"
definition DT_STRTAB :: u32 where [simp]: "DT_STRTAB = 5"
definition DT_SYMTAB :: u32 where [simp]: "DT_SYMTAB = 6"
definition DT_RELA :: u32 where [simp]: "DT_RELA = 7"
definition DT_INIT :: u32 where [simp]: "DT_INIT = 12"
definition DT_FINI :: u32 where [simp]: "DT_FINI = 13"
definition DT_SYMBOLIC :: u32 where [simp]: "DT_SYMBOLIC = 16"
definition DT_REL :: u32 where [simp]: "DT_REL = 17"
definition DT_RELSZ :: u32 where [simp]: "DT_RELSZ = 18"
definition DT_PLTREL :: u32 where [simp]: "DT_PLTREL = 20"
definition DT_TEXTREL :: u32 where [simp]: "DT_TEXTREL = 22"
definition DT_JMPREL :: u32 where [simp]: "DT_JMPREL = 23"
definition DT_INIT_ARRAY :: u32 where [simp]: "DT_INIT_ARRAY = 25"
definition DT_FINI_ARRAY :: u32 where [simp]: "DT_FINI_ARRAY = 26"
definition DT_INIT_ARRAYSZ :: u32 where [simp]: "DT_INIT_ARRAYSZ = 27"
definition DT_FINI_ARRAYSZ :: u32 where [simp]: "DT_FINI_ARRAYSZ = 28"
definition DT_PREINIT_ARRAY :: u32 where [simp]: "DT_PREINIT_ARRAY = 32"
definition DT_PREINIT_ARRAYSZ :: u32 where [simp]: "DT_PREINIT_ARRAYSZ = 33"

definition PT_LOAD :: u32 where [simp]: "PT_LOAD = 1"
definition PT_DYNAMIC :: u32 where [simp]: "PT_DYNAMIC = 2"
definition PT_PHDR :: u32 where [simp]: "PT_PHDR = 6"
definition PT_GNU_RELRO :: u32 where [simp]: "PT_GNU_RELRO = 0x6474e552"
definition PT_ARM_EXIDX :: u32 where [simp]: "PT_ARM_EXIDX = 0x70000001"

definition PF_R :: u32 where [simp]: "PF_R = 4"
definition PF_W :: u32 where [simp]: "PF_W = 2"
definition PF_X :: u32 where [simp]: "PF_X = 1"

definition ELFMAG :: "u8 list" where [simp]: "ELFMAG = [0x7f, 0x45, 0x4c, 0x46]"
definition EI_CLASS :: nat where [simp]: "EI_CLASS = 4"
definition EI_DATA :: nat where [simp]: "EI_DATA = 5"
definition EI_NIDENT :: nat where [simp]: "EI_NIDENT = 16"
definition ELFCLASS32 :: u8 where [simp]: "ELFCLASS32 = 1"
definition ELFDATA2LSB :: u8 where [simp]: "ELFDATA2LSB = 1"
definition EV_CURRENT :: u32 where [simp]: "EV_CURRENT = 1"
definition EM_ARM :: u16 where [simp]: "EM_ARM = 40"

section \<open>The macros on packed fields\<close>

definition ELF32_ST_BIND :: "u8 \<Rightarrow> u8" where
  "ELF32_ST_BIND x = drop_bit 4 x"

definition ELF32_ST_TYPE :: "u8 \<Rightarrow> u8" where
  "ELF32_ST_TYPE i = i AND 0xf"

definition ELF32_ST_INFO :: "u8 \<Rightarrow> u8 \<Rightarrow> u8" where
  "ELF32_ST_INFO b t = push_bit 4 b + (t AND 0xf)"

definition ELF32_R_SYM :: "u32 \<Rightarrow> u32" where
  "ELF32_R_SYM info = drop_bit 8 info"

definition ELF32_R_TYPE :: "u32 \<Rightarrow> u32" where
  "ELF32_R_TYPE info = info AND 0xff"

definition ELF32_R_INFO :: "u32 \<Rightarrow> u32 \<Rightarrow> u32" where
  "ELF32_R_INFO s t = push_bit 8 s + (t AND 0xff)"

text \<open>The fields do not overlap, so the sums are bitwise unions.\<close>

lemma bit_0xf: "bit (0xf :: int) n \<longleftrightarrow> n < 4"
proof -
  have "(0xf :: int) = mask 4" by (simp add: mask_eq_exp_minus_1)
  then show ?thesis by (simp only: bit_mask_iff) auto
qed

lemma bit_0xff: "bit (0xff :: int) n \<longleftrightarrow> n < 8"
proof -
  have "(0xff :: int) = mask 8" by (simp add: mask_eq_exp_minus_1)
  then show ?thesis by (simp only: bit_mask_iff) auto
qed

lemma st_info_or: "push_bit 4 b + (t AND 0xf) = push_bit 4 b OR (t AND 0xf)" for b t :: u8
  by (rule disjunctive_add) (auto simp: bit_simps bit_0xf)

lemma r_info_or: "push_bit 8 s + (t AND 0xff) = push_bit 8 s OR (t AND 0xff)" for s t :: u32
  by (rule disjunctive_add) (auto simp: bit_simps bit_0xff)

lemma st_info_roundtrip: "ELF32_ST_INFO (ELF32_ST_BIND x) (ELF32_ST_TYPE x) = x"
  unfolding ELF32_ST_INFO_def ELF32_ST_BIND_def ELF32_ST_TYPE_def st_info_or
  by (intro bit_word_eqI) (auto simp: bit_simps bit_0xf)

lemma r_info_roundtrip: "ELF32_R_INFO (ELF32_R_SYM x) (ELF32_R_TYPE x) = x"
  unfolding ELF32_R_INFO_def ELF32_R_SYM_def ELF32_R_TYPE_def r_info_or
  by (intro bit_word_eqI) (auto simp: bit_simps bit_0xff)

lemma r_info_type [simp]: "ELF32_R_TYPE (ELF32_R_INFO s t) = t AND 0xff"
  unfolding ELF32_R_INFO_def ELF32_R_TYPE_def r_info_or
  by (intro bit_word_eqI) (auto simp: bit_simps bit_0xff)

lemma st_bind_16: "unat (ELF32_ST_BIND x) < 16"
proof -
  have "unat x < 256" using unsigned_less [where w = x] by simp
  then show ?thesis
    by (simp only: ELF32_ST_BIND_def unsigned_drop_bit_eq) (simp add: drop_bit_eq_div take_bit_eq_mod)
qed

section \<open>Structures\<close>

record Elf32_Dyn =
  d_tag :: u32
  d_val :: u32

record Elf32_Sym =
  st_name :: u32
  st_value :: u32
  st_size :: u32
  st_info :: u8
  st_other :: u8
  st_shndx :: u16

record Elf32_Rel =
  r_offset :: u32
  r_info :: u32

record Elf32_Phdr =
  p_type :: u32
  p_offset :: u32
  p_vaddr :: u32
  p_paddr :: u32
  p_filesz :: u32
  p_memsz :: u32
  p_flags :: u32
  p_align :: u32

record Elf32_Ehdr =
  e_ident :: "u8 list"
  e_type :: u16
  e_machine :: u16
  e_version :: u32
  e_entry :: u32
  e_phoff :: u32
  e_shoff :: u32
  e_flags :: u32
  e_ehsize :: u16
  e_phentsize :: u16
  e_phnum :: u16
  e_shentsize :: u16
  e_shnum :: u16
  e_shstrndx :: u16

text \<open>Sizes in bytes, as \<open>sizeof\<close> computes them.\<close>

definition sizeof_Phdr :: u32 where [simp]: "sizeof_Phdr = 32"
definition sizeof_Ehdr :: nat where [simp]: "sizeof_Ehdr = 52"
definition sizeof_Rel :: u32 where [simp]: "sizeof_Rel = 8"
definition sizeof_Sym :: u32 where [simp]: "sizeof_Sym = 16"
definition sizeof_Dyn :: u32 where [simp]: "sizeof_Dyn = 8"

definition read_dyn :: "mach \<Rightarrow> u32 \<Rightarrow> Elf32_Dyn option" where
  "read_dyn m a =
     do { t \<leftarrow> load32 m a; v \<leftarrow> load32 m (a + 4); Some \<lparr>d_tag = t, d_val = v\<rparr> }"

definition read_sym :: "mach \<Rightarrow> u32 \<Rightarrow> Elf32_Sym option" where
  "read_sym m a =
     do { n \<leftarrow> load32 m a; v \<leftarrow> load32 m (a + 4); z \<leftarrow> load32 m (a + 8);
          i \<leftarrow> load8 m (a + 12); t \<leftarrow> load8 m (a + 13); x \<leftarrow> load16 m (a + 14);
          Some \<lparr>st_name = n, st_value = v, st_size = z, st_info = i, st_other = t, st_shndx = x\<rparr> }"

definition read_rel :: "mach \<Rightarrow> u32 \<Rightarrow> Elf32_Rel option" where
  "read_rel m a =
     do { t \<leftarrow> load32 m a; i \<leftarrow> load32 m (a + 4); Some \<lparr>r_offset = t, r_info = i\<rparr> }"

definition read_phdr :: "mach \<Rightarrow> u32 \<Rightarrow> Elf32_Phdr option" where
  "read_phdr m a =
     do { t \<leftarrow> load32 m a; f \<leftarrow> load32 m (a + 4); v \<leftarrow> load32 m (a + 8); p \<leftarrow> load32 m (a + 12);
          fz \<leftarrow> load32 m (a + 16); mz \<leftarrow> load32 m (a + 20); fl \<leftarrow> load32 m (a + 24); al \<leftarrow> load32 m (a + 28);
          Some \<lparr>p_type = t, p_offset = f, p_vaddr = v, p_paddr = p,
                p_filesz = fz, p_memsz = mz, p_flags = fl, p_align = al\<rparr> }"

definition byte_at :: "u8 list \<Rightarrow> nat \<Rightarrow> u8" where
  "byte_at bs i = (if i < length bs then bs ! i else 0)"

definition half_at :: "u8 list \<Rightarrow> nat \<Rightarrow> u16" where
  "half_at bs i = le16 (byte_at bs i) (byte_at bs (i + 1))"

definition word_at :: "u8 list \<Rightarrow> nat \<Rightarrow> u32" where
  "word_at bs i = le32 (byte_at bs i) (byte_at bs (i + 1)) (byte_at bs (i + 2)) (byte_at bs (i + 3))"

definition decode_ehdr :: "u8 list \<Rightarrow> Elf32_Ehdr" where
  "decode_ehdr bs =
     \<lparr>e_ident = take EI_NIDENT bs, e_type = half_at bs 16, e_machine = half_at bs 18,
      e_version = word_at bs 20, e_entry = word_at bs 24, e_phoff = word_at bs 28,
      e_shoff = word_at bs 32, e_flags = word_at bs 36, e_ehsize = half_at bs 40,
      e_phentsize = half_at bs 42, e_phnum = half_at bs 44, e_shentsize = half_at bs 46,
      e_shnum = half_at bs 48, e_shstrndx = half_at bs 50\<rparr>"

text \<open>The table of \<open>n\<close> program headers at \<open>a\<close>.\<close>

fun phdrs_at :: "mach \<Rightarrow> u32 \<Rightarrow> Elf32_Phdr list \<Rightarrow> bool" where
  "phdrs_at m a [] \<longleftrightarrow> True"
| "phdrs_at m a (p # ps) \<longleftrightarrow> read_phdr m a = Some p \<and> phdrs_at m (a + sizeof_Phdr) ps"

text \<open>A structure that a block update does not touch reads the same.\<close>

definition same_block :: "mach \<Rightarrow> mach \<Rightarrow> u32 \<Rightarrow> nat \<Rightarrow> bool" where
  "same_block m m' a n \<longleftrightarrow> (\<forall>x. in_block a n x \<longrightarrow> load8 m' x = load8 m x)"

lemma same_block_load8: "same_block m m' a n \<Longrightarrow> i < n \<Longrightarrow> i < 4294967296 \<Longrightarrow>
    load8 m' (a + of_nat i) = load8 m (a + of_nat i)"
  by (simp add: same_block_def in_block_offset)

lemma same_block_load32:
  assumes "same_block m m' a n" and "i + 4 \<le> n" and "n \<le> 4294967296"
  shows "load32 m' (a + of_nat i) = load32 m (a + of_nat i)"
  using same_block_load8 [OF assms(1), of i] same_block_load8 [OF assms(1), of "i + 1"]
    same_block_load8 [OF assms(1), of "i + 2"] same_block_load8 [OF assms(1), of "i + 3"] assms(2,3)
  by (simp add: load32_def ac_simps)

lemma same_block_read_phdr:
  assumes "same_block m m' a n" and "32 \<le> n" and "n \<le> 4294967296"
  shows "read_phdr m' a = read_phdr m a"
  using same_block_load32 [OF assms(1) _ assms(3), of 0] same_block_load32 [OF assms(1) _ assms(3), of 4]
    same_block_load32 [OF assms(1) _ assms(3), of 8] same_block_load32 [OF assms(1) _ assms(3), of 12]
    same_block_load32 [OF assms(1) _ assms(3), of 16] same_block_load32 [OF assms(1) _ assms(3), of 20]
    same_block_load32 [OF assms(1) _ assms(3), of 24] same_block_load32 [OF assms(1) _ assms(3), of 28] assms(2)
  by (simp add: read_phdr_def)

lemma same_block_tail:
  assumes "same_block m m' a (k + n)" and "k + n \<le> 4294967296"
  shows "same_block m m' (a + of_nat k) n"
  unfolding same_block_def
proof (intro allI impI)
  fix x assume "in_block (a + of_nat k) n x"
  then obtain i where i: "i < n" and x: "x = a + of_nat k + of_nat i"
    by (rule in_blockE)
  have "x = a + of_nat (k + i)" by (simp add: x add.assoc)
  moreover have "in_block a (k + n) (a + of_nat (k + i))"
    using i assms(2) by (intro in_block_offset) auto
  ultimately show "load8 m' x = load8 m x"
    using assms(1) by (simp add: same_block_def)
qed

lemma phdrs_at_same_block:
  "phdrs_at m a ps \<Longrightarrow> same_block m m' a (32 * length ps) \<Longrightarrow> 32 * length ps \<le> 4294967296 \<Longrightarrow>
     phdrs_at m' a ps"
proof (induction ps arbitrary: a)
  case Nil
  then show ?case by simp
next
  case (Cons p ps)
  have "read_phdr m' a = read_phdr m a"
    using Cons.prems by (intro same_block_read_phdr [of _ _ _ "32 * length (p # ps)"]) auto
  moreover have "same_block m m' (a + of_nat 32) (32 * length ps)"
    using Cons.prems by (intro same_block_tail) auto
  ultimately show ?case
    using Cons.prems Cons.IH [of "a + 32"] by simp
qed

end
