(* ===== verification/Pages.thy ===== *)
theory Pages
  imports Elf
begin

text \<open>
  The page arithmetic of emulator/linker.h on 32-bit addresses: the page of an
  address, the offset in its page and the next page boundary, with what the
  macros compute on the numbers the addresses stand for, wrap-around included.
\<close>

definition PAGE_SIZE :: u32 where [simp]: "PAGE_SIZE = 4096"

definition PAGE_MASK :: u32 where
  "PAGE_MASK = NOT (PAGE_SIZE - 1)"

definition PAGE_START :: "u32 \<Rightarrow> u32" where
  "PAGE_START x = x AND PAGE_MASK"

definition PAGE_OFFSET :: "u32 \<Rightarrow> u32" where
  "PAGE_OFFSET x = x AND NOT PAGE_MASK"

definition PAGE_END :: "u32 \<Rightarrow> u32" where
  "PAGE_END x = PAGE_START (x + (PAGE_SIZE - 1))"

lemma PAGE_OFFSET_take_bit: "PAGE_OFFSET x = take_bit 12 x"
proof -
  have "(4095 :: u32) = mask 12" by (simp add: mask_eq_exp_minus_1)
  then show ?thesis by (simp only: PAGE_OFFSET_def PAGE_MASK_def PAGE_SIZE_def take_bit_eq_mask) simp
qed

lemma unat_PAGE_OFFSET: "unat (PAGE_OFFSET x) = unat x mod 4096"
  by (simp only: PAGE_OFFSET_take_bit unsigned_take_bit_eq) (simp add: take_bit_eq_mod)

lemma PAGE_START_OFFSET: "PAGE_START x + PAGE_OFFSET x = x"
proof -
  have "(x AND PAGE_MASK) + (x AND NOT PAGE_MASK) = (x AND PAGE_MASK) OR (x AND NOT PAGE_MASK)"
    by (rule disjunctive_add) (auto simp only: bit_and_iff bit_not_iff)
  also have "\<dots> = x"
    by (rule bit_word_eqI) (auto simp only: bit_or_iff bit_and_iff bit_not_iff bit_imp_possible_bit possible_bit_word)
  finally show ?thesis by (simp only: PAGE_START_def PAGE_OFFSET_def)
qed

lemma PAGE_START_minus: "PAGE_START x = x - PAGE_OFFSET x"
  using PAGE_START_OFFSET [of x] by (simp only: eq_diff_eq)

lemma unat_PAGE_START: "unat (PAGE_START x) = unat x div 4096 * 4096"
proof -
  have "PAGE_OFFSET x \<le> x"
    by (simp add: word_le_nat_alt unat_PAGE_OFFSET)
  then have "unat (PAGE_START x) = unat x - unat x mod 4096"
    by (simp add: PAGE_START_minus unat_sub unat_PAGE_OFFSET)
  then show ?thesis by (simp add: minus_mod_eq_div_mult)
qed

lemma unat_PAGE_START_le: "unat (PAGE_START x) \<le> unat x"
  by (simp add: unat_PAGE_START)

lemma unat_PAGE_START_gt: "unat x < unat (PAGE_START x) + 4096"
  using mod_less_divisor [of 4096 "unat x"] div_mult_mod_eq [of "unat x" 4096]
  by (simp only: unat_PAGE_START)

lemma PAGE_START_dvd: "4096 dvd unat (PAGE_START x)"
  by (simp add: unat_PAGE_START)

lemma unat_PAGE_END:
  "unat x + 4095 < 4294967296 \<Longrightarrow> unat (PAGE_END x) = (unat x + 4095) div 4096 * 4096"
  by (simp add: PAGE_END_def unat_PAGE_START unat_add_no_wrap)

lemma PAGE_END_dvd: "4096 dvd unat (PAGE_END x)"
  by (simp add: PAGE_END_def PAGE_START_dvd)

lemma PAGE_END_least:
  assumes "unat x + 4095 < 4294967296"
  shows "unat x \<le> unat (PAGE_END x)" "unat (PAGE_END x) < unat x + 4096"
    "4096 dvd k \<Longrightarrow> unat x \<le> k \<Longrightarrow> unat (PAGE_END x) \<le> k"
proof -
  show "unat x \<le> unat (PAGE_END x)" "unat (PAGE_END x) < unat x + 4096"
    using assms by (simp_all add: unat_PAGE_END)
  show "4096 dvd k \<Longrightarrow> unat x \<le> k \<Longrightarrow> unat (PAGE_END x) \<le> k"
    using assms by (auto simp: unat_PAGE_END elim!: dvdE)
qed

text \<open>Within 4095 bytes of the end of the address space the next page boundary wraps to 0.\<close>

lemma PAGE_END_wraps:
  assumes "4294967296 \<le> unat x + 4095"
  shows "PAGE_END x = 0"
proof -
  have "unat (x + 4095) = unat x + 4095 - 4294967296"
  proof -
    have "unat x + 4095 - 4294967296 < 4294967296"
      using unat_less_4294967296 [of x] by linarith
    then show ?thesis
      using assms by (simp add: unat_add_u32 le_mod_geq)
  qed
  then have "unat (x + 4095) < 4096"
    using unat_less_4294967296 [of x] by linarith
  then have "unat (PAGE_START (x + 4095)) = 0"
    by (simp only: unat_PAGE_START div_less mult_0)
  then show ?thesis by (simp add: PAGE_END_def unat_eq_0)
qed

lemma PAGE_START_aligned: "4096 dvd unat x \<Longrightarrow> PAGE_START x = x"
  by (simp only: word_unat_eq_iff unat_PAGE_START dvd_div_mult_self)

lemma PAGE_START_idem [simp]: "PAGE_START (PAGE_START x) = PAGE_START x"
  by (simp add: PAGE_START_aligned PAGE_START_dvd)

lemma PAGE_END_aligned: "4096 dvd unat x \<Longrightarrow> PAGE_END x = x"
proof -
  assume d: "4096 dvd unat x"
  then obtain k where k: "unat x = 4096 * k" by (auto elim: dvdE)
  then have "k < 1048576" using unat_less_4294967296 [of x] by linarith
  then have "unat x + 4095 < 4294967296" unfolding k by linarith
  then have "unat (PAGE_END x) = (unat x + 4095) div 4096 * 4096" by (rule unat_PAGE_END)
  also have "\<dots> = unat x" by (simp add: k)
  finally show ?thesis by (simp only: word_unat_eq_iff)
qed

text \<open>Page arithmetic commutes with a page-aligned load bias.\<close>

lemma PAGE_OFFSET_add_aligned: "PAGE_OFFSET b = 0 \<Longrightarrow> PAGE_OFFSET (x + b) = PAGE_OFFSET x"
proof -
  assume "PAGE_OFFSET b = 0"
  then have "unat (PAGE_OFFSET b) = 0" by simp
  then have b: "unat b mod 4096 = 0" by (simp only: unat_PAGE_OFFSET)
  have "unat (x + b) mod 4096 = (unat x + unat b) mod 4096"
    by (simp only: unat_add_u32) (rule mod_mod_cancel, simp)
  also have "\<dots> = unat x mod 4096"
    using b by (metis add.right_neutral mod_add_right_eq)
  finally show ?thesis by (simp only: word_unat_eq_iff unat_PAGE_OFFSET)
qed

lemma PAGE_START_add_aligned: "PAGE_OFFSET b = 0 \<Longrightarrow> PAGE_START (x + b) = PAGE_START x + b"
  by (simp add: PAGE_START_minus PAGE_OFFSET_add_aligned)

lemma PAGE_END_add_aligned: "PAGE_OFFSET b = 0 \<Longrightarrow> PAGE_END (x + b) = PAGE_END x + b"
  using PAGE_START_add_aligned [of b "x + 4095"] by (simp add: PAGE_END_def ac_simps)

lemma PAGE_OFFSET_eq_0_iff: "PAGE_OFFSET x = 0 \<longleftrightarrow> 4096 dvd unat x"
proof -
  have "PAGE_OFFSET x = 0 \<longleftrightarrow> unat (PAGE_OFFSET x) = 0" by (simp only: unat_eq_0)
  then show ?thesis by (simp only: unat_PAGE_OFFSET dvd_eq_mod_eq_0)
qed

end
