(* ===== verification/Memmap.thy ===== *)
theory Memmap
  imports Pages
begin

text \<open>
  emulator/memory.cpp as it is built with \<open>_MSC_VER\<close>: the POSIX mapping calls
  on top of the Win32 memory functions.  The Win32 functions are not part of
  the repository: they are the fields of the record \<open>win_api\<close>, which every
  operation that reaches them takes as its argument.
\<close>

section \<open>Constants\<close>

definition MAP_PRIVATE :: u32 where [simp]: "MAP_PRIVATE = 0x002"
definition MAP_FIXED :: u32 where [simp]: "MAP_FIXED = 0x010"
definition MAP_ANONYMOUS :: u32 where [simp]: "MAP_ANONYMOUS = 0x0800"
definition MAP_FAILED :: u32 where [simp]: "MAP_FAILED = 0xFFFFFFFF"
definition PROT_NONE :: u32 where [simp]: "PROT_NONE = 0"
definition PROT_READ :: u32 where [simp]: "PROT_READ = 1"
definition PROT_WRITE :: u32 where [simp]: "PROT_WRITE = 2"
definition PROT_EXEC :: u32 where [simp]: "PROT_EXEC = 4"
definition PAGE_READONLY :: u32 where [simp]: "PAGE_READONLY = 0x02"
definition PAGE_READWRITE :: u32 where [simp]: "PAGE_READWRITE = 0x04"
definition PAGE_EXECUTE_READ :: u32 where [simp]: "PAGE_EXECUTE_READ = 0x20"
definition PAGE_EXECUTE_READWRITE :: u32 where [simp]: "PAGE_EXECUTE_READWRITE = 0x40"
definition FILE_MAP_WRITE :: u32 where [simp]: "FILE_MAP_WRITE = 0x0002"
definition FILE_MAP_READ :: u32 where [simp]: "FILE_MAP_READ = 0x0004"
definition FILE_MAP_EXECUTE :: u32 where [simp]: "FILE_MAP_EXECUTE = 0x0020"
definition MEM_COMMIT :: u32 where [simp]: "MEM_COMMIT = 0x1000"
definition INVALID_HANDLE_VALUE :: u32 where [simp]: "INVALID_HANDLE_VALUE = 0xFFFFFFFF"

section \<open>The Win32 functions\<close>

text \<open>
  Argument order is that of win.h; the security attributes and names that the
  code passes as null are left out, and \<open>VirtualProtect\<close>'s old protection,
  which the code never reads.
\<close>

record win_api =
  VirtualAlloc :: "u32 \<Rightarrow> u32 \<Rightarrow> u32 \<Rightarrow> u32 \<Rightarrow> mach \<Rightarrow> u32 \<times> mach"
  VirtualProtect :: "u32 \<Rightarrow> u32 \<Rightarrow> u32 \<Rightarrow> mach \<Rightarrow> bool \<times> mach"
  CreateFileMappingA :: "u32 \<Rightarrow> u32 \<Rightarrow> u32 \<Rightarrow> u32 \<Rightarrow> mach \<Rightarrow> u32 \<times> mach"
  MapViewOfFile :: "u32 \<Rightarrow> u32 \<Rightarrow> u32 \<Rightarrow> u32 \<Rightarrow> u32 \<Rightarrow> mach \<Rightarrow> u32 \<times> mach"
  UnmapViewOfFile :: "u32 \<Rightarrow> mach \<Rightarrow> bool \<times> mach"
  CloseHandle :: "u32 \<Rightarrow> mach \<Rightarrow> mach"
  GetLastError :: "mach \<Rightarrow> u32"
  get_osfhandle :: "int \<Rightarrow> mach \<Rightarrow> u32"

section \<open>Protection flags\<close>

definition map_mman_error :: "u32 \<Rightarrow> int \<Rightarrow> u32" where
  "map_mman_error err deferr = (if err = 0 then 0 else err)"

definition map_mmap_prot_page :: "u32 \<Rightarrow> u32" where
  "map_mmap_prot_page prot =
     (if prot = PROT_NONE then 0
      else if prot AND PROT_EXEC \<noteq> 0
           then (if prot AND PROT_WRITE \<noteq> 0 then PAGE_EXECUTE_READWRITE else PAGE_EXECUTE_READ)
           else (if prot AND PROT_WRITE \<noteq> 0 then PAGE_READWRITE else PAGE_READONLY))"

definition map_mmap_prot_file :: "u32 \<Rightarrow> u32" where
  "map_mmap_prot_file prot =
     (if prot = PROT_NONE then 0
      else (if prot AND PROT_READ \<noteq> 0 then FILE_MAP_READ else 0)
        OR (if prot AND PROT_WRITE \<noteq> 0 then FILE_MAP_WRITE else 0)
        OR (if prot AND PROT_EXEC \<noteq> 0 then FILE_MAP_EXECUTE else 0))"

section \<open>The calls\<close>

definition set_errno :: "win_api \<Rightarrow> mach \<Rightarrow> mach" where
  "set_errno os m = m\<lparr>errno := map_mman_error (GetLastError os m) (-1)\<rparr>"

text \<open>
  The branch of \<open>s_mmap\<close> that does not use a file mapping: taken for \<open>fd = -1\<close> and for \<open>MAP_FIXED\<close>.
\<close>

definition s_mmap_direct :: "win_api \<Rightarrow> u32 \<Rightarrow> u32 \<Rightarrow> u32 \<Rightarrow> int \<Rightarrow> u32 \<Rightarrow> mach \<Rightarrow> u32 \<times> mach" where
  "s_mmap_direct os start len prot fd offset m =
     (let (p, m) = (if fd = -1 \<and> prot = 0 then VirtualAlloc os 0 len MEM_COMMIT PAGE_READWRITE m
                    else if start = 0 then VirtualAlloc os 0 len MEM_COMMIT PAGE_READWRITE m
                    else (MAP_FAILED, m));
          m = set_errno os m
      in if p \<noteq> 0 \<or> start \<noteq> 0
         then (if p = MAP_FAILED \<and> start \<noteq> 0
               then (if fd \<noteq> -1
                     then (start, snd (c_read_mem fd start (unat len) (c_lseek fd offset m)))
                     else (start, m))
               else (if fd \<noteq> -1 then (p, snd (c_read_mem fd p (unat len) m)) else (p, m)))
         else (p, m))"

text \<open>The branch that maps a view of a file, or of the paging file.\<close>

definition s_mmap_view :: "win_api \<Rightarrow> u32 \<Rightarrow> u32 \<Rightarrow> u32 \<Rightarrow> int \<Rightarrow> u32 \<Rightarrow> mach \<Rightarrow> u32 \<times> mach" where
  "s_mmap_view os len prot flags fd offset m =
     (let h = (if flags AND MAP_ANONYMOUS = 0 then get_osfhandle os fd m else INVALID_HANDLE_VALUE)
      in if flags AND MAP_ANONYMOUS = 0 \<and> h = INVALID_HANDLE_VALUE then (MAP_FAILED, m)
         else let (fm, m) = CreateFileMappingA os h (map_mmap_prot_page prot) 0 (offset + len) m
              in if fm = 0 then (MAP_FAILED, set_errno os m)
                 else let (p, m) = MapViewOfFile os fm (map_mmap_prot_file prot) 0 offset len m;
                          m = CloseHandle os fm m
                      in if p = 0 then (MAP_FAILED, set_errno os m) else (p, m))"

definition s_mmap :: "win_api \<Rightarrow> u32 \<Rightarrow> u32 \<Rightarrow> u32 \<Rightarrow> u32 \<Rightarrow> int \<Rightarrow> u32 \<Rightarrow> mach \<Rightarrow> u32 \<times> mach" where
  "s_mmap os start len prot flags fd offset m =
     (if len = 0 \<or> prot = PROT_EXEC then (MAP_FAILED, m)
      else if fd = -1 \<or> flags AND MAP_FIXED \<noteq> 0 then s_mmap_direct os start len prot fd offset m
      else s_mmap_view os len prot flags fd offset m)"

definition s_mprotect :: "win_api \<Rightarrow> u32 \<Rightarrow> u32 \<Rightarrow> u32 \<Rightarrow> mach \<Rightarrow> int \<times> mach" where
  "s_mprotect os start len prot m =
     (let (ok, m) = VirtualProtect os start len (map_mmap_prot_page prot) m
      in (if ok then 0 else -1, m))"

definition s_msync :: "u32 \<Rightarrow> u32 \<Rightarrow> u32 \<Rightarrow> mach \<Rightarrow> int \<times> mach" where
  "s_msync addr len flags m = (0, m)"

definition s_munmap :: "win_api \<Rightarrow> u32 \<Rightarrow> u32 \<Rightarrow> mach \<Rightarrow> int \<times> mach" where
  "s_munmap os start len m =
     (let (ok, m) = UnmapViewOfFile os start m in (if ok then 0 else -1, m))"

section \<open>What the calls do in the cases the loader uses\<close>

lemma set_errno_sel [simp]:
  "vbytes (set_errno os m) = vbytes m" "vwr (set_errno os m) = vwr m"
  "fs (set_errno os m) = fs m" "fds (set_errno os m) = fds m"
  by (simp_all add: set_errno_def)

lemma load8_set_errno [simp]: "load8 (set_errno os m) = load8 m"
  by (simp add: load8_def fun_eq_iff)

lemma writable_set_errno [simp]: "writable (set_errno os m) = writable m"
  by (simp add: writable_def fun_eq_iff)

lemma writable_block_set_errno [simp]: "writable_block (set_errno os m) = writable_block m"
  by (simp add: writable_block_def fun_eq_iff)

lemma fd_file_set_errno [simp]: "fd_file (set_errno os m) fd = fd_file m fd"
  by (simp add: fd_file_def)

text \<open>\<open>MAP_FIXED\<close> of a file at a non-null address reads the file there.\<close>

lemma s_mmap_fixed_file:
  "len \<noteq> 0 \<Longrightarrow> prot \<noteq> PROT_EXEC \<Longrightarrow> fd \<noteq> -1 \<Longrightarrow> start \<noteq> 0 \<Longrightarrow> flags AND MAP_FIXED \<noteq> 0 \<Longrightarrow>
     s_mmap os start len prot flags fd off m =
       (start, snd (c_read_mem fd start (unat len) (c_lseek fd off (set_errno os m))))"
  by (simp add: s_mmap_def s_mmap_direct_def)

text \<open>Without a file, at a non-null address and with some access, nothing but \<open>errno\<close> changes.\<close>

lemma s_mmap_fixed_anon:
  "len \<noteq> 0 \<Longrightarrow> prot \<noteq> PROT_EXEC \<Longrightarrow> prot \<noteq> PROT_NONE \<Longrightarrow> start \<noteq> 0 \<Longrightarrow>
     s_mmap os start len prot flags (-1) off m = (start, set_errno os m)"
  by (simp add: s_mmap_def s_mmap_direct_def)

text \<open>Without a file and without access the memory comes from \<open>VirtualAlloc\<close>, whatever it returns.\<close>

lemma s_mmap_reserve:
  "len \<noteq> 0 \<Longrightarrow> VirtualAlloc os 0 len MEM_COMMIT PAGE_READWRITE m = (p, m') \<Longrightarrow> p \<noteq> MAP_FAILED \<Longrightarrow>
     s_mmap os start len PROT_NONE flags (-1) off m = (p, set_errno os m')"
  by (simp add: s_mmap_def s_mmap_direct_def Let_def)

lemma c_lseek_file: "fd_file m fd = Some f \<Longrightarrow> c_lseek fd off m = set_fd fd (Some (f\<lparr>f_pos := unat off\<rparr>)) m"
  by (simp add: c_lseek_def)

lemma c_read_mem_at:
  assumes "fd_file m fd = Some f" and "writable_block m a n"
  shows "\<exists>k. c_read_mem fd a n (c_lseek fd off m) =
    (k, put_bytes a (take n (drop (unat off) (f_data f)))
          (set_fd fd (Some (f\<lparr>f_pos := unat off + length (take n (drop (unat off) (f_data f)))\<rparr>))
            (set_fd fd (Some (f\<lparr>f_pos := unat off\<rparr>)) m)))"
  using assms by (simp add: c_lseek_file c_read_mem_def c_read_def fd_file_set_fd Let_def)

lemma map_mmap_prot_page_writable:
  "map_mmap_prot_page prot \<in> {PAGE_READWRITE, PAGE_EXECUTE_READWRITE} \<longleftrightarrow> prot AND PROT_WRITE \<noteq> 0"
  by (auto simp: map_mmap_prot_page_def)

lemma map_mmap_prot_page_exec:
  "map_mmap_prot_page prot \<in> {PAGE_EXECUTE_READ, PAGE_EXECUTE_READWRITE} \<longleftrightarrow> prot AND PROT_EXEC \<noteq> 0"
  by (auto simp: map_mmap_prot_page_def)

section \<open>An instance of the Win32 functions\<close>

text \<open>
  A concrete \<open>win_api\<close> on which the properties are instantiated: allocations
  are committed and zero, at 0x10000; views appear at 0x1000; changes of
  protection and all other calls succeed.
\<close>

definition demo_api :: win_api where
  "demo_api =
     \<lparr>VirtualAlloc = (\<lambda>a l t p m.
        (0x10000, m\<lparr>vbytes := (\<lambda>x. if in_block 0x10000 (unat l) x then Some 0 else vbytes m x)\<rparr>)),
      VirtualProtect = (\<lambda>a l p m. (True, m)),
      CreateFileMappingA = (\<lambda>h p hi lo m. (0x40, m)),
      MapViewOfFile = (\<lambda>h acc hi lo l m. (0x1000, m)),
      UnmapViewOfFile = (\<lambda>a m. (True, m)),
      CloseHandle = (\<lambda>h m. m),
      GetLastError = (\<lambda>m. 0),
      get_osfhandle = (\<lambda>fd m. if fd_file m fd = None then 0xFFFFFFFF else 0x80)\<rparr>"

end
