(* ===== verification/Soinfo.thy ===== *)
theory Soinfo
  imports Engine Memmap
begin

text \<open>
  The registry of loaded libraries: \<open>struct soinfo\<close> (emulator/linker.h), the
  pools its objects are allocated from, the free list and the global list
  \<open>solist\<close> (emulator/linker.cpp).  The objects live in a store of their own,
  from addresses to records; dereferencing an address that holds no object
  traps.  Lists are pointer chains through \<open>next\<close>, and the theorems relate them
  to HOL lists.
\<close>

section \<open>State\<close>

record soinfo =
  si_name :: string
  si_phdr :: u32
  si_phnum :: u32
  si_entry :: u32
  si_base :: u32
  si_size :: u32
  si_dynamic :: u32
  si_next :: u32
  si_flags :: u32
  si_strtab :: u32
  si_symtab :: u32
  si_nbucket :: u32
  si_nchain :: u32
  si_bucket :: u32
  si_chain :: u32
  si_plt_got :: u32
  si_plt_rel :: u32
  si_plt_rel_count :: u32
  si_rel :: u32
  si_rel_count :: u32
  si_preinit_array :: u32
  si_preinit_array_count :: u32
  si_init_array :: u32
  si_init_array_count :: u32
  si_fini_array :: u32
  si_fini_array_count :: u32
  si_init_func :: u32
  si_fini_func :: u32
  si_ARM_exidx :: u32
  si_ARM_exidx_count :: u32
  si_ref_count :: u32
  si_constructors_called :: bool
  si_load_bias :: u32
  si_has_text_relocations :: bool
  si_has_DT_SYMBOLIC :: bool

definition FLAG_LINKED :: u32 where [simp]: "FLAG_LINKED = 1"
definition FLAG_EXE :: u32 where [simp]: "FLAG_EXE = 4"
definition FLAG_LINKER :: u32 where [simp]: "FLAG_LINKER = 0x10"
definition SOINFO_NAME_LEN :: nat where [simp]: "SOINFO_NAME_LEN = 128"

text \<open>An object whose bytes are all zero.\<close>

definition zero_soinfo :: soinfo where
  "zero_soinfo =
     \<lparr>si_name = [], si_phdr = 0, si_phnum = 0, si_entry = 0, si_base = 0, si_size = 0, si_dynamic = 0,
      si_next = 0, si_flags = 0, si_strtab = 0, si_symtab = 0, si_nbucket = 0, si_nchain = 0,
      si_bucket = 0, si_chain = 0, si_plt_got = 0, si_plt_rel = 0, si_plt_rel_count = 0, si_rel = 0,
      si_rel_count = 0, si_preinit_array = 0, si_preinit_array_count = 0, si_init_array = 0,
      si_init_array_count = 0, si_fini_array = 0, si_fini_array_count = 0, si_init_func = 0,
      si_fini_func = 0, si_ARM_exidx = 0, si_ARM_exidx_count = 0, si_ref_count = 0,
      si_constructors_called = False, si_load_bias = 0, si_has_text_relocations = False,
      si_has_DT_SYMBOLIC = False\<rparr>"

text \<open>The lines that \<open>CallFunction\<close> prints around a call: name, address, library.\<close>

datatype event = Calling string u32 string | Done_calling string u32 string

type_synonym so_heap = "u32 \<Rightarrow> soinfo option"

text \<open>
  The linker's global variables with the machine.  The list of pools is kept as
  the list of their addresses, latest first; the arrays of names and of preloaded
  libraries as the list of their entries before the terminating null.
\<close>

record world =
  mc :: mach
  sos :: so_heap
  gSoInfoPools :: "u32 list"
  gSoInfoFreeList :: u32
  solist :: u32
  sonext :: u32
  somain :: u32
  gLdPaths :: "string list"
  gLdPreloadNames :: "string list"
  gLdPreloads :: "u32 list"
  out_log :: "event list"

definition upd_si :: "u32 \<Rightarrow> (soinfo \<Rightarrow> soinfo) \<Rightarrow> world \<Rightarrow> world option" where
  "upd_si p f w = (case sos w p of None \<Rightarrow> None | Some s \<Rightarrow> Some (w\<lparr>sos := (sos w)(p \<mapsto> f s)\<rparr>))"

section \<open>Pools and the free list\<close>

definition sizeof_soinfo :: u32 where [simp]: "sizeof_soinfo = 292"
definition sizeof_pool :: u32 where [simp]: "sizeof_pool = 4092"

definition SOINFO_PER_POOL :: nat where
  "SOINFO_PER_POOL = unat ((PAGE_SIZE - 4) div sizeof_soinfo)"

definition pool_info :: "u32 \<Rightarrow> nat \<Rightarrow> u32" where
  "pool_info pool i = pool + 4 + of_nat i * sizeof_soinfo"

text \<open>The loop that chains a new pool's entries, from the last to the first.\<close>

fun chain_pool :: "u32 \<Rightarrow> nat \<Rightarrow> u32 \<Rightarrow> so_heap \<Rightarrow> so_heap" where
  "chain_pool pool 0 nxt h = h"
| "chain_pool pool (Suc i) nxt h =
     chain_pool pool i (pool_info pool i) (h(pool_info pool i \<mapsto> zero_soinfo\<lparr>si_next := nxt\<rparr>))"

definition ensure_free_list_non_empty :: "win_api \<Rightarrow> world \<Rightarrow> bool \<times> world" where
  "ensure_free_list_non_empty os w =
     (if gSoInfoFreeList w \<noteq> 0 then (True, w)
      else let (pool, m) = s_mmap os 0 sizeof_pool (PROT_READ OR PROT_WRITE) (MAP_PRIVATE OR MAP_ANONYMOUS) 0 0 (mc w);
               w = w\<lparr>mc := m\<rparr>
           in if pool = MAP_FAILED then (False, w)
              else (True, w\<lparr>gSoInfoPools := pool # gSoInfoPools w, gSoInfoFreeList := pool_info pool 0,
                            sos := chain_pool pool SOINFO_PER_POOL 0 (sos w)\<rparr>))"

text \<open>A failure of \<open>s_mprotect\<close> aborts the process.\<close>

fun protect_pools :: "win_api \<Rightarrow> u32 \<Rightarrow> u32 list \<Rightarrow> mach \<Rightarrow> mach option" where
  "protect_pools os prot [] m = Some m"
| "protect_pools os prot (p # ps) m =
     (let (r, m) = s_mprotect os p sizeof_pool prot m
      in if r = -1 then None else protect_pools os prot ps m)"

definition set_soinfo_pool_protection :: "win_api \<Rightarrow> u32 \<Rightarrow> world \<Rightarrow> world option" where
  "set_soinfo_pool_protection os prot w =
     do { m \<leftarrow> protect_pools os prot (gSoInfoPools w) (mc w); Some (w\<lparr>mc := m\<rparr>) }"

definition soinfo_alloc :: "win_api \<Rightarrow> string \<Rightarrow> world \<Rightarrow> (u32 \<times> world) option" where
  "soinfo_alloc os name w =
     (if SOINFO_NAME_LEN \<le> length name then Some (0, w)
      else let (ok, w) = ensure_free_list_non_empty os w
           in if \<not> ok then Some (0, w)
              else do {
                let si = gSoInfoFreeList w;
                s \<leftarrow> sos w si;
                let w = w\<lparr>gSoInfoFreeList := si_next s\<rparr>;
                (_, buf) \<leftarrow> s_strlcpy (replicate SOINFO_NAME_LEN 0) name SOINFO_NAME_LEN;
                w \<leftarrow> upd_si si (\<lambda>_. zero_soinfo\<lparr>si_name := buf_str buf\<rparr>) w;
                w \<leftarrow> upd_si (sonext w) (\<lambda>s. s\<lparr>si_next := si\<rparr>) w;
                Some (si, w\<lparr>sonext := si\<rparr>) })"

text \<open>
  The search of \<open>soinfo_free\<close>: the entry before \<open>si\<close> (null when \<open>si\<close> is the first), or nothing
  when \<open>si\<close> is not in the list.
\<close>

partial_function (option) find_prev :: "so_heap \<Rightarrow> u32 \<Rightarrow> u32 \<Rightarrow> u32 \<Rightarrow> u32 option option" where
  "find_prev h si prev trav =
     (if trav = 0 then Some None
      else if trav = si then Some (Some prev)
      else do { t \<leftarrow> h trav; find_prev h si trav (si_next t) })"

definition soinfo_free :: "u32 \<Rightarrow> world \<Rightarrow> world option" where
  "soinfo_free si w =
     (if si = 0 then Some w
      else do { r \<leftarrow> find_prev (sos w) si 0 (solist w);
                (case r of
                   None \<Rightarrow> Some w
                 | Some prev \<Rightarrow>
                     do { s \<leftarrow> sos w si;
                          w \<leftarrow> upd_si prev (\<lambda>p. p\<lparr>si_next := si_next s\<rparr>) w;
                          let w = (if si = sonext w then w\<lparr>sonext := prev\<rparr> else w);
                          w \<leftarrow> upd_si si (\<lambda>s. s\<lparr>si_next := gSoInfoFreeList w\<rparr>) w;
                          Some (w\<lparr>gSoInfoFreeList := si\<rparr>) }) })"

section \<open>Walks along the global list\<close>

text \<open>A loop over the list from \<open>p\<close> that stops at the first entry whose probe answers.\<close>

partial_function (option) so_search ::
  "(u32 \<Rightarrow> soinfo \<Rightarrow> 'r option option) \<Rightarrow> so_heap \<Rightarrow> u32 \<Rightarrow> 'r option option" where
  "so_search probe h p =
     (if p = 0 then Some None
      else do { s \<leftarrow> h p; r \<leftarrow> probe p s;
                (case r of None \<Rightarrow> so_search probe h (si_next s) | Some x \<Rightarrow> Some (Some x)) })"

definition ptr_of :: "u32 option \<Rightarrow> u32" where
  "ptr_of r = (case r of None \<Rightarrow> 0 | Some p \<Rightarrow> p)"

definition basename :: "string \<Rightarrow> string" where
  "basename name = rev (takeWhile (\<lambda>c. c \<noteq> CHR ''/'') (rev name))"

definition find_loaded_library :: "string \<Rightarrow> world \<Rightarrow> u32 option" where
  "find_loaded_library name w =
     map_option ptr_of
       (so_search (\<lambda>p s. Some (if basename name = si_name s then Some p else None)) (sos w) (solist w))"

definition find_containing_library :: "u32 \<Rightarrow> world \<Rightarrow> u32 option" where
  "find_containing_library address w =
     map_option ptr_of
       (so_search (\<lambda>p s. Some (if si_base s \<le> address \<and> address - si_base s < si_size s then Some p else None))
          (sos w) (solist w))"

text \<open>The result and the count of entries, both null when no library holds the address.\<close>

definition dl_unwind_find_exidx :: "u32 \<Rightarrow> world \<Rightarrow> (u32 \<times> u32) option" where
  "dl_unwind_find_exidx pc w =
     map_option (\<lambda>r. case r of None \<Rightarrow> (0, 0) | Some x \<Rightarrow> x)
       (so_search (\<lambda>p s. Some (if si_base s \<le> pc \<and> pc < si_base s + si_size s
                               then Some (si_ARM_exidx s, si_ARM_exidx_count s) else None)) (sos w) (solist w))"

end
