(* ===== verification/Registry.thy ===== *)
theory Registry
  imports Soinfo
begin

text \<open>
  The registry of libraries against HOL lists: a pointer chain represents a list
  of addresses, \<open>so_inv\<close> says that \<open>solist\<close> and the free list represent two
  disjoint lists and that \<open>sonext\<close> is the last loaded object, and
  \<open>soinfo_alloc\<close> and \<open>soinfo_free\<close> move objects between the two.  The searches
  along \<open>solist\<close> are \<open>first_hit\<close> over the represented list.
\<close>

section \<open>Chains\<close>

fun so_chain :: "so_heap \<Rightarrow> u32 \<Rightarrow> u32 list \<Rightarrow> u32 \<Rightarrow> bool" where
  "so_chain h p [] q \<longleftrightarrow> p = q"
| "so_chain h p (x # xs) q \<longleftrightarrow> p = x \<and> x \<noteq> 0 \<and> (\<exists>s. h x = Some s \<and> so_chain h (si_next s) xs q)"

lemma so_chain_append [simp]:
  "so_chain h p (xs @ ys) q \<longleftrightarrow> (\<exists>r. so_chain h p xs r \<and> so_chain h r ys q)"
  by (induction xs arbitrary: p) auto

lemma so_chain_cong:
  "(\<And>x. x \<in> set xs \<Longrightarrow> map_option si_next (h' x) = map_option si_next (h x)) \<Longrightarrow>
     so_chain h' p xs q \<longleftrightarrow> so_chain h p xs q"
proof (induction xs arbitrary: p)
  case Nil
  then show ?case by simp
next
  case (Cons x xs)
  have "map_option si_next (h' x) = map_option si_next (h x)" using Cons.prems by simp
  moreover have "so_chain h' r xs q \<longleftrightarrow> so_chain h r xs q" for r
    using Cons.prems by (intro Cons.IH) simp
  ultimately show ?case by (cases "h x"; cases "h' x") auto
qed

lemma so_chain_upd_other [simp]:
  "x \<notin> set xs \<Longrightarrow> so_chain (h(x := v)) p xs q \<longleftrightarrow> so_chain h p xs q"
  by (rule so_chain_cong) auto

lemma so_chain_nonzero: "so_chain h p xs q \<Longrightarrow> x \<in> set xs \<Longrightarrow> x \<noteq> 0 \<and> h x \<noteq> None"
  by (induction xs arbitrary: p) auto

lemma so_chain_0: "so_chain h 0 xs q \<longleftrightarrow> xs = [] \<and> q = 0"
  by (cases xs) auto

lemma so_chain_end: "so_chain h p xs 0 \<Longrightarrow> p = 0 \<longleftrightarrow> xs = []"
  by (cases xs) auto

text \<open>Changing the last link of a chain.\<close>

lemma so_chain_snoc_upd:
  assumes "so_chain h p (xs @ [x]) q" and "x \<notin> set xs" and "si_next s = r"
  shows "so_chain (h(x \<mapsto> s)) p (xs @ [x]) r"
  using assms by auto

section \<open>Searches on a chain\<close>

definition node_probe :: "(u32 \<Rightarrow> soinfo \<Rightarrow> 'r option option) \<Rightarrow> so_heap \<Rightarrow> u32 \<Rightarrow> 'r option option" where
  "node_probe probe h p = do { s \<leftarrow> h p; probe p s }"

lemma so_search_chain:
  "so_chain h p ps 0 \<Longrightarrow> so_search probe h p = first_hit (node_probe probe h) ps"
proof (induction ps arbitrary: p)
  case Nil
  then show ?case by (simp add: so_search.simps)
next
  case (Cons x xs)
  then obtain s where "p = x" "x \<noteq> 0" "h x = Some s" and "so_chain h (si_next s) xs 0" by auto
  moreover from this have "node_probe probe h x = probe x s" by (simp add: node_probe_def)
  ultimately show ?case
    using Cons.IH by (subst so_search.simps) (auto intro!: Option.bind_cong split: option.splits)
qed

lemma find_prev_chain:
  "so_chain h p ps 0 \<Longrightarrow> distinct ps \<Longrightarrow> find_prev h si prev p =
     Some (if si \<in> set ps \<and> si \<noteq> 0 then Some (last (prev # takeWhile (\<lambda>x. x \<noteq> si) ps)) else None)"
proof (induction ps arbitrary: p prev)
  case Nil
  then show ?case by (simp add: find_prev.simps)
next
  case (Cons x xs)
  then obtain s where "p = x" "x \<noteq> 0" "h x = Some s" and "so_chain h (si_next s) xs 0" by auto
  with Cons.IH [of "si_next s" x] Cons.prems show ?case
    by (subst find_prev.simps) auto
qed

text \<open>A probe without side conditions: it returns on every live object.\<close>

lemma total_probing:
  "(\<And>p s. probe p s \<noteq> None) \<Longrightarrow> probing (node_probe probe h) (\<lambda>p. h p \<noteq> None)"
  by unfold_locales (auto simp: node_probe_def)

section \<open>The invariant\<close>

definition so_inv :: "world \<Rightarrow> u32 list \<Rightarrow> u32 list \<Rightarrow> bool" where
  "so_inv w LS FL \<longleftrightarrow>
     so_chain (sos w) (solist w) LS 0 \<and> so_chain (sos w) (gSoInfoFreeList w) FL 0 \<and>
     distinct (LS @ FL) \<and> LS \<noteq> [] \<and> sonext w = last LS \<and> sos w 0 = None"

lemma so_invD:
  assumes "so_inv w LS FL"
  shows "so_chain (sos w) (solist w) LS 0" "so_chain (sos w) (gSoInfoFreeList w) FL 0" "distinct LS"
    "distinct FL" "set LS \<inter> set FL = {}" "LS \<noteq> []" "sonext w = last LS" "sos w 0 = None"
  using assms by (auto simp: so_inv_def)

lemma so_inv_live: "so_inv w LS FL \<Longrightarrow> x \<in> set LS \<union> set FL \<Longrightarrow> x \<noteq> 0 \<and> (\<exists>s. sos w x = Some s)"
  using so_chain_nonzero [of "sos w"] by (fastforce simp: so_inv_def)

text \<open>The invariant speaks of the links and of the heads of the lists only.\<close>

lemma so_inv_links:
  assumes "\<And>x. map_option si_next (sos w' x) = map_option si_next (sos w x)"
    and "solist w' = solist w" "gSoInfoFreeList w' = gSoInfoFreeList w" "sonext w' = sonext w"
  shows "so_inv w' LS FL = so_inv w LS FL"
proof -
  have "so_chain (sos w') p xs q = so_chain (sos w) p xs q" for p xs q
    by (rule so_chain_cong) (rule assms(1))
  moreover have "sos w' 0 = None \<longleftrightarrow> sos w 0 = None" using assms(1) [of 0] by (metis option.map_disc_iff)
  ultimately show ?thesis unfolding so_inv_def assms(2-4) by simp
qed

section \<open>A new pool\<close>

lemma SOINFO_PER_POOL_14 [simp]: "SOINFO_PER_POOL = 14"
  by (simp add: SOINFO_PER_POOL_def)

lemma pool_info_inj: "i < 14 \<Longrightarrow> j < 14 \<Longrightarrow> pool_info pool i = pool_info pool j \<Longrightarrow> i = j"
proof -
  assume b: "i < 14" "j < 14" and e: "pool_info pool i = pool_info pool j"
  have "unat ((of_nat k :: u32) * 292) = k * 292" if "k < 14" for k
  proof -
    have "(of_nat k :: u32) * 292 = of_nat (k * 292)" by simp
    moreover have "k * 292 < 4294967296" using that by simp
    ultimately show ?thesis by (simp only: unat_of_nat_u32)
  qed
  moreover have "(of_nat i :: u32) * 292 = of_nat j * 292" using e by (simp add: pool_info_def)
  ultimately have "i * 292 = j * 292" using b by metis
  then show "i = j" by simp
qed

lemma chain_pool_other:
  "x \<notin> pool_info pool ` {..<n} \<Longrightarrow> chain_pool pool n nxt h x = h x"
  by (induction n arbitrary: nxt h) (auto simp: lessThan_Suc)

lemma chain_pool_chain:
  assumes "n \<le> 14" and "\<And>i. i < n \<Longrightarrow> pool_info pool i \<noteq> 0"
    and "set xs \<inter> pool_info pool ` {..<n} = {}"
    and "so_chain h nxt xs 0"
  shows "so_chain (chain_pool pool n nxt h) (if n = 0 then nxt else pool_info pool 0)
           (map (pool_info pool) [0..<n] @ xs) 0"
  using assms
proof (induction n arbitrary: nxt h xs)
  case 0
  then show ?case by simp
next
  case (Suc n)
  let ?e = "pool_info pool n"
  have out: "?e \<notin> set xs" using Suc.prems(3) by (auto simp: lessThan_Suc)
  have "?e \<notin> pool_info pool ` {..<n}"
  proof
    assume "?e \<in> pool_info pool ` {..<n}"
    then obtain i where "i < n" and "?e = pool_info pool i" by auto
    with pool_info_inj [of n i pool] Suc.prems(1) show False by simp
  qed
  then have "set (?e # xs) \<inter> pool_info pool ` {..<n} = {}"
    using Suc.prems(3) by (auto simp: lessThan_Suc)
  moreover have "so_chain (h(?e \<mapsto> zero_soinfo\<lparr>si_next := nxt\<rparr>)) ?e (?e # xs) 0"
  proof -
    have "so_chain (h(?e \<mapsto> zero_soinfo\<lparr>si_next := nxt\<rparr>)) nxt xs 0"
      by (subst so_chain_upd_other [OF out]) (rule Suc.prems(4))
    moreover have "?e \<noteq> 0" using Suc.prems(2) by simp
    ultimately show ?thesis by (subst so_chain.simps(2)) (intro conjI refl exI, simp_all only: fun_upd_same soinfo.simps, simp_all)
  qed
  ultimately have "so_chain (chain_pool pool n ?e (h(?e \<mapsto> zero_soinfo\<lparr>si_next := nxt\<rparr>)))
      (if n = 0 then ?e else pool_info pool 0) (map (pool_info pool) [0..<n] @ ?e # xs) 0"
    using Suc.prems(1,2) by (intro Suc.IH) (assumption | simp)+
  then show ?case by (cases "n = 0") (simp_all add: fun_upd_def del: so_chain.simps so_chain_append)
qed

definition pool_objects :: "u32 \<Rightarrow> u32 list" where
  "pool_objects pool = map (pool_info pool) [0..<SOINFO_PER_POOL]"

lemma set_pool_objects: "set (pool_objects pool) = pool_info pool ` {..<14}"
  by (auto simp: pool_objects_def)

lemma distinct_pool_objects: "distinct (pool_objects pool)"
  using pool_info_inj by (auto simp: pool_objects_def distinct_map inj_on_def)

section \<open>Allocation\<close>

lemma ensure_free_list_cached:
  "gSoInfoFreeList w \<noteq> 0 \<Longrightarrow> ensure_free_list_non_empty os w = (True, w)"
  by (simp add: ensure_free_list_non_empty_def)

text \<open>The call that gets the memory of a pool.\<close>

definition pool_mmap :: "win_api \<Rightarrow> mach \<Rightarrow> u32 \<times> mach" where
  "pool_mmap os m = s_mmap os 0 sizeof_pool (PROT_READ OR PROT_WRITE) (MAP_PRIVATE OR MAP_ANONYMOUS) 0 0 m"

lemma ensure_free_list_fails:
  "gSoInfoFreeList w = 0 \<Longrightarrow> pool_mmap os (mc w) = (MAP_FAILED, m) \<Longrightarrow>
     ensure_free_list_non_empty os w = (False, w\<lparr>mc := m\<rparr>)"
  by (simp add: ensure_free_list_non_empty_def pool_mmap_def)

lemma ensure_free_list_new_pool:
  assumes inv: "so_inv w LS []" and m: "pool_mmap os (mc w) = (pool, m)" and p: "pool \<noteq> MAP_FAILED"
    and fresh: "set (pool_objects pool) \<inter> (set LS \<union> {0}) = {}"
  shows "\<exists>w'. ensure_free_list_non_empty os w = (True, w') \<and> so_inv w' LS (pool_objects pool) \<and>
    mc w' = m \<and> gSoInfoPools w' = pool # gSoInfoPools w"
proof -
  let ?h = "chain_pool pool 14 0 (sos w)"
  let ?w = "w\<lparr>mc := m, gSoInfoPools := pool # gSoInfoPools w, gSoInfoFreeList := pool_info pool 0, sos := ?h\<rparr>"
  note I = so_invD [OF inv]
  have "gSoInfoFreeList w = 0" using I(2) by simp
  with m p have "ensure_free_list_non_empty os w = (True, ?w)"
    by (simp add: ensure_free_list_non_empty_def pool_mmap_def)
  moreover have "so_chain ?h (pool_info pool 0) (pool_objects pool) 0"
    using chain_pool_chain [of 14 pool "[]" "sos w" 0] fresh
    unfolding pool_objects_def by (force simp: set_pool_objects)
  moreover have "so_chain ?h (solist w) LS 0"
  proof -
    have "?h x = sos w x" if "x \<in> set LS" for x
      by (rule chain_pool_other) (use that fresh in \<open>auto simp: set_pool_objects\<close>)
    with I(1) show ?thesis by (simp cong: so_chain_cong)
  qed
  moreover have "?h 0 = None"
    using I(8) fresh by (subst chain_pool_other) (auto simp: set_pool_objects)
  ultimately show ?thesis
    using I distinct_pool_objects [of pool] fresh
    by (intro exI [of _ ?w]) (auto simp: so_inv_def)
qed

lemma strlcpy_name:
  "no_nul name \<Longrightarrow> length name < 128 \<Longrightarrow>
     \<exists>n buf. s_strlcpy (replicate 128 0) name 128 = Some (n, buf) \<and> buf_str buf = name"
  using strlcpy_fits [of name "replicate 128 0"] by (cases "s_strlcpy (replicate 128 0) name 128") auto

text \<open>
  \<open>soinfo_alloc\<close> on the state that \<open>ensure_free_list_non_empty\<close> leaves: the head of the free list,
  zeroed but for its name, becomes the last library.
\<close>

lemma soinfo_alloc_links:
  assumes inv: "so_inv w LS (f # FL)" and s: "sos w f = Some s" and t: "sos w (sonext w) = Some t"
    and z: "si_next z = 0"
  shows "so_inv (w\<lparr>gSoInfoFreeList := si_next s, sos := (sos w)(f \<mapsto> z, sonext w \<mapsto> t\<lparr>si_next := f\<rparr>), sonext := f\<rparr>)
    (LS @ [f]) FL"
proof -
  note I = so_invD [OF inv]
  obtain xs l where LS: "LS = xs @ [l]" using I(6) by (meson rev_exhaust)
  then have l: "sonext w = l" "l \<noteq> f" "f \<noteq> 0" "l \<noteq> 0" using I(2,5,7) so_inv_live [OF inv, of l] by auto
  have fl: "so_chain (sos w) (si_next s) FL 0" using I(2) s by auto
  let ?h = "(sos w)(f \<mapsto> z, l \<mapsto> t\<lparr>si_next := f\<rparr>)"
  have "so_chain ?h (si_next s) FL 0" using fl I(4,5) LS l by simp
  moreover have "so_chain ?h (solist w) (LS @ [f]) 0" using I(1,3,5) LS s t l z by auto
  ultimately show ?thesis using I LS s t l by (auto simp: so_inv_def)
qed

lemma soinfo_alloc_takes:
  assumes e: "ensure_free_list_non_empty os w0 = (True, w)" and inv: "so_inv w LS (f # FL)"
    and n: "no_nul name" "length name < 128"
  shows "\<exists>w'. soinfo_alloc os name w0 = Some (f, w') \<and> so_inv w' (LS @ [f]) FL \<and>
    sos w' f = Some (zero_soinfo\<lparr>si_name := name\<rparr>) \<and>
    (\<forall>x. x \<noteq> f \<and> x \<noteq> last LS \<longrightarrow> sos w' x = sos w x) \<and>
    sos w' (last LS) = map_option (\<lambda>s. s\<lparr>si_next := f\<rparr>) (sos w (last LS)) \<and> mc w' = mc w"
proof -
  note I = so_invD [OF inv]
  obtain s where f: "gSoInfoFreeList w = f" "sos w f = Some s" using I(2) by auto
  obtain t where l: "sonext w = last LS" "sos w (last LS) = Some t" "last LS \<noteq> f"
    using I(5-7) so_inv_live [OF inv, of "last LS"] by (auto dest: last_in_set)
  obtain k buf where c: "s_strlcpy (replicate 128 0) name 128 = Some (k, buf)" and b: "buf_str buf = name"
    using strlcpy_name [OF n] by blast
  let ?w = "w\<lparr>gSoInfoFreeList := si_next s,
      sos := (sos w)(f \<mapsto> zero_soinfo\<lparr>si_name := name\<rparr>, sonext w \<mapsto> t\<lparr>si_next := f\<rparr>), sonext := f\<rparr>"
  have "soinfo_alloc os name w0 = Some (f, ?w)"
    using e n f l c b by (simp add: soinfo_alloc_def upd_si_def)
  moreover have "so_inv ?w (LS @ [f]) FL"
    using soinfo_alloc_links [OF inv f(2)] l by (simp add: zero_soinfo_def)
  ultimately show ?thesis using l by (intro exI [of _ ?w]) simp
qed

lemma soinfo_alloc_cached:
  assumes inv: "so_inv w LS (f # FL)" and n: "no_nul name" "length name < 128"
  shows "\<exists>w'. soinfo_alloc os name w = Some (f, w') \<and> so_inv w' (LS @ [f]) FL \<and>
    sos w' f = Some (zero_soinfo\<lparr>si_name := name\<rparr>) \<and>
    (\<forall>x. x \<noteq> f \<and> x \<noteq> last LS \<longrightarrow> sos w' x = sos w x) \<and>
    sos w' (last LS) = map_option (\<lambda>s. s\<lparr>si_next := f\<rparr>) (sos w (last LS)) \<and> mc w' = mc w"
proof -
  have "gSoInfoFreeList w \<noteq> 0" using so_invD(2) [OF inv] by auto
  then show ?thesis
    using soinfo_alloc_takes [OF ensure_free_list_cached inv n] by blast
qed

section \<open>Release\<close>

lemma soinfo_free_present:
  assumes inv: "so_inv w (as @ si # bs) FL" and as: "as \<noteq> []"
  shows "\<exists>w'. soinfo_free si w = Some w' \<and> so_inv w' (as @ bs) (si # FL) \<and>
    (\<forall>x. x \<noteq> si \<and> x \<noteq> last as \<longrightarrow> sos w' x = sos w x) \<and> mc w' = mc w"
proof -
  note I = so_invD [OF inv]
  obtain xs p where as': "as = xs @ [p]" using as by (meson rev_exhaust)
  from I(1) obtain s t where ch: "so_chain (sos w) (solist w) xs p" "p \<noteq> 0" "sos w p = Some t" "si_next t = si"
    and si: "si \<noteq> 0" "sos w si = Some s" and bs: "so_chain (sos w) (si_next s) bs 0"
    by (auto simp: as')
  have ne: "p \<noteq> si" "si \<notin> set as" "si \<notin> set bs" "p \<notin> set bs" "p \<notin> set xs" "si \<notin> set FL" "p \<notin> set FL"
    using I(3,5) by (auto simp: as')
  have fp: "find_prev (sos w) si 0 (solist w) = Some (Some p)"
    using find_prev_chain [OF I(1,3), of si 0] si ne by (simp add: as' takeWhile_append)
  let ?w = "w\<lparr>sos := (sos w)(p \<mapsto> t\<lparr>si_next := si_next s\<rparr>, si \<mapsto> s\<lparr>si_next := gSoInfoFreeList w\<rparr>),
      sonext := if si = sonext w then p else sonext w, gSoInfoFreeList := si\<rparr>"
  have "soinfo_free si w = Some ?w"
    using fp ch si ne by (simp add: soinfo_free_def upd_si_def Let_def) (auto split: option.splits)
  moreover have "so_chain (sos ?w) (solist w) (as @ bs) 0"
    using ch bs ne si by (simp add: as')
  moreover have "so_chain (sos ?w) si (si # FL) 0"
    using I(2) ne si by simp
  moreover have "sonext ?w = last (as @ bs)"
    using I(3,7) ne by (cases bs rule: rev_cases) (auto simp: as')
  ultimately show ?thesis
    using I as ch by (intro exI [of _ ?w]) (auto simp: so_inv_def as')
qed

lemma soinfo_free_absent:
  assumes inv: "so_inv w LS FL" and "si \<notin> set LS"
  shows "soinfo_free si w = Some w"
  using find_prev_chain [OF so_invD(1,3) [OF inv], of si 0] assms(2) by (simp add: soinfo_free_def)

text \<open>The head of the list has no predecessor: the call dereferences null.\<close>

lemma soinfo_free_head:
  assumes inv: "so_inv w (si # LS) FL"
  shows "soinfo_free si w = None"
proof -
  note I = so_invD [OF inv]
  then obtain s where "si \<noteq> 0" "sos w si = Some s" by auto
  then show ?thesis
    using find_prev_chain [OF I(1,3), of si 0] I(8) by (simp add: soinfo_free_def upd_si_def)
qed

section \<open>The contract of the allocator\<close>

fun alloc_all :: "('n \<Rightarrow> 'w \<Rightarrow> ('p \<times> 'w) option) \<Rightarrow> 'n list \<Rightarrow> 'w \<Rightarrow> ('p list \<times> 'w) option" where
  "alloc_all alloc [] w = Some ([], w)"
| "alloc_all alloc (n # ns) w =
     do { (p, w) \<leftarrow> alloc n w; (ps, w) \<leftarrow> alloc_all alloc ns w; Some (p # ps, w) }"

text \<open>
  What the loader relies on: an allocation moves the first free object to the
  end of the live ones, a release moves a live object other than the first to
  the front of the free ones.
\<close>

locale object_registry =
  fixes inv :: "'w \<Rightarrow> 'p list \<Rightarrow> 'p list \<Rightarrow> bool"
    and alloc :: "'n \<Rightarrow> 'w \<Rightarrow> ('p \<times> 'w) option"
    and release :: "'p \<Rightarrow> 'w \<Rightarrow> 'w option"
    and good :: "'n \<Rightarrow> bool"
  assumes alloc_law: "inv w LS (f # FL) \<Longrightarrow> good n \<Longrightarrow> \<exists>w'. alloc n w = Some (f, w') \<and> inv w' (LS @ [f]) FL"
    and release_law: "inv w (as @ p # bs) FL \<Longrightarrow> as \<noteq> [] \<Longrightarrow>
           \<exists>w'. release p w = Some w' \<and> inv w' (as @ bs) (p # FL)"
    and never_empty: "inv w LS FL \<Longrightarrow> LS \<noteq> []"
begin

lemma alloc_release:
  assumes "inv w LS (f # FL)" and "good n"
  shows "\<exists>w1 w2. alloc n w = Some (f, w1) \<and> release f w1 = Some w2 \<and> inv w2 LS (f # FL)"
proof -
  obtain w1 where a: "alloc n w = Some (f, w1)" "inv w1 (LS @ [f]) FL"
    using alloc_law [OF assms] by blast
  with release_law [of w1 LS f "[]" FL] never_empty [OF assms(1)] show ?thesis by auto
qed

lemma alloc_all_law:
  "inv w LS (ps @ FL) \<Longrightarrow> \<forall>n \<in> set ns. good n \<Longrightarrow> length ns = length ps \<Longrightarrow>
     \<exists>w'. alloc_all alloc ns w = Some (ps, w') \<and> inv w' (LS @ ps) FL"
proof (induction ns arbitrary: w LS ps)
  case Nil
  then show ?case by simp
next
  case (Cons n ns)
  then obtain p qs where ps: "ps = p # qs" by (cases ps) auto
  with Cons.prems obtain w1 where a: "alloc n w = Some (p, w1)" "inv w1 (LS @ [p]) (qs @ FL)"
    using alloc_law [of w LS p "qs @ FL" n] by auto
  with Cons.IH [of w1 "LS @ [p]" qs] Cons.prems ps show ?case by auto
qed

lemma release_newest_first:
  "inv w (LS @ rev ps) FL \<Longrightarrow> LS \<noteq> [] \<Longrightarrow>
     \<exists>w'. fold (\<lambda>p r. do { w \<leftarrow> r; release p w }) ps (Some w) = Some w' \<and> inv w' LS (rev ps @ FL)"
proof (induction ps arbitrary: w FL)
  case Nil
  then show ?case by simp
next
  case (Cons p ps)
  then obtain w1 where "release p w = Some w1" "inv w1 (LS @ rev ps) (p # FL)"
    using release_law [of w "LS @ rev ps" p "[]" FL] by auto
  with Cons.IH [of w1 "p # FL"] Cons.prems(2) show ?case by auto
qed

end

definition good_name :: "string \<Rightarrow> bool" where
  "good_name name \<longleftrightarrow> no_nul name \<and> length name < SOINFO_NAME_LEN"

interpretation registry: object_registry so_inv "soinfo_alloc os" soinfo_free good_name for os
proof unfold_locales
  fix w LS f FL n
  assume "so_inv w LS (f # FL)" and "good_name n"
  then show "\<exists>w'. soinfo_alloc os n w = Some (f, w') \<and> so_inv w' (LS @ [f]) FL"
    using soinfo_alloc_cached [of w LS f FL n os] by (auto simp: good_name_def)
next
  fix w :: world and as p bs FL
  assume "so_inv w (as @ p # bs) FL" and "as \<noteq> []"
  then show "\<exists>w'. soinfo_free p w = Some w' \<and> so_inv w' (as @ bs) (p # FL)"
    using soinfo_free_present by blast
qed (auto simp: so_inv_def)

section \<open>Searches in the registry\<close>

definition obj :: "world \<Rightarrow> u32 \<Rightarrow> soinfo" where
  "obj w p = (case sos w p of None \<Rightarrow> zero_soinfo | Some s \<Rightarrow> s)"

lemma so_search_find:
  assumes "so_inv w LS FL"
  shows "so_search (\<lambda>p s. Some (if P p s then Some (g p s) else None)) (sos w) (solist w) =
    Some (map_option (\<lambda>p. g p (obj w p)) (find (\<lambda>p. P p (obj w p)) LS))"
proof -
  have live: "sos w p = Some (obj w p)" if "p \<in> set LS" for p
    using so_inv_live [OF assms, of p] that by (auto simp: obj_def)
  show ?thesis
    by (subst so_search_chain [OF so_invD(1) [OF assms]], subst first_hit_find [symmetric],
        rule first_hit_cong) (simp_all add: node_probe_def live)
qed

lemma find_loaded_library_eq:
  assumes "so_inv w LS FL"
  shows "find_loaded_library name w = Some (ptr_of (find (\<lambda>p. basename name = si_name (obj w p)) LS))"
  using so_search_find [OF assms, of "\<lambda>p s. basename name = si_name s" "\<lambda>p s. p"]
  by (simp add: find_loaded_library_def map_option.id [unfolded id_def])

text \<open>The block of addresses a library occupies.\<close>

definition holds_addr :: "world \<Rightarrow> u32 \<Rightarrow> u32 \<Rightarrow> bool" where
  "holds_addr w a p \<longleftrightarrow> in_block (si_base (obj w p)) (unat (si_size (obj w p))) a"

lemma holds_addr_iff:
  "unat b + unat z < 4294967296 \<Longrightarrow> in_block b (unat z) a \<longleftrightarrow> b \<le> a \<and> a < b + z" for a b z :: u32
  by (simp add: in_block_no_wrap word_le_nat_alt word_less_nat_alt unat_add_no_wrap)

lemma holds_addr_iff_diff:
  "unat b + unat z < 4294967296 \<Longrightarrow> in_block b (unat z) a \<longleftrightarrow> b \<le> a \<and> a - b < z" for a b z :: u32
proof (cases "b \<le> a")
  case True
  then have "unat (a - b) < unat z \<longleftrightarrow> a - b < z" by (simp add: word_less_nat_alt)
  with True show ?thesis by (simp add: in_block_def)
next
  case False
  assume "unat b + unat z < 4294967296"
  with False show ?thesis by (simp add: in_block_no_wrap word_le_nat_alt)
qed

lemma find_containing_library_eq:
  assumes "so_inv w LS FL"
  shows "find_containing_library a w =
    Some (ptr_of (find (\<lambda>p. si_base (obj w p) \<le> a \<and> a - si_base (obj w p) < si_size (obj w p)) LS))"
  using so_search_find [OF assms, of "\<lambda>p s. si_base s \<le> a \<and> a - si_base s < si_size s" "\<lambda>p s. p"]
  by (simp add: find_containing_library_def map_option.id [unfolded id_def])

lemma find_containing_library_holds:
  assumes inv: "so_inv w LS FL"
    and nw: "\<forall>p \<in> set LS. unat (si_base (obj w p)) + unat (si_size (obj w p)) < 4294967296"
  shows "find_containing_library a w = Some (ptr_of (find (holds_addr w a) LS))"
proof -
  have "find (\<lambda>p. si_base (obj w p) \<le> a \<and> a - si_base (obj w p) < si_size (obj w p)) LS = find (holds_addr w a) LS"
    using nw holds_addr_iff_diff unfolding holds_addr_def by (metis (lifting) find_cong)
  then show ?thesis by (simp add: find_containing_library_eq [OF inv])
qed

section \<open>Properties\<close>

text \<open>Two libraries, the first one being the linker's own, and one free object.\<close>

definition demo_so :: "string \<Rightarrow> u32 \<Rightarrow> u32 \<Rightarrow> u32 \<Rightarrow> soinfo" where
  "demo_so name base siz nxt =
     zero_soinfo\<lparr>si_name := name, si_base := base, si_size := siz, si_load_bias := base, si_next := nxt,
       si_ARM_exidx := base + 0x800, si_ARM_exidx_count := 2\<rparr>"

definition demo_registry :: world where
  "demo_registry =
     \<lparr>mc = \<lparr>vbytes = (\<lambda>_. None), vwr = (\<lambda>_. True), fs = (\<lambda>_. None), fds = [], errno = 0\<rparr>,
      sos = [0x10000 \<mapsto> demo_so ''libdl.so'' 0 0 0x20000, 0x20000 \<mapsto> demo_so ''libc.so'' 0x40000000 0x1000 0,
             0x30000 \<mapsto> zero_soinfo],
      gSoInfoPools = [], gSoInfoFreeList = 0x30000, solist = 0x10000, sonext = 0x20000, somain = 0,
      gLdPaths = [], gLdPreloadNames = [], gLdPreloads = [], out_log = []\<rparr>"

lemma demo_registry_inv: "so_inv demo_registry [0x10000, 0x20000] [0x30000]"
  by (simp add: so_inv_def demo_registry_def demo_so_def zero_soinfo_def)

lemma demo_registry_no_free:
  "so_inv (demo_registry\<lparr>gSoInfoFreeList := 0\<rparr>) [0x10000, 0x20000] []"
  by (simp add: so_inv_def demo_registry_def demo_so_def zero_soinfo_def)

lemma demo_pool: "pool_mmap demo_api m = (0x1000, m)"
  by (simp add: pool_mmap_def s_mmap_def s_mmap_view_def demo_api_def map_mmap_prot_page_def
      map_mmap_prot_file_def Let_def)

lemma demo_pool_objects:
  "set (pool_objects 0x1000) \<inter> (set [0x10000, 0x20000] \<union> {0}) = {}"
  by (simp add: pool_objects_def pool_info_def upt_rec)

text \<open>
  C21: With a free object \<open>f\<close> at hand, \<open>soinfo_alloc\<close> of a valid name returns it: it leaves the
  free list and becomes the last library, all its fields are zero but the name, which is the
  one given; only it and the link of the library before it change.
\<close>

theorem soinfo_alloc_appends:
  assumes "so_inv w LS (f # FL)" and "good_name name"
  shows "\<exists>w'. soinfo_alloc os name w = Some (f, w') \<and> so_inv w' (LS @ [f]) FL \<and>
    sos w' f = Some (zero_soinfo\<lparr>si_name := name\<rparr>) \<and>
    (\<forall>x. x \<noteq> f \<and> x \<noteq> last LS \<longrightarrow> sos w' x = sos w x) \<and>
    sos w' (last LS) = map_option (\<lambda>s. s\<lparr>si_next := f\<rparr>) (sos w (last LS)) \<and> mc w' = mc w"
  using soinfo_alloc_cached [OF assms(1)] assms(2) by (simp add: good_name_def)

lemma good_libm: "good_name ''libm.so''"
  by (simp add: good_name_def no_nul_def char_byte_def)

lemma soinfo_alloc_appends_witness:
  "\<exists>w'. soinfo_alloc demo_api ''libm.so'' demo_registry = Some (0x30000, w') \<and>
     so_inv w' [0x10000, 0x20000, 0x30000] []"
  using soinfo_alloc_appends [OF demo_registry_inv good_libm, of demo_api] by auto

text \<open>
  With an empty free list, \<open>soinfo_alloc\<close> maps a new pool: it returns the first of its 14
  objects, and the other 13 are the new free list, in the order of their addresses.
\<close>

theorem soinfo_alloc_new_pool:
  assumes inv: "so_inv w LS []" and m: "pool_mmap os (mc w) = (pool, m)" and p: "pool \<noteq> MAP_FAILED"
    and fresh: "set (pool_objects pool) \<inter> (set LS \<union> {0}) = {}" and name: "good_name name"
  shows "\<exists>w'. soinfo_alloc os name w = Some (pool_info pool 0, w') \<and>
    so_inv w' (LS @ [pool_info pool 0]) (map (pool_info pool) [1..<14])"
proof -
  obtain w1 where e: "ensure_free_list_non_empty os w = (True, w1)" and i: "so_inv w1 LS (pool_objects pool)"
    using ensure_free_list_new_pool [OF inv m p fresh] by blast
  have "pool_objects pool = pool_info pool 0 # map (pool_info pool) [1..<14]"
    by (simp add: pool_objects_def upt_rec)
  with i have i': "so_inv w1 LS (pool_info pool 0 # map (pool_info pool) [1..<14])" by (simp only:)
  show ?thesis using soinfo_alloc_takes [OF e i'] name unfolding good_name_def by auto
qed

lemma soinfo_alloc_new_pool_witness:
  "\<exists>w'. soinfo_alloc demo_api ''libm.so'' (demo_registry\<lparr>gSoInfoFreeList := 0\<rparr>) = Some (pool_info 0x1000 0, w') \<and>
     so_inv w' [0x10000, 0x20000, pool_info 0x1000 0] (map (pool_info 0x1000) [1..<14])"
  using soinfo_alloc_new_pool [OF demo_registry_no_free demo_pool _ demo_pool_objects good_libm] by auto

text \<open>
  \<open>soinfo_alloc\<close> returns null, with the registry as it was, for a name of 128 characters or
  more and when no pool can be mapped.
\<close>

theorem soinfo_alloc_null:
  assumes "SOINFO_NAME_LEN \<le> length name \<and> m = mc w \<or>
    length name < SOINFO_NAME_LEN \<and> gSoInfoFreeList w = 0 \<and> pool_mmap os (mc w) = (MAP_FAILED, m)"
  shows "soinfo_alloc os name w = Some (0, w\<lparr>mc := m\<rparr>)"
  using assms by (auto simp: soinfo_alloc_def ensure_free_list_fails)

lemma soinfo_alloc_null_witness:
  "soinfo_alloc demo_api (replicate 128 CHR ''x'') demo_registry = Some (0, demo_registry) \<and>
   soinfo_alloc (demo_api\<lparr>CreateFileMappingA := (\<lambda>h p hi lo m. (0, m))\<rparr>) ''libm.so''
     (demo_registry\<lparr>gSoInfoFreeList := 0\<rparr>) = Some (0, demo_registry\<lparr>gSoInfoFreeList := 0\<rparr>)"
  using soinfo_alloc_null [of "replicate 128 CHR ''x''" "mc demo_registry" demo_registry demo_api]
    soinfo_alloc_null [of "''libm.so''" "mc demo_registry" "demo_registry\<lparr>gSoInfoFreeList := 0\<rparr>"
      "demo_api\<lparr>CreateFileMappingA := (\<lambda>h p hi lo m. (0, m))\<rparr>"]
  by (simp add: pool_mmap_def s_mmap_def s_mmap_view_def set_errno_def map_mman_error_def demo_api_def
      demo_registry_def)

text \<open>
  C22: \<open>soinfo_free\<close> of a library that is not the first unlinks it, puts it at the head of the free
  list and keeps \<open>sonext\<close> at the last library; the first library has no predecessor, so that
  freeing it dereferences null; an object that is not in the list is left alone.
\<close>

theorem soinfo_free_unlinks:
  assumes "so_inv w (as @ si # bs) FL"
  shows "(case as of [] \<Rightarrow> soinfo_free si w = None
          | _ \<Rightarrow> (\<exists>w'. soinfo_free si w = Some w' \<and> so_inv w' (as @ bs) (si # FL) \<and>
                      (\<forall>x. x \<noteq> si \<and> x \<noteq> last as \<longrightarrow> sos w' x = sos w x))) \<and>
    (\<forall>x. x \<notin> set (as @ si # bs) \<longrightarrow> soinfo_free x w = Some w)"
  using assms soinfo_free_head [of w si bs FL] soinfo_free_present [of w as si bs FL]
    soinfo_free_absent [OF assms]
  by (auto split: list.split)

lemma soinfo_free_unlinks_witness:
  "(\<exists>w'. soinfo_free 0x20000 demo_registry = Some w' \<and> so_inv w' [0x10000] [0x20000, 0x30000]) \<and>
   soinfo_free 0x10000 demo_registry = None \<and> soinfo_free 0x77777 demo_registry = Some demo_registry"
  using soinfo_free_unlinks [of demo_registry "[0x10000]" "0x20000" "[]" "[0x30000]"]
    soinfo_free_unlinks [of demo_registry "[]" "0x10000" "[0x20000]" "[0x30000]"] demo_registry_inv
  by auto

text \<open>
  Allocating objects for a list of names and freeing them, newest first, gives back the list of
  libraries and the free list of the beginning.
\<close>

theorem alloc_free_roundtrip:
  assumes "so_inv w LS (ps @ FL)" and "\<forall>n \<in> set names. good_name n" and "length names = length ps"
  shows "\<exists>w1 w2. alloc_all (soinfo_alloc os) names w = Some (ps, w1) \<and> so_inv w1 (LS @ ps) FL \<and>
    fold (\<lambda>p r. do { w \<leftarrow> r; soinfo_free p w }) (rev ps) (Some w1) = Some w2 \<and> so_inv w2 LS (ps @ FL)"
proof -
  obtain w1 where a: "alloc_all (soinfo_alloc os) names w = Some (ps, w1)" "so_inv w1 (LS @ ps) FL"
    using registry.alloc_all_law [OF assms] by blast
  moreover have "LS \<noteq> []" using assms(1) by (simp add: so_inv_def)
  ultimately show ?thesis
    using registry.release_newest_first [of w1 LS "rev ps" FL] by auto
qed

lemma alloc_free_roundtrip_witness:
  "\<exists>w1 w2. alloc_all (soinfo_alloc demo_api) [''libm.so''] demo_registry = Some ([0x30000], w1) \<and>
     fold (\<lambda>p r. do { w \<leftarrow> r; soinfo_free p w }) [0x30000] (Some w1) = Some w2 \<and>
     so_inv w2 [0x10000, 0x20000] [0x30000]"
  using alloc_free_roundtrip [of demo_registry "[0x10000, 0x20000]" "[0x30000]" "[]" "[''libm.so'']" demo_api]
    demo_registry_inv good_libm by auto

text \<open>
  \<open>find_loaded_library\<close> returns the first library whose name is the last component of the
  path, or null when there is none.
\<close>

theorem find_loaded_library_first:
  assumes "so_inv w LS FL"
  shows "find_loaded_library name w =
    Some (case find (\<lambda>p. si_name (obj w p) = rev (takeWhile (\<lambda>c. c \<noteq> CHR ''/'') (rev name))) LS of
            None \<Rightarrow> 0 | Some p \<Rightarrow> p)"
  by (simp add: find_loaded_library_eq [OF assms] ptr_of_def basename_def eq_commute)

lemma find_loaded_library_first_witness:
  "find_loaded_library ''/system/lib/libc.so'' demo_registry = Some 0x20000 \<and>
   find_loaded_library ''libz.so'' demo_registry = Some 0"
  using find_loaded_library_first [OF demo_registry_inv, of "''/system/lib/libc.so''"]
    find_loaded_library_first [OF demo_registry_inv, of "''libz.so''"]
  by (simp add: obj_def demo_registry_def demo_so_def zero_soinfo_def)

text \<open>
  C32: When no library reaches the top of the address space, \<open>find_containing_library\<close> returns the
  first library whose block holds the address, and \<open>dl_unwind_find_exidx\<close> returns the unwind
  table of the same library.
\<close>

theorem unwind_agrees_with_containing:
  assumes inv: "so_inv w LS FL"
    and nw: "\<forall>p \<in> set LS. unat (si_base (obj w p)) + unat (si_size (obj w p)) < 4294967296"
  shows "find_containing_library a w = Some (ptr_of (find (holds_addr w a) LS)) \<and>
    dl_unwind_find_exidx a w =
      Some (case find (holds_addr w a) LS of None \<Rightarrow> (0, 0)
            | Some p \<Rightarrow> (si_ARM_exidx (obj w p), si_ARM_exidx_count (obj w p)))"
proof -
  have "find (\<lambda>p. si_base (obj w p) \<le> a \<and> a < si_base (obj w p) + si_size (obj w p)) LS = find (holds_addr w a) LS"
    using nw holds_addr_iff unfolding holds_addr_def by (metis (lifting) find_cong)
  then show ?thesis
    using find_containing_library_holds [OF inv nw, of a]
      so_search_find [OF inv, of "\<lambda>p s. si_base s \<le> a \<and> a < si_base s + si_size s"
        "\<lambda>p s. (si_ARM_exidx s, si_ARM_exidx_count s)"]
    by (simp add: dl_unwind_find_exidx_def split: option.split)
qed

lemma unwind_agrees_with_containing_witness:
  "find_containing_library 0x40000010 demo_registry = Some 0x20000 \<and>
   dl_unwind_find_exidx 0x40000010 demo_registry = Some (0x40000800, 2) \<and>
   dl_unwind_find_exidx 0x30000000 demo_registry = Some (0, 0)"
  using unwind_agrees_with_containing [OF demo_registry_inv, of "0x40000010"]
    unwind_agrees_with_containing [OF demo_registry_inv, of "0x30000000"]
  by (simp add: obj_def demo_registry_def demo_so_def zero_soinfo_def holds_addr_def in_block_def ptr_of_def)

end
