(* ===== verification/Lookup.thy ===== *)
theory Lookup
  imports Registry Elf
begin

text \<open>
  Symbol lookup of emulator/linker.cpp: the ELF hash, the search of one library's
  hash chain (\<open>soinfo_elf_lookup\<close>), the search through the scope of a relocation
  (\<open>soinfo_do_lookup\<close>), the searches of \<open>dlsym\<close> and \<open>dladdr\<close>, and the two dumps.
  A symbol is the address of its entry in the library's symbol table, null when
  there is none.  Where the code returns a symbol and the library that defines it
  through an out parameter, the functions here return the pair; the second
  component means nothing when the first is null.
\<close>

section \<open>The hash\<close>

definition hash_step :: "u32 \<Rightarrow> char \<Rightarrow> u32" where
  "hash_step h c =
     (let h = push_bit 4 h + ucast (char_byte c); g = h AND 0xf0000000; h = h XOR g in h XOR drop_bit 24 g)"

definition elfhash :: "string \<Rightarrow> u32" where
  "elfhash name = foldl hash_step 0 name"

section \<open>One library\<close>

definition sym_addr_of :: "soinfo \<Rightarrow> u32 \<Rightarrow> u32" where
  "sym_addr_of s n = si_symtab s + n * sizeof_Sym"

text \<open>A symbol that satisfies the search: global or weak, and defined.\<close>

definition exported :: "Elf32_Sym \<Rightarrow> bool" where
  "exported sy \<longleftrightarrow>
     (ELF32_ST_BIND (st_info sy) = STB_GLOBAL \<or> ELF32_ST_BIND (st_info sy) = STB_WEAK) \<and> st_shndx sy \<noteq> SHN_UNDEF"

partial_function (option) chain_lookup :: "mach \<Rightarrow> soinfo \<Rightarrow> string \<Rightarrow> u32 \<Rightarrow> u32 option" where
  "chain_lookup m s name n =
     (if n = 0 then Some 0
      else do { sy \<leftarrow> read_sym m (sym_addr_of s n);
                eq \<leftarrow> strcmp_eq m (si_strtab s + st_name sy) name;
                (if eq \<and> exported sy then Some (sym_addr_of s n)
                 else do { n \<leftarrow> load32 m (si_chain s + 4 * n); chain_lookup m s name n }) })"

text \<open>A table with no buckets makes the code divide by zero.\<close>

definition soinfo_elf_lookup :: "world \<Rightarrow> u32 \<Rightarrow> u32 \<Rightarrow> string \<Rightarrow> u32 option" where
  "soinfo_elf_lookup w si hash name =
     do { s \<leftarrow> sos w si;
          (if si_nbucket s = 0 then None
           else do { n \<leftarrow> load32 (mc w) (si_bucket s + 4 * (hash mod si_nbucket s));
                     chain_lookup (mc w) s name n }) }"

section \<open>The scope of a relocation\<close>

definition lookup_in :: "world \<Rightarrow> u32 \<Rightarrow> u32 \<Rightarrow> string \<Rightarrow> (u32 \<times> u32) option" where
  "lookup_in w hash si name = do { s \<leftarrow> soinfo_elf_lookup w si hash name; Some (s, si) }"

fun lookup_array :: "world \<Rightarrow> u32 \<Rightarrow> string \<Rightarrow> u32 list \<Rightarrow> (u32 \<times> u32) option" where
  "lookup_array w hash name [] = Some (0, 0)"
| "lookup_array w hash name (p # ps) =
     do { r \<leftarrow> lookup_in w hash p name; (if fst r \<noteq> 0 then Some r else lookup_array w hash name ps) }"

definition lookup_local :: "world \<Rightarrow> u32 \<Rightarrow> string \<Rightarrow> u32 \<Rightarrow> (u32 \<times> u32) option" where
  "lookup_local w hash name si =
     (if si \<noteq> 0 \<and> somain w \<noteq> 0
      then (if si = somain w then lookup_in w hash si name
            else do {
              t \<leftarrow> sos w si;
              r \<leftarrow> (if \<not> si_has_DT_SYMBOLIC t then lookup_in w hash (somain w) name else Some (0, 0));
              (if fst r \<noteq> 0 then Some r
               else do {
                 r \<leftarrow> lookup_in w hash si name;
                 (if fst r \<noteq> 0 then Some r
                  else if si_has_DT_SYMBOLIC t then lookup_in w hash (somain w) name
                  else Some (0, 0)) }) })
      else Some (0, 0))"

text \<open>
  The trace between the two arrays reads fields of \<open>si\<close>: a null \<open>si\<close> traps there.
\<close>

definition soinfo_do_lookup :: "world \<Rightarrow> u32 \<Rightarrow> string \<Rightarrow> u32 list \<Rightarrow> (u32 \<times> u32) option" where
  "soinfo_do_lookup w si name needed =
     do { let hash = elfhash name;
          r \<leftarrow> lookup_local w hash name si;
          (if fst r \<noteq> 0 then Some r
           else do {
             r \<leftarrow> lookup_array w hash name (gLdPreloads w);
             (if fst r \<noteq> 0 then Some r
              else do { _ \<leftarrow> sos w si;
                        r \<leftarrow> lookup_array w hash name needed;
                        Some (if fst r \<noteq> 0 then r else (0, 0)) }) }) }"

section \<open>The searches of \<open>dlsym\<close> and \<open>dladdr\<close>\<close>

definition dlsym_handle_lookup :: "world \<Rightarrow> u32 \<Rightarrow> string \<Rightarrow> u32 option" where
  "dlsym_handle_lookup w si name = soinfo_elf_lookup w si (elfhash name) name"

definition dlsym_linear_lookup :: "world \<Rightarrow> string \<Rightarrow> u32 \<Rightarrow> (u32 \<times> u32) option" where
  "dlsym_linear_lookup w name start =
     map_option (\<lambda>r. case r of None \<Rightarrow> (0, 0) | Some x \<Rightarrow> x)
       (so_search (\<lambda>si s. do { y \<leftarrow> soinfo_elf_lookup w si (elfhash name) name;
                               Some (if y \<noteq> 0 then Some (y, si) else None) })
          (sos w) (if start = 0 then solist w else start))"

text \<open>The symbol's interval, compared as the code does; its end may wrap.\<close>

definition sym_covers :: "Elf32_Sym \<Rightarrow> u32 \<Rightarrow> bool" where
  "sym_covers sy a \<longleftrightarrow> st_shndx sy \<noteq> SHN_UNDEF \<and> st_value sy \<le> a \<and> a < st_value sy + st_size sy"

fun sym_scan :: "mach \<Rightarrow> soinfo \<Rightarrow> u32 \<Rightarrow> u32 \<Rightarrow> nat \<Rightarrow> u32 option" where
  "sym_scan m s soaddr i 0 = Some 0"
| "sym_scan m s soaddr i (Suc k) =
     do { sy \<leftarrow> read_sym m (sym_addr_of s i);
          (if sym_covers sy soaddr then Some (sym_addr_of s i) else sym_scan m s soaddr (i + 1) k) }"

definition dladdr_find_symbol :: "world \<Rightarrow> u32 \<Rightarrow> u32 \<Rightarrow> u32 option" where
  "dladdr_find_symbol w si addr =
     do { s \<leftarrow> sos w si; sym_scan (mc w) s (addr - si_base s) 0 (unat (si_nchain s)) }"

text \<open>The lines that \<open>dump\<close> and \<open>show_loaded_library\<close> print.\<close>

fun dump_rows :: "mach \<Rightarrow> soinfo \<Rightarrow> u32 \<Rightarrow> nat \<Rightarrow> (u32 \<times> Elf32_Sym \<times> string) list option" where
  "dump_rows m s n 0 = Some []"
| "dump_rows m s n (Suc k) =
     do { sy \<leftarrow> read_sym m (sym_addr_of s n);
          nm \<leftarrow> cstr m (si_strtab s + st_name sy);
          rows \<leftarrow> dump_rows m s (n + 1) k;
          Some ((n, sy, nm) # rows) }"

definition dump :: "world \<Rightarrow> u32 \<Rightarrow> (u32 \<times> Elf32_Sym \<times> string) list option" where
  "dump w si = do { s \<leftarrow> sos w si; dump_rows (mc w) s 0 (unat (si_nchain s)) }"

partial_function (option) show_rows :: "so_heap \<Rightarrow> u32 \<Rightarrow> (string \<times> u32 \<times> u32) list option" where
  "show_rows h p =
     (if p = 0 then Some []
      else do { s \<leftarrow> h p; rows \<leftarrow> show_rows h (si_next s); Some ((si_name s, si_base s, si_size s) # rows) })"

definition show_loaded_library :: "world \<Rightarrow> (string \<times> u32 \<times> u32) list option" where
  "show_loaded_library w = show_rows (sos w) (solist w)"

section \<open>The hash against the ABI's\<close>

text \<open>The hash function as the System V ABI states it, which clears the top bits after the fold.\<close>

definition sysv_step :: "u32 \<Rightarrow> char \<Rightarrow> u32" where
  "sysv_step h c =
     (let h = push_bit 4 h + ucast (char_byte c); g = h AND 0xf0000000;
          h = (if g \<noteq> 0 then h XOR drop_bit 24 g else h)
      in h AND NOT g)"

lemma top_nibble: "(0xf0000000 :: u32) = push_bit 28 (mask 4)"
  by (simp add: push_bit_eq_mult mask_eq_exp_minus_1)

lemma bit_top_nibble: "bit (x AND 0xf0000000 :: u32) n \<longleftrightarrow> 28 \<le> n \<and> n < 32 \<and> bit x n"
  unfolding top_nibble by (auto simp: bit_simps)

lemma fold_top:
  fixes x g :: u32
  assumes g: "\<And>n. bit g n \<longleftrightarrow> 28 \<le> n \<and> n < 32 \<and> bit x n"
  shows "(x XOR g) XOR drop_bit 24 g = (if g \<noteq> 0 then x XOR drop_bit 24 g else x) AND NOT g"
    and "drop_bit 28 ((x XOR g) XOR drop_bit 24 g) = 0"
proof -
  have "(x XOR g) XOR drop_bit 24 g = (x XOR drop_bit 24 g) AND NOT g"
    by (rule bit_word_eqI) (auto simp: bit_simps g)
  then show "(x XOR g) XOR drop_bit 24 g = (if g \<noteq> 0 then x XOR drop_bit 24 g else x) AND NOT g" by auto
  show "drop_bit 28 ((x XOR g) XOR drop_bit 24 g) = 0"
    by (rule bit_word_eqI) (auto simp: bit_simps g dest: bit_imp_le_length)
qed

lemma hash_step_sysv: "hash_step h c = sysv_step h c"
  unfolding hash_step_def sysv_step_def Let_def by (rule fold_top(1) [OF bit_top_nibble])

lemma hash_step_top: "drop_bit 28 (hash_step h c) = 0"
  using fold_top(2) [OF bit_top_nibble] by (simp add: hash_step_def Let_def)

lemma drop_bit_28_bound: "drop_bit 28 (x :: u32) = 0 \<Longrightarrow> unat x < 2 ^ 28"
proof -
  assume "drop_bit 28 x = 0"
  then have "unat (drop_bit 28 x) = 0" by simp
  then have "unat x div 2 ^ 28 = 0" by (simp only: unsigned_drop_bit_eq) (simp add: drop_bit_eq_div take_bit_eq_mod)
  then show ?thesis by (simp add: div_eq_0_iff)
qed

lemma elfhash_bound: "unat (elfhash name) < 2 ^ 28"
proof -
  have "drop_bit 28 (elfhash name) = 0"
    by (cases name rule: rev_cases) (simp_all add: elfhash_def hash_step_top)
  then show ?thesis by (rule drop_bit_28_bound)
qed

section \<open>One library's chain\<close>

text \<open>The chain from \<open>n\<close> visits the symbols \<open>ns\<close> and ends.\<close>

fun idx_chain :: "mach \<Rightarrow> soinfo \<Rightarrow> u32 \<Rightarrow> u32 list \<Rightarrow> bool" where
  "idx_chain m s n [] \<longleftrightarrow> n = 0"
| "idx_chain m s n (k # ks) \<longleftrightarrow>
     n = k \<and> k \<noteq> 0 \<and> (\<exists>n'. load32 m (si_chain s + 4 * k) = Some n' \<and> idx_chain m s n' ks)"

definition sym_probe :: "mach \<Rightarrow> soinfo \<Rightarrow> string \<Rightarrow> u32 \<Rightarrow> u32 option option" where
  "sym_probe m s name n =
     do { sy \<leftarrow> read_sym m (sym_addr_of s n);
          eq \<leftarrow> strcmp_eq m (si_strtab s + st_name sy) name;
          Some (if eq \<and> exported sy then Some (sym_addr_of s n) else None) }"

lemma chain_lookup_probe:
  "chain_lookup m s name n =
     (if n = 0 then Some 0
      else do { r \<leftarrow> sym_probe m s name n;
                (case r of Some a \<Rightarrow> Some a
                 | None \<Rightarrow> do { n \<leftarrow> load32 m (si_chain s + 4 * n); chain_lookup m s name n }) })"
  by (subst chain_lookup.simps) (auto simp: sym_probe_def intro!: Option.bind_cong)

lemma chain_lookup_first_hit:
  "idx_chain m s n ns \<Longrightarrow> chain_lookup m s name n = map_option ptr_of (first_hit (sym_probe m s name) ns)"
proof (induction ns arbitrary: n)
  case Nil
  then show ?case by (simp add: chain_lookup.simps ptr_of_def)
next
  case (Cons k ks)
  then obtain n' where "n = k" "k \<noteq> 0" "load32 m (si_chain s + 4 * k) = Some n'" "idx_chain m s n' ks"
    by auto
  with Cons.IH [of n'] show ?case
    by (subst chain_lookup_probe)
      (auto simp: map_option_bind intro!: Option.bind_cong split: option.split, simp_all add: ptr_of_def)
qed

text \<open>Entry \<open>n\<close> of the symbol table is \<open>sy\<close>, and its name is \<open>nm\<close>.\<close>

definition sym_at :: "mach \<Rightarrow> soinfo \<Rightarrow> u32 \<Rightarrow> Elf32_Sym \<Rightarrow> string \<Rightarrow> bool" where
  "sym_at m s n sy nm \<longleftrightarrow> read_sym m (sym_addr_of s n) = Some sy \<and> str_at m (si_strtab s + st_name sy) nm"

lemma sym_probe_at:
  "sym_at m s n sy nm \<Longrightarrow> no_nul name \<Longrightarrow>
     sym_probe m s name n = Some (if nm = name \<and> exported sy then Some (sym_addr_of s n) else None)"
  using strcmp_eq_str_at [of m "si_strtab s + st_name sy" nm name]
  by (auto simp: sym_probe_def sym_at_def no_nul_def)

interpretation sym_chain: probing "sym_probe m s name" "\<lambda>n. no_nul name \<and> (\<exists>sy nm. sym_at m s n sy nm)" for m s name
  by unfold_locales (auto simp: sym_probe_at)

text \<open>
  A hash table that is sound for the list \<open>tab\<close> of symbols with their names: every bucket's chain
  ends, stays in the table, and passes through every exported symbol that belongs in the bucket.
\<close>

definition hash_table_ok :: "mach \<Rightarrow> soinfo \<Rightarrow> (Elf32_Sym \<times> string) list \<Rightarrow> bool" where
  "hash_table_ok m s tab \<longleftrightarrow>
     si_nbucket s \<noteq> 0 \<and> length tab \<le> 4294967296 \<and>
     (\<forall>i < length tab. 0 < i \<longrightarrow>
        sym_at m s (of_nat i) (fst (tab ! i)) (snd (tab ! i)) \<and> sym_addr_of s (of_nat i) \<noteq> 0) \<and>
     (\<forall>b < si_nbucket s. \<exists>n ns. load32 m (si_bucket s + 4 * b) = Some n \<and> idx_chain m s n ns \<and>
        (\<forall>k \<in> set ns. unat k < length tab) \<and>
        (\<forall>i < length tab. 0 < i \<and> exported (fst (tab ! i)) \<and> elfhash (snd (tab ! i)) mod si_nbucket s = b \<longrightarrow>
           of_nat i \<in> set ns))"

definition exports :: "(Elf32_Sym \<times> string) list \<Rightarrow> string \<Rightarrow> nat \<Rightarrow> bool" where
  "exports tab name i \<longleftrightarrow> 0 < i \<and> i < length tab \<and> exported (fst (tab ! i)) \<and> snd (tab ! i) = name"

lemma idx_chain_nonzero: "idx_chain m s n ns \<Longrightarrow> k \<in> set ns \<Longrightarrow> k \<noteq> 0"
  by (induction ns arbitrary: n) auto

lemma elf_lookup_hash_table:
  assumes ok: "hash_table_ok (mc w) s tab" and s: "sos w si = Some s" and nn: "no_nul name"
  shows "\<exists>r. soinfo_elf_lookup w si (elfhash name) name = Some r \<and>
    (if r = 0 then \<forall>i. \<not> exports tab name i
     else \<exists>i. exports tab name i \<and> r = sym_addr_of s (of_nat i))"
proof -
  let ?b = "elfhash name mod si_nbucket s"
  have "?b < si_nbucket s" using ok by (simp add: hash_table_ok_def word_mod_less_divisor word_gt_0)
  with ok obtain n ns where head: "load32 (mc w) (si_bucket s + 4 * ?b) = Some n"
    and ch: "idx_chain (mc w) s n ns" and bound: "\<forall>k \<in> set ns. unat k < length tab"
    and all: "\<And>i. i < length tab \<Longrightarrow> 0 < i \<Longrightarrow> exported (fst (tab ! i)) \<Longrightarrow>
        elfhash (snd (tab ! i)) mod si_nbucket s = ?b \<Longrightarrow> of_nat i \<in> set ns"
    unfolding hash_table_ok_def by blast
  have at: "sym_at (mc w) s k (fst (tab ! unat k)) (snd (tab ! unat k)) \<and> sym_addr_of s k \<noteq> 0"
    if "k \<in> set ns" for k
    using ok bound that idx_chain_nonzero [OF ch that] unat_gt_0 [of k]
    by (auto simp: hash_table_ok_def dest: spec [of _ "unat k"])
  have pr: "sym_probe (mc w) s name k =
      Some (if exports tab name (unat k) then Some (sym_addr_of s k) else None)" if "k \<in> set ns" for k
  proof -
    have "exports tab name (unat k) \<longleftrightarrow> snd (tab ! unat k) = name \<and> exported (fst (tab ! unat k))"
      using that bound idx_chain_nonzero [OF ch that] by (auto simp: exports_def unat_gt_0)
    with sym_probe_at [OF conjunct1 [OF at [OF that]] nn] show ?thesis by simp
  qed
  have eq: "soinfo_elf_lookup w si (elfhash name) name =
      Some (ptr_of (map_option (sym_addr_of s) (find (\<lambda>k. exports tab name (unat k)) ns)))"
    using ok s head chain_lookup_first_hit [OF ch, of name]
    by (simp add: soinfo_elf_lookup_def hash_table_ok_def first_hit_find pr cong: first_hit_cong)
  show ?thesis
  proof (cases "find (\<lambda>k. exports tab name (unat k)) ns")
    case None
    have "\<not> exports tab name i" for i
    proof
      assume e: "exports tab name i"
      then have i: "i < length tab" "unat (of_nat i :: u32) = i"
        using ok by (auto simp: exports_def hash_table_ok_def)
      with all [of i] e have "of_nat i \<in> set ns" by (auto simp: exports_def)
      with None i e show False by (auto simp: find_None_iff)
    qed
    with eq None show ?thesis by (simp add: ptr_of_def)
  next
    case (Some k)
    then have k: "k \<in> set ns" "exports tab name (unat k)" by (auto simp: find_Some_iff)
    with eq Some at [OF k(1)] show ?thesis
      by (auto simp: ptr_of_def intro!: exI [of _ "unat k"])
  qed
qed

section \<open>The scope\<close>

definition lib_probe :: "world \<Rightarrow> string \<Rightarrow> u32 \<Rightarrow> (u32 \<times> u32) option option" where
  "lib_probe w name p =
     do { y \<leftarrow> soinfo_elf_lookup w p (elfhash name) name; Some (if y \<noteq> 0 then Some (y, p) else None) }"

definition sym_or_null :: "(u32 \<times> u32) option \<Rightarrow> u32 \<times> u32" where
  "sym_or_null r = (case r of None \<Rightarrow> (0, 0) | Some x \<Rightarrow> x)"

lemma sym_or_null_simps [simp]: "sym_or_null None = (0, 0)" "sym_or_null (Some x) = x"
  by (simp_all add: sym_or_null_def)

interpretation lib_scope: probing "lib_probe w name"
    "\<lambda>p. soinfo_elf_lookup w p (elfhash name) name \<noteq> None" for w name
  by unfold_locales (auto simp: lib_probe_def)

text \<open>The libraries in the order in which a reference from \<open>si\<close> is looked up in them.\<close>

definition search_scope :: "world \<Rightarrow> u32 \<Rightarrow> bool \<Rightarrow> u32 list \<Rightarrow> u32 list" where
  "search_scope w si symbolic needed =
     (if somain w = 0 then []
      else if si = somain w then [si]
      else if symbolic then [si, somain w] else [somain w, si]) @ gLdPreloads w @ needed"

lemma fst_sym_or_null: "first_hit (lib_probe w name) ps = Some r \<Longrightarrow> fst (sym_or_null r) = 0 \<longleftrightarrow> r = None"
proof (induction ps)
  case Nil
  then show ?case by (simp add: sym_or_null_def)
next
  case (Cons p ps)
  then show ?case
    by (auto simp: lib_probe_def sym_or_null_def Option.bind_eq_Some_conv split: if_splits option.splits)
qed

lemma lookup_array_first_hit:
  "lookup_array w (elfhash name) name ps = map_option sym_or_null (first_hit (lib_probe w name) ps)"
  by (induction ps)
    (auto simp: lookup_in_def lib_probe_def sym_or_null_def map_option_bind intro!: Option.bind_cong)

text \<open>One list after another.\<close>

lemma lookup_array_append:
  "do { r \<leftarrow> map_option sym_or_null (first_hit (lib_probe w name) ps);
        (if fst r \<noteq> 0 then Some r else map_option sym_or_null (first_hit (lib_probe w name) qs)) } =
   map_option sym_or_null (first_hit (lib_probe w name) (ps @ qs))"
proof (cases "first_hit (lib_probe w name) ps")
  case None
  then show ?thesis by (simp add: first_hit_append)
next
  case (Some r)
  with fst_sym_or_null [OF Some] show ?thesis by (cases r) (auto simp: first_hit_append)
qed

lemma sym_or_null_norm: "(if fst (sym_or_null r) \<noteq> 0 then sym_or_null r else (0, 0)) = sym_or_null r"
  if "first_hit (lib_probe w name) ps = Some r"
  using fst_sym_or_null [OF that] by (auto simp: sym_or_null_def)

lemma lookup_in_first_hit:
  "lookup_in w (elfhash name) p name = map_option (\<lambda>r. (fst (sym_or_null r), p)) (first_hit (lib_probe w name) [p])"
  by (cases "soinfo_elf_lookup w p (elfhash name) name") (auto simp: lookup_in_def lib_probe_def sym_or_null_def)

lemma do_lookup_first_hit:
  assumes si: "si \<noteq> 0" "sos w si = Some t"
  shows "soinfo_do_lookup w si name needed =
    map_option sym_or_null (first_hit (lib_probe w name) (search_scope w si (si_has_DT_SYMBOLIC t) needed))"
proof -
  let ?f = "\<lambda>ps. first_hit (lib_probe w name) ps"
  define loc where "loc = (if somain w = 0 then [] else if si = somain w then [si]
      else if si_has_DT_SYMBOLIC t then [si, somain w] else [somain w, si])"
  have tail: "do { r \<leftarrow> lookup_array w (elfhash name) name (gLdPreloads w);
        (if fst r \<noteq> 0 then Some r
         else do { _ \<leftarrow> sos w si; r \<leftarrow> lookup_array w (elfhash name) name needed;
                   Some (if fst r \<noteq> 0 then r else (0, 0)) }) } =
      map_option sym_or_null (?f (gLdPreloads w @ needed))" (is "?tail = _")
    unfolding lookup_array_append [symmetric] lookup_array_first_hit
    by (cases "?f needed") (auto simp: si sym_or_null_norm intro!: Option.bind_cong)
  have "(\<exists>p y. lookup_local w (elfhash name) name si = Some (y, p) \<and> y \<noteq> 0 \<and> ?f loc = Some (Some (y, p))) \<or>
      (\<exists>p. lookup_local w (elfhash name) name si = Some (0, p) \<and> ?f loc = Some None) \<or>
      lookup_local w (elfhash name) name si = None \<and> ?f loc = None"
    using si by (cases "soinfo_elf_lookup w si (elfhash name) name";
        cases "soinfo_elf_lookup w (somain w) (elfhash name) name")
      (auto simp: loc_def lookup_local_def lookup_in_def lib_probe_def)
  moreover have "search_scope w si (si_has_DT_SYMBOLIC t) needed = loc @ gLdPreloads w @ needed"
    by (simp add: search_scope_def loc_def)
  ultimately show ?thesis
    using tail by (auto simp: soinfo_do_lookup_def first_hit_append [of _ loc] sym_or_null_def)
qed

lemma linear_lookup_first_hit:
  assumes "so_inv w (as @ bs) FL" and "bs \<noteq> []"
  shows "dlsym_linear_lookup w name (if as = [] then 0 else hd bs) =
    map_option sym_or_null (first_hit (lib_probe w name) bs)"
proof -
  obtain p where ch: "so_chain (sos w) p bs 0" and hd: "p = hd bs" "p \<noteq> 0"
    and first: "as = [] \<Longrightarrow> p = solist w"
    using so_invD(1) [OF assms(1)] assms(2) by (cases as; cases bs) auto
  have probe: "node_probe (\<lambda>si s. do { y \<leftarrow> soinfo_elf_lookup w si (elfhash name) name;
      Some (if y \<noteq> 0 then Some (y, si) else None) }) (sos w) q = lib_probe w name q" if "q \<in> set bs" for q
    using so_chain_nonzero [OF ch that] by (auto simp: node_probe_def lib_probe_def)
  have "so_search (\<lambda>si s. do { y \<leftarrow> soinfo_elf_lookup w si (elfhash name) name;
      Some (if y \<noteq> 0 then Some (y, si) else None) }) (sos w) p = first_hit (lib_probe w name) bs"
    unfolding so_search_chain [OF ch] by (rule first_hit_cong [OF refl probe])
  moreover have "(if (if as = [] then 0 else hd bs) = 0 then solist w else if as = [] then 0 else hd bs) = p"
    using hd first by auto
  ultimately show ?thesis
    by (simp add: dlsym_linear_lookup_def sym_or_null_def [abs_def])
qed

section \<open>Scanning the symbol table\<close>

lemma sym_scan_find:
  assumes "\<And>i. i < n \<Longrightarrow> read_sym m (sym_addr_of s (of_nat (k + i))) = Some (sy (k + i))"
  shows "sym_scan m s a (of_nat k) n =
    Some (ptr_of (map_option (\<lambda>i. sym_addr_of s (of_nat i)) (find (\<lambda>i. sym_covers (sy i) a) [k..<k + n])))"
  using assms
proof (induction n arbitrary: k)
  case 0
  then show ?case by (simp add: ptr_of_def)
next
  case (Suc n)
  have "sym_scan m s a (of_nat (Suc k)) n = Some (ptr_of (map_option (\<lambda>i. sym_addr_of s (of_nat i))
      (find (\<lambda>i. sym_covers (sy i) a) [Suc k..<Suc k + n])))"
    using Suc.prems [of "Suc _"] by (intro Suc.IH) simp
  moreover have "read_sym m (sym_addr_of s (of_nat k)) = Some (sy k)" using Suc.prems [of 0] by simp
  moreover have "[k..<k + Suc n] = k # [Suc k..<Suc k + n]" by (simp add: upt_rec)
  ultimately show ?case by (simp add: add.commute ptr_of_def)
qed

section \<open>Properties\<close>

text \<open>
  A memory that holds the given bytes at an address, and a library whose tables are there: one
  bucket, and one symbol \<open>ab\<close> of value 0x100 and size 8, global and defined.
\<close>

definition mem_of :: "u32 \<Rightarrow> u8 list \<Rightarrow> mach" where
  "mem_of a bs =
     \<lparr>vbytes = (\<lambda>x. if in_block a (length bs) x then Some (bs ! unat (x - a)) else None), vwr = (\<lambda>_. True),
      fs = (\<lambda>_. None), fds = [], errno = 0\<rparr>"

definition demo_tables :: "u8 list" where
  "demo_tables =
     [1, 0, 0, 0,  0, 0, 0, 0, 0, 0, 0, 0,  0, 0, 0, 0,
      0, 0, 0, 0, 0, 0, 0, 0, 0, 0, 0, 0, 0, 0, 0, 0,
      1, 0, 0, 0, 0, 1, 0, 0, 8, 0, 0, 0, 0x12, 0, 7, 0,  0, 0x61, 0x62, 0]"

definition demo_sym :: Elf32_Sym where
  "demo_sym = \<lparr>st_name = 1, st_value = 0x100, st_size = 8, st_info = 0x12, st_other = 0, st_shndx = 7\<rparr>"

definition demo_sym0 :: Elf32_Sym where
  "demo_sym0 = \<lparr>st_name = 0, st_value = 0, st_size = 0, st_info = 0, st_other = 0, st_shndx = 0\<rparr>"

definition demo_lib :: soinfo where
  "demo_lib =
     (demo_so ''libab.so'' 0x40000000 0x1000 0)\<lparr>si_nbucket := 1, si_nchain := 2, si_bucket := 0x40000000,
       si_chain := 0x40000004, si_symtab := 0x40000010, si_strtab := 0x40000030, si_flags := 1\<rparr>"

definition demo_head :: soinfo where
  "demo_head =
     (demo_so ''libdl.so'' 0 0 0x20000)\<lparr>si_nbucket := 1, si_bucket := 0x40000004, si_flags := 1\<rparr>"

definition demo_libs :: world where
  "demo_libs = demo_registry\<lparr>mc := mem_of 0x40000000 demo_tables,
     sos := [0x10000 \<mapsto> demo_head, 0x20000 \<mapsto> demo_lib, 0x30000 \<mapsto> zero_soinfo]\<rparr>"

lemmas demo_defs = demo_libs_def demo_head_def demo_lib_def demo_registry_def demo_so_def zero_soinfo_def

lemma demo_libs_inv: "so_inv demo_libs [0x10000, 0x20000] [0x30000]"
  by (simp add: so_inv_def demo_defs)

lemma demo_load8:
  "load8 (mem_of 0x40000000 demo_tables) a =
     (if unat (a - 0x40000000) < 52 then Some (demo_tables ! unat (a - 0x40000000)) else None)"
  by (simp add: load8_def mem_of_def in_block_def demo_tables_def)

lemma demo_read_sym1: "read_sym (mem_of 0x40000000 demo_tables) 0x40000020 = Some demo_sym"
  by (simp add: read_sym_def load32_def load16_def demo_load8)
    (simp add: demo_tables_def demo_sym_def le32_def le16_def)

lemma demo_read_sym0: "read_sym (mem_of 0x40000000 demo_tables) 0x40000010 = Some demo_sym0"
  by (simp add: read_sym_def load32_def load16_def demo_load8)
    (simp add: demo_tables_def demo_sym0_def le32_def le16_def)

lemma demo_words:
  "load32 (mem_of 0x40000000 demo_tables) 0x40000000 = Some 1"
  "load32 (mem_of 0x40000000 demo_tables) 0x40000004 = Some 0"
  "load32 (mem_of 0x40000000 demo_tables) 0x40000008 = Some 0"
  by (simp_all add: load32_def demo_load8) (simp_all add: demo_tables_def le32_def)

lemma demo_str: "str_at (mem_of 0x40000000 demo_tables) 0x40000031 ''ab''"
  by (simp add: demo_load8) (simp add: demo_tables_def char_byte_def)

lemma demo_table_ok: "hash_table_ok (mem_of 0x40000000 demo_tables) demo_lib [(demo_sym0, ''''), (demo_sym, ''ab'')]"
proof -
  have b: "b < si_nbucket demo_lib \<longleftrightarrow> b = 0" for b
    by (auto simp: demo_lib_def word_less_nat_alt unat_eq_0)
  have "idx_chain (mem_of 0x40000000 demo_tables) demo_lib 1 [1]"
    using demo_words(3) by (simp add: demo_defs)
  moreover have "sym_at (mem_of 0x40000000 demo_tables) demo_lib 1 demo_sym ''ab''"
    using demo_read_sym1 demo_str by (simp add: sym_at_def sym_addr_of_def demo_defs demo_sym_def)
  moreover have "sym_addr_of demo_lib 1 \<noteq> 0" by (simp add: sym_addr_of_def demo_defs)
  moreover have "load32 (mem_of 0x40000000 demo_tables) (si_bucket demo_lib) = Some 1"
    using demo_words(1) by (simp add: demo_defs)
  ultimately show ?thesis
    unfolding hash_table_ok_def b
    by (auto simp: less_Suc_eq demo_defs intro!: exI [of _ 1] exI [of _ "[1]"])
qed

lemma good_ab: "no_nul ''ab''" "no_nul ''x''"
  by (simp_all add: no_nul_def char_byte_def)

text \<open>
  C31: \<open>elfhash\<close> is the hash function of the System V ABI, with the top four bits clear.
\<close>

theorem elfhash_sysv: "elfhash name = foldl sysv_step 0 name \<and> unat (elfhash name) < 2 ^ 28"
proof -
  have "hash_step = sysv_step" by (intro ext hash_step_sysv)
  then show ?thesis using elfhash_bound by (simp add: elfhash_def)
qed

text \<open>
  C13: In a library with a sound hash table, \<open>soinfo_elf_lookup\<close> returns; it returns null exactly
  when no exported symbol has the name, and otherwise the table entry of one that has.
\<close>

theorem elf_lookup_complete:
  assumes "hash_table_ok (mc w) s tab" and "sos w si = Some s" and "no_nul name"
  shows "\<exists>r. soinfo_elf_lookup w si (elfhash name) name = Some r \<and>
    (r = 0 \<longleftrightarrow> (\<forall>i. \<not> exports tab name i)) \<and>
    (r = 0 \<or> (\<exists>i. exports tab name i \<and> r = sym_addr_of s (of_nat i)))"
  using elf_lookup_hash_table [OF assms] by (auto split: if_splits)

lemma demo_lib_is: "sos demo_libs 0x20000 = Some demo_lib" "mc demo_libs = mem_of 0x40000000 demo_tables"
  by (simp_all add: demo_libs_def)

lemma demo_table_ok': "hash_table_ok (mc demo_libs) demo_lib [(demo_sym0, []), (demo_sym, ''ab'')]"
  unfolding demo_lib_is(2) by (rule demo_table_ok)

lemma demo_exported: "exported demo_sym"
  by (simp add: exported_def demo_sym_def ELF32_ST_BIND_def drop_bit_eq_div)

lemma elf_lookup_complete_witness:
  "\<exists>r. soinfo_elf_lookup demo_libs 0x20000 (elfhash ''ab'') ''ab'' = Some r \<and> r \<noteq> 0 \<and>
     soinfo_elf_lookup demo_libs 0x20000 (elfhash ''x'') ''x'' = Some 0"
proof -
  have e: "exports [(demo_sym0, ''''), (demo_sym, ''ab'')] ''ab'' 1"
    "\<not> exports [(demo_sym0, ''''), (demo_sym, ''ab'')] ''x'' i" for i
    by (auto simp: exports_def demo_exported less_Suc_eq)
  show ?thesis
    using e elf_lookup_complete [OF demo_table_ok' demo_lib_is(1) good_ab(1)]
      elf_lookup_complete [OF demo_table_ok' demo_lib_is(1) good_ab(2)] by blast
qed

lemma demo_lookup_x:
  "soinfo_elf_lookup demo_libs 0x20000 (elfhash ''x'') ''x'' = Some 0"
  "soinfo_elf_lookup demo_libs 0x10000 h name = Some 0"
proof -
  have e: "\<not> exports [(demo_sym0, []), (demo_sym, ''ab'')] ''x'' i" for i
    by (auto simp: exports_def less_Suc_eq)
  show "soinfo_elf_lookup demo_libs 0x20000 (elfhash ''x'') ''x'' = Some 0"
    using elf_lookup_hash_table [OF demo_table_ok' demo_lib_is(1) good_ab(2)]
    by (auto simp: e split: if_splits)
  show "soinfo_elf_lookup demo_libs 0x10000 h name = Some 0"
    using demo_words(2) by (simp add: soinfo_elf_lookup_def demo_defs chain_lookup.simps)
qed

lemma demo_lookup_ab:
  "soinfo_elf_lookup demo_libs 0x20000 (elfhash ''ab'') ''ab'' = Some 0x40000020"
proof -
  have e: "exports [(demo_sym0, []), (demo_sym, ''ab'')] ''ab'' i \<longleftrightarrow> i = 1" for i
    by (auto simp: exports_def demo_exported less_Suc_eq)
  obtain r where "soinfo_elf_lookup demo_libs 0x20000 (elfhash ''ab'') ''ab'' = Some r"
    and "if r = 0 then \<forall>i :: nat. \<not> i = 1 else \<exists>i. i = 1 \<and> r = sym_addr_of demo_lib (of_nat i)"
    using elf_lookup_hash_table [OF demo_table_ok' demo_lib_is(1) good_ab(1)]
    unfolding e by blast
  then show ?thesis by (simp add: sym_addr_of_def demo_defs split: if_splits)
qed

text \<open>
  C27: \<open>soinfo_do_lookup\<close> searches the libraries in one order and stops at the first that exports
  the name: the executable and the referring library (the library first when it is linked
  symbolically, only once when it is the executable), then the preloaded libraries, then the
  needed ones.  It fails to return exactly where one of the searches it makes does.
\<close>

theorem do_lookup_scope_order:
  assumes "si \<noteq> 0" and "sos w si = Some t"
  shows "soinfo_do_lookup w si name needed =
    map_option sym_or_null (first_hit (lib_probe w name) (search_scope w si (si_has_DT_SYMBOLIC t) needed))"
  using assms by (rule do_lookup_first_hit)

lemma do_lookup_scope_order_witness:
  "soinfo_do_lookup demo_libs 0x10000 ''ab'' [0x10000, 0x20000] = Some (0x40000020, 0x20000)"
  using do_lookup_scope_order [of "0x10000" demo_libs demo_head "''ab''" "[0x10000, 0x20000]"]
    demo_lookup_ab demo_lookup_x(2)
  by (simp add: search_scope_def lib_probe_def sym_or_null_def demo_libs_def demo_registry_def)

text \<open>
  C39: While \<open>somain\<close> is null, as it is initialised and never assigned, a library's own symbols are
  not searched for its references: when the preloaded and the needed libraries do not have
  the name, the lookup fails even if the library exports it.
\<close>

theorem own_symbols_not_searched:
  assumes "somain w = 0" and "sos w si \<noteq> None"
    and "\<forall>p \<in> set (gLdPreloads w @ needed). soinfo_elf_lookup w p (elfhash name) name = Some 0"
  shows "soinfo_do_lookup w si name needed = Some (0, 0)"
proof -
  have arr: "lookup_array w (elfhash name) name ps = Some (0, 0)"
    if "\<forall>p \<in> set ps. soinfo_elf_lookup w p (elfhash name) name = Some 0" for ps
    using that by (induction ps) (auto simp: lookup_in_def)
  show ?thesis
    using assms arr [of "gLdPreloads w"] arr [of needed] by (auto simp: soinfo_do_lookup_def lookup_local_def)
qed

lemma own_symbols_not_searched_witness:
  "soinfo_elf_lookup demo_libs 0x20000 (elfhash ''ab'') ''ab'' = Some 0x40000020 \<and>
   soinfo_do_lookup demo_libs 0x20000 ''ab'' [0x10000] = Some (0, 0)"
  using own_symbols_not_searched [of demo_libs "0x20000" "[0x10000]" "''ab''"] demo_lookup_ab demo_lookup_x(2)
  by (simp add: demo_libs_def demo_registry_def)

text \<open>
  \<open>dlsym_linear_lookup\<close> started with null searches all libraries in load order, and started
  with a library searches from that library to the end; it returns the symbol and the library
  of the first that exports the name.
\<close>

theorem linear_lookup_order:
  assumes "so_inv w (as @ bs) FL" and "bs \<noteq> []"
  shows "dlsym_linear_lookup w name (if as = [] then 0 else hd bs) =
    map_option sym_or_null (first_hit (lib_probe w name) bs)"
  using assms by (rule linear_lookup_first_hit)

lemma linear_lookup_order_witness:
  "dlsym_linear_lookup demo_libs ''ab'' 0 = Some (0x40000020, 0x20000) \<and>
   dlsym_linear_lookup demo_libs ''x'' 0x20000 = Some (0, 0)"
  using linear_lookup_order [of demo_libs "[]" "[0x10000, 0x20000]" "[0x30000]" "''ab''"]
    linear_lookup_order [of demo_libs "[0x10000]" "[0x20000]" "[0x30000]" "''x''"] demo_libs_inv
    demo_lookup_ab demo_lookup_x
  by (simp add: lib_probe_def sym_or_null_def)

text \<open>
  \<open>dladdr_find_symbol\<close> returns the first entry of the symbol table, in the order of the table and
  of any binding, that is defined and whose interval holds the address less the library's base, or null.
\<close>

theorem find_symbol_first_covering:
  assumes "sos w si = Some s" and "si_nchain s = of_nat (length syms)" and "length syms < 4294967296"
    and "\<forall>i < length syms. read_sym (mc w) (sym_addr_of s (of_nat i)) = Some (syms ! i)"
  shows "dladdr_find_symbol w si addr =
    Some (case find (\<lambda>i. sym_covers (syms ! i) (addr - si_base s)) [0..<length syms] of
            None \<Rightarrow> 0 | Some i \<Rightarrow> sym_addr_of s (of_nat i))"
proof -
  have "unat (si_nchain s) = length syms" using assms(2,3) by simp
  then show ?thesis
    using assms(1) sym_scan_find [of "length syms" "mc w" s 0 "\<lambda>i. syms ! i" "addr - si_base s"] assms(4)
    by (simp add: dladdr_find_symbol_def ptr_of_def split: option.split)
qed

lemma find_symbol_first_covering_witness:
  "dladdr_find_symbol demo_libs 0x20000 0x40000104 = Some 0x40000020 \<and>
   dladdr_find_symbol demo_libs 0x20000 0x40000108 = Some 0"
proof -
  have t: "\<forall>i < length [demo_sym0, demo_sym].
      read_sym (mc demo_libs) (sym_addr_of demo_lib (of_nat i)) = Some ([demo_sym0, demo_sym] ! i)"
    using demo_read_sym0 demo_read_sym1 by (auto simp: less_Suc_eq sym_addr_of_def demo_defs)
  show ?thesis
    using find_symbol_first_covering [OF demo_lib_is(1) _ _ t, of "0x40000104"]
      find_symbol_first_covering [OF demo_lib_is(1) _ _ t, of "0x40000108"]
    by (simp add: upt_rec sym_covers_def demo_defs demo_sym0_def demo_sym_def sym_addr_of_def)
qed

end
