(* ===== verification/Relocate.thy ===== *)
theory Relocate
  imports Lookup
begin

text \<open>
  \<open>soinfo_relocate\<close> of emulator/linker.cpp, in the branches compiled for
  \<open>ANDROID_ARM_LINKER\<close>.  One relocation is one step on the state; the table is
  read from memory entry by entry as the code does, so that a relocation that
  writes into the table or into a symbol table is seen by the ones after it.
\<close>

section \<open>One relocation\<close>

text \<open>
  The symbol of a relocation: nothing when the code returns -1, otherwise the value, the entry
  that \<open>s\<close> points to and the name.
\<close>

definition weak_ref_ok :: "u32 \<Rightarrow> bool" where
  "weak_ref_ok type \<longleftrightarrow>
     type = R_ARM_JUMP_SLOT \<or> type = R_ARM_GLOB_DAT \<or> type = R_ARM_ABS32 \<or> type = R_ARM_RELATIVE"

definition reloc_symbol ::
  "world \<Rightarrow> u32 \<Rightarrow> soinfo \<Rightarrow> u32 list \<Rightarrow> u32 \<Rightarrow> u32 \<Rightarrow> (u32 \<times> Elf32_Sym \<times> string) option option" where
  "reloc_symbol w si s needed tp symi =
     do { sy \<leftarrow> read_sym (mc w) (sym_addr_of s symi);
          name \<leftarrow> cstr (mc w) (si_strtab s + st_name sy);
          (d, lsi) \<leftarrow> soinfo_do_lookup w si name needed;
          (if d = 0
           then Some (if ELF32_ST_BIND (st_info sy) \<noteq> STB_WEAK then None
                      else if weak_ref_ok tp then Some (0, sy, name) else None)
           else do { dsy \<leftarrow> read_sym (mc w) d; l \<leftarrow> sos w lsi;
                     Some (Some (st_value dsy + si_load_bias l, dsy, name)) }) }"

definition add_word :: "mach \<Rightarrow> u32 \<Rightarrow> u32 \<Rightarrow> mach option" where
  "add_word m a v = do { old \<leftarrow> load32 m a; store32 m a (old + v) }"

text \<open>
  \<open>R_ARM_COPY\<close>.  The trace reads \<open>s->st_size\<close>, and \<open>s\<close> is null for a relocation without a symbol.
\<close>

definition reloc_copy ::
  "world \<Rightarrow> soinfo \<Rightarrow> u32 list \<Rightarrow> u32 \<Rightarrow> u32 \<Rightarrow> (Elf32_Sym \<times> string) option \<Rightarrow> (bool \<times> world) option" where
  "reloc_copy w s needed reloc sym_addr symbol =
     (if si_flags s AND FLAG_EXE = 0 then Some (False, w)
      else do {
        (sy, name) \<leftarrow> symbol;
        (if reloc = sym_addr
         then do {
           (src, lsi) \<leftarrow> soinfo_do_lookup w 0 name needed;
           (if src = 0 then Some (False, w)
            else do {
              l \<leftarrow> sos w lsi; ssy \<leftarrow> read_sym (mc w) src;
              (if si_has_DT_SYMBOLIC l then Some (False, w)
               else if st_size sy < st_size ssy then Some (False, w)
               else do {
                 bs \<leftarrow> load_bytes (mc w) (st_value ssy + si_load_bias l) (unat (st_size ssy));
                 m \<leftarrow> store_bytes (mc w) reloc bs;
                 Some (True, w\<lparr>mc := m\<rparr>) }) }) }
         else Some (False, w)) })"

definition on_mem :: "world \<Rightarrow> mach option \<Rightarrow> (bool \<times> world) option" where
  "on_mem w r = do { m \<leftarrow> r; Some (True, w\<lparr>mc := m\<rparr>) }"

definition reloc_apply ::
  "world \<Rightarrow> soinfo \<Rightarrow> u32 list \<Rightarrow> Elf32_Rel \<Rightarrow> u32 \<Rightarrow> (Elf32_Sym \<times> string) option \<Rightarrow> (bool \<times> world) option" where
  "reloc_apply w s needed rel sym_addr symbol =
     (let type = ELF32_R_TYPE (r_info rel); reloc = r_offset rel + si_load_bias s
      in if type = R_ARM_JUMP_SLOT then on_mem w (store32 (mc w) reloc sym_addr)
         else if type = R_ARM_GLOB_DAT then on_mem w (store32 (mc w) reloc sym_addr)
         else if type = R_ARM_ABS32 then on_mem w (add_word (mc w) reloc sym_addr)
         else if type = R_ARM_REL32 then on_mem w (add_word (mc w) reloc (sym_addr - r_offset rel))
         else if type = R_ARM_RELATIVE
         then (if ELF32_R_SYM (r_info rel) \<noteq> 0 then Some (False, w)
               else on_mem w (add_word (mc w) reloc (si_base s)))
         else if type = R_ARM_COPY then reloc_copy w s needed reloc sym_addr symbol
         else Some (False, w))"

definition relocate_one :: "world \<Rightarrow> u32 \<Rightarrow> soinfo \<Rightarrow> u32 list \<Rightarrow> Elf32_Rel \<Rightarrow> (bool \<times> world) option" where
  "relocate_one w si s needed rel =
     (let type = ELF32_R_TYPE (r_info rel); sym = ELF32_R_SYM (r_info rel)
      in if type = R_ARM_NONE then Some (True, w)
         else if sym \<noteq> 0
         then do { r \<leftarrow> reloc_symbol w si s needed type sym;
                   (case r of None \<Rightarrow> Some (False, w)
                    | Some (sym_addr, sy, name) \<Rightarrow> reloc_apply w s needed rel sym_addr (Some (sy, name))) }
         else reloc_apply w s needed rel 0 None)"

section \<open>The table\<close>

fun relocate_loop :: "world \<Rightarrow> u32 \<Rightarrow> soinfo \<Rightarrow> u32 list \<Rightarrow> u32 \<Rightarrow> nat \<Rightarrow> (int \<times> world) option" where
  "relocate_loop w si s needed rel 0 = Some (0, w)"
| "relocate_loop w si s needed rel (Suc k) =
     do { r \<leftarrow> read_rel (mc w) rel;
          (ok, w) \<leftarrow> relocate_one w si s needed r;
          (if ok then relocate_loop w si s needed (rel + sizeof_Rel) k else Some (-1, w)) }"

definition soinfo_relocate :: "world \<Rightarrow> u32 \<Rightarrow> u32 \<Rightarrow> u32 \<Rightarrow> u32 list \<Rightarrow> (int \<times> world) option" where
  "soinfo_relocate w si rel cnt needed =
     do { s \<leftarrow> sos w si; relocate_loop w si s needed rel (unat cnt) }"

section \<open>What a relocation may change\<close>

text \<open>
  Only bytes of memory differ, and only writable ones.
\<close>

definition mem_step :: "mach \<Rightarrow> mach \<Rightarrow> bool" where
  "mem_step m m' \<longleftrightarrow> m' = m\<lparr>vbytes := vbytes m'\<rparr> \<and> dom (vbytes m') = dom (vbytes m) \<and>
     (\<forall>x. vbytes m' x \<noteq> vbytes m x \<longrightarrow> writable m x)"

lemma mem_step_refl [simp]: "mem_step m m"
  by (simp add: mem_step_def)

lemma mem_step_writable: "mem_step m m' \<Longrightarrow> writable m' x = writable m x"
proof -
  assume s: "mem_step m m'"
  then have "vwr m' = vwr m" by (metis mem_step_def mach.select_convs(2) mach.surjective mach.update_convs(1))
  with s show ?thesis by (auto simp: mem_step_def writable_def dom_def set_eq_iff)
qed

lemma mem_step_trans: "mem_step m m' \<Longrightarrow> mem_step m' m'' \<Longrightarrow> mem_step m m''"
  using mem_step_writable [of m m']
  by (auto simp: mem_step_def) (metis mach.update_convs(1) mach.surjective)+

lemma mem_step_put_bytes:
  assumes "writable_block m a (length bs)" and "length bs \<le> 4294967296"
  shows "mem_step m (put_bytes a bs m)"
proof -
  have w: "writable m x" if "in_block a (length bs) x" for x
    using in_blockE [OF that] assms(1) by (auto simp: writable_block_def)
  then show ?thesis
    by (auto simp: mem_step_def put_bytes_def writable_def dom_def set_eq_iff)
qed

lemma mem_step_store32: "store32 m a v = Some m' \<Longrightarrow> mem_step m m'"
  by (auto simp: store32_eq split: if_splits intro!: mem_step_put_bytes)

lemma mem_step_add_word: "add_word m a v = Some m' \<Longrightarrow> mem_step m m'"
  by (auto simp: add_word_def Option.bind_eq_Some_conv intro: mem_step_store32)

lemma mem_step_store_bytes: "store_bytes m a bs = Some m' \<Longrightarrow> length bs \<le> 4294967296 \<Longrightarrow> mem_step m m'"
  by (auto simp: store_bytes_eq split: if_splits intro!: mem_step_put_bytes)

definition only_memory :: "world \<Rightarrow> world \<Rightarrow> bool" where
  "only_memory w w' \<longleftrightarrow> (\<exists>m. w' = w\<lparr>mc := m\<rparr> \<and> mem_step (mc w) m)"

lemma only_memory_refl [simp]: "only_memory w w"
  by (auto simp: only_memory_def intro!: exI [of _ "mc w"])

lemma only_memory_trans: "only_memory w w' \<Longrightarrow> only_memory w' w'' \<Longrightarrow> only_memory w w''"
proof -
  assume "only_memory w w'" and "only_memory w' w''"
  then obtain m m2 where "w' = w\<lparr>mc := m\<rparr>" "mem_step (mc w) m" "w'' = w'\<lparr>mc := m2\<rparr>" "mem_step (mc w') m2"
    unfolding only_memory_def by blast
  then have "w'' = w\<lparr>mc := m2\<rparr>" and "mem_step (mc w) m2"
    using mem_step_trans [of "mc w" m m2] by simp_all
  then show ?thesis unfolding only_memory_def by blast
qed

lemma on_mem_only_memory:
  "on_mem w r = Some (ok, w') \<Longrightarrow> (\<And>m. r = Some m \<Longrightarrow> mem_step (mc w) m) \<Longrightarrow> only_memory w w'"
  by (auto simp: on_mem_def only_memory_def Option.bind_eq_Some_conv)

lemma reloc_copy_only_memory: "reloc_copy w s needed reloc a symbol = Some (ok, w') \<Longrightarrow> only_memory w w'"
proof -
  assume h: "reloc_copy w s needed reloc a symbol = Some (ok, w')"
  have "w' = w \<or> (\<exists>c k bs m. load_bytes (mc w) c (unat (k :: u32)) = Some bs \<and>
      store_bytes (mc w) reloc bs = Some m \<and> w' = w\<lparr>mc := m\<rparr>)"
    using h by (auto simp: reloc_copy_def Option.bind_eq_Some_conv split: if_splits prod.splits)
  then show ?thesis
  proof
    assume "w' = w" then show ?thesis by simp
  next
    assume "\<exists>c k bs m. load_bytes (mc w) c (unat (k :: u32)) = Some bs \<and>
      store_bytes (mc w) reloc bs = Some m \<and> w' = w\<lparr>mc := m\<rparr>"
    then obtain c k bs m where "load_bytes (mc w) c (unat (k :: u32)) = Some bs"
      "store_bytes (mc w) reloc bs = Some m" "w' = w\<lparr>mc := m\<rparr>" by blast
    moreover from this have "length bs \<le> 4294967296"
      using load_bytes_nth [of "mc w" c "unat k" bs] unat_le_4294967295 [of k] by linarith
    ultimately show ?thesis by (auto simp: only_memory_def intro: mem_step_store_bytes)
  qed
qed

lemma reloc_apply_only_memory:
  "reloc_apply w s needed rel a symbol = Some (ok, w') \<Longrightarrow> only_memory w w'"
  unfolding reloc_apply_def Let_def
  by (auto split: if_splits intro: on_mem_only_memory mem_step_store32 mem_step_add_word
      reloc_copy_only_memory)

lemma relocate_one_only_memory:
  "relocate_one w si s needed rel = Some (ok, w') \<Longrightarrow> only_memory w w'"
  unfolding relocate_one_def Let_def
  by (auto simp: Option.bind_eq_Some_conv split: if_splits option.splits intro: reloc_apply_only_memory)

lemma relocate_loop_only_memory:
  "relocate_loop w si s needed rel k = Some (r, w') \<Longrightarrow> only_memory w w' \<and> (r = 0 \<or> r = -1)"
proof (induction k arbitrary: w rel)
  case 0
  then show ?case by simp
next
  case (Suc k)
  then show ?case
    by (auto simp: Option.bind_eq_Some_conv split: if_splits
        dest!: relocate_one_only_memory intro: only_memory_trans)
qed

section \<open>Tables of relative relocations\<close>

definition place :: "soinfo \<Rightarrow> Elf32_Rel \<Rightarrow> u32" where
  "place s r = r_offset r + si_load_bias s"

fun rels_at :: "mach \<Rightarrow> u32 \<Rightarrow> Elf32_Rel list \<Rightarrow> bool" where
  "rels_at m a [] \<longleftrightarrow> True"
| "rels_at m a (r # rs) \<longleftrightarrow> read_rel m a = Some r \<and> rels_at m (a + sizeof_Rel) rs"

text \<open>The words of a table of \<open>n\<close> entries at \<open>a\<close>.\<close>

fun rel_words :: "u32 \<Rightarrow> nat \<Rightarrow> u32 list" where
  "rel_words a 0 = []"
| "rel_words a (Suc n) = a # (a + 4) # rel_words (a + sizeof_Rel) n"

lemma rels_at_cong:
  "rels_at m a rs \<Longrightarrow> \<forall>x \<in> set (rel_words a (length rs)). load32 m' x = load32 m x \<Longrightarrow> rels_at m' a rs"
  by (induction rs arbitrary: a) (auto simp: read_rel_def)

text \<open>
  A table is relocatable in place: its places are mapped, writable and apart from each other
  and from the words of the table.
\<close>

fun places_ok :: "mach \<Rightarrow> soinfo \<Rightarrow> u32 \<Rightarrow> Elf32_Rel list \<Rightarrow> bool" where
  "places_ok m s a [] \<longleftrightarrow> True"
| "places_ok m s a (r # rs) \<longleftrightarrow>
     writable_block m (place s r) 4 \<and> (\<forall>q \<in> set rs. apart4 (place s r) (place s q)) \<and>
     (\<forall>x \<in> set (rel_words (a + sizeof_Rel) (length rs)). apart4 (place s r) x) \<and>
     places_ok m s (a + sizeof_Rel) rs"

definition relative :: "Elf32_Rel \<Rightarrow> bool" where
  "relative r \<longleftrightarrow> ELF32_R_TYPE (r_info r) = R_ARM_RELATIVE \<and> ELF32_R_SYM (r_info r) = 0"

lemma writable_load8: "writable m a \<Longrightarrow> \<exists>b. load8 m a = Some b"
  by (auto simp: writable_def load8_def)

lemma writable_block_load32: "writable_block m a 4 \<Longrightarrow> \<exists>v. load32 m a = Some v"
proof -
  assume w: "writable_block m a 4"
  have b: "\<exists>b. load8 m (a + of_nat i) = Some b" if "i < 4" for i
    using w that writable_load8 [of m "a + of_nat i"] by (auto simp: writable_block_def)
  show ?thesis
    using b [of 0] b [of 1] b [of 2] b [of 3] by (auto simp: load32_def)
qed

lemma add_word_eq:
  "writable_block m a 4 \<Longrightarrow> load32 m a = Some v \<Longrightarrow> add_word m a x = Some (put_bytes a (bytes32 (v + x)) m)"
  by (simp add: add_word_def store32_eq)

lemma relocate_one_relative:
  "relative r \<Longrightarrow> relocate_one w si s needed r = on_mem w (add_word (mc w) (place s r) (si_base s))"
  by (simp add: relocate_one_def reloc_apply_def relative_def place_def)

lemma places_ok_put_bytes:
  assumes "writable_block m b 4"
  shows "places_ok m s a rs \<Longrightarrow> places_ok (put_bytes b (bytes32 v) m) s a rs"
  by (induction rs arbitrary: a) (use assms in auto)

lemma relative_table:
  assumes "rels_at (mc w) a rs" and "\<forall>r \<in> set rs. relative r" and "places_ok (mc w) s a rs"
  shows "\<exists>m'. relocate_loop w si s needed a (length rs) = Some (0, w\<lparr>mc := m'\<rparr>) \<and>
    (\<forall>r \<in> set rs. load32 m' (place s r) = map_option (\<lambda>v. v + si_base s) (load32 (mc w) (place s r))) \<and>
    (\<forall>b. (\<forall>r \<in> set rs. apart4 (place s r) b) \<longrightarrow> load32 m' b = load32 (mc w) b)"
  using assms
proof (induction rs arbitrary: w a)
  case Nil
  then show ?case by (auto intro!: exI [of _ "mc w"])
next
  case (Cons r rs)
  let ?p = "place s r"
  from Cons.prems have wr: "writable_block (mc w) ?p 4" by simp
  then obtain v where v: "load32 (mc w) ?p = Some v" using writable_block_load32 by blast
  let ?m = "put_bytes ?p (bytes32 (v + si_base s)) (mc w)"
  have st: "store32 (mc w) ?p (v + si_base s) = Some ?m" using wr by (simp add: store32_eq)
  have other: "load32 ?m b = load32 (mc w) b" if "apart4 ?p b" for b
    using load32_store32_other [OF st that] .
  have one: "relocate_one w si s needed r = Some (True, w\<lparr>mc := ?m\<rparr>)"
    using Cons.prems wr v by (simp add: relocate_one_relative on_mem_def add_word_eq)
  have "rels_at ?m (a + sizeof_Rel) rs"
  proof (rule rels_at_cong [of "mc w"])
    show "rels_at (mc w) (a + sizeof_Rel) rs" using Cons.prems(1) unfolding rels_at.simps by blast
    show "\<forall>x \<in> set (rel_words (a + sizeof_Rel) (length rs)). load32 ?m x = load32 (mc w) x"
      using Cons.prems(3) unfolding places_ok.simps by (intro ballI other) blast
  qed
  moreover have "places_ok ?m s (a + sizeof_Rel) rs"
    using Cons.prems(3) by (intro places_ok_put_bytes [OF wr]) simp
  ultimately obtain m' where loop: "relocate_loop (w\<lparr>mc := ?m\<rparr>) si s needed (a + sizeof_Rel) (length rs) =
        Some (0, w\<lparr>mc := m'\<rparr>)"
    and here: "\<forall>q \<in> set rs. load32 m' (place s q) = map_option (\<lambda>v. v + si_base s) (load32 ?m (place s q))"
    and there: "\<forall>b. (\<forall>q \<in> set rs. apart4 (place s q) b) \<longrightarrow> load32 m' b = load32 ?m b"
    using Cons.IH [of "w\<lparr>mc := ?m\<rparr>" "a + sizeof_Rel"] Cons.prems(2) by auto
  have "relocate_loop w si s needed a (length (r # rs)) = Some (0, w\<lparr>mc := m'\<rparr>)"
    using Cons.prems(1) one loop by simp
  moreover have "load32 m' ?p = Some (v + si_base s)"
    using there [rule_format, of ?p] Cons.prems(3) load32_store32 [OF st] by (simp add: apart4_sym)
  ultimately show ?case
    using here there other v Cons.prems(3) by (intro exI [of _ m']) auto
qed

section \<open>Symbolic relocations\<close>

text \<open>The new word at the place of a relocation that refers to a symbol.\<close>

definition reloc_value :: "u32 \<Rightarrow> u32 \<Rightarrow> u32 \<Rightarrow> u32 \<Rightarrow> u32" where
  "reloc_value tp off a old =
     (if tp = R_ARM_ABS32 then old + a else if tp = R_ARM_REL32 then old + a - off else a)"

definition word_reloc :: "u32 \<Rightarrow> bool" where
  "word_reloc tp \<longleftrightarrow> tp = R_ARM_JUMP_SLOT \<or> tp = R_ARM_GLOB_DAT \<or> tp = R_ARM_ABS32 \<or> tp = R_ARM_REL32"

lemma reloc_apply_word:
  assumes "word_reloc (ELF32_R_TYPE (r_info r))" and wr: "writable_block (mc w) (place s r) 4"
    and old: "load32 (mc w) (place s r) = Some old"
  shows "reloc_apply w s needed r a symbol =
    Some (True, w\<lparr>mc := put_bytes (place s r) (bytes32 (reloc_value (ELF32_R_TYPE (r_info r)) (r_offset r) a old)) (mc w)\<rparr>)"
  using assms unfolding word_reloc_def reloc_apply_def Let_def place_def [symmetric]
  by (auto simp: on_mem_def add_word_eq store32_eq reloc_value_def add_diff_eq)

lemma word_at_place:
  assumes "writable_block m p 4"
  shows "load32 (put_bytes p (bytes32 v) m) p = Some v"
    and "apart4 p b \<Longrightarrow> load32 (put_bytes p (bytes32 v) m) b = load32 m b"
  using load32_store32 [of m p v] load32_store32_other [of m p v _ b] assms by (simp_all add: store32_eq)

lemma word_effect:
  assumes "writable_block (mc w) p 4" and "R = Some (True, w\<lparr>mc := put_bytes p (bytes32 v) (mc w)\<rparr>)"
  shows "\<exists>m'. R = Some (True, w\<lparr>mc := m'\<rparr>) \<and> load32 m' p = Some v \<and>
    (\<forall>b. apart4 p b \<longrightarrow> load32 m' b = load32 (mc w) b)"
  using word_at_place [OF assms(1)] assms(2) by blast

lemma reloc_symbol_eq:
  assumes si: "si \<noteq> 0" "sos w si = Some s" and sy: "sym_at (mc w) s k sy name"
    and sc: "first_hit (lib_probe w name) (search_scope w si (si_has_DT_SYMBOLIC s) needed) = Some r"
  shows "reloc_symbol w si s needed tp k =
    (if fst (sym_or_null r) = 0
     then Some (if ELF32_ST_BIND (st_info sy) = STB_WEAK \<and> weak_ref_ok tp then Some (0, sy, name) else None)
     else do { dsy \<leftarrow> read_sym (mc w) (fst (sym_or_null r)); l \<leftarrow> sos w (snd (sym_or_null r));
               Some (Some (st_value dsy + si_load_bias l, dsy, name)) })"
proof -
  have "read_sym (mc w) (sym_addr_of s k) = Some sy" and "cstr (mc w) (si_strtab s + st_name sy) = Some name"
    using sy cstr_str_at by (auto simp: sym_at_def)
  then show ?thesis
    using sc by (simp add: reloc_symbol_def do_lookup_first_hit [OF si] split: prod.split)
qed

section \<open>Properties\<close>

text \<open>
  A table of relative relocations whose places are mapped, writable and do not overlap each
  other or the table is applied completely: every place holds its old word plus the base of the
  library, every other word keeps its value, and the result is 0.
\<close>

theorem relocate_relative_table:
  assumes "sos w si = Some s" and "rels_at (mc w) rel rs" and "\<forall>r \<in> set rs. relative r"
    and "places_ok (mc w) s rel rs" and "length rs < 4294967296"
  shows "\<exists>m'. soinfo_relocate w si rel (of_nat (length rs)) needed = Some (0, w\<lparr>mc := m'\<rparr>) \<and>
    (\<forall>r \<in> set rs. load32 m' (place s r) = map_option (\<lambda>v. v + si_base s) (load32 (mc w) (place s r))) \<and>
    (\<forall>b. (\<forall>r \<in> set rs. apart4 (place s r) b) \<longrightarrow> load32 m' b = load32 (mc w) b)"
  using relative_table [OF assms(2,3,4)] assms(1,5) by (simp add: soinfo_relocate_def)

definition demo_rels :: "Elf32_Rel list" where
  "demo_rels = [\<lparr>r_offset = 0x10, r_info = 0x17\<rparr>, \<lparr>r_offset = 0x14, r_info = 0x17\<rparr>]"

definition demo_rel_bytes :: "u8 list" where
  "demo_rel_bytes =
     [0x10, 0, 0, 0, 0x17, 0, 0, 0,  0x14, 0, 0, 0, 0x17, 0, 0, 0,  5, 0, 0, 0,  7, 0, 0, 0]"

definition demo_rel_world :: world where
  "demo_rel_world = demo_registry\<lparr>mc := mem_of 0x2000 demo_rel_bytes,
     sos := [0x20000 \<mapsto> demo_so ''librel.so'' 0x2000 0x1000 0]\<rparr>"

lemma demo_rel_load8:
  "load8 (mem_of 0x2000 demo_rel_bytes) a =
     (if unat (a - 0x2000) < 24 then Some (demo_rel_bytes ! unat (a - 0x2000)) else None)"
  by (simp add: load8_def mem_of_def in_block_def demo_rel_bytes_def)

lemma demo_rels_at: "rels_at (mem_of 0x2000 demo_rel_bytes) 0x2000 demo_rels"
  by (simp add: demo_rels_def read_rel_def load32_def demo_rel_load8)
    (simp add: demo_rel_bytes_def le32_def)

lemma demo_rels_relative: "\<forall>r \<in> set demo_rels. relative r"
  by (simp add: demo_rels_def relative_def ELF32_R_TYPE_def ELF32_R_SYM_def drop_bit_eq_div)

lemma mem_of_writable:
  assumes "k + n \<le> length bs" and "length bs < 4294967296"
  shows "writable_block (mem_of a bs) (a + of_nat k) n"
  unfolding writable_block_def
proof (intro allI impI)
  fix i assume "i < n"
  then have "in_block a (length bs) (a + of_nat (k + i))"
    using assms by (intro in_block_offset) auto
  then show "writable (mem_of a bs) (a + of_nat k + of_nat i)"
    by (simp add: writable_def mem_of_def add.assoc)
qed

lemma demo_places_ok: "places_ok (mem_of 0x2000 demo_rel_bytes) (demo_so ''librel.so'' 0x2000 0x1000 0) 0x2000 demo_rels"
  using mem_of_writable [of 16 4 demo_rel_bytes "0x2000"] mem_of_writable [of 20 4 demo_rel_bytes "0x2000"]
  by (simp add: demo_rels_def place_def demo_so_def apart4_def demo_rel_bytes_def)

lemma demo_rel_words:
  "load32 (mem_of 0x2000 demo_rel_bytes) 0x2010 = Some 5" "load32 (mem_of 0x2000 demo_rel_bytes) 0x2014 = Some 7"
  by (simp_all add: load32_def demo_rel_load8) (simp_all add: demo_rel_bytes_def le32_def)

lemma relocate_relative_table_witness:
  "\<exists>m'. soinfo_relocate demo_rel_world 0x20000 0x2000 2 [] = Some (0, demo_rel_world\<lparr>mc := m'\<rparr>) \<and>
     load32 m' 0x2010 = Some 0x2005 \<and> load32 m' 0x2014 = Some 0x2007"
proof -
  let ?s = "demo_so ''librel.so'' 0x2000 0x1000 0"
  have m: "mc demo_rel_world = mem_of 0x2000 demo_rel_bytes" by (simp add: demo_rel_world_def)
  have p: "place ?s \<lparr>r_offset = 0x10, r_info = 0x17\<rparr> = 0x2010" "place ?s \<lparr>r_offset = 0x14, r_info = 0x17\<rparr> = 0x2014"
    and b: "si_base ?s = 0x2000"
    by (simp_all add: place_def demo_so_def)
  have "sos demo_rel_world 0x20000 = Some ?s" by (simp add: demo_rel_world_def)
  from relocate_relative_table [OF this _ demo_rels_relative, unfolded m, OF demo_rels_at demo_places_ok, of "[]"]
  show ?thesis by (auto simp: demo_rels_def p b demo_rel_words)
qed

text \<open>
  C14: A relocation that refers to a symbol takes its value from the first library of the scope
  that exports the name (\<open>st_value\<close> plus the load bias of that library): the word at its place
  becomes that address (\<open>JUMP_SLOT\<close>, \<open>GLOB_DAT\<close>), its sum with the old word (\<open>ABS32\<close>), or that
  sum less \<open>r_offset\<close> (\<open>REL32\<close>); no word apart from it changes.
\<close>

theorem symbolic_relocation_resolves:
  assumes "si \<noteq> 0" and "sos w si = Some s" and "sym_at (mc w) s (ELF32_R_SYM (r_info r)) sy name"
    and "first_hit (lib_probe w name) (search_scope w si (si_has_DT_SYMBOLIC s) needed) = Some (Some (d, lsi))"
    and "d \<noteq> 0" and "read_sym (mc w) d = Some dsy" and "sos w lsi = Some l"
    and "ELF32_R_SYM (r_info r) \<noteq> 0" and "word_reloc (ELF32_R_TYPE (r_info r))"
    and "writable_block (mc w) (place s r) 4" and "load32 (mc w) (place s r) = Some old"
  shows "\<exists>m'. relocate_one w si s needed r = Some (True, w\<lparr>mc := m'\<rparr>) \<and>
    load32 m' (place s r) =
      Some (reloc_value (ELF32_R_TYPE (r_info r)) (r_offset r) (st_value dsy + si_load_bias l) old) \<and>
    (\<forall>b. apart4 (place s r) b \<longrightarrow> load32 m' b = load32 (mc w) b)"
proof -
  have "ELF32_R_TYPE (r_info r) \<noteq> R_ARM_NONE" using assms(9) by (auto simp: word_reloc_def)
  then have "relocate_one w si s needed r =
      reloc_apply w s needed r (st_value dsy + si_load_bias l) (Some (dsy, name))"
    using assms(5-8) reloc_symbol_eq [OF assms(1-4)] by (simp add: relocate_one_def sym_or_null_def)
  then show ?thesis
    using assms(9-11) by (intro word_effect) (simp_all add: reloc_apply_word)
qed

lemma demo_globals: "somain demo_libs = 0" "gLdPreloads demo_libs = []"
  by (simp_all add: demo_libs_def demo_registry_def)

lemma demo_scope:
  "first_hit (lib_probe demo_libs ''ab'') (search_scope demo_libs 0x20000 False [0x10000, 0x20000]) =
     Some (Some (0x40000020, 0x20000))"
  "first_hit (lib_probe demo_libs ''ab'') (search_scope demo_libs 0x20000 False [0x10000]) = Some None"
  using demo_lookup_ab demo_lookup_x(2)
  by (simp_all add: search_scope_def lib_probe_def demo_globals)

lemma demo_sym_at: "sym_at (mc demo_libs) demo_lib 1 demo_sym ''ab''"
  using demo_table_ok' by (auto simp: hash_table_ok_def dest!: spec [of _ 1])

lemma demo_pad: "writable_block (mc demo_libs) 0x4000000C 4" "load32 (mc demo_libs) 0x4000000C = Some 0"
proof -
  show "writable_block (mc demo_libs) 0x4000000C 4"
    using mem_of_writable [of 12 4 demo_tables "0x40000000"] by (simp add: demo_lib_is(2) demo_tables_def)
  show "load32 (mc demo_libs) 0x4000000C = Some 0"
    by (simp add: demo_lib_is(2) load32_def demo_load8) (simp add: demo_tables_def le32_def)
qed

lemma symbolic_relocation_resolves_witness:
  "\<exists>m'. relocate_one demo_libs 0x20000 demo_lib [0x10000, 0x20000] \<lparr>r_offset = 0xC, r_info = 0x115\<rparr> =
       Some (True, demo_libs\<lparr>mc := m'\<rparr>) \<and> load32 m' 0x4000000C = Some 0x40000100"
proof -
  let ?r = "\<lparr>r_offset = 0xC, r_info = 0x115\<rparr>"
  have r: "ELF32_R_SYM (r_info ?r) = 1" "ELF32_R_TYPE (r_info ?r) = 0x15" "place demo_lib ?r = 0x4000000C"
    by (simp_all add: ELF32_R_SYM_def ELF32_R_TYPE_def drop_bit_eq_div place_def demo_defs)
  have d: "read_sym (mc demo_libs) 0x40000020 = Some demo_sym"
    using demo_read_sym1 by (simp add: demo_lib_is(2))
  have b: "si_has_DT_SYMBOLIC demo_lib = False" "si_load_bias demo_lib = 0x40000000"
    by (simp_all add: demo_defs)
  from symbolic_relocation_resolves [OF _ demo_lib_is(1), of ?r demo_sym "''ab''" "[0x10000, 0x20000]"
      "0x40000020" "0x20000" demo_sym demo_lib 0, unfolded r b]
  show ?thesis
    using demo_sym_at demo_scope(1) d demo_lib_is(1) demo_pad
    by (auto simp: word_reloc_def reloc_value_def demo_sym_def)
qed

text \<open>
  C35: A reference to a symbol that no library of the scope defines.  It is satisfied only when its binding is weak and its
  type is \<open>R_ARM_JUMP_SLOT\<close> or \<open>R_ARM_GLOB_DAT\<close>, which makes the word at its place null, or \<open>R_ARM_ABS32\<close>,
  which leaves it as it is.  Every other one fails the relocation and writes nothing.  This is less than the comment in
  \<open>soinfo_relocate\<close> quotes from the ABI (AAELF 4.5.1.1), by which an undefined weak reference is never an error: a
  pc-relative one (\<open>R_ARM_REL32\<close>), which should have the address of its place, and a base-relative one
  (\<open>R_ARM_RELATIVE\<close> with a symbol), which should have the base, are refused too.
\<close>

theorem undefined_reference:
  assumes "si \<noteq> 0" and "sos w si = Some s" and "sym_at (mc w) s (ELF32_R_SYM (r_info r)) sy name"
    and "first_hit (lib_probe w name) (search_scope w si (si_has_DT_SYMBOLIC s) needed) = Some None"
    and "ELF32_R_SYM (r_info r) \<noteq> 0" and "ELF32_R_TYPE (r_info r) \<noteq> R_ARM_NONE"
    and "writable_block (mc w) (place s r) 4" and "load32 (mc w) (place s r) = Some old"
  shows "if ELF32_ST_BIND (st_info sy) = STB_WEAK \<and>
            ELF32_R_TYPE (r_info r) \<in> {R_ARM_JUMP_SLOT, R_ARM_GLOB_DAT, R_ARM_ABS32}
    then \<exists>m'. relocate_one w si s needed r = Some (True, w\<lparr>mc := m'\<rparr>) \<and>
      load32 m' (place s r) = Some (if ELF32_R_TYPE (r_info r) = R_ARM_ABS32 then old else 0) \<and>
      (\<forall>b. apart4 (place s r) b \<longrightarrow> load32 m' b = load32 (mc w) b)
    else relocate_one w si s needed r = Some (False, w)"
proof (cases "ELF32_ST_BIND (st_info sy) = STB_WEAK \<and>
            ELF32_R_TYPE (r_info r) \<in> {R_ARM_JUMP_SLOT, R_ARM_GLOB_DAT, R_ARM_ABS32}")
  case False
  then have "ELF32_ST_BIND (st_info sy) \<noteq> STB_WEAK \<or> \<not> weak_ref_ok (ELF32_R_TYPE (r_info r)) \<or>
            ELF32_R_TYPE (r_info r) = R_ARM_RELATIVE" by (auto simp: weak_ref_ok_def)
  with assms(5,6) reloc_symbol_eq [OF assms(1-4)] have "relocate_one w si s needed r = Some (False, w)"
    by (auto simp: relocate_one_def sym_or_null_def reloc_apply_def)
  then show ?thesis unfolding if_not_P [OF False] .
next
  case True
  then have ok: "weak_ref_ok (ELF32_R_TYPE (r_info r))" "word_reloc (ELF32_R_TYPE (r_info r))"
    by (auto simp: weak_ref_ok_def word_reloc_def)
  have "relocate_one w si s needed r = reloc_apply w s needed r 0 (Some (sy, name))"
    using True ok(1) assms(5,6) reloc_symbol_eq [OF assms(1-4)] by (auto simp: relocate_one_def sym_or_null_def)
  moreover have "reloc_value (ELF32_R_TYPE (r_info r)) (r_offset r) 0 old =
      (if ELF32_R_TYPE (r_info r) = R_ARM_ABS32 then old else 0)"
    using True by (auto simp: reloc_value_def)
  ultimately have "\<exists>m'. relocate_one w si s needed r = Some (True, w\<lparr>mc := m'\<rparr>) \<and>
      load32 m' (place s r) = Some (if ELF32_R_TYPE (r_info r) = R_ARM_ABS32 then old else 0) \<and>
      (\<forall>b. apart4 (place s r) b \<longrightarrow> load32 m' b = load32 (mc w) b)"
    using assms(7,8) ok(2) by (intro word_effect) (simp_all add: reloc_apply_word)
  then show ?thesis unfolding if_P [OF True] .
qed

text \<open>The library \<open>libab.so\<close> with a weak reference to \<open>ab\<close> in the place of the definition; the word at 12 holds 5.\<close>

definition weak_tables :: "u8 list" where
  "weak_tables =
     [1, 0, 0, 0,  0, 0, 0, 0, 0, 0, 0, 0,  5, 0, 0, 0,
      0, 0, 0, 0, 0, 0, 0, 0, 0, 0, 0, 0, 0, 0, 0, 0,
      1, 0, 0, 0, 0, 0, 0, 0, 0, 0, 0, 0, 0x22, 0, 0, 0,  0, 0x61, 0x62, 0]"

definition weak_libs :: world where
  "weak_libs = demo_libs\<lparr>mc := mem_of 0x40000000 weak_tables\<rparr>"

lemma weak_load8:
  "load8 (mc weak_libs) a = (if unat (a - 0x40000000) < 52 then Some (weak_tables ! unat (a - 0x40000000)) else None)"
  by (simp add: weak_libs_def load8_def mem_of_def in_block_def weak_tables_def)

lemma weak_facts:
  "sos weak_libs 0x20000 = Some demo_lib" "load32 (mc weak_libs) 0x4000000C = Some 5"
  "sym_at (mc weak_libs) demo_lib 1 \<lparr>st_name = 1, st_value = 0, st_size = 0, st_info = 0x22, st_other = 0, st_shndx = 0\<rparr> ''ab''"
  "first_hit (lib_probe weak_libs ''ab'') (search_scope weak_libs 0x20000 False [0x10000]) = Some None"
  "writable_block (mc weak_libs) 0x4000000C 4"
proof -
  show s: "sos weak_libs 0x20000 = Some demo_lib" by (simp add: weak_libs_def demo_libs_def)
  show "load32 (mc weak_libs) 0x4000000C = Some 5"
    by (simp add: load32_def weak_load8) (simp add: weak_tables_def le32_def)
  show "sym_at (mc weak_libs) demo_lib 1 \<lparr>st_name = 1, st_value = 0, st_size = 0, st_info = 0x22, st_other = 0, st_shndx = 0\<rparr> ''ab''"
    by (simp add: sym_at_def sym_addr_of_def read_sym_def load32_def load16_def weak_load8 demo_defs)
      (simp add: weak_tables_def le32_def le16_def char_byte_def)
  have h: "sos weak_libs 0x10000 = Some demo_head" by (simp add: weak_libs_def demo_libs_def)
  have "load32 (mc weak_libs) 0x40000004 = Some 0" by (simp add: load32_def weak_load8) (simp add: weak_tables_def le32_def)
  then have "soinfo_elf_lookup weak_libs 0x10000 n ''ab'' = Some 0" for n
    using h by (simp add: soinfo_elf_lookup_def demo_defs) (subst chain_lookup.simps, simp)
  moreover have "somain weak_libs = 0" "gLdPreloads weak_libs = []" by (simp_all add: weak_libs_def demo_globals)
  ultimately show "first_hit (lib_probe weak_libs ''ab'') (search_scope weak_libs 0x20000 False [0x10000]) = Some None"
    by (simp add: search_scope_def lib_probe_def)
  show "writable_block (mc weak_libs) 0x4000000C 4"
    using mem_of_writable [of 12 4 weak_tables "0x40000000"] by (simp add: weak_libs_def weak_tables_def)
qed

lemma undefined_reference_witness:
  "relocate_one demo_libs 0x20000 demo_lib [0x10000] \<lparr>r_offset = 0xC, r_info = 0x115\<rparr> = Some (False, demo_libs) \<and>
   relocate_one weak_libs 0x20000 demo_lib [0x10000] \<lparr>r_offset = 0xC, r_info = 0x103\<rparr> = Some (False, weak_libs) \<and>
   (\<exists>m. relocate_one weak_libs 0x20000 demo_lib [0x10000] \<lparr>r_offset = 0xC, r_info = 0x115\<rparr> = Some (True, weak_libs\<lparr>mc := m\<rparr>) \<and>
     load32 m 0x4000000C = Some 0) \<and>
   (\<exists>m. relocate_one weak_libs 0x20000 demo_lib [0x10000] \<lparr>r_offset = 0xC, r_info = 0x102\<rparr> = Some (True, weak_libs\<lparr>mc := m\<rparr>) \<and>
     load32 m 0x4000000C = Some 5)"
proof -
  let ?r = "\<lambda>i. \<lparr>r_offset = 0xC, r_info = i\<rparr>"
  have r: "ELF32_R_SYM 0x115 = 1" "ELF32_R_TYPE 0x115 = 0x15" "ELF32_R_SYM 0x103 = 1" "ELF32_R_TYPE 0x103 = 3"
    "ELF32_R_SYM 0x102 = 1" "ELF32_R_TYPE 0x102 = 2" "place demo_lib (?r i) = 0x4000000C" for i
    by (simp_all add: ELF32_R_SYM_def ELF32_R_TYPE_def drop_bit_eq_div place_def demo_defs)
  have b: "si_has_DT_SYMBOLIC demo_lib = False" "ELF32_ST_BIND (st_info demo_sym) \<noteq> STB_WEAK" "ELF32_ST_BIND 0x22 = STB_WEAK"
    by (simp_all add: demo_defs demo_sym_def ELF32_ST_BIND_def drop_bit_eq_div)
  note strong = undefined_reference [OF _ demo_lib_is(1), of "?r 0x115" demo_sym "''ab''" "[0x10000]" 0]
  let ?y = "\<lparr>st_name = 1, st_value = 0, st_size = 0, st_info = 0x22, st_other = 0, st_shndx = 0\<rparr>"
  note weak = weak_facts b r
  have "relocate_one demo_libs 0x20000 demo_lib [0x10000] (?r 0x115) = Some (False, demo_libs)"
    using strong demo_sym_at demo_scope(2) demo_pad b r by (simp split: if_splits)
  moreover have "relocate_one weak_libs 0x20000 demo_lib [0x10000] (?r 0x103) = Some (False, weak_libs)"
    using undefined_reference [OF _ weak_facts(1), of "?r 0x103" ?y "''ab''" "[0x10000]" 5] weak by simp
  moreover have "\<exists>m. relocate_one weak_libs 0x20000 demo_lib [0x10000] (?r 0x115) = Some (True, weak_libs\<lparr>mc := m\<rparr>) \<and>
     load32 m 0x4000000C = Some 0" using undefined_reference [OF _ weak_facts(1), of "?r 0x115" ?y "''ab''" "[0x10000]" 5] weak by auto
  moreover have "\<exists>m. relocate_one weak_libs 0x20000 demo_lib [0x10000] (?r 0x102) = Some (True, weak_libs\<lparr>mc := m\<rparr>) \<and>
     load32 m 0x4000000C = Some 5" using undefined_reference [OF _ weak_facts(1), of "?r 0x102" ?y "''ab''" "[0x10000]" 5] weak by auto
  ultimately show ?thesis by blast
qed

end
