(* ===== verification/Phdr.thy ===== *)
theory Phdr
  imports Memmap
begin

text \<open>
  The functions on program header tables of emulator/linker_phdr.cpp: the
  extent of the loadable segments, the passes that change the protection of
  segments, and the look-ups of the exception index and of the dynamic section.
\<close>

definition MAYBE_MAP_FLAG :: "u32 \<Rightarrow> u32 \<Rightarrow> u32 \<Rightarrow> u32" where
  "MAYBE_MAP_FLAG x frm too = (if x AND frm \<noteq> 0 then too else 0)"

definition PFLAGS_TO_PROT :: "u32 \<Rightarrow> u32" where
  "PFLAGS_TO_PROT x =
     MAYBE_MAP_FLAG x PF_X PROT_EXEC OR MAYBE_MAP_FLAG x PF_R PROT_READ OR MAYBE_MAP_FLAG x PF_W PROT_WRITE"

section \<open>The extent of the loadable segments\<close>

definition load_size_step :: "Elf32_Phdr \<Rightarrow> u32 \<times> u32 \<times> bool \<Rightarrow> u32 \<times> u32 \<times> bool" where
  "load_size_step ph acc =
     (let (min_vaddr, max_vaddr, found) = acc
      in if p_type ph \<noteq> PT_LOAD then (min_vaddr, max_vaddr, found)
         else (if p_vaddr ph < min_vaddr then p_vaddr ph else min_vaddr,
               if p_vaddr ph + p_memsz ph > max_vaddr then p_vaddr ph + p_memsz ph else max_vaddr,
               True))"

fun load_size_loop :: "mach \<Rightarrow> u32 \<Rightarrow> nat \<Rightarrow> u32 \<times> u32 \<times> bool \<Rightarrow> (u32 \<times> u32 \<times> bool) option" where
  "load_size_loop m phdr 0 acc = Some acc"
| "load_size_loop m phdr (Suc n) acc =
     do { ph \<leftarrow> read_phdr m phdr; load_size_loop m (phdr + sizeof_Phdr) n (load_size_step ph acc) }"

text \<open>The size with the two out parameters, the lowest and the highest page boundary.\<close>

definition phdr_table_get_load_size :: "mach \<Rightarrow> u32 \<Rightarrow> nat \<Rightarrow> (u32 \<times> u32 \<times> u32) option" where
  "phdr_table_get_load_size m phdr_table phdr_count =
     do { (min_vaddr, max_vaddr, found_pt_load) \<leftarrow> load_size_loop m phdr_table phdr_count (0xFFFFFFFF, 0, False);
          let min_vaddr = (if found_pt_load then min_vaddr else 0);
          let min_vaddr = PAGE_START min_vaddr;
          let max_vaddr = PAGE_END max_vaddr;
          Some (max_vaddr - min_vaddr, min_vaddr, max_vaddr) }"

section \<open>Protection of segments\<close>

fun phdr_table_set_load_prot :: "win_api \<Rightarrow> u32 \<Rightarrow> nat \<Rightarrow> u32 \<Rightarrow> u32 \<Rightarrow> mach \<Rightarrow> (int \<times> mach) option" where
  "phdr_table_set_load_prot os phdr 0 load_bias extra m = Some (0, m)"
| "phdr_table_set_load_prot os phdr (Suc n) load_bias extra m =
     do { ph \<leftarrow> read_phdr m phdr;
          if p_type ph \<noteq> PT_LOAD \<or> p_flags ph AND PF_W \<noteq> 0
          then phdr_table_set_load_prot os (phdr + sizeof_Phdr) n load_bias extra m
          else do {
            let seg_page_start = PAGE_START (p_vaddr ph) + load_bias;
            let seg_page_end = PAGE_END (p_vaddr ph + p_memsz ph) + load_bias;
            let (ret, m) = s_mprotect os seg_page_start (seg_page_end - seg_page_start)
                             (PFLAGS_TO_PROT (p_flags ph) OR extra) m;
            if ret < 0 then Some (-1, m)
            else phdr_table_set_load_prot os (phdr + sizeof_Phdr) n load_bias extra m } }"

definition phdr_table_protect_segments :: "win_api \<Rightarrow> u32 \<Rightarrow> nat \<Rightarrow> u32 \<Rightarrow> mach \<Rightarrow> (int \<times> mach) option" where
  "phdr_table_protect_segments os phdr_table phdr_count load_bias m =
     phdr_table_set_load_prot os phdr_table phdr_count load_bias 0 m"

definition phdr_table_unprotect_segments :: "win_api \<Rightarrow> u32 \<Rightarrow> nat \<Rightarrow> u32 \<Rightarrow> mach \<Rightarrow> (int \<times> mach) option" where
  "phdr_table_unprotect_segments os phdr_table phdr_count load_bias m =
     phdr_table_set_load_prot os phdr_table phdr_count load_bias PROT_WRITE m"

fun phdr_table_set_gnu_relro_prot :: "win_api \<Rightarrow> u32 \<Rightarrow> nat \<Rightarrow> u32 \<Rightarrow> u32 \<Rightarrow> mach \<Rightarrow> (int \<times> mach) option" where
  "phdr_table_set_gnu_relro_prot os phdr 0 load_bias prot m = Some (0, m)"
| "phdr_table_set_gnu_relro_prot os phdr (Suc n) load_bias prot m =
     do { ph \<leftarrow> read_phdr m phdr;
          if p_type ph \<noteq> PT_GNU_RELRO
          then phdr_table_set_gnu_relro_prot os (phdr + sizeof_Phdr) n load_bias prot m
          else do {
            let seg_page_start = PAGE_START (p_vaddr ph) + load_bias;
            let seg_page_end = PAGE_END (p_vaddr ph + p_memsz ph) + load_bias;
            let (ret, m) = s_mprotect os seg_page_start (seg_page_end - seg_page_start) prot m;
            if ret < 0 then Some (-1, m)
            else phdr_table_set_gnu_relro_prot os (phdr + sizeof_Phdr) n load_bias prot m } }"

definition phdr_table_protect_gnu_relro :: "win_api \<Rightarrow> u32 \<Rightarrow> nat \<Rightarrow> u32 \<Rightarrow> mach \<Rightarrow> (int \<times> mach) option" where
  "phdr_table_protect_gnu_relro os phdr_table phdr_count load_bias m =
     phdr_table_set_gnu_relro_prot os phdr_table phdr_count load_bias PROT_READ m"

section \<open>Look-ups in the table\<close>

text \<open>The return value and the two out parameters.\<close>

fun phdr_table_get_arm_exidx :: "mach \<Rightarrow> u32 \<Rightarrow> nat \<Rightarrow> u32 \<Rightarrow> (int \<times> u32 \<times> u32) option" where
  "phdr_table_get_arm_exidx m phdr 0 load_bias = Some (-1, 0, 0)"
| "phdr_table_get_arm_exidx m phdr (Suc n) load_bias =
     do { ph \<leftarrow> read_phdr m phdr;
          if p_type ph \<noteq> PT_ARM_EXIDX then phdr_table_get_arm_exidx m (phdr + sizeof_Phdr) n load_bias
          else Some (0, load_bias + p_vaddr ph, p_memsz ph div 8) }"

text \<open>The out parameters: the flags stay unset when there is no dynamic section.\<close>

fun phdr_table_get_dynamic_section :: "mach \<Rightarrow> u32 \<Rightarrow> nat \<Rightarrow> u32 \<Rightarrow> (u32 \<times> u32 \<times> u32 option) option" where
  "phdr_table_get_dynamic_section m phdr 0 load_bias = Some (0, 0, None)"
| "phdr_table_get_dynamic_section m phdr (Suc n) load_bias =
     do { ph \<leftarrow> read_phdr m phdr;
          if p_type ph \<noteq> PT_DYNAMIC then phdr_table_get_dynamic_section m (phdr + sizeof_Phdr) n load_bias
          else Some (load_bias + p_vaddr ph, p_memsz ph div 8, Some (p_flags ph)) }"

section \<open>The extent covers the loadable segments\<close>

definition loads :: "Elf32_Phdr list \<Rightarrow> Elf32_Phdr list" where
  "loads ps = filter (\<lambda>ph. p_type ph = PT_LOAD) ps"

definition seg_top :: "Elf32_Phdr \<Rightarrow> u32" where
  "seg_top ph = p_vaddr ph + p_memsz ph"

text \<open>A segment whose last page ends within the address space.\<close>

definition fits :: "Elf32_Phdr \<Rightarrow> bool" where
  "fits ph \<longleftrightarrow> unat (p_vaddr ph) + unat (p_memsz ph) + 4095 < 4294967296"

lemma fits_top: "fits ph \<Longrightarrow> unat (seg_top ph) = unat (p_vaddr ph) + unat (p_memsz ph)"
  by (simp add: fits_def seg_top_def unat_add_no_wrap)

lemma load_size_loop_fold:
  "phdrs_at m a ps \<Longrightarrow> load_size_loop m a (length ps) acc = Some (fold load_size_step ps acc)"
  by (induction ps arbitrary: a acc) auto

lemma fold_load_size:
  "fold load_size_step ps (a, b, f) =
     (fold min (map p_vaddr (loads ps)) a, fold max (map seg_top (loads ps)) b, f \<or> loads ps \<noteq> [])"
proof (induction ps arbitrary: a b f)
  case Nil
  then show ?case by (simp add: loads_def)
next
  case (Cons p ps)
  have "load_size_step p (a, b, f) =
      (if p_type p = PT_LOAD then (min (p_vaddr p) a, max (seg_top p) b, True) else (a, b, f))"
    by (auto simp: load_size_step_def seg_top_def min_def max_def)
  with Cons show ?case by (auto simp: loads_def)
qed

lemma get_load_size_eq:
  assumes "phdrs_at m tab ps" and "loads ps \<noteq> []"
  shows "phdr_table_get_load_size m tab (length ps) =
    (let mn = PAGE_START (Min (insert 0xFFFFFFFF (p_vaddr ` set (loads ps))));
         mx = PAGE_END (Max (insert 0 (seg_top ` set (loads ps))))
     in Some (mx - mn, mn, mx))"
proof -
  have "fold min (map p_vaddr (loads ps)) 0xFFFFFFFF = Min (insert 0xFFFFFFFF (p_vaddr ` set (loads ps)))"
    using Min.set_eq_fold [of "0xFFFFFFFF" "map p_vaddr (loads ps)"] by simp
  moreover have "fold max (map seg_top (loads ps)) 0 = Max (insert 0 (seg_top ` set (loads ps)))"
    using Max.set_eq_fold [of 0 "map seg_top (loads ps)"] by simp
  ultimately show ?thesis
    using assms by (simp add: phdr_table_get_load_size_def load_size_loop_fold fold_load_size Let_def)
qed

lemma get_load_size_none:
  assumes "phdrs_at m tab ps" and "loads ps = []"
  shows "phdr_table_get_load_size m tab (length ps) = Some (0, 0, 0)"
  using assms
  by (simp add: phdr_table_get_load_size_def load_size_loop_fold fold_load_size PAGE_END_def
      PAGE_START_def PAGE_MASK_def)

lemma min_vaddr_in:
  assumes "ls \<noteq> []" and "\<forall>ph \<in> set ls. fits ph"
  shows "Min (insert 0xFFFFFFFF (p_vaddr ` set ls)) \<in> p_vaddr ` set ls"
proof -
  have "Min (insert 0xFFFFFFFF (p_vaddr ` set ls)) \<in> insert 0xFFFFFFFF (p_vaddr ` set ls)"
    by (intro Min_in) auto
  moreover obtain ph where ph: "ph \<in> set ls" using assms(1) by (cases ls) auto
  with assms(2) have "unat (p_vaddr ph) < 4294967295" by (auto simp: fits_def)
  then have "p_vaddr ph < 0xFFFFFFFF" by (simp add: word_less_nat_alt)
  moreover have "Min (insert 0xFFFFFFFF (p_vaddr ` set ls)) \<le> p_vaddr ph"
    using ph by (intro Min_le) auto
  ultimately show ?thesis by auto
qed

lemma max_top_in:
  assumes "ls \<noteq> []"
  shows "Max (insert 0 (seg_top ` set ls)) \<in> seg_top ` set ls"
proof -
  have "Max (insert 0 (seg_top ` set ls)) \<in> insert 0 (seg_top ` set ls)"
    by (intro Max_in) auto
  moreover obtain ph where ph: "ph \<in> set ls" using assms(1) by (cases ls) auto
  moreover have le: "seg_top ph \<le> Max (insert 0 (seg_top ` set ls))"
    using ph by (intro Max_ge) auto
  have "Max (insert 0 (seg_top ` set ls)) = 0 \<Longrightarrow> seg_top ph = 0"
    using le by (simp only: word_le_0_iff)
  ultimately show ?thesis by (metis imageI insertE)
qed

text \<open>
  The region the loader reserves: its bounds are page boundaries of loadable
  segments, every loadable segment lies inside, and its size does not wrap.
\<close>

lemma load_size_covers:
  assumes "phdrs_at m tab ps" and ne: "loads ps \<noteq> []" and fit: "\<forall>ph \<in> set (loads ps). fits ph"
  shows "\<exists>size mn mx. phdr_table_get_load_size m tab (length ps) = Some (size, mn, mx) \<and>
    unat mn \<le> unat mx \<and> unat size = unat mx - unat mn \<and> 4096 dvd unat mn \<and> 4096 dvd unat mx \<and>
    (\<exists>ph \<in> set (loads ps). mn = PAGE_START (p_vaddr ph)) \<and>
    (\<exists>ph \<in> set (loads ps). mx = PAGE_END (seg_top ph)) \<and>
    (\<forall>ph \<in> set (loads ps). unat mn \<le> unat (p_vaddr ph) \<and>
       unat (p_vaddr ph) + unat (p_memsz ph) \<le> unat mx)"
proof -
  let ?ls = "set (loads ps)"
  let ?lo = "Min (insert 0xFFFFFFFF (p_vaddr ` ?ls))" and ?hi = "Max (insert 0 (seg_top ` ?ls))"
  from min_vaddr_in [OF ne fit] obtain pl where pl: "pl \<in> ?ls" "?lo = p_vaddr pl" by auto
  from max_top_in [OF ne] obtain ph where ph: "ph \<in> ?ls" "?hi = seg_top ph" by auto
  let ?mn = "PAGE_START (p_vaddr pl)" and ?mx = "PAGE_END (seg_top ph)"
  have eq: "phdr_table_get_load_size m tab (length ps) = Some (?mx - ?mn, ?mn, ?mx)"
    unfolding get_load_size_eq [OF assms(1) ne] Let_def pl(2) ph(2) ..
  have hi_ok: "unat (seg_top ph) + 4095 < 4294967296"
    using ph fit fits_top [of ph] by (simp add: fits_def)
  have inside: "unat ?mn \<le> unat (p_vaddr q) \<and> unat (p_vaddr q) + unat (p_memsz q) \<le> unat ?mx"
    if q: "q \<in> ?ls" for q
  proof -
    have "?lo \<le> p_vaddr q" and "seg_top q \<le> ?hi" using q by (auto intro!: Min_le Max_ge)
    then have "unat (p_vaddr pl) \<le> unat (p_vaddr q)" "unat (seg_top q) \<le> unat (seg_top ph)"
      by (simp_all only: word_le_nat_alt pl(2) ph(2))
    then show ?thesis
      using unat_PAGE_START_le [of "p_vaddr pl"] PAGE_END_least(1) [OF hi_ok] fits_top [of q] q fit
      by auto
  qed
  have le: "unat ?mn \<le> unat ?mx"
    using inside [OF pl(1)] by linarith
  then have "unat (?mx - ?mn) = unat ?mx - unat ?mn"
    by (simp add: unat_sub word_le_nat_alt)
  then have "unat ?mn \<le> unat ?mx \<and> unat (?mx - ?mn) = unat ?mx - unat ?mn \<and>
      4096 dvd unat ?mn \<and> 4096 dvd unat ?mx \<and>
      (\<exists>ph \<in> ?ls. ?mn = PAGE_START (p_vaddr ph)) \<and> (\<exists>ph \<in> ?ls. ?mx = PAGE_END (seg_top ph)) \<and>
      (\<forall>ph \<in> ?ls. unat ?mn \<le> unat (p_vaddr ph) \<and> unat (p_vaddr ph) + unat (p_memsz ph) \<le> unat ?mx)"
    using le inside pl(1) ph(1) PAGE_START_dvd PAGE_END_dvd by blast
  with eq show ?thesis by blast
qed

section \<open>The protection passes\<close>

text \<open>The reference: change one range after the other, and stop at the first failure.\<close>

fun mprotect_all :: "win_api \<Rightarrow> (u32 \<times> u32 \<times> u32) list \<Rightarrow> mach \<Rightarrow> int \<times> mach" where
  "mprotect_all os [] m = (0, m)"
| "mprotect_all os ((start, len, prot) # rs) m =
     (let (ret, m') = s_mprotect os start len prot m
      in if ret < 0 then (-1, m') else mprotect_all os rs m')"

text \<open>The whole pages that a segment touches, once loaded.\<close>

definition seg_pages :: "u32 \<Rightarrow> Elf32_Phdr \<Rightarrow> u32 \<times> u32" where
  "seg_pages load_bias ph =
     (PAGE_START (p_vaddr ph) + load_bias, PAGE_END (seg_top ph) - PAGE_START (p_vaddr ph))"

definition prot_request :: "u32 \<Rightarrow> (Elf32_Phdr \<Rightarrow> u32) \<Rightarrow> Elf32_Phdr \<Rightarrow> u32 \<times> u32 \<times> u32" where
  "prot_request load_bias prot ph = (fst (seg_pages load_bias ph), snd (seg_pages load_bias ph), prot ph)"

text \<open>
  What \<open>VirtualProtect\<close> is documented to leave alone: the contents of memory.
\<close>

definition protect_keeps_bytes :: "win_api \<Rightarrow> bool" where
  "protect_keeps_bytes os \<longleftrightarrow> (\<forall>a l p m. vbytes (snd (VirtualProtect os a l p m)) = vbytes m)"

lemma load8_s_mprotect:
  "protect_keeps_bytes os \<Longrightarrow> load8 (snd (s_mprotect os a l p m)) x = load8 m x"
  by (simp add: protect_keeps_bytes_def s_mprotect_def load8_def case_prod_unfold Let_def)

lemma phdrs_at_s_mprotect:
  "protect_keeps_bytes os \<Longrightarrow> phdrs_at (snd (s_mprotect os s l p m)) a ps = phdrs_at m a ps"
  by (induction ps arbitrary: a)
    (auto simp: read_phdr_def load32_def load8_s_mprotect)

text \<open>
  The contract of a pass over a program header table that changes protections:
  which entries it selects and the protection it asks for.  Both passes of
  linker_phdr.cpp meet it.
\<close>

locale prot_pass =
  fixes os :: win_api
    and pass :: "u32 \<Rightarrow> nat \<Rightarrow> u32 \<Rightarrow> mach \<Rightarrow> (int \<times> mach) option"
    and sel :: "Elf32_Phdr \<Rightarrow> bool"
    and prot :: "Elf32_Phdr \<Rightarrow> u32"
  assumes pass_end: "pass a 0 b m = Some (0, m)"
    and pass_skip: "read_phdr m a = Some ph \<Longrightarrow> \<not> sel ph \<Longrightarrow> pass a (Suc n) b m = pass (a + sizeof_Phdr) n b m"
    and pass_protect: "read_phdr m a = Some ph \<Longrightarrow> sel ph \<Longrightarrow>
      s_mprotect os (fst (seg_pages b ph)) (snd (seg_pages b ph)) (prot ph) m = (ret, m') \<Longrightarrow>
      pass a (Suc n) b m = (if ret < 0 then Some (-1, m') else pass (a + sizeof_Phdr) n b m')"
begin

lemma pass_eq:
  assumes "protect_keeps_bytes os"
  shows "phdrs_at m a ps \<Longrightarrow>
    pass a (length ps) b m = Some (mprotect_all os (map (prot_request b prot) (filter sel ps)) m)"
proof (induction ps arbitrary: a m)
  case Nil
  then show ?case by (simp add: pass_end)
next
  case (Cons ph ps)
  then have ph: "read_phdr m a = Some ph" and ps: "phdrs_at m (a + sizeof_Phdr) ps" by simp_all
  show ?case
  proof (cases "sel ph")
    case False
    with ph ps Cons.IH show ?thesis by (simp add: pass_skip)
  next
    case True
    obtain ret m' where r: "s_mprotect os (fst (seg_pages b ph)) (snd (seg_pages b ph)) (prot ph) m = (ret, m')"
      by (rule prod.exhaust)
    have "phdrs_at m' (a + sizeof_Phdr) ps"
      using phdrs_at_s_mprotect [OF assms, THEN iffD2, OF ps] r by (metis snd_conv)
    with Cons.IH True r ph show ?thesis
      by (simp add: pass_protect [OF ph True r] prot_request_def)
  qed
qed

lemma pass_none_selected:
  "protect_keeps_bytes os \<Longrightarrow> phdrs_at m a ps \<Longrightarrow> \<forall>ph \<in> set ps. \<not> sel ph \<Longrightarrow>
     pass a (length ps) b m = Some (0, m)"
  by (simp add: pass_eq filter_False)

end

definition text_segment :: "Elf32_Phdr \<Rightarrow> bool" where
  "text_segment ph \<longleftrightarrow> p_type ph = PT_LOAD \<and> p_flags ph AND PF_W = 0"

interpretation load_prot: prot_pass os
  "\<lambda>a n b m. phdr_table_set_load_prot os a n b extra m" text_segment
  "\<lambda>ph. PFLAGS_TO_PROT (p_flags ph) OR extra" for os extra
  by unfold_locales (auto simp: text_segment_def seg_pages_def seg_top_def)

interpretation relro_prot: prot_pass os
  "\<lambda>a n b m. phdr_table_set_gnu_relro_prot os a n b flags m"
  "\<lambda>ph. p_type ph = PT_GNU_RELRO" "\<lambda>ph. flags" for os flags
  by unfold_locales (auto simp: seg_pages_def seg_top_def)

section \<open>Which entry a look-up finds\<close>

lemma get_dynamic_section_eq:
  "phdrs_at m a ps \<Longrightarrow> phdr_table_get_dynamic_section m a (length ps) b =
     (case find (\<lambda>ph. p_type ph = PT_DYNAMIC) ps of
        None \<Rightarrow> Some (0, 0, None)
      | Some ph \<Rightarrow> Some (b + p_vaddr ph, p_memsz ph div 8, Some (p_flags ph)))"
  by (induction ps arbitrary: a) auto

lemma get_arm_exidx_eq:
  "phdrs_at m a ps \<Longrightarrow> phdr_table_get_arm_exidx m a (length ps) b =
     (case find (\<lambda>ph. p_type ph = PT_ARM_EXIDX) ps of
        None \<Rightarrow> Some (-1, 0, 0)
      | Some ph \<Rightarrow> Some (0, b + p_vaddr ph, p_memsz ph div 8))"
  by (induction ps arbitrary: a) auto

end
