(* ===== verification/Elf_Reader.thy ===== *)
theory Elf_Reader
  imports Phdr
begin

text \<open>
  The class \<open>ElfReader\<close> of emulator/linker_phdr.cpp: it reads and checks the
  header of an ELF file, maps its program header table, reserves the address
  range of its loadable segments, loads them, and finds the table in the loaded
  image.  The object is the record \<open>elf_reader\<close>; each method takes the object
  and the machine and returns its \<open>bool\<close> with both updated.
\<close>

record elf_reader =
  er_name :: string
  er_fd :: int
  er_header :: Elf32_Ehdr
  er_phdr_num :: u32
  er_phdr_mmap :: u32
  er_phdr_table :: u32
  er_phdr_size :: u32
  er_load_start :: u32
  er_load_size :: u32
  er_load_bias :: u32
  er_loaded_phdr :: u32

section \<open>Construction and destruction\<close>

text \<open>The header is not initialised by the constructors; it is read before it is used.\<close>

definition ElfReader :: "string \<Rightarrow> int \<Rightarrow> elf_reader" where
  "ElfReader name fd =
     \<lparr>er_name = name, er_fd = fd, er_header = decode_ehdr [], er_phdr_num = 0, er_phdr_mmap = 0,
      er_phdr_table = 0, er_phdr_size = 0, er_load_start = 0, er_load_size = 0, er_load_bias = 0,
      er_loaded_phdr = 0\<rparr>"

definition ElfReader_mapped :: "string \<Rightarrow> int \<Rightarrow> u32 \<Rightarrow> u32 \<Rightarrow> elf_reader" where
  "ElfReader_mapped name fd base sz =
     (ElfReader name fd)\<lparr>er_load_start := base, er_load_size := sz\<rparr>"

definition ElfReader_destroy :: "win_api \<Rightarrow> elf_reader \<Rightarrow> mach \<Rightarrow> mach" where
  "ElfReader_destroy os r m =
     (let m = (if er_fd r \<noteq> -1 then c_close (er_fd r) m else m)
      in if er_phdr_mmap r \<noteq> 0 then snd (s_munmap os (er_phdr_mmap r) (er_phdr_size r) m) else m)"

section \<open>Header\<close>

text \<open>
  \<open>rc\<close> is a \<open>size_t\<close>: the error value -1 of \<open>read\<close> becomes its largest number,
  and the test \<open>rc < 0\<close> never holds.
\<close>

definition ReadElfHeader :: "elf_reader \<Rightarrow> mach \<Rightarrow> bool \<times> elf_reader \<times> mach" where
  "ReadElfHeader r m =
     (let (res, m) = c_read (er_fd r) sizeof_Ehdr m;
          rc = (case res of None \<Rightarrow> -1 | Some bs \<Rightarrow> of_nat (length bs)) :: u32
      in if rc < 0 then (False, r, m)
         else if rc \<noteq> of_nat sizeof_Ehdr then (False, r, m)
         else (True, r\<lparr>er_header := decode_ehdr (case res of None \<Rightarrow> [] | Some bs \<Rightarrow> bs)\<rparr>, m))"

definition VerifyElfHeader :: "Elf32_Ehdr \<Rightarrow> bool" where
  "VerifyElfHeader h =
     (if byte_at (e_ident h) 0 \<noteq> byte_at ELFMAG 0 \<or> byte_at (e_ident h) 1 \<noteq> byte_at ELFMAG 1 \<or>
         byte_at (e_ident h) 2 \<noteq> byte_at ELFMAG 2 \<or> byte_at (e_ident h) 3 \<noteq> byte_at ELFMAG 3 then False
      else if byte_at (e_ident h) EI_CLASS \<noteq> ELFCLASS32 then False
      else if byte_at (e_ident h) EI_DATA \<noteq> ELFDATA2LSB then False
      else if e_version h \<noteq> EV_CURRENT then False
      else if e_machine h \<noteq> EM_ARM then False
      else True)"

definition ReadProgramHeader :: "win_api \<Rightarrow> elf_reader \<Rightarrow> mach \<Rightarrow> bool \<times> elf_reader \<times> mach" where
  "ReadProgramHeader os r m =
     (let r = r\<lparr>er_phdr_num := ucast (e_phnum (er_header r))\<rparr>;
          e_phoff = e_phoff (er_header r)
      in if er_phdr_num r < 1 \<or> er_phdr_num r > 65536 div sizeof_Phdr then (False, r, m)
         else let page_min = PAGE_START e_phoff;
                  page_max = PAGE_END (e_phoff + er_phdr_num r * sizeof_Phdr);
                  page_offset = PAGE_OFFSET e_phoff;
                  r = r\<lparr>er_phdr_size := page_max - page_min\<rparr>;
                  (mmap_result, m) = s_mmap os 0 (er_phdr_size r) PROT_READ MAP_PRIVATE (er_fd r) page_min m
              in if mmap_result = MAP_FAILED then (False, r, m)
                 else (True, r\<lparr>er_phdr_mmap := mmap_result, er_phdr_table := mmap_result + page_offset\<rparr>, m))"

section \<open>Address space and segments\<close>

definition ReserveAddressSpace :: "win_api \<Rightarrow> elf_reader \<Rightarrow> mach \<Rightarrow> (bool \<times> elf_reader \<times> mach) option" where
  "ReserveAddressSpace os r m =
     do { (size, min_vaddr, _) \<leftarrow> phdr_table_get_load_size m (er_phdr_table r) (unat (er_phdr_num r));
          let r = r\<lparr>er_load_size := size\<rparr>;
          if er_load_size r = 0 then Some (False, r, m)
          else do {
            let (start, m) = s_mmap os min_vaddr (er_load_size r) PROT_NONE
                               (MAP_PRIVATE OR MAP_ANONYMOUS) (-1) 0 m;
            if start = MAP_FAILED then Some (False, r, m)
            else Some (True, r\<lparr>er_load_start := start, er_load_bias := start - min_vaddr\<rparr>, m) } }"

definition c_memset :: "mach \<Rightarrow> u32 \<Rightarrow> u8 \<Rightarrow> nat \<Rightarrow> mach option" where
  "c_memset m a c n = store_bytes m a (replicate n c)"

text \<open>One round of the loop of \<open>LoadSegments\<close>, for a loadable segment.\<close>

definition load_segment :: "win_api \<Rightarrow> int \<Rightarrow> u32 \<Rightarrow> Elf32_Phdr \<Rightarrow> mach \<Rightarrow> (bool \<times> mach) option" where
  "load_segment os fd load_bias ph m =
     (let seg_start = p_vaddr ph + load_bias;
          seg_end = seg_start + p_memsz ph;
          seg_page_start = PAGE_START seg_start;
          seg_page_end = PAGE_END seg_end;
          seg_file_end = seg_start + p_filesz ph;
          file_start = p_offset ph;
          file_end = file_start + p_filesz ph;
          file_page_start = PAGE_START file_start;
          file_length = file_end - file_page_start;
          prot = PFLAGS_TO_PROT (p_flags ph);
          (seg_addr, m) = (if file_length \<noteq> 0
                           then s_mmap os seg_page_start file_length prot (MAP_FIXED OR MAP_PRIVATE)
                                  fd file_page_start m
                           else (0, m))
      in if file_length \<noteq> 0 \<and> seg_addr = MAP_FAILED then Some (False, m)
         else do {
           m \<leftarrow> (if p_flags ph AND PF_W \<noteq> 0 \<and> PAGE_OFFSET seg_file_end > 0
                then c_memset m seg_file_end 0 (unat (PAGE_SIZE - PAGE_OFFSET seg_file_end))
                else Some m);
           let seg_file_end = PAGE_END seg_file_end;
           if seg_page_end > seg_file_end
           then let (zeromap, m) = s_mmap os seg_file_end (seg_page_end - seg_file_end) prot
                                     (MAP_FIXED OR MAP_ANONYMOUS OR MAP_PRIVATE) (-1) 0 m
                in if zeromap = MAP_FAILED then Some (False, m) else Some (True, m)
           else Some (True, m) })"

fun load_segments_loop :: "win_api \<Rightarrow> int \<Rightarrow> u32 \<Rightarrow> u32 \<Rightarrow> nat \<Rightarrow> mach \<Rightarrow> (bool \<times> mach) option" where
  "load_segments_loop os fd load_bias phdr 0 m = Some (True, m)"
| "load_segments_loop os fd load_bias phdr (Suc n) m =
     do { ph \<leftarrow> read_phdr m phdr;
          if p_type ph \<noteq> PT_LOAD then load_segments_loop os fd load_bias (phdr + sizeof_Phdr) n m
          else do { (ok, m) \<leftarrow> load_segment os fd load_bias ph m;
                    if ok then load_segments_loop os fd load_bias (phdr + sizeof_Phdr) n m
                    else Some (False, m) } }"

definition LoadSegments :: "win_api \<Rightarrow> elf_reader \<Rightarrow> mach \<Rightarrow> (bool \<times> mach) option" where
  "LoadSegments os r m =
     load_segments_loop os (er_fd r) (er_load_bias r) (er_phdr_table r) (unat (er_phdr_num r)) m"

section \<open>The program header table in the image\<close>

fun find_type :: "mach \<Rightarrow> u32 \<Rightarrow> nat \<Rightarrow> u32 \<Rightarrow> Elf32_Phdr option option" where
  "find_type m phdr 0 t = Some None"
| "find_type m phdr (Suc n) t =
     do { ph \<leftarrow> read_phdr m phdr;
          if p_type ph = t then Some (Some ph) else find_type m (phdr + sizeof_Phdr) n t }"

fun check_phdr_loop :: "mach \<Rightarrow> u32 \<Rightarrow> nat \<Rightarrow> u32 \<Rightarrow> u32 \<Rightarrow> u32 \<Rightarrow> bool option" where
  "check_phdr_loop m phdr 0 load_bias loaded loaded_end = Some False"
| "check_phdr_loop m phdr (Suc n) load_bias loaded loaded_end =
     do { ph \<leftarrow> read_phdr m phdr;
          if p_type ph \<noteq> PT_LOAD then check_phdr_loop m (phdr + sizeof_Phdr) n load_bias loaded loaded_end
          else do {
            let seg_start = p_vaddr ph + load_bias;
            let seg_end = p_filesz ph + seg_start;
            if seg_start \<le> loaded \<and> loaded_end \<le> seg_end then Some True
            else check_phdr_loop m (phdr + sizeof_Phdr) n load_bias loaded loaded_end } }"

definition CheckPhdr :: "elf_reader \<Rightarrow> u32 \<Rightarrow> mach \<Rightarrow> (bool \<times> elf_reader) option" where
  "CheckPhdr r loaded m =
     do { let loaded_end = loaded + er_phdr_num r * sizeof_Phdr;
          ok \<leftarrow> check_phdr_loop m (er_phdr_table r) (unat (er_phdr_num r)) (er_load_bias r) loaded loaded_end;
          Some (if ok then (True, r\<lparr>er_loaded_phdr := loaded\<rparr>) else (False, r)) }"

definition FindPhdr :: "elf_reader \<Rightarrow> mach \<Rightarrow> (bool \<times> elf_reader) option" where
  "FindPhdr r m =
     do { p \<leftarrow> find_type m (er_phdr_table r) (unat (er_phdr_num r)) PT_PHDR;
          (case p of
             Some ph \<Rightarrow> CheckPhdr r (er_load_bias r + p_vaddr ph) m
           | None \<Rightarrow>
               do { q \<leftarrow> find_type m (er_phdr_table r) (unat (er_phdr_num r)) PT_LOAD;
                    (case q of
                       None \<Rightarrow> Some (False, r)
                     | Some ph \<Rightarrow>
                         if p_offset ph = 0
                         then do { let elf_addr = er_load_bias r + p_vaddr ph;
                                   offset \<leftarrow> load32 m (elf_addr + 28);
                                   CheckPhdr r (elf_addr + offset) m }
                         else Some (False, r)) }) }"

text \<open>The chain of \<open>&&\<close>: each step runs only when the one before it succeeded.\<close>

definition Load :: "win_api \<Rightarrow> elf_reader \<Rightarrow> mach \<Rightarrow> (bool \<times> elf_reader \<times> mach) option" where
  "Load os r m =
     (let (ok, r, m) = ReadElfHeader r m
      in if \<not> ok then Some (False, r, m)
         else if \<not> VerifyElfHeader (er_header r) then Some (False, r, m)
         else let (ok, r, m) = ReadProgramHeader os r m
              in if \<not> ok then Some (False, r, m)
                 else do {
                   (ok, r, m) \<leftarrow> ReserveAddressSpace os r m;
                   if \<not> ok then Some (False, r, m)
                   else do {
                     (ok, m) \<leftarrow> LoadSegments os r m;
                     if \<not> ok then Some (False, r, m)
                     else do { (ok, r) \<leftarrow> FindPhdr r m; Some (ok, r, m) } } })"

section \<open>The loops as searches of the table\<close>

lemma find_type_eq: "phdrs_at m a ps \<Longrightarrow> find_type m a (length ps) t = Some (find (\<lambda>ph. p_type ph = t) ps)"
  by (induction ps arbitrary: a) auto

definition contains_table :: "u32 \<Rightarrow> u32 \<Rightarrow> u32 \<Rightarrow> Elf32_Phdr \<Rightarrow> bool" where
  "contains_table bias loaded loaded_end ph \<longleftrightarrow>
     p_vaddr ph + bias \<le> loaded \<and> loaded_end \<le> p_filesz ph + (p_vaddr ph + bias)"

lemma check_phdr_loop_eq:
  "phdrs_at m a ps \<Longrightarrow> check_phdr_loop m a (length ps) b l e =
     Some (\<exists>ph \<in> set (loads ps). contains_table b l e ph)"
  by (induction ps arbitrary: a) (auto simp: loads_def contains_table_def Let_def)

lemma CheckPhdr_eq:
  assumes "phdrs_at m (er_phdr_table r) ps" and "unat (er_phdr_num r) = length ps"
  shows "CheckPhdr r loaded m =
    (if \<exists>ph \<in> set (loads ps). contains_table (er_load_bias r) loaded (loaded + er_phdr_num r * sizeof_Phdr) ph
     then Some (True, r\<lparr>er_loaded_phdr := loaded\<rparr>) else Some (False, r))"
  unfolding CheckPhdr_def assms(2) Let_def by (simp add: check_phdr_loop_eq [OF assms(1)])

lemma FindPhdr_True:
  assumes "FindPhdr r m = Some (True, r')"
  shows "CheckPhdr r (er_loaded_phdr r') m = Some (True, r')" and "r' = r\<lparr>er_loaded_phdr := er_loaded_phdr r'\<rparr>"
proof -
  obtain l where l: "CheckPhdr r l m = Some (True, r')"
    using assms by (auto simp: FindPhdr_def Option.bind_eq_Some_conv Let_def split: option.splits if_splits)
  then have "r' = r\<lparr>er_loaded_phdr := l\<rparr>"
    by (auto simp: CheckPhdr_def Option.bind_eq_Some_conv Let_def split: if_splits)
  moreover from this have "er_loaded_phdr r' = l" by simp
  ultimately show "CheckPhdr r (er_loaded_phdr r') m = Some (True, r')"
    and "r' = r\<lparr>er_loaded_phdr := er_loaded_phdr r'\<rparr>" using l by simp_all
qed

lemma byte_at_take: "i < n \<Longrightarrow> n \<le> length bs \<Longrightarrow> byte_at (take n bs) i = bs ! i"
  by (simp add: byte_at_def)

lemma word_at_take: "i + 4 \<le> n \<Longrightarrow> word_at (take n bs) i = word_at bs i"
  by (simp add: word_at_def byte_at_def)

lemma half_at_take: "i + 2 \<le> n \<Longrightarrow> half_at (take n bs) i = half_at bs i"
  by (simp add: half_at_def byte_at_def)

lemma magic_take:
  "4 \<le> length bs \<Longrightarrow> take 4 bs = ELFMAG \<longleftrightarrow>
     bs ! 0 = 0x7f \<and> bs ! 1 = 0x45 \<and> bs ! 2 = 0x4c \<and> bs ! 3 = 0x46"
  by (auto simp: list_eq_iff_nth_eq All_less_Suc2 numeral_eq_Suc)

lemma VerifyElfHeader_decode:
  assumes "52 \<le> length bs"
  shows "VerifyElfHeader (decode_ehdr (take 52 bs)) \<longleftrightarrow>
    take 4 bs = ELFMAG \<and> bs ! 4 = ELFCLASS32 \<and> bs ! 5 = ELFDATA2LSB \<and>
    word_at bs 20 = EV_CURRENT \<and> half_at bs 18 = EM_ARM"
proof -
  have "4 \<le> length bs" using assms by simp
  then show ?thesis
    unfolding VerifyElfHeader_def decode_ehdr_def magic_take [OF \<open>4 \<le> length bs\<close>]
    using assms by (simp add: byte_at_take word_at_take half_at_take) (auto simp: byte_at_def)
qed

section \<open>Properties\<close>

text \<open>
  C37: a file that \<open>ReadElfHeader\<close> reads from its start is accepted by it and by
  \<open>VerifyElfHeader\<close> exactly when it holds a whole ELF header whose bytes spell the
  ELF magic, the 32-bit class, little-endian data, version 1 and the ARM machine
  number.
\<close>

theorem header_accepted:
  assumes "fd_file m (er_fd r) = Some \<lparr>f_data = bs, f_pos = 0\<rparr>"
    and "ReadElfHeader r m = (ok, r', m')"
  shows "ok \<and> VerifyElfHeader (er_header r') \<longleftrightarrow>
      52 \<le> length bs \<and> take 4 bs = ELFMAG \<and> bs ! 4 = ELFCLASS32 \<and> bs ! 5 = ELFDATA2LSB \<and>
      word_at bs 20 = EV_CURRENT \<and> half_at bs 18 = EM_ARM"
proof -
  have n: "of_nat (min (length bs) 52) = (52 :: u32) \<longleftrightarrow> 52 \<le> length bs"
  proof
    assume "of_nat (min (length bs) 52) = (52 :: u32)"
    then have "unat (of_nat (min (length bs) 52) :: u32) = 52" by simp
    then show "52 \<le> length bs" by (subst (asm) unat_of_nat_u32) auto
  qed simp
  then have "ok \<longleftrightarrow> 52 \<le> length bs" and "ok \<Longrightarrow> er_header r' = decode_ehdr (take 52 bs)"
    using assms by (auto simp: ReadElfHeader_def c_read_def Let_def split: if_splits)
  with VerifyElfHeader_decode [of bs] show ?thesis by auto
qed

text \<open>A header of an ARM shared object, and the machine that has it open as descriptor 3.\<close>

definition demo_ehdr :: "u8 list" where
  "demo_ehdr = [0x7f, 0x45, 0x4c, 0x46, 1, 1, 1, 0, 0, 0, 0, 0, 0, 0, 0, 0, 3, 0, 40, 0, 1, 0, 0, 0,
     0, 0, 0, 0, 52, 0, 0, 0, 0, 0, 0, 0, 0, 0, 0, 5, 52, 0, 32, 0, 1, 0, 40, 0, 0, 0, 0, 0]"

definition demo_mach :: "u8 list \<Rightarrow> mach" where
  "demo_mach bs = \<lparr>vbytes = (\<lambda>a. None), vwr = (\<lambda>a. True), fs = (\<lambda>p. None),
     fds = [None, None, None, Some \<lparr>f_data = bs, f_pos = 0\<rparr>], errno = 0\<rparr>"

lemma header_accepted_witness:
  "fst (ReadElfHeader (ElfReader ''a'' 3) (demo_mach demo_ehdr)) \<and>
   VerifyElfHeader (er_header (fst (snd (ReadElfHeader (ElfReader ''a'' 3) (demo_mach demo_ehdr)))))"
proof -
  have "fd_file (demo_mach demo_ehdr) (er_fd (ElfReader ''a'' 3)) = Some \<lparr>f_data = demo_ehdr, f_pos = 0\<rparr>"
    by (simp add: fd_file_def demo_mach_def ElfReader_def)
  then show ?thesis
    using header_accepted [OF \<open>fd_file _ _ = _\<close>, of "fst (ReadElfHeader (ElfReader ''a'' 3) (demo_mach demo_ehdr))"
        "fst (snd (ReadElfHeader (ElfReader ''a'' 3) (demo_mach demo_ehdr)))"
        "snd (snd (ReadElfHeader (ElfReader ''a'' 3) (demo_mach demo_ehdr)))"]
    by (simp add: demo_ehdr_def word_at_def half_at_def byte_at_def le32_def le16_def)
qed

lemma table_bytes_inside:
  assumes c: "contains_table bias loaded (loaded + n * 32) ph"
    and "unat loaded + unat n * 32 < 4294967296"
    and "unat (p_vaddr ph + bias) + unat (p_filesz ph) < 4294967296"
    and "in_block loaded (unat n * 32) x"
  shows "in_block (p_vaddr ph + bias) (unat (p_filesz ph)) x"
proof -
  have n32: "unat (n * 32) = unat n * 32"
    using assms(2) by (simp add: unat_word_ariths)
  have "unat (loaded + n * 32) = unat loaded + unat n * 32"
    using assms(2) n32 by (simp add: unat_add_no_wrap)
  moreover have "unat (p_filesz ph + (p_vaddr ph + bias)) = unat (p_filesz ph) + unat (p_vaddr ph + bias)"
    using assms(3) by (intro unat_add_no_wrap) linarith
  ultimately show ?thesis
    using assms unfolding contains_table_def word_le_nat_alt
    by (simp add: in_block_no_wrap)
qed

text \<open>
  when \<open>FindPhdr\<close> accepts, every byte of the program header table it found lies in
  the file-backed bytes of a loadable segment, provided neither the table nor a
  segment's file bytes wrap around the end of the address space.
\<close>

theorem FindPhdr_within_segment:
  assumes "phdrs_at m (er_phdr_table r) ps" and "unat (er_phdr_num r) = length ps"
    and "FindPhdr r m = Some (True, r')"
    and "unat (er_loaded_phdr r') + unat (er_phdr_num r) * 32 < 4294967296"
    and "\<forall>ph \<in> set (loads ps). unat (p_vaddr ph + er_load_bias r) + unat (p_filesz ph) < 4294967296"
  shows "\<exists>ph \<in> set (loads ps). \<forall>x. in_block (er_loaded_phdr r') (unat (er_phdr_num r) * 32) x \<longrightarrow>
    in_block (p_vaddr ph + er_load_bias r) (unat (p_filesz ph)) x"
proof -
  from FindPhdr_True(1) [OF assms(3)] obtain ph where ph: "ph \<in> set (loads ps)"
    and c: "contains_table (er_load_bias r) (er_loaded_phdr r') (er_loaded_phdr r' + er_phdr_num r * 32) ph"
    by (auto simp: CheckPhdr_eq [OF assms(1,2)] split: if_splits)
  with table_bytes_inside [OF c assms(4)] assms(5) show ?thesis by blast
qed

text \<open>
  A file with one loadable segment that holds its header and table; the table as
  it is mapped for reading at 0x1034, and the file's page, loaded at 0x10000.
\<close>

definition demo_phdr :: Elf32_Phdr where
  "demo_phdr = \<lparr>p_type = 1, p_offset = 0, p_vaddr = 0, p_paddr = 0,
     p_filesz = 84, p_memsz = 128, p_flags = 6, p_align = 4096\<rparr>"

definition demo_file :: "u8 list" where
  "demo_file = [0x7f, 0x45, 0x4c, 0x46, 1, 1, 1, 0, 0, 0, 0, 0, 0, 0, 0, 0, 3, 0, 40, 0, 1, 0, 0, 0,
     0, 0, 0, 0, 52, 0, 0, 0, 0, 0, 0, 0, 0, 0, 0, 5, 52, 0, 32, 0, 1, 0, 40, 0, 0, 0, 0, 0,
     1, 0, 0, 0, 0, 0, 0, 0, 0, 0, 0, 0, 0, 0, 0, 0, 84, 0, 0, 0, 128, 0, 0, 0, 6, 0, 0, 0, 0, 16, 0, 0]"

definition demo_image :: "u8 list \<Rightarrow> mach" where
  "demo_image page = \<lparr>vbytes = (\<lambda>a. if in_block 0x1000 84 a then Some (byte_at demo_file (unat (a - 0x1000)))
       else if in_block 0x10000 4096 a then Some (byte_at page (unat (a - 0x10000))) else None),
     vwr = (\<lambda>a. True), fs = (\<lambda>p. None),
     fds = [None, None, None, Some \<lparr>f_data = demo_file, f_pos = 0\<rparr>], errno = 0\<rparr>"

definition demo_reader :: elf_reader where
  "demo_reader = (ElfReader ''a'' 3)\<lparr>er_phdr_num := 1, er_phdr_mmap := 0x1000, er_phdr_table := 0x1034,
     er_phdr_size := 4096, er_load_start := 0x10000, er_load_size := 4096, er_load_bias := 0x10000\<rparr>"

lemma demo_table: "phdrs_at (demo_image page) 0x1034 [demo_phdr]"
  by (simp add: read_phdr_def load32_def load8_def demo_image_def in_block_def byte_at_def demo_file_def
      le32_def demo_phdr_def)

lemma demo_loads: "loads [demo_phdr] = [demo_phdr]"
  by (simp add: loads_def demo_phdr_def)

lemma demo_FindPhdr:
  "FindPhdr demo_reader (demo_image demo_file) = Some (True, demo_reader\<lparr>er_loaded_phdr := 0x10034\<rparr>)"
proof -
  have t: "phdrs_at (demo_image demo_file) (er_phdr_table demo_reader) [demo_phdr]"
    and n: "unat (er_phdr_num demo_reader) = length [demo_phdr]"
    using demo_table by (simp_all add: demo_reader_def)
  have off: "load32 (demo_image demo_file) 0x1001C = Some 52"
    by (simp add: load32_def load8_def demo_image_def in_block_def byte_at_def demo_file_def le32_def)
  show ?thesis
    unfolding FindPhdr_def n find_type_eq [OF t] CheckPhdr_eq [OF t n]
    using off by (simp add: demo_phdr_def demo_reader_def demo_loads [unfolded demo_phdr_def] contains_table_def)
qed

lemma FindPhdr_within_segment_witness:
  "FindPhdr demo_reader (demo_image demo_file) = Some (True, demo_reader\<lparr>er_loaded_phdr := 0x10034\<rparr>) \<and>
   in_block 0x10034 32 0x10053 \<and> in_block 0x10000 84 0x10053"
proof -
  have "\<exists>ph \<in> set (loads [demo_phdr]).
    \<forall>x. in_block (er_loaded_phdr (demo_reader\<lparr>er_loaded_phdr := 0x10034\<rparr>)) (unat (er_phdr_num demo_reader) * 32) x \<longrightarrow>
      in_block (p_vaddr ph + er_load_bias demo_reader) (unat (p_filesz ph)) x"
    by (rule FindPhdr_within_segment [OF _ _ demo_FindPhdr])
      (use demo_table [of demo_file] in \<open>simp_all add: demo_reader_def demo_loads, simp_all add: demo_phdr_def\<close>)
  then have "\<forall>x. in_block 0x10034 32 x \<longrightarrow> in_block 0x10000 84 x"
    by (simp add: demo_loads demo_reader_def) (simp add: demo_phdr_def)
  moreover have "in_block 0x10034 32 0x10053" by (simp add: in_block_def)
  ultimately show ?thesis using demo_FindPhdr by blast
qed

text \<open>
  \<open>CheckPhdr\<close> computes the end of the table in 32 bits.  A table that runs past the
  end of the address space is accepted when its wrapped end is below the end of a
  loadable segment that starts below the table.
\<close>

theorem CheckPhdr_accepts_wrapped:
  assumes "phdrs_at m (er_phdr_table r) ps" and "unat (er_phdr_num r) = length ps" and "length ps \<le> 2048"
    and "ph \<in> set (loads ps)" and "p_vaddr ph + er_load_bias r \<le> loaded"
    and "4294967296 \<le> unat loaded + length ps * 32"
    and "unat loaded + length ps * 32 - 4294967296 \<le> unat (p_filesz ph + (p_vaddr ph + er_load_bias r))"
  shows "CheckPhdr r loaded m = Some (True, r\<lparr>er_loaded_phdr := loaded\<rparr>)"
proof -
  have n: "unat (er_phdr_num r * 32) = length ps * 32"
    using assms(2,3) by (simp add: unat_word_ariths)
  have "unat loaded + length ps * 32 - 4294967296 < 4294967296"
    using assms(3) unat_less_4294967296 [of loaded] by linarith
  then have "unat (loaded + er_phdr_num r * 32) = unat loaded + length ps * 32 - 4294967296"
    using assms(6) by (simp add: unat_add_u32 n le_mod_geq)
  then have "contains_table (er_load_bias r) loaded (loaded + er_phdr_num r * 32) ph"
    using assms(5,7) by (simp add: contains_table_def word_le_nat_alt)
  with assms(4) show ?thesis
    by (auto simp: CheckPhdr_eq [OF assms(1,2)])
qed

lemma CheckPhdr_accepts_wrapped_witness:
  "CheckPhdr demo_reader 0xFFFFFFF0 (demo_image []) = Some (True, demo_reader\<lparr>er_loaded_phdr := 0xFFFFFFF0\<rparr>) \<and>
   \<not> in_block 0x10000 84 0xFFFFFFF0"
proof -
  have "CheckPhdr demo_reader 0xFFFFFFF0 (demo_image []) = Some (True, demo_reader\<lparr>er_loaded_phdr := 0xFFFFFFF0\<rparr>)"
    by (rule CheckPhdr_accepts_wrapped [where ps = "[demo_phdr]" and ph = demo_phdr])
      (use demo_table [of "[]"] in \<open>simp_all add: demo_reader_def demo_loads, simp_all add: demo_phdr_def\<close>)
  then show ?thesis by (simp add: in_block_def)
qed

text \<open>
  C38: after a successful \<open>ReadProgramHeader\<close> the table has between 1 and 2048 entries
  and lies inside the mapping, which is at most 17 pages long, provided the
  table's end in the file does not reach the last page of the 32-bit range.
\<close>

theorem ReadProgramHeader_bounds:
  assumes "ReadProgramHeader os r m = (True, r', m')"
    and "unat (e_phoff (er_header r)) + 32 * unat (e_phnum (er_header r)) + 4095 < 4294967296"
  shows "1 \<le> unat (er_phdr_num r') \<and> unat (er_phdr_num r') \<le> 2048 \<and>
    er_phdr_num r' = ucast (e_phnum (er_header r)) \<and> er_phdr_mmap r' \<noteq> MAP_FAILED \<and>
    er_phdr_table r' = er_phdr_mmap r' + PAGE_OFFSET (e_phoff (er_header r)) \<and>
    unat (PAGE_OFFSET (e_phoff (er_header r))) + 32 * unat (er_phdr_num r') \<le> unat (er_phdr_size r') \<and>
    unat (er_phdr_size r') \<le> 17 * 4096"
proof -
  let ?o = "e_phoff (er_header r)" and ?n = "ucast (e_phnum (er_header r)) :: u32"
  let ?min = "PAGE_START ?o" and ?max = "PAGE_END (?o + ?n * 32)"
  have g: "\<not> (?n < 1 \<or> ?n > 2048)" and r': "er_phdr_num r' = ?n" "er_phdr_size r' = ?max - ?min"
    "er_phdr_mmap r' \<noteq> MAP_FAILED" "er_phdr_table r' = er_phdr_mmap r' + PAGE_OFFSET ?o"
    using assms(1) by (auto simp: ReadProgramHeader_def Let_def split: if_splits prod.splits)
  have n: "1 \<le> unat ?n" "unat ?n \<le> 2048"
    using g by (simp_all add: word_less_nat_alt not_less)
  have un: "unat ?n = unat (e_phnum (er_header r))"
    by simp
  have n32: "unat (?n * 32) = unat ?n * 32" using n by (simp add: unat_word_ariths)
  have e: "unat (?o + ?n * 32) = unat ?o + 32 * unat ?n"
    using assms(2) n32 un by (simp add: unat_add_no_wrap)
  then have e_ok: "unat (?o + ?n * 32) + 4095 < 4294967296" using assms(2) un by simp
  note pe = PAGE_END_least [OF e_ok] and ps = unat_PAGE_START_le [of ?o] unat_PAGE_START_gt [of ?o]
  have off: "unat ?min + unat (PAGE_OFFSET ?o) = unat ?o"
    by (simp add: unat_PAGE_START unat_PAGE_OFFSET)
  have le: "unat ?min \<le> unat ?max" using pe(1) ps(1) e by linarith
  then have size: "unat (?max - ?min) = unat ?max - unat ?min"
    by (simp add: unat_sub word_le_nat_alt)
  have "unat ?max - unat ?min < 18 * 4096" using pe(2) ps(2) e n by linarith
  moreover have "4096 dvd unat ?max - unat ?min"
    by (intro dvd_diff_nat PAGE_END_dvd PAGE_START_dvd)
  ultimately have "unat ?max - unat ?min \<le> 17 * 4096" by (auto elim!: dvdE)
  moreover have "unat (PAGE_OFFSET ?o) + 32 * unat ?n \<le> unat ?max - unat ?min"
    using off pe(1) e by linarith
  ultimately show ?thesis using r' n size by simp
qed

lemma ReadProgramHeader_bounds_witness:
  "unat (er_phdr_size (fst (snd (ReadProgramHeader demo_api
     (demo_reader\<lparr>er_header := decode_ehdr demo_file\<rparr>) (demo_image []))))) \<le> 17 * 4096"
proof -
  let ?r = "demo_reader\<lparr>er_header := decode_ehdr demo_file\<rparr>"
  have h: "e_phoff (decode_ehdr demo_file) = 52" "e_phnum (decode_ehdr demo_file) = 1"
    by (simp_all add: decode_ehdr_def demo_file_def word_at_def half_at_def byte_at_def le32_def le16_def)
  have p: "PAGE_START 52 = 0" "PAGE_END 84 = 4096" "PAGE_OFFSET 52 = 52"
    by (simp_all add: PAGE_END_def PAGE_START_def PAGE_OFFSET_def PAGE_MASK_def)
  obtain r' m' where rd: "ReadProgramHeader demo_api ?r (demo_image []) = (True, r', m')"
    by (simp add: ReadProgramHeader_def Let_def h p s_mmap_def s_mmap_view_def demo_api_def fd_file_def
        demo_image_def demo_reader_def ElfReader_def)
  from ReadProgramHeader_bounds [OF rd] show ?thesis
    by (simp add: rd h)
qed

lemma ReserveAddressSpace_True:
  assumes "ReserveAddressSpace os r m = Some (True, r', m')"
  obtains mn mx where
    "phdr_table_get_load_size m (er_phdr_table r) (unat (er_phdr_num r)) = Some (er_load_size r', mn, mx)"
    and "er_load_bias r' = er_load_start r' - mn"
    and "er_phdr_table r' = er_phdr_table r" and "er_phdr_num r' = er_phdr_num r" and "er_fd r' = er_fd r"
    and "s_mmap os mn (er_load_size r') PROT_NONE (MAP_PRIVATE OR MAP_ANONYMOUS) (-1) 0 m = (er_load_start r', m')"
  using assms
  by (auto simp: ReserveAddressSpace_def Option.bind_eq_Some_conv Let_def split: if_splits prod.splits)

text \<open>
  after a successful \<open>ReserveAddressSpace\<close>, every loadable segment, moved by the load
  bias, lies inside the reserved range, provided the range itself does not wrap.
\<close>

theorem ReserveAddressSpace_places_segments:
  assumes "phdrs_at m (er_phdr_table r) ps" and "unat (er_phdr_num r) = length ps"
    and "\<forall>ph \<in> set (loads ps). fits ph"
    and "ReserveAddressSpace os r m = Some (True, r', m')"
    and "unat (er_load_start r') + unat (er_load_size r') < 4294967296"
    and "ph \<in> set (loads ps)"
  shows "unat (er_load_start r') \<le> unat (p_vaddr ph + er_load_bias r') \<and>
    unat (p_vaddr ph + er_load_bias r') + unat (p_memsz ph) \<le> unat (er_load_start r') + unat (er_load_size r') \<and>
    PAGE_OFFSET (er_load_start r') = PAGE_OFFSET (er_load_bias r')"
proof -
  obtain mn mx where sz: "phdr_table_get_load_size m (er_phdr_table r) (length ps) = Some (er_load_size r', mn, mx)"
    and b: "er_load_bias r' = er_load_start r' - mn"
    using ReserveAddressSpace_True [OF assms(4)] assms(2) by metis
  have "loads ps \<noteq> []" using assms(6) by auto
  from load_size_covers [OF assms(1) this assms(3)] sz
  have size: "unat mn \<le> unat mx" "unat (er_load_size r') = unat mx - unat mn" "4096 dvd unat mn"
    and inside: "unat mn \<le> unat (p_vaddr ph)" "unat (p_vaddr ph) + unat (p_memsz ph) \<le> unat mx"
    using assms(6) by auto
  have d: "unat (p_vaddr ph - mn) = unat (p_vaddr ph) - unat mn"
    using inside(1) by (simp add: unat_sub word_le_nat_alt)
  have "p_vaddr ph + er_load_bias r' = er_load_start r' + (p_vaddr ph - mn)" by (simp add: b)
  then have at: "unat (p_vaddr ph + er_load_bias r') = unat (er_load_start r') + (unat (p_vaddr ph) - unat mn)"
    using assms(5) size inside d by (simp only:) (subst unat_add_no_wrap, auto)
  have "PAGE_OFFSET mn = 0" using size(3) by (simp add: PAGE_OFFSET_eq_0_iff)
  then have "PAGE_OFFSET (er_load_bias r' + mn) = PAGE_OFFSET (er_load_bias r')"
    by (rule PAGE_OFFSET_add_aligned)
  then have "PAGE_OFFSET (er_load_start r') = PAGE_OFFSET (er_load_bias r')" by (simp add: b)
  then show ?thesis unfolding at using size inside by auto
qed

text \<open>
  when \<open>VirtualAlloc\<close> fails (it returns null), \<open>s_mmap\<close> returns null and not
  \<open>MAP_FAILED\<close>, so \<open>ReserveAddressSpace\<close> reports success with a null range and a load
  bias that moves the lowest page to address 0.
\<close>

theorem ReserveAddressSpace_misses_failed_alloc:
  assumes "phdr_table_get_load_size m (er_phdr_table r) (unat (er_phdr_num r)) = Some (sz, mn, mx)"
    and "sz \<noteq> 0" and "VirtualAlloc os 0 sz MEM_COMMIT PAGE_READWRITE m = (0, m1)"
  shows "ReserveAddressSpace os r m =
    Some (True, r\<lparr>er_load_size := sz, er_load_start := 0, er_load_bias := - mn\<rparr>, set_errno os m1)"
  using assms s_mmap_reserve [of sz os m 0 m1]
  by (simp add: ReserveAddressSpace_def Let_def)

lemma demo_load_size: "phdr_table_get_load_size (demo_image page) 0x1034 1 = Some (4096, 0, 4096)"
proof -
  have "phdr_table_get_load_size (demo_image page) 0x1034 (length [demo_phdr]) = Some (4096, 0, 4096)"
    using get_load_size_eq [OF demo_table, of page]
    by (simp add: demo_loads) (simp add: demo_phdr_def seg_top_def PAGE_END_def PAGE_START_def PAGE_MASK_def)
  then show ?thesis by simp
qed

lemma demo_Reserve:
  "\<exists>m'. ReserveAddressSpace demo_api demo_reader (demo_image []) = Some (True, demo_reader, m')"
  using demo_load_size [of "[]"]
  by (simp add: ReserveAddressSpace_def s_mmap_def s_mmap_direct_def demo_api_def demo_reader_def ElfReader_def)

lemma ReserveAddressSpace_places_segments_witness:
  "unat (p_vaddr demo_phdr + 0x10000) + unat (p_memsz demo_phdr) \<le> 0x10000 + 4096"
proof -
  obtain m' where r: "ReserveAddressSpace demo_api demo_reader (demo_image []) = Some (True, demo_reader, m')"
    using demo_Reserve by blast
  have "phdrs_at (demo_image []) (er_phdr_table demo_reader) [demo_phdr]"
    using demo_table [of "[]"] by (simp add: demo_reader_def)
  from ReserveAddressSpace_places_segments [OF this _ _ r, of demo_phdr]
  show ?thesis by (simp add: demo_loads demo_reader_def) (simp add: fits_def demo_phdr_def)
qed

lemma ReserveAddressSpace_misses_failed_alloc_witness:
  "\<exists>m'. ReserveAddressSpace (demo_api\<lparr>VirtualAlloc := (\<lambda>a l t p m. (0, m))\<rparr>) demo_reader (demo_image []) =
    Some (True, demo_reader\<lparr>er_load_size := 4096, er_load_start := 0, er_load_bias := - 0\<rparr>, m')"
  using ReserveAddressSpace_misses_failed_alloc [of "demo_image []" demo_reader 4096 0 4096
      "demo_api\<lparr>VirtualAlloc := (\<lambda>a l t p m. (0, m))\<rparr>" "demo_image []"]
    demo_load_size [of "[]"]
  by (simp add: demo_reader_def)

end
