(* ===== verification/Segment_Image.thy ===== *)
theory Segment_Image
  imports Elf_Reader
begin

text \<open>
  What \<open>LoadSegments\<close> leaves in memory.  The laws of one round of its loop
  (the segment's image is in place, nothing outside its pages has changed) are
  the contract \<open>segment_step\<close>; the loop over the whole table is treated once
  from that contract, which \<open>load_segment\<close> meets.
\<close>

section \<open>What stays the same\<close>

text \<open>
  Between two machine states of the loader: the permissions, which addresses
  are mapped, and the contents of the open file.
\<close>

definition keeps :: "int \<Rightarrow> mach \<Rightarrow> mach \<Rightarrow> bool" where
  "keeps fd m m' \<longleftrightarrow>
     vwr m' = vwr m \<and> fs m' = fs m \<and> (\<forall>x. (vbytes m' x = None) = (vbytes m x = None)) \<and>
     map_option f_data (fd_file m' fd) = map_option f_data (fd_file m fd)"

lemma keeps_refl [simp]: "keeps fd m m"
  by (simp add: keeps_def)

lemma keeps_trans: "keeps fd m m' \<Longrightarrow> keeps fd m' m'' \<Longrightarrow> keeps fd m m''"
  by (auto simp: keeps_def)

lemma keeps_writable: "keeps fd m m' \<Longrightarrow> writable m' x = writable m x"
  by (simp add: keeps_def writable_def)

lemma keeps_writable_block: "keeps fd m m' \<Longrightarrow> writable_block m' a n = writable_block m a n"
  by (simp add: writable_block_def keeps_writable)

lemma keeps_put_bytes: "writable_block m a (length bs) \<Longrightarrow> keeps fd m (put_bytes a bs m)"
  by (auto simp: keeps_def put_bytes_def writable_block_def writable_def fd_file_def elim!: in_blockE)

lemma keeps_set_errno: "keeps fd m (set_errno os m)"
  by (simp add: keeps_def)

section \<open>The contract of one round and the loop over it\<close>

definition foot_disjoint :: "(Elf32_Phdr \<Rightarrow> u32 set) \<Rightarrow> Elf32_Phdr list \<Rightarrow> bool" where
  "foot_disjoint foot ps \<longleftrightarrow> (\<forall>i j. i < j \<and> j < length ps \<longrightarrow> foot (ps ! i) \<inter> foot (ps ! j) = {})"

lemma foot_disjoint_Cons:
  "foot_disjoint foot (p # ps) \<longleftrightarrow> (\<forall>q \<in> set ps. foot p \<inter> foot q = {}) \<and> foot_disjoint foot ps"
proof
  assume l: "foot_disjoint foot (p # ps)"
  have "foot p \<inter> foot q = {}" if q: "q \<in> set ps" for q
  proof -
    from q obtain j where "j < length ps" "q = ps ! j" by (auto simp: in_set_conv_nth)
    with l [unfolded foot_disjoint_def, rule_format, of 0 "Suc j"] show ?thesis by simp
  qed
  moreover have "foot (ps ! i) \<inter> foot (ps ! j) = {}" if "i < j" "j < length ps" for i j
    using l [unfolded foot_disjoint_def, rule_format, of "Suc i" "Suc j"] that by simp
  ultimately show "(\<forall>q \<in> set ps. foot p \<inter> foot q = {}) \<and> foot_disjoint foot ps"
    by (simp add: foot_disjoint_def)
next
  assume r: "(\<forall>q \<in> set ps. foot p \<inter> foot q = {}) \<and> foot_disjoint foot ps"
  show "foot_disjoint foot (p # ps)"
    unfolding foot_disjoint_def
  proof (intro allI impI)
    fix i j assume ij: "i < j \<and> j < length (p # ps)"
    then obtain k where k: "j = Suc k" by (cases j) auto
    with ij r show "foot ((p # ps) ! i) \<inter> foot ((p # ps) ! j) = {}"
      by (cases i) (auto simp: foot_disjoint_def)
  qed
qed

locale segment_step =
  fixes fd :: int
    and loop :: "u32 \<Rightarrow> nat \<Rightarrow> mach \<Rightarrow> (bool \<times> mach) option"
    and step :: "Elf32_Phdr \<Rightarrow> mach \<Rightarrow> (bool \<times> mach) option"
    and ready :: "Elf32_Phdr \<Rightarrow> mach \<Rightarrow> bool"
    and image :: "Elf32_Phdr \<Rightarrow> mach \<Rightarrow> bool"
    and foot :: "Elf32_Phdr \<Rightarrow> u32 set"
  assumes loop_end: "loop a 0 m = Some (True, m)"
    and loop_skip: "read_phdr m a = Some ph \<Longrightarrow> p_type ph \<noteq> PT_LOAD \<Longrightarrow>
      loop a (Suc n) m = loop (a + sizeof_Phdr) n m"
    and loop_step: "read_phdr m a = Some ph \<Longrightarrow> p_type ph = PT_LOAD \<Longrightarrow> step ph m = Some (True, m') \<Longrightarrow>
      loop a (Suc n) m = loop (a + sizeof_Phdr) n m'"
    and step_image: "ready ph m \<Longrightarrow> \<exists>m'. step ph m = Some (True, m') \<and> image ph m' \<and> keeps fd m m' \<and>
      (\<forall>x. x \<notin> foot ph \<longrightarrow> load8 m' x = load8 m x)"
    and ready_frame: "ready ph m \<Longrightarrow> keeps fd m m' \<Longrightarrow> (\<And>x. x \<in> foot ph \<Longrightarrow> load8 m' x = load8 m x) \<Longrightarrow> ready ph m'"
    and image_frame: "image ph m \<Longrightarrow> (\<And>x. x \<in> foot ph \<Longrightarrow> load8 m' x = load8 m x) \<Longrightarrow> image ph m'"
begin

lemma loop_image:
  assumes "phdrs_at m a ps" and "32 * length ps \<le> 4294967296"
    and "\<forall>ph \<in> set (loads ps). ready ph m"
    and "foot_disjoint foot (loads ps)"
    and "\<forall>ph \<in> set (loads ps). \<forall>x \<in> foot ph. \<not> in_block a (32 * length ps) x"
  shows "\<exists>m'. loop a (length ps) m = Some (True, m') \<and> (\<forall>ph \<in> set (loads ps). image ph m') \<and> keeps fd m m' \<and>
    (\<forall>x. (\<forall>ph \<in> set (loads ps). x \<notin> foot ph) \<longrightarrow> load8 m' x = load8 m x)"
  using assms
proof (induction ps arbitrary: a m)
  case Nil
  then show ?case by (simp add: loop_end loads_def)
next
  case (Cons p ps)
  have rd: "read_phdr m a = Some p" and tl: "phdrs_at m (a + 32) ps"
    using Cons.prems(1) by simp_all
  have away: "\<not> in_block (a + 32) (32 * length ps) x" if "\<not> in_block a (32 * length (p # ps)) x" for x
  proof
    assume "in_block (a + 32) (32 * length ps) x"
    then obtain i where i: "i < 32 * length ps" and x: "x = a + 32 + of_nat i" by (rule in_blockE)
    have "x = a + of_nat (32 + i)" by (simp add: x add.assoc)
    moreover have "in_block a (32 * length (p # ps)) (a + of_nat (32 + i))"
      using i Cons.prems(2) by (intro in_block_offset) auto
    ultimately show False using that by simp
  qed
  show ?case
  proof (cases "p_type p = PT_LOAD")
    case False
    then have l: "loads (p # ps) = loads ps" by (simp add: loads_def)
    have away': "\<forall>ph \<in> set (loads ps). \<forall>x \<in> foot ph. \<not> in_block (a + 32) (32 * length ps) x"
      using Cons.prems(5) away unfolding l by blast
    show ?thesis
      using Cons.IH [OF tl _ _ _ away'] Cons.prems(2-4) loop_skip [OF rd False] unfolding l by simp
  next
    case True
    then have l: "loads (p # ps) = p # loads ps" by (simp add: loads_def)
    have ready_p: "ready p m" using Cons.prems(3) l by simp
    from step_image [OF ready_p] obtain m1 where st: "step p m = Some (True, m1)" and im: "image p m1"
      and k1: "keeps fd m m1" and fr1: "\<And>x. x \<notin> foot p \<Longrightarrow> load8 m1 x = load8 m x" by blast
    have dis: "\<And>q. q \<in> set (loads ps) \<Longrightarrow> foot p \<inter> foot q = {}" and dis': "foot_disjoint foot (loads ps)"
      using Cons.prems(4) unfolding l foot_disjoint_Cons by auto
    have tl1: "phdrs_at m1 (a + 32) ps"
    proof (rule phdrs_at_same_block [OF tl])
      show "same_block m m1 (a + 32) (32 * length ps)"
        unfolding same_block_def using fr1 Cons.prems(5) away unfolding l by auto
      show "32 * length ps \<le> 4294967296" using Cons.prems(2) by simp
    qed
    have ready1: "\<forall>ph \<in> set (loads ps). ready ph m1"
    proof
      fix q assume q: "q \<in> set (loads ps)"
      show "ready q m1"
        using q Cons.prems(3) dis [OF q] fr1 unfolding l by (intro ready_frame [OF _ k1]) auto
    qed
    have away': "\<forall>ph \<in> set (loads ps). \<forall>x \<in> foot ph. \<not> in_block (a + 32) (32 * length ps) x"
      using Cons.prems(5) away unfolding l by auto
    from Cons.IH [OF tl1 _ ready1 dis' away'] Cons.prems(2) obtain m2
      where lp: "loop (a + 32) (length ps) m1 = Some (True, m2)"
        and im2: "\<forall>ph \<in> set (loads ps). image ph m2" and k2: "keeps fd m1 m2"
        and fr2: "\<And>x. (\<forall>ph \<in> set (loads ps). x \<notin> foot ph) \<Longrightarrow> load8 m2 x = load8 m1 x" by auto
    have "image p m2"
      using dis by (intro image_frame [OF im] fr2) auto
    moreover have "load8 m2 x = load8 m x" if "\<forall>ph \<in> set (loads (p # ps)). x \<notin> foot ph" for x
      using that fr1 [of x] fr2 [of x] unfolding l by auto
    ultimately show ?thesis
      using lp im2 keeps_trans [OF k1 k2] loop_step [OF rd True st] unfolding l by auto
  qed
qed

end

section \<open>The pages and the image of a segment\<close>

definition seg_addr :: "u32 \<Rightarrow> Elf32_Phdr \<Rightarrow> u32" where
  "seg_addr bias ph = p_vaddr ph + bias"

definition seg_foot :: "u32 \<Rightarrow> Elf32_Phdr \<Rightarrow> u32 set" where
  "seg_foot bias ph =
     {x. unat (PAGE_START (seg_addr bias ph)) \<le> unat x \<and> unat x < unat (PAGE_END (seg_addr bias ph + p_memsz ph))}"

text \<open>
  A loadable segment that the ELF specification allows and the file contains:
  its end does not reach the last page, its first page is not the null page, the
  offset in the file is congruent to the address modulo the page size, the file
  has its bytes, and the protection is one that \<open>s_mmap\<close> supports for it.
\<close>

definition seg_ok :: "u32 \<Rightarrow> u8 list \<Rightarrow> Elf32_Phdr \<Rightarrow> bool" where
  "seg_ok bias bs ph \<longleftrightarrow>
     unat (seg_addr bias ph) + unat (p_memsz ph) + 4095 < 4294967296 \<and>
     PAGE_START (seg_addr bias ph) \<noteq> 0 \<and>
     p_filesz ph \<le> p_memsz ph \<and>
     unat (p_offset ph) + unat (p_filesz ph) \<le> length bs \<and>
     unat (p_offset ph) + unat (p_filesz ph) < 4294967296 \<and>
     PAGE_OFFSET (p_offset ph) = PAGE_OFFSET (seg_addr bias ph) \<and>
     PFLAGS_TO_PROT (p_flags ph) \<noteq> PROT_EXEC \<and> PFLAGS_TO_PROT (p_flags ph) \<noteq> PROT_NONE"

definition seg_ready :: "int \<Rightarrow> u32 \<Rightarrow> u8 list \<Rightarrow> Elf32_Phdr \<Rightarrow> mach \<Rightarrow> bool" where
  "seg_ready fd bias bs ph m \<longleftrightarrow>
     seg_ok bias bs ph \<and> map_option f_data (fd_file m fd) = Some bs \<and>
     (\<forall>x \<in> seg_foot bias ph. writable m x \<and> load8 m x = Some 0)"

text \<open>The segment as a program sees it: its bytes of the file, then zeros.\<close>

definition seg_image :: "u32 \<Rightarrow> u8 list \<Rightarrow> Elf32_Phdr \<Rightarrow> mach \<Rightarrow> bool" where
  "seg_image bias bs ph m \<longleftrightarrow>
     (\<forall>i < unat (p_filesz ph). load8 m (seg_addr bias ph + of_nat i) = Some (bs ! (unat (p_offset ph) + i))) \<and>
     (\<forall>i. unat (p_filesz ph) \<le> i \<and> i < unat (p_memsz ph) \<longrightarrow> load8 m (seg_addr bias ph + of_nat i) = Some 0)"

lemma not_aligned_MAP_FAILED: "4096 dvd unat x \<Longrightarrow> x \<noteq> MAP_FAILED"
proof
  assume d: "4096 dvd unat x" and x: "x = MAP_FAILED"
  have v: "unat x = 4294967295" by (simp add: x)
  from d have "(4096 :: nat) dvd 4294967295" unfolding v .
  then show False by simp
qed

text \<open>Reading \<open>n\<close> bytes of a file from offset \<open>off\<close> into writable memory that does not wrap.\<close>

lemma read_at_load8:
  assumes "fd_file m fd = Some f" and "writable_block m a n" and "unat a + n \<le> 4294967296"
    and "unat off + n \<le> length (f_data f)"
    and "m' = snd (c_read_mem fd a n (c_lseek fd off m))"
  shows "keeps fd m m'" and "load8 m' x =
    (if unat a \<le> unat x \<and> unat x < unat a + n then Some (f_data f ! (unat off + (unat x - unat a))) else load8 m x)"
proof -
  let ?bs = "take n (drop (unat off) (f_data f))"
  have len: "length ?bs = n" using assms(4) by simp
  from c_read_mem_at [OF assms(1,2), of off] obtain g where
    m': "m' = put_bytes a ?bs (set_fd fd (Some (f\<lparr>f_pos := unat off + length ?bs\<rparr>))
            (set_fd fd (Some (f\<lparr>f_pos := unat off\<rparr>)) m))" (is "_ = put_bytes a ?bs ?m2")
    using assms(5) by auto
  have f1: "fd_file m fd \<noteq> None" using assms(1) by simp
  have f2: "fd_file (set_fd fd (Some (f\<lparr>f_pos := unat off\<rparr>)) m) fd \<noteq> None"
    by (simp add: fd_file_set_fd [OF f1])
  have "keeps fd m ?m2"
    using assms(1) by (simp add: keeps_def fd_file_set_fd [OF f1] fd_file_set_fd [OF f2])
  moreover have "keeps fd ?m2 m'"
    unfolding m' using assms(2) len by (intro keeps_put_bytes) simp
  ultimately show "keeps fd m m'" by (rule keeps_trans)
  show "load8 m' x =
    (if unat a \<le> unat x \<and> unat x < unat a + n then Some (f_data f ! (unat off + (unat x - unat a))) else load8 m x)"
  proof (cases "unat a \<le> unat x \<and> unat x < unat a + n")
    case True
    then have "unat (x - a) = unat x - unat a" by (simp add: unat_sub word_le_nat_alt)
    moreover obtain i where "unat x = unat a + i" and "i < n"
      using True by (metis le_add_diff_inverse nat_add_left_cancel_less)
    ultimately show ?thesis
      using True assms(3,4) by (simp add: m' load8_put_bytes len in_block_no_wrap)
  next
    case False
    with assms(3) show ?thesis
      by (auto simp: m' load8_put_bytes len in_block_no_wrap)
  qed
qed

lemma memset_load8:
  assumes "writable_block m a n" and "unat a + n \<le> 4294967296"
  shows "\<exists>m'. c_memset m a 0 n = Some m' \<and> keeps fd m m' \<and> (\<forall>x. load8 m' x =
    (if unat a \<le> unat x \<and> unat x < unat a + n then Some 0 else load8 m x))"
proof -
  have "n \<le> 4294967296" using assms(2) by simp
  then have "c_memset m a 0 n = Some (put_bytes a (replicate n 0) m)"
    using assms(1) by (simp add: c_memset_def store_bytes_eq)
  moreover have "keeps fd m (put_bytes a (replicate n 0) m)"
    using assms(1) by (intro keeps_put_bytes) simp
  moreover have "load8 (put_bytes a (replicate n 0) m) x =
      (if unat a \<le> unat x \<and> unat x < unat a + n then Some 0 else load8 m x)" for x
    using assms(2) by (simp add: load8_put_bytes in_block_no_wrap)
      (auto simp: in_block_no_wrap [symmetric] in_block_def)
  ultimately show ?thesis by blast
qed

lemma writable_block_range:
  assumes "\<forall>x. lo \<le> unat x \<and> unat x < hi \<longrightarrow> writable m x" and "lo \<le> unat a" and "unat a + n \<le> hi"
    and "hi \<le> 4294967296"
  shows "writable_block m a n"
  unfolding writable_block_def
proof (intro allI impI)
  fix i assume "i < n"
  then have "unat (a + of_nat i) = unat a + i" using assms(3,4) by (intro unat_add_of_nat) linarith
  with assms \<open>i < n\<close> show "writable m (a + of_nat i)" by simp
qed

section \<open>One segment\<close>

text \<open>The numbers behind the addresses of a segment that is \<open>seg_ok\<close>.\<close>

lemma seg_numbers:
  assumes ok: "seg_ok bias bs ph"
  defines "S \<equiv> unat (seg_addr bias ph)" and "F \<equiv> unat (p_filesz ph)" and "M \<equiv> unat (p_memsz ph)"
    and "A \<equiv> unat (PAGE_START (seg_addr bias ph))"
  shows "F \<le> M" "S + M + 4095 < 4294967296" "A \<le> S" "0 < A"
    "unat (seg_addr bias ph + p_memsz ph) = S + M"
    "unat (seg_addr bias ph + p_filesz ph) = S + F"
    "S + F \<le> unat (PAGE_END (seg_addr bias ph + p_filesz ph))"
    "unat (PAGE_END (seg_addr bias ph + p_filesz ph)) \<le> unat (PAGE_END (seg_addr bias ph + p_memsz ph))"
    "S + M \<le> unat (PAGE_END (seg_addr bias ph + p_memsz ph))"
    "unat (PAGE_END (seg_addr bias ph + p_memsz ph)) < 4294967296"
proof -
  from ok have fm: "F \<le> M" and nw: "S + M + 4095 < 4294967296"
    by (simp_all add: seg_ok_def F_def M_def S_def word_le_nat_alt)
  show "F \<le> M" and "S + M + 4095 < 4294967296" by (fact fm, fact nw)
  show "A \<le> S" by (simp add: A_def S_def unat_PAGE_START_le)
  have "A \<noteq> 0" using ok by (simp add: seg_ok_def A_def unat_eq_0)
  then show "0 < A" by simp
  show m: "unat (seg_addr bias ph + p_memsz ph) = S + M"
    using nw unfolding S_def M_def by (intro unat_add_no_wrap) linarith
  show f: "unat (seg_addr bias ph + p_filesz ph) = S + F"
    using nw fm unfolding S_def M_def F_def by (intro unat_add_no_wrap) linarith
  have le_f: "unat (seg_addr bias ph + p_filesz ph) + 4095 < 4294967296"
    and le_m: "unat (seg_addr bias ph + p_memsz ph) + 4095 < 4294967296"
    using f m nw fm by linarith+
  show "S + F \<le> unat (PAGE_END (seg_addr bias ph + p_filesz ph))"
    using PAGE_END_least(1) [OF le_f] f by simp
  show sm: "S + M \<le> unat (PAGE_END (seg_addr bias ph + p_memsz ph))"
    using PAGE_END_least(1) [OF le_m] m by simp
  show "unat (PAGE_END (seg_addr bias ph + p_filesz ph)) \<le> unat (PAGE_END (seg_addr bias ph + p_memsz ph))"
    using sm fm f by (intro PAGE_END_least(3) [OF le_f] PAGE_END_dvd) linarith
  show "unat (PAGE_END (seg_addr bias ph + p_memsz ph)) < 4294967296" by (rule unat_less_4294967296)
qed

text \<open>The bytes the file mapping covers: from the page of the segment to the end of its file bytes.\<close>

lemma seg_file_length:
  assumes ok: "seg_ok bias bs ph"
  defines "len \<equiv> p_offset ph + p_filesz ph - PAGE_START (p_offset ph)"
  shows "unat len = unat (PAGE_OFFSET (p_offset ph)) + unat (p_filesz ph)"
    "unat (PAGE_START (seg_addr bias ph)) + unat len = unat (seg_addr bias ph) + unat (p_filesz ph)"
    "unat (PAGE_START (p_offset ph)) + unat len = unat (p_offset ph) + unat (p_filesz ph)"
proof -
  have o: "unat (PAGE_START (p_offset ph)) + unat (PAGE_OFFSET (p_offset ph)) = unat (p_offset ph)"
    by (simp add: unat_PAGE_START unat_PAGE_OFFSET)
  have s: "unat (PAGE_START (seg_addr bias ph)) + unat (PAGE_OFFSET (seg_addr bias ph)) = unat (seg_addr bias ph)"
    by (simp add: unat_PAGE_START unat_PAGE_OFFSET)
  have oo: "PAGE_OFFSET (p_offset ph) = PAGE_OFFSET (seg_addr bias ph)"
    and nw: "unat (p_offset ph) + unat (p_filesz ph) < 4294967296"
    using ok by (simp_all add: seg_ok_def)
  have "len = PAGE_OFFSET (p_offset ph) + p_filesz ph"
    unfolding len_def PAGE_START_minus by simp
  then show l: "unat len = unat (PAGE_OFFSET (p_offset ph)) + unat (p_filesz ph)"
    using nw o by (simp add: unat_add_no_wrap)
  show "unat (PAGE_START (seg_addr bias ph)) + unat len = unat (seg_addr bias ph) + unat (p_filesz ph)"
    using s l by (simp add: oo)
  show "unat (PAGE_START (p_offset ph)) + unat len = unat (p_offset ph) + unat (p_filesz ph)"
    using o l by linarith
qed

text \<open>First part of a round: the file mapping.\<close>

lemma seg_map_file:
  assumes rdy: "seg_ready fd bias bs ph m"
  defines "len \<equiv> p_offset ph + p_filesz ph - PAGE_START (p_offset ph)"
    and "a \<equiv> PAGE_START (seg_addr bias ph)"
  assumes r: "(sa, m1) = (if len \<noteq> 0
      then s_mmap os a len (PFLAGS_TO_PROT (p_flags ph)) (MAP_FIXED OR MAP_PRIVATE) fd (PAGE_START (p_offset ph)) m
      else (0, m))"
  shows "\<not> (len \<noteq> 0 \<and> sa = MAP_FAILED)" and "keeps fd m m1"
    and "load8 m1 x = (if unat a \<le> unat x \<and> unat x < unat (seg_addr bias ph) + unat (p_filesz ph)
      then Some (bs ! (unat (PAGE_START (p_offset ph)) + (unat x - unat a))) else load8 m x)"
proof -
  have ok: "seg_ok bias bs ph" using rdy by (simp add: seg_ready_def)
  obtain f where f: "fd_file m fd = Some f" and fb: "f_data f = bs"
    using rdy by (auto simp: seg_ready_def)
  note n = seg_numbers [OF ok] and l = seg_file_length [OF ok, folded len_def a_def]
  have fd: "fd \<noteq> -1" using f by (auto simp: fd_file_def)
  have a0: "a \<noteq> 0" and pe: "PFLAGS_TO_PROT (p_flags ph) \<noteq> PROT_EXEC"
    using ok by (simp_all add: seg_ok_def a_def)
  have top: "unat a + unat len \<le> unat (PAGE_END (seg_addr bias ph + p_memsz ph))"
    using l(2) n(1,9) by linarith
  have wr: "writable_block m a (unat len)"
    by (rule writable_block_range [OF _ _ top less_imp_le [OF n(10)]])
      (use rdy in \<open>auto simp: seg_ready_def seg_foot_def a_def\<close>)
  have cases: "(sa, m1) = (if len \<noteq> 0
      then (a, snd (c_read_mem fd a (unat len) (c_lseek fd (PAGE_START (p_offset ph)) (set_errno os m)))) else (0, m))"
    using r s_mmap_fixed_file [OF _ pe fd a0] by simp
  show "\<not> (len \<noteq> 0 \<and> sa = MAP_FAILED)"
    using cases not_aligned_MAP_FAILED [of a] PAGE_START_dvd by (auto simp: a_def)
  have rd: "keeps fd (set_errno os m) m1" "load8 m1 x =
      (if unat a \<le> unat x \<and> unat x < unat a + unat len
       then Some (f_data f ! (unat (PAGE_START (p_offset ph)) + (unat x - unat a))) else load8 (set_errno os m) x)"
    if "len \<noteq> 0"
    using read_at_load8 [of "set_errno os m" fd f a "unat len" "PAGE_START (p_offset ph)" m1] that cases f fb wr top n(10) l(3) ok
    by (auto simp: seg_ok_def)
  show "keeps fd m m1"
    using rd(1) keeps_trans [OF keeps_set_errno] cases by (cases "len = 0") auto
  show "load8 m1 x = (if unat a \<le> unat x \<and> unat x < unat (seg_addr bias ph) + unat (p_filesz ph)
      then Some (bs ! (unat (PAGE_START (p_offset ph)) + (unat x - unat a))) else load8 m x)"
  proof (cases "len = 0")
    case True
    then have "unat a = unat (seg_addr bias ph) + unat (p_filesz ph)" using l(2) by simp
    then have "\<not> (unat a \<le> unat x \<and> unat x < unat (seg_addr bias ph) + unat (p_filesz ph))" by linarith
    with True cases show ?thesis by (simp only: if_False) simp
  next
    case False
    show ?thesis using rd(2) [OF False] unfolding l(2) fb load8_set_errno .
  qed
qed

text \<open>Second part: a writable segment is cleared from the end of its file bytes to the end of that page.\<close>

lemma seg_clear_tail:
  assumes ok: "seg_ok bias bs ph" and wr: "\<forall>x \<in> seg_foot bias ph. writable m x"
  defines "e \<equiv> seg_addr bias ph + p_filesz ph"
  shows "\<exists>m'. (if p_flags ph AND PF_W \<noteq> 0 \<and> PAGE_OFFSET e > 0
       then c_memset m e 0 (unat (PAGE_SIZE - PAGE_OFFSET e)) else Some m) = Some m' \<and> keeps fd m m' \<and>
     (\<forall>x. load8 m' x = (if p_flags ph AND PF_W \<noteq> 0 \<and> unat e \<le> unat x \<and> unat x < unat (PAGE_END e)
        then Some 0 else load8 m x))"
proof -
  note n = seg_numbers [OF ok]
  have e_ok: "unat e + 4095 < 4294967296" using n(1,2,6) by (simp add: e_def)
  have end_e: "unat (PAGE_END e) = (unat e + 4095) div 4096 * 4096" by (rule unat_PAGE_END [OF e_ok])
  show ?thesis
  proof (cases "PAGE_OFFSET e = 0")
    case True
    then have "4096 dvd unat e" by (simp add: PAGE_OFFSET_eq_0_iff)
    then have "PAGE_END e = e" by (rule PAGE_END_aligned)
    with True show ?thesis by (intro exI [of _ m]) auto
  next
    case False
    let ?n = "unat (PAGE_SIZE - PAGE_OFFSET e)"
    have off: "unat (PAGE_OFFSET e) = unat e mod 4096" "unat e mod 4096 \<noteq> 0"
      using False unat_PAGE_OFFSET [of e] by (auto simp: unat_eq_0 [symmetric])
    then have "unat (PAGE_OFFSET e) \<le> unat PAGE_SIZE" by simp
    then have len: "?n = 4096 - unat e mod 4096"
      using off by (simp add: unat_sub word_le_nat_alt)
    have top: "unat e + ?n = unat (PAGE_END e)"
    proof -
      define q r where "q = unat e div 4096" and "r = unat e mod 4096"
      then have d: "unat e = 4096 * q + r" and r: "0 < r" "r < 4096" using off(2) by auto
      have "(unat e + 4095) div 4096 = q + 1"
        unfolding d using r by (simp add: div_eq_dividend_iff)
      with end_e len d r show ?thesis by (simp add: r_def [symmetric])
    qed
    have "writable_block m e ?n"
      by (rule writable_block_range [OF _ _ _ less_imp_le [OF n(10)]])
        (use wr n top in \<open>auto simp: seg_foot_def e_def\<close>)
    moreover have "unat e + ?n \<le> 4294967296" using top unat_less_4294967296 [of "PAGE_END e"] by linarith
    ultimately obtain m' where m': "c_memset m e 0 ?n = Some m'" "keeps fd m m'"
      "\<And>x. load8 m' x = (if unat e \<le> unat x \<and> unat x < unat e + ?n then Some 0 else load8 m x)"
      using memset_load8 [of m e ?n fd] by blast
    have "0 < PAGE_OFFSET e" using False by (simp add: word_neq_0_conv)
    with m' top show ?thesis
      by (cases "p_flags ph AND PF_W = 0") (auto intro: exI [of _ m] exI [of _ m'])
  qed
qed

text \<open>Third part: the anonymous mapping behind the file pages changes no byte.\<close>

lemma seg_map_gap:
  assumes ok: "seg_ok bias bs ph"
  defines "e \<equiv> PAGE_END (seg_addr bias ph + p_filesz ph)" and "t \<equiv> PAGE_END (seg_addr bias ph + p_memsz ph)"
  assumes gap: "t > e"
  shows "s_mmap os e (t - e) (PFLAGS_TO_PROT (p_flags ph)) flags (-1) 0 m = (e, set_errno os m)" "e \<noteq> MAP_FAILED"
proof -
  note n = seg_numbers [OF ok]
  have "t - e \<noteq> 0" using gap by auto
  moreover have "unat e \<noteq> 0" using n(3,4,7) unfolding e_def by linarith
  then have "e \<noteq> 0" by (simp only: unat_eq_0) simp
  ultimately show "s_mmap os e (t - e) (PFLAGS_TO_PROT (p_flags ph)) flags (-1) 0 m = (e, set_errno os m)"
    using ok by (intro s_mmap_fixed_anon) (auto simp: seg_ok_def)
  show "e \<noteq> MAP_FAILED" unfolding e_def by (rule not_aligned_MAP_FAILED [OF PAGE_END_dvd])
qed

text \<open>One round of the loop: it succeeds, puts the image in place and touches only the segment's pages.\<close>

lemma load_segment_image:
  assumes rdy: "seg_ready fd bias bs ph m"
  shows "\<exists>m'. load_segment os fd bias ph m = Some (True, m') \<and> seg_image bias bs ph m' \<and> keeps fd m m' \<and>
    (\<forall>x. x \<notin> seg_foot bias ph \<longrightarrow> load8 m' x = load8 m x)"
proof -
  have ok: "seg_ok bias bs ph" using rdy by (simp add: seg_ready_def)
  note n = seg_numbers [OF ok] and l = seg_file_length [OF ok]
  let ?s = "seg_addr bias ph" and ?prot = "PFLAGS_TO_PROT (p_flags ph)"
  let ?len = "p_offset ph + p_filesz ph - PAGE_START (p_offset ph)"
  let ?e = "?s + p_filesz ph" and ?t = "PAGE_END (?s + p_memsz ph)"
  obtain sa m1 where r1: "(sa, m1) = (if ?len \<noteq> 0
      then s_mmap os (PAGE_START ?s) ?len ?prot (MAP_FIXED OR MAP_PRIVATE) fd (PAGE_START (p_offset ph)) m
      else (0, m))" by (metis surj_pair)
  note m1 = seg_map_file [OF rdy r1]
  have "\<forall>x \<in> seg_foot bias ph. writable m1 x"
    using rdy keeps_writable [OF m1(2)] by (simp add: seg_ready_def)
  from seg_clear_tail [OF ok this, of fd] obtain m2 where
    r2: "(if p_flags ph AND PF_W \<noteq> 0 \<and> PAGE_OFFSET ?e > 0
       then c_memset m1 ?e 0 (unat (PAGE_SIZE - PAGE_OFFSET ?e)) else Some m1) = Some m2"
    and k2: "keeps fd m1 m2" and l2: "\<And>x. load8 m2 x =
      (if p_flags ph AND PF_W \<noteq> 0 \<and> unat ?e \<le> unat x \<and> unat x < unat (PAGE_END ?e)
        then Some 0 else load8 m1 x)" by blast
  define m3 where "m3 = (if ?t > PAGE_END ?e then set_errno os m2 else m2)"
  have res: "load_segment os fd bias ph m = Some (True, m3)"
    using r1 [symmetric] m1(1) r2 seg_map_gap(1) [OF ok, of os _ m2] seg_map_gap(2) [OF ok]
    unfolding load_segment_def Let_def seg_addr_def [symmetric] m3_def
    by (cases "?t > PAGE_END ?e") (auto split: prod.splits)
  have k3: "keeps fd m m3"
    using keeps_trans [OF keeps_trans [OF m1(2) k2] keeps_set_errno [of fd m2 os]]
      keeps_trans [OF m1(2) k2] by (simp add: m3_def)
  have l3: "load8 m3 x = (if p_flags ph AND PF_W \<noteq> 0 \<and> unat ?e \<le> unat x \<and> unat x < unat (PAGE_END ?e)
      then Some 0 else if unat (PAGE_START ?s) \<le> unat x \<and> unat x < unat ?s + unat (p_filesz ph)
      then Some (bs ! (unat (PAGE_START (p_offset ph)) + (unat x - unat (PAGE_START ?s)))) else load8 m x)" for x
    by (simp add: m3_def l2 m1(3))
  have fr: "load8 m3 x = load8 m x" if "x \<notin> seg_foot bias ph" for x
    using that n by (auto simp: l3 seg_foot_def)
  have at: "unat (?s + of_nat i) = unat ?s + i" if "i < unat (p_memsz ph)" for i
    using that n(2) by (intro unat_add_of_nat) linarith
  have im1: "load8 m3 (?s + of_nat i) = Some (bs ! (unat (p_offset ph) + i))" if "i < unat (p_filesz ph)" for i
  proof -
    have u: "unat (?s + of_nat i) = unat ?s + i" using that n(1) by (intro at) simp
    have "unat (PAGE_START (p_offset ph)) + (unat ?s + i - unat (PAGE_START ?s)) = unat (p_offset ph) + i"
      using l n(3) by linarith
    then show ?thesis using that n(3,6) by (simp add: l3 u)
  qed
  have im2: "load8 m3 (?s + of_nat i) = Some 0" if i: "unat (p_filesz ph) \<le> i" "i < unat (p_memsz ph)" for i
  proof -
    have u: "unat (?s + of_nat i) = unat ?s + i" by (rule at [OF i(2)])
    have "?s + of_nat i \<in> seg_foot bias ph"
      using i n(3,9) by (simp add: seg_foot_def u)
    then have "load8 m (?s + of_nat i) = Some 0" using rdy by (simp add: seg_ready_def)
    then show ?thesis using i by (simp add: l3 u)
  qed
  show ?thesis
    using res k3 fr im1 im2 by (auto simp: seg_image_def)
qed

section \<open>The loop\<close>

lemma seg_image_frame:
  assumes ok: "seg_ok bias bs ph" and im: "seg_image bias bs ph m"
    and eq: "\<And>x. x \<in> seg_foot bias ph \<Longrightarrow> load8 m' x = load8 m x"
  shows "seg_image bias bs ph m'"
proof -
  note n = seg_numbers [OF ok]
  have "load8 m' (seg_addr bias ph + of_nat i) = load8 m (seg_addr bias ph + of_nat i)"
    if "i < unat (p_memsz ph)" for i
  proof (rule eq)
    have "unat (seg_addr bias ph + of_nat i) = unat (seg_addr bias ph) + i"
      using that n(2) by (intro unat_add_of_nat) linarith
    then show "seg_addr bias ph + of_nat i \<in> seg_foot bias ph"
      using that n(3,9) by (simp add: seg_foot_def)
  qed
  with im n(1) show ?thesis by (simp add: seg_image_def)
qed

interpretation load_step: segment_step fd "\<lambda>a n m. load_segments_loop os fd bias a n m"
  "load_segment os fd bias" "seg_ready fd bias bs"
  "\<lambda>ph m. seg_ok bias bs ph \<and> seg_image bias bs ph m" "seg_foot bias" for fd os bias bs
proof unfold_locales
  show "\<exists>m'. load_segment os fd bias ph m = Some (True, m') \<and> (seg_ok bias bs ph \<and> seg_image bias bs ph m') \<and>
      keeps fd m m' \<and> (\<forall>x. x \<notin> seg_foot bias ph \<longrightarrow> load8 m' x = load8 m x)"
    if "seg_ready fd bias bs ph m" for ph m
    using load_segment_image [OF that, of os] that by (auto simp: seg_ready_def)
  show "seg_ready fd bias bs ph m'"
    if "seg_ready fd bias bs ph m" and "keeps fd m m'" and "\<And>x. x \<in> seg_foot bias ph \<Longrightarrow> load8 m' x = load8 m x"
    for ph m m'
    using that by (auto simp: seg_ready_def keeps_writable) (simp add: keeps_def)
  show "seg_ok bias bs ph \<and> seg_image bias bs ph m'"
    if "seg_ok bias bs ph \<and> seg_image bias bs ph m" and "\<And>x. x \<in> seg_foot bias ph \<Longrightarrow> load8 m' x = load8 m x"
    for ph m m'
    using that seg_image_frame by blast
qed auto

lemma LoadSegments_loaded:
  assumes "phdrs_at m (er_phdr_table r) ps" and "unat (er_phdr_num r) = length ps" and "length ps \<le> 2048"
    and "\<forall>ph \<in> set (loads ps). seg_ready (er_fd r) (er_load_bias r) bs ph m"
    and "foot_disjoint (seg_foot (er_load_bias r)) (loads ps)"
    and "\<forall>ph \<in> set (loads ps). \<forall>x \<in> seg_foot (er_load_bias r) ph. \<not> in_block (er_phdr_table r) (32 * length ps) x"
  shows "\<exists>m'. LoadSegments os r m = Some (True, m') \<and> keeps (er_fd r) m m' \<and>
    (\<forall>ph \<in> set (loads ps). seg_image (er_load_bias r) bs ph m') \<and>
    (\<forall>x. (\<forall>ph \<in> set (loads ps). x \<notin> seg_foot (er_load_bias r) ph) \<longrightarrow> load8 m' x = load8 m x)"
proof -
  have "32 * length ps \<le> 4294967296" using assms(3) by simp
  from load_step.loop_image [OF assms(1) this assms(4,5,6), where os = os] show ?thesis
    unfolding LoadSegments_def assms(2) by blast
qed

section \<open>Properties\<close>

text \<open>
  C10: \<open>LoadSegments\<close> puts the image of every loadable segment in memory and touches
  nothing else.  When the segments are well formed, lie in writable zeroed pages of
  their own that do not overlap the program header table, and the file is open,
  it succeeds; then every segment reads as its bytes of the file followed by
  zeros up to its memory size, and no byte outside the segments' pages has changed.
\<close>

theorem LoadSegments_image:
  assumes "phdrs_at m (er_phdr_table r) ps" and "unat (er_phdr_num r) = length ps" and "length ps \<le> 2048"
    and "\<forall>ph \<in> set (loads ps). seg_ready (er_fd r) (er_load_bias r) bs ph m"
    and "foot_disjoint (seg_foot (er_load_bias r)) (loads ps)"
    and "\<forall>ph \<in> set (loads ps). \<forall>x \<in> seg_foot (er_load_bias r) ph. \<not> in_block (er_phdr_table r) (32 * length ps) x"
  shows "\<exists>m'. LoadSegments os r m = Some (True, m') \<and>
    (\<forall>ph \<in> set (loads ps). seg_image (er_load_bias r) bs ph m') \<and>
    (\<forall>x. (\<forall>ph \<in> set (loads ps). x \<notin> seg_foot (er_load_bias r) ph) \<longrightarrow> load8 m' x = load8 m x)"
  using LoadSegments_loaded [OF assms] by blast

lemma demo_seg_ready: "seg_ready 3 0x10000 demo_file demo_phdr (demo_image [])"
proof -
  have "writable (demo_image []) x \<and> load8 (demo_image []) x = Some 0" if "x \<in> seg_foot 0x10000 demo_phdr" for x
  proof -
    have "0x10000 \<le> unat x" "unat x < 0x11000"
      using that by (simp_all add: seg_foot_def seg_addr_def demo_phdr_def PAGE_END_def PAGE_START_def PAGE_MASK_def)
    then have "in_block 0x10000 4096 x" "\<not> in_block 0x1000 84 x"
      by (simp_all add: in_block_no_wrap)
    then show ?thesis by (simp add: writable_def load8_def demo_image_def byte_at_def)
  qed
  moreover have "seg_ok 0x10000 demo_file demo_phdr"
    by (simp add: seg_ok_def seg_addr_def demo_phdr_def demo_file_def PAGE_OFFSET_def PAGE_START_def PAGE_MASK_def
        PFLAGS_TO_PROT_def MAYBE_MAP_FLAG_def)
  ultimately show ?thesis
    by (simp add: seg_ready_def fd_file_def demo_image_def)
qed

lemma LoadSegments_image_witness:
  "\<exists>m'. LoadSegments demo_api demo_reader (demo_image []) = Some (True, m') \<and>
     load8 m' 0x10001 = Some 0x45 \<and> load8 m' 0x10054 = Some 0 \<and> load8 m' 0x1034 = Some 1"
proof -
  have foot: "x \<in> seg_foot 0x10000 demo_phdr \<longleftrightarrow> 0x10000 \<le> unat x \<and> unat x < 0x11000" for x
    by (simp add: seg_foot_def seg_addr_def demo_phdr_def PAGE_END_def PAGE_START_def PAGE_MASK_def)
  have "\<exists>m'. LoadSegments demo_api demo_reader (demo_image []) = Some (True, m') \<and>
    (\<forall>ph \<in> set (loads [demo_phdr]). seg_image (er_load_bias demo_reader) demo_file ph m') \<and>
    (\<forall>x. (\<forall>ph \<in> set (loads [demo_phdr]). x \<notin> seg_foot (er_load_bias demo_reader) ph) \<longrightarrow>
       load8 m' x = load8 (demo_image []) x)"
    by (rule LoadSegments_image)
      (use demo_table [of "[]"] demo_seg_ready in \<open>simp_all add: demo_reader_def ElfReader_def demo_loads
        foot_disjoint_def foot in_block_no_wrap\<close>)
  then obtain m' where m': "LoadSegments demo_api demo_reader (demo_image []) = Some (True, m')"
    and im: "seg_image 0x10000 demo_file demo_phdr m'"
    and fr: "\<And>x. x \<notin> seg_foot 0x10000 demo_phdr \<Longrightarrow> load8 m' x = load8 (demo_image []) x"
    by (auto simp: demo_loads demo_reader_def)
  have "\<And>i. i < 84 \<Longrightarrow> load8 m' (0x10000 + of_nat i) = Some (demo_file ! i)"
    and "\<And>i. 84 \<le> i \<Longrightarrow> i < 128 \<Longrightarrow> load8 m' (0x10000 + of_nat i) = Some 0"
    using im by (simp_all add: seg_image_def seg_addr_def demo_phdr_def)
  from this(1) [of 1] this(2) [of 84] have "load8 m' 0x10001 = Some (demo_file ! 1)" "load8 m' 0x10054 = Some 0"
    by simp_all
  moreover have "load8 m' 0x1034 = Some 1"
    using fr [of "0x1034"] by (simp add: foot load8_def demo_image_def in_block_def byte_at_def demo_file_def)
  ultimately show ?thesis using m' by (simp add: demo_file_def)
qed

end
