(* ===== verification/Linker.thy ===== *)
theory Linker
  imports Relocate Segment_Image
begin

text \<open>
  Loading and linking of emulator/linker.cpp: the walk along a dynamic section,
  \<open>soinfo_link_image\<close>, the opening of library files, \<open>load_library\<close> and the
  recursion of \<open>find_library\<close> through the needed libraries.  That recursion is
  bounded by fuel; the other loops are partial functions.  \<open>soinfo_link_image\<close>
  takes the finder it calls as its argument, and \<open>find_library\<close> ties the knot.
\<close>

section \<open>The dynamic section\<close>

text \<open>
  A loop over the dynamic section from \<open>d\<close>: the body may change the state, in which the next entry
  is read, and may leave the loop early with false.
\<close>

partial_function (option) walk_dyn ::
  "('s \<Rightarrow> mach) \<Rightarrow> (Elf32_Dyn \<Rightarrow> 's \<Rightarrow> (bool \<times> 's) option) \<Rightarrow> u32 \<Rightarrow> 's \<Rightarrow> (bool \<times> 's) option" where
  "walk_dyn mem body d st =
     do { e \<leftarrow> read_dyn (mem st) d;
          (if d_tag e = DT_NULL then Some (True, st)
           else do { (ok, st) \<leftarrow> body e st;
                     (if ok then walk_dyn mem body (d + sizeof_Dyn) st else Some (False, st)) }) }"

text \<open>One entry of the first walk: the library with its fields set and the count of needed ones.\<close>

definition parse_dyn :: "mach \<Rightarrow> u32 \<Rightarrow> Elf32_Dyn \<Rightarrow> soinfo \<times> u32 \<Rightarrow> (bool \<times> soinfo \<times> u32) option" where
  "parse_dyn m base e st =
     (let (s, n) = st; tag = d_tag e; val = d_val e; p = base + val
      in if tag = DT_HASH
         then do { nb \<leftarrow> load32 m p; nc \<leftarrow> load32 m (p + 4);
                   Some (True, s\<lparr>si_nbucket := nb, si_nchain := nc, si_bucket := p + 8,
                                 si_chain := p + 8 + nb * 4\<rparr>, n) }
         else if tag = DT_STRTAB then Some (True, s\<lparr>si_strtab := p\<rparr>, n)
         else if tag = DT_SYMTAB then Some (True, s\<lparr>si_symtab := p\<rparr>, n)
         else if tag = DT_PLTREL then Some (val = DT_REL, s, n)
         else if tag = DT_JMPREL then Some (True, s\<lparr>si_plt_rel := p\<rparr>, n)
         else if tag = DT_PLTRELSZ then Some (True, s\<lparr>si_plt_rel_count := val div sizeof_Rel\<rparr>, n)
         else if tag = DT_REL then Some (True, s\<lparr>si_rel := p\<rparr>, n)
         else if tag = DT_RELSZ then Some (True, s\<lparr>si_rel_count := val div sizeof_Rel\<rparr>, n)
         else if tag = DT_PLTGOT then Some (True, s\<lparr>si_plt_got := p\<rparr>, n)
         else if tag = DT_RELA then Some (False, s, n)
         else if tag = DT_INIT then Some (True, s\<lparr>si_init_func := p\<rparr>, n)
         else if tag = DT_FINI then Some (True, s\<lparr>si_fini_func := p\<rparr>, n)
         else if tag = DT_INIT_ARRAY then Some (True, s\<lparr>si_init_array := p\<rparr>, n)
         else if tag = DT_INIT_ARRAYSZ then Some (True, s\<lparr>si_init_array_count := val div 4\<rparr>, n)
         else if tag = DT_FINI_ARRAY then Some (True, s\<lparr>si_fini_array := p\<rparr>, n)
         else if tag = DT_FINI_ARRAYSZ then Some (True, s\<lparr>si_fini_array_count := val div 4\<rparr>, n)
         else if tag = DT_PREINIT_ARRAY then Some (True, s\<lparr>si_preinit_array := p\<rparr>, n)
         else if tag = DT_PREINIT_ARRAYSZ then Some (True, s\<lparr>si_preinit_array_count := val div 4\<rparr>, n)
         else if tag = DT_TEXTREL then Some (True, s\<lparr>si_has_text_relocations := True\<rparr>, n)
         else if tag = DT_SYMBOLIC then Some (True, s\<lparr>si_has_DT_SYMBOLIC := True\<rparr>, n)
         else if tag = DT_NEEDED then Some (True, s, n + 1)
         else Some (True, s, n))"

section \<open>\<open>soinfo_link_image\<close>\<close>

type_synonym finder = "string option \<Rightarrow> world \<Rightarrow> (u32 \<times> world) option"

definition put_si :: "u32 \<Rightarrow> soinfo \<Rightarrow> world \<Rightarrow> world" where
  "put_si p s w = w\<lparr>sos := (sos w)(p \<mapsto> s)\<rparr>"

text \<open>The preloaded libraries; one that cannot be loaded is skipped.\<close>

fun load_preloads :: "finder \<Rightarrow> string list \<Rightarrow> world \<Rightarrow> world option" where
  "load_preloads fl [] w = Some w"
| "load_preloads fl (name # names) w =
     do { (lsi, w) \<leftarrow> fl (Some name) w;
          load_preloads fl names (if lsi \<noteq> 0 then w\<lparr>gLdPreloads := gLdPreloads w @ [lsi]\<rparr> else w) }"

text \<open>One entry of the second walk: the array \<open>needed\<close> grows, a library that is not found ends it.\<close>

definition need_dyn :: "finder \<Rightarrow> u32 \<Rightarrow> Elf32_Dyn \<Rightarrow> u32 list \<times> world \<Rightarrow> (bool \<times> u32 list \<times> world) option" where
  "need_dyn fl si e st =
     (let (needed, w) = st
      in if d_tag e = DT_NEEDED
         then do { s \<leftarrow> sos w si;
                   name \<leftarrow> cstr (mc w) (si_strtab s + d_val e);
                   (lsi, w) \<leftarrow> fl (Some name) w;
                   Some (if lsi = 0 then (False, needed, w) else (True, needed @ [lsi], w)) }
         else Some (True, needed, w))"

text \<open>One of the two relocation tables: false when its relocation fails.\<close>

definition relocate_table :: "bool \<Rightarrow> u32 \<Rightarrow> u32 \<Rightarrow> u32 \<Rightarrow> u32 list \<Rightarrow> world \<Rightarrow> (bool \<times> world) option" where
  "relocate_table breloc si rel cnt needed w =
     (if rel \<noteq> 0 \<and> breloc
      then do { (r, w) \<leftarrow> soinfo_relocate w si rel cnt needed; Some (r = 0, w) }
      else Some (True, w))"

text \<open>A pass over the program headers that may change the protection of memory.\<close>

definition protect_pass ::
  "(u32 \<Rightarrow> nat \<Rightarrow> u32 \<Rightarrow> mach \<Rightarrow> (int \<times> mach) option) \<Rightarrow> soinfo \<Rightarrow> world \<Rightarrow> (bool \<times> world) option" where
  "protect_pass pass s w =
     do { (r, m) \<leftarrow> pass (si_phdr s) (unat (si_phnum s)) (si_load_bias s) (mc w);
          Some (\<not> r < 0, w\<lparr>mc := m\<rparr>) }"

text \<open>After the relocations: the flag, and the protection of the segments and of the RELRO pages.\<close>

definition seal_image :: "win_api \<Rightarrow> u32 \<Rightarrow> soinfo \<Rightarrow> world \<Rightarrow> (bool \<times> world) option" where
  "seal_image os si s w =
     do { w \<leftarrow> upd_si si (\<lambda>s. s\<lparr>si_flags := si_flags s OR FLAG_LINKED\<rparr>) w;
          (ok, w) \<leftarrow> (if si_has_text_relocations s
                      then protect_pass (phdr_table_protect_segments os) s w else Some (True, w));
          (if \<not> ok then Some (False, w) else protect_pass (phdr_table_protect_gnu_relro os) s w) }"

text \<open>From the text relocations to the end.\<close>

definition relocate_image :: "win_api \<Rightarrow> u32 \<Rightarrow> bool \<Rightarrow> u32 list \<Rightarrow> world \<Rightarrow> (bool \<times> world) option" where
  "relocate_image os si breloc needed w =
     do { s \<leftarrow> sos w si;
          (ok, w) \<leftarrow> (if si_has_text_relocations s
                      then protect_pass (phdr_table_unprotect_segments os) s w else Some (True, w));
          (if \<not> ok then Some (False, w)
           else do {
             (ok, w) \<leftarrow> relocate_table breloc si (si_plt_rel s) (si_plt_rel_count s) needed w;
             (if \<not> ok then Some (False, w)
              else do {
                (ok, w) \<leftarrow> relocate_table breloc si (si_rel s) (si_rel_count s) needed w;
                (if \<not> ok then Some (False, w) else seal_image os si s w) }) }) }"

definition soinfo_link_image :: "win_api \<Rightarrow> finder \<Rightarrow> u32 \<Rightarrow> bool \<Rightarrow> world \<Rightarrow> (bool \<times> world) option" where
  "soinfo_link_image os fl si breloc w =
     do { s \<leftarrow> sos w si;
          let base = si_load_bias s;
          let relocating_linker = (si_flags s AND FLAG_LINKER \<noteq> 0);
          (dyn, _, _) \<leftarrow> phdr_table_get_dynamic_section (mc w) (si_phdr s) (unat (si_phnum s)) base;
          let s = s\<lparr>si_dynamic := dyn\<rparr>;
          (if dyn = 0 then Some (False, put_si si s w)
           else do {
             (_, exidx, cnt) \<leftarrow> phdr_table_get_arm_exidx (mc w) (si_phdr s) (unat (si_phnum s)) base;
             let s = s\<lparr>si_ARM_exidx := exidx, si_ARM_exidx_count := cnt\<rparr>;
             (ok, s, needed_count) \<leftarrow> walk_dyn (\<lambda>_. mc w) (parse_dyn (mc w) base) dyn (s, 0);
             let w = put_si si s w;
             (if \<not> ok \<or> (relocating_linker \<and> needed_count \<noteq> 0) \<or> si_nbucket s = 0 \<or> si_strtab s = 0 \<or>
                 si_symtab s = 0
              then Some (False, w)
              else do {
                w \<leftarrow> (if si_flags s AND FLAG_EXE \<noteq> 0
                      then load_preloads fl (gLdPreloadNames w) (w\<lparr>gLdPreloads := []\<rparr>) else Some w);
                (ok, needed, w) \<leftarrow> walk_dyn (\<lambda>st. mc (snd st)) (need_dyn fl si) dyn ([], w);
                (if \<not> ok then Some (False, w) else relocate_image os si breloc needed w) }) }) }"

section \<open>Opening and loading\<close>

text \<open>
  The buffer holds the path \<open>paths[i]/name\<close>, which the code builds and checks for its length; the
  file it opens is \<open>name\<close>.
\<close>

fun open_library_on_path :: "string \<Rightarrow> string list \<Rightarrow> mach \<Rightarrow> int \<times> mach" where
  "open_library_on_path name [] m = (-1, m)"
| "open_library_on_path name (path # paths) m =
     (let (fd, m) = (if path = [] then s_open name m else (-1, m))
      in if fd \<noteq> -1 then (fd, m)
         else if 512 \<le> length (path @ ''/'' @ name) then open_library_on_path name paths m
         else let (fd, m) = s_open name m
              in if fd \<noteq> -1 then (fd, m) else open_library_on_path name paths m)"

definition open_library :: "string \<Rightarrow> string list \<Rightarrow> mach \<Rightarrow> int \<times> mach" where
  "open_library name paths m =
     (let (fd, m) = (if CHR ''/'' \<in> set name then s_open name m else (-1, m))
      in if fd \<noteq> -1 then (fd, m) else open_library_on_path name paths m)"

text \<open>The reader is destroyed at every return: its file is closed and its table unmapped.\<close>

definition load_library :: "win_api \<Rightarrow> string \<Rightarrow> world \<Rightarrow> (u32 \<times> world) option" where
  "load_library os name w =
     (let (fd, m) = open_library name (gLdPaths w) (mc w); w = w\<lparr>mc := m\<rparr>
      in if fd = -1 then Some (0, w)
         else do {
           (ok, r, m) \<leftarrow> Load os (ElfReader name fd) (mc w);
           let w = w\<lparr>mc := m\<rparr>;
           (if \<not> ok then Some (0, w\<lparr>mc := ElfReader_destroy os r (mc w)\<rparr>)
            else do {
              (si, w) \<leftarrow> soinfo_alloc os (basename name) w;
              (if si = 0 then Some (0, w\<lparr>mc := ElfReader_destroy os r (mc w)\<rparr>)
               else do {
                 w \<leftarrow> upd_si si (\<lambda>s. s\<lparr>si_base := er_load_start r, si_size := er_load_size r,
                        si_load_bias := er_load_bias r, si_flags := 0, si_entry := 0, si_dynamic := 0,
                        si_phnum := er_phdr_num r, si_phdr := er_loaded_phdr r\<rparr>) w;
                 Some (si, w\<lparr>mc := ElfReader_destroy os r (mc w)\<rparr>) }) }) })"

definition find_library_internal :: "win_api \<Rightarrow> finder \<Rightarrow> finder" where
  "find_library_internal os fl name w =
     (case name of
        None \<Rightarrow> Some (somain w, w)
      | Some name \<Rightarrow>
          do { si \<leftarrow> find_loaded_library name w;
               (if si \<noteq> 0
                then do { s \<leftarrow> sos w si; Some (if si_flags s AND FLAG_LINKED \<noteq> 0 then si else 0, w) }
                else do {
                  (si, w) \<leftarrow> load_library os name w;
                  (if si = 0 then Some (0, w)
                   else do {
                     (ok, w) \<leftarrow> soinfo_link_image os fl si True w;
                     (if ok then Some (si, w)
                      else do {
                        s \<leftarrow> sos w si;
                        let w = w\<lparr>mc := snd (s_munmap os (si_base s) (si_size s) (mc w))\<rparr>;
                        w \<leftarrow> soinfo_free si w;
                        Some (0, w) }) }) }) })"

text \<open>The fuel is the depth to which libraries are loaded for one another.\<close>

fun find_library :: "win_api \<Rightarrow> nat \<Rightarrow> finder" where
  "find_library os 0 name w = None"
| "find_library os (Suc n) name w =
     do { (si, w) \<leftarrow> find_library_internal os (find_library os n) name w;
          (if si \<noteq> 0
           then do { w \<leftarrow> upd_si si (\<lambda>s. s\<lparr>si_ref_count := si_ref_count s + 1\<rparr>) w; Some (si, w) }
           else Some (si, w)) }"

section \<open>Walks over a known dynamic section\<close>

text \<open>The entries at \<open>a\<close> before the terminating one.\<close>

fun dyns_at :: "mach \<Rightarrow> u32 \<Rightarrow> Elf32_Dyn list \<Rightarrow> bool" where
  "dyns_at m a [] \<longleftrightarrow> (\<exists>v. read_dyn m a = Some \<lparr>d_tag = DT_NULL, d_val = v\<rparr>)"
| "dyns_at m a (e # es) \<longleftrightarrow> read_dyn m a = Some e \<and> d_tag e \<noteq> DT_NULL \<and> dyns_at m (a + sizeof_Dyn) es"

fun run_dyns :: "(Elf32_Dyn \<Rightarrow> 's \<Rightarrow> (bool \<times> 's) option) \<Rightarrow> Elf32_Dyn list \<Rightarrow> 's \<Rightarrow> (bool \<times> 's) option" where
  "run_dyns body [] st = Some (True, st)"
| "run_dyns body (e # es) st =
     do { (ok, st) \<leftarrow> body e st; (if ok then run_dyns body es st else Some (False, st)) }"

lemma walk_dyn_stays:
  assumes "dyns_at (mem st) a es" and "\<forall>e \<in> set es. body e st = Some (True, st)"
  shows "walk_dyn mem body a st = Some (True, st)"
  using assms
proof (induction es arbitrary: a)
  case Nil
  then show ?case by (subst walk_dyn.simps) auto
next
  case (Cons e es)
  then show ?case by (subst walk_dyn.simps) simp
qed

lemma walk_dyn_run:
  assumes keep: "\<And>e st ok st'. body e st = Some (ok, st') \<Longrightarrow> mem st' = mem st"
  shows "dyns_at (mem st) a es \<Longrightarrow> walk_dyn mem body a st = run_dyns body es st"
proof (induction es arbitrary: a st)
  case Nil
  then show ?case by (subst walk_dyn.simps) auto
next
  case (Cons e es)
  have "walk_dyn mem body (a + sizeof_Dyn) st' = run_dyns body es st'" if "body e st = Some (True, st')" for st'
    using Cons.prems keep [OF that] by (intro Cons.IH) simp
  with Cons.prems show ?case
    by (subst walk_dyn.simps) (auto intro!: Option.bind_cong)
qed

lemma run_dyns_append:
  "run_dyns body (es @ gs) st =
     do { (ok, st) \<leftarrow> run_dyns body es st; (if ok then run_dyns body gs st else Some (False, st)) }"
  by (induction es arbitrary: st) (auto simp: split: option.splits intro!: Option.bind_cong)

section \<open>What the first walk computes\<close>

text \<open>The value of the last entry with a tag.\<close>

definition dyn_last :: "Elf32_Dyn list \<Rightarrow> u32 \<Rightarrow> 'a \<Rightarrow> (u32 \<Rightarrow> 'a) \<Rightarrow> 'a" where
  "dyn_last es tag old f =
     (case find (\<lambda>e. d_tag e = tag) (rev es) of None \<Rightarrow> old | Some e \<Rightarrow> f (d_val e))"

lemma dyn_last_Nil [simp]: "dyn_last [] tag old f = old"
  by (simp add: dyn_last_def)

lemma dyn_last_single: "dyn_last [e] tag old f = (if d_tag e = tag then f (d_val e) else old)"
  by (simp add: dyn_last_def)

lemma dyn_last_snoc [simp]:
  "dyn_last (es @ [e]) tag old f = (if d_tag e = tag then f (d_val e) else dyn_last es tag old f)"
  by (simp add: dyn_last_def)

definition word_at_addr :: "mach \<Rightarrow> u32 \<Rightarrow> u32" where
  "word_at_addr m a = (case load32 m a of None \<Rightarrow> 0 | Some v \<Rightarrow> v)"

definition parsed :: "mach \<Rightarrow> u32 \<Rightarrow> Elf32_Dyn list \<Rightarrow> soinfo \<Rightarrow> soinfo" where
  "parsed m base es s = s\<lparr>
     si_strtab := dyn_last es DT_STRTAB (si_strtab s) (\<lambda>v. base + v),
     si_symtab := dyn_last es DT_SYMTAB (si_symtab s) (\<lambda>v. base + v),
     si_nbucket := dyn_last es DT_HASH (si_nbucket s) (\<lambda>v. word_at_addr m (base + v)),
     si_nchain := dyn_last es DT_HASH (si_nchain s) (\<lambda>v. word_at_addr m (base + v + 4)),
     si_bucket := dyn_last es DT_HASH (si_bucket s) (\<lambda>v. base + v + 8),
     si_chain := dyn_last es DT_HASH (si_chain s) (\<lambda>v. base + v + 8 + word_at_addr m (base + v) * 4),
     si_plt_got := dyn_last es DT_PLTGOT (si_plt_got s) (\<lambda>v. base + v),
     si_plt_rel := dyn_last es DT_JMPREL (si_plt_rel s) (\<lambda>v. base + v),
     si_plt_rel_count := dyn_last es DT_PLTRELSZ (si_plt_rel_count s) (\<lambda>v. v div 8),
     si_rel := dyn_last es DT_REL (si_rel s) (\<lambda>v. base + v),
     si_rel_count := dyn_last es DT_RELSZ (si_rel_count s) (\<lambda>v. v div 8),
     si_preinit_array := dyn_last es DT_PREINIT_ARRAY (si_preinit_array s) (\<lambda>v. base + v),
     si_preinit_array_count := dyn_last es DT_PREINIT_ARRAYSZ (si_preinit_array_count s) (\<lambda>v. v div 4),
     si_init_array := dyn_last es DT_INIT_ARRAY (si_init_array s) (\<lambda>v. base + v),
     si_init_array_count := dyn_last es DT_INIT_ARRAYSZ (si_init_array_count s) (\<lambda>v. v div 4),
     si_fini_array := dyn_last es DT_FINI_ARRAY (si_fini_array s) (\<lambda>v. base + v),
     si_fini_array_count := dyn_last es DT_FINI_ARRAYSZ (si_fini_array_count s) (\<lambda>v. v div 4),
     si_init_func := dyn_last es DT_INIT (si_init_func s) (\<lambda>v. base + v),
     si_fini_func := dyn_last es DT_FINI (si_fini_func s) (\<lambda>v. base + v),
     si_has_text_relocations := dyn_last es DT_TEXTREL (si_has_text_relocations s) (\<lambda>v. True),
     si_has_DT_SYMBOLIC := dyn_last es DT_SYMBOLIC (si_has_DT_SYMBOLIC s) (\<lambda>v. True)\<rparr>"

text \<open>An entry that the first walk accepts.\<close>

definition dyn_accepted :: "mach \<Rightarrow> u32 \<Rightarrow> Elf32_Dyn \<Rightarrow> bool" where
  "dyn_accepted m base e \<longleftrightarrow>
     d_tag e \<noteq> DT_RELA \<and> (d_tag e = DT_PLTREL \<longrightarrow> d_val e = DT_REL) \<and>
     (d_tag e = DT_HASH \<longrightarrow> load32 m (base + d_val e) \<noteq> None \<and> load32 m (base + d_val e + 4) \<noteq> None)"

definition needed_names :: "Elf32_Dyn list \<Rightarrow> Elf32_Dyn list" where
  "needed_names es = filter (\<lambda>e. d_tag e = DT_NEEDED) es"

lemma parsed_snoc: "parsed m base (es @ [e]) s = parsed m base [e] (parsed m base es s)"
  by (simp add: parsed_def dyn_last_single cong: if_cong)

lemma parse_dyn_parsed:
  assumes "dyn_accepted m base e"
  shows "parse_dyn m base e (s, n) =
    Some (True, parsed m base [e] s, if d_tag e = DT_NEEDED then n + 1 else n)"
  using assms unfolding parse_dyn_def Let_def dyn_accepted_def
  by (auto simp: parsed_def dyn_last_single word_at_addr_def)

lemma run_parse:
  "\<forall>e \<in> set es. dyn_accepted m base e \<Longrightarrow>
     run_dyns (parse_dyn m base) es (s, n) = Some (True, parsed m base es s, n + of_nat (length (needed_names es)))"
proof (induction es rule: rev_induct)
  case Nil
  then show ?case by (simp add: parsed_def needed_names_def)
next
  case (snoc e es)
  then show ?case by (simp add: run_dyns_append parse_dyn_parsed parsed_snoc needed_names_def)
qed

section \<open>Linking a library that needs no other\<close>

lemma parse_dyn_mem: "walk_dyn (\<lambda>_. m) body a st = run_dyns body es st" if "dyns_at m a es"
  using walk_dyn_run [of body "\<lambda>_. m" st a es] that by simp

lemma need_dyn_other: "d_tag e \<noteq> DT_NEEDED \<Longrightarrow> need_dyn fl si e st = Some (True, st)"
  by (cases st) (simp add: need_dyn_def)

lemma walk_need_none:
  assumes "dyns_at (mc w) a es" and "\<forall>e \<in> set es. d_tag e \<noteq> DT_NEEDED"
  shows "walk_dyn (\<lambda>st. mc (snd st)) (need_dyn fl si) a (needed, w) = Some (True, needed, w)"
  using assms
proof (induction es arbitrary: a)
  case Nil
  then show ?case by (subst walk_dyn.simps) auto
next
  case (Cons e es)
  then show ?case by (subst walk_dyn.simps) (simp add: need_dyn_other)
qed

definition linkable :: "soinfo \<Rightarrow> bool" where
  "linkable s \<longleftrightarrow> si_nbucket s \<noteq> 0 \<and> si_strtab s \<noteq> 0 \<and> si_symtab s \<noteq> 0"

lemma parsed_sel [simp]:
  "si_flags (parsed m base es s) = si_flags s" "si_load_bias (parsed m base es s) = si_load_bias s"
  "si_base (parsed m base es s) = si_base s" "si_name (parsed m base es s) = si_name s"
  "si_next (parsed m base es s) = si_next s" "si_dynamic (parsed m base es s) = si_dynamic s"
  by (simp_all add: parsed_def)

lemma link_leaf:
  assumes s: "sos w si = Some s" "si_flags s = 0"
    and dyn: "phdr_table_get_dynamic_section (mc w) (si_phdr s) (unat (si_phnum s)) (si_load_bias s) = Some (dyn, x)"
    and nz: "dyn \<noteq> 0"
    and ex: "phdr_table_get_arm_exidx (mc w) (si_phdr s) (unat (si_phnum s)) (si_load_bias s) = Some (r, a, c)"
    and es: "dyns_at (mc w) dyn es" "\<forall>e \<in> set es. dyn_accepted (mc w) (si_load_bias s) e \<and> d_tag e \<noteq> DT_NEEDED"
  shows "soinfo_link_image os fl si breloc w =
    (let s' = parsed (mc w) (si_load_bias s) es (s\<lparr>si_dynamic := dyn, si_ARM_exidx := a, si_ARM_exidx_count := c\<rparr>)
     in if linkable s' then relocate_image os si breloc [] (put_si si s' w) else Some (False, put_si si s' w))"
proof -
  let ?s = "s\<lparr>si_dynamic := dyn, si_ARM_exidx := a, si_ARM_exidx_count := c\<rparr>"
  obtain cnt fg where x: "x = (cnt, fg)" by (cases x)
  have "needed_names es = []" using es(2) by (auto simp: needed_names_def filter_empty_conv)
  then have w1: "walk_dyn (\<lambda>_. mc w) (parse_dyn (mc w) (si_load_bias s)) dyn (?s, 0) =
      Some (True, parsed (mc w) (si_load_bias s) es ?s, 0)"
    using es run_parse [of es "mc w" "si_load_bias s" ?s 0] by (simp add: parse_dyn_mem)
  have w2: "walk_dyn (\<lambda>st. mc (snd st)) (need_dyn fl si) dyn ([], put_si si s' w) = Some (True, [], put_si si s' w)" for s'
    using es by (intro walk_need_none) (auto simp: put_si_def)
  show ?thesis
    using s dyn nz ex by (simp add: soinfo_link_image_def x w1 w2 Let_def linkable_def)
qed

lemma bind_eq_SomeE:
  assumes "Option.bind x f = Some y"
  obtains a where "x = Some a" and "f a = Some y"
  using assms by (cases x) auto

section \<open>A linked library is flagged\<close>

lemma protect_pass_sos: "protect_pass pass s w = Some (ok, w') \<Longrightarrow> sos w' = sos w"
  by (auto simp: protect_pass_def Option.bind_eq_Some_conv)

lemma relocate_table_sos: "relocate_table b si rel cnt needed w = Some (ok, w') \<Longrightarrow> sos w' = sos w"
proof -
  assume h: "relocate_table b si rel cnt needed w = Some (ok, w')"
  then consider "w' = w" | r where "soinfo_relocate w si rel cnt needed = Some (r, w')"
    by (auto simp: relocate_table_def Option.bind_eq_Some_conv split: if_splits)
  then show ?thesis
    by cases (auto simp: soinfo_relocate_def Option.bind_eq_Some_conv only_memory_def
        dest!: relocate_loop_only_memory)
qed

lemma or_linked: "(x OR FLAG_LINKED) AND FLAG_LINKED \<noteq> 0"
proof -
  have "(x OR 1) AND 1 = (1 :: u32)" by (rule bit_word_eqI) (auto simp: bit_simps)
  then show ?thesis by simp
qed

definition is_linked :: "world \<Rightarrow> u32 \<Rightarrow> bool" where
  "is_linked w p \<longleftrightarrow> (case sos w p of None \<Rightarrow> False | Some s \<Rightarrow> si_flags s AND FLAG_LINKED \<noteq> 0)"

lemma is_linked_cong: "sos w' = sos w \<Longrightarrow> is_linked w' p = is_linked w p"
  by (simp add: is_linked_def)

lemma seal_image_linked:
  assumes "seal_image os si s w = Some (True, w')"
  shows "is_linked w' si"
proof -
  obtain w2 ok w3 where u: "upd_si si (\<lambda>s. s\<lparr>si_flags := si_flags s OR FLAG_LINKED\<rparr>) w = Some w2"
    and p: "(if si_has_text_relocations s then protect_pass (phdr_table_protect_segments os) s w2
             else Some (True, w2)) = Some (ok, w3)"
    and q: "(if \<not> ok then Some (False, w3) else protect_pass (phdr_table_protect_gnu_relro os) s w3) = Some (True, w')"
    using assms unfolding seal_image_def by (elim bind_eq_SomeE) (auto elim!: bind_eq_SomeE)
  have "sos w3 = sos w2" using p by (auto split: if_splits dest: protect_pass_sos)
  moreover have "sos w' = sos w3" using q by (auto split: if_splits dest: protect_pass_sos)
  moreover have "is_linked w2 si"
    using u or_linked by (auto simp: upd_si_def is_linked_def split: option.splits)
  ultimately show ?thesis by (metis is_linked_cong)
qed

lemma relocate_image_linked: "relocate_image os si breloc needed w = Some (True, w') \<Longrightarrow> is_linked w' si"
  unfolding relocate_image_def
  by (auto simp: Option.bind_eq_Some_conv split: if_splits prod.splits dest: seal_image_linked)

lemma link_image_linked: "soinfo_link_image os fl si breloc w = Some (True, w') \<Longrightarrow> is_linked w' si"
  unfolding soinfo_link_image_def Let_def
  by (auto simp: Option.bind_eq_Some_conv split: if_splits prod.splits dest: relocate_image_linked)

lemma find_library_internal_linked:
  assumes "find_library_internal os fl (Some name) w = Some (p, w')" and "p \<noteq> 0"
  shows "is_linked w' p"
  using assms
  by (auto simp: find_library_internal_def Option.bind_eq_Some_conv Let_def split: if_splits prod.splits
      dest: link_image_linked) (simp_all add: is_linked_def)

section \<open>More fuel does not change a result\<close>

definition extends :: "finder \<Rightarrow> finder \<Rightarrow> bool" where
  "extends f g \<longleftrightarrow> (\<forall>name w r. f name w = Some r \<longrightarrow> g name w = Some r)"

definition body_extends :: "('e \<Rightarrow> 's \<Rightarrow> 'r option) \<Rightarrow> ('e \<Rightarrow> 's \<Rightarrow> 'r option) \<Rightarrow> bool" where
  "body_extends b1 b2 \<longleftrightarrow> (\<forall>e st r. b1 e st = Some r \<longrightarrow> b2 e st = Some r)"

lemma walk_dyn_mono:
  assumes "walk_dyn mem b1 d st = Some r" and "body_extends b1 b2"
  shows "walk_dyn mem b2 d st = Some r"
proof -
  have "body_extends b1 b2 \<longrightarrow> walk_dyn mem b2 d st = Some r"
  proof (rule walk_dyn.raw_induct [where P = "\<lambda>mem b1 d st r. body_extends b1 b2 \<longrightarrow> walk_dyn mem b2 d st = Some r",
        OF _ assms(1)])
    fix wd mem and b1 :: "Elf32_Dyn \<Rightarrow> 'a \<Rightarrow> (bool \<times> 'a) option" and d st r
    assume IH: "\<And>mem b1 d st r. wd mem b1 d st = Some r \<Longrightarrow> body_extends b1 b2 \<longrightarrow> walk_dyn mem b2 d st = Some r"
      and run: "do { e \<leftarrow> read_dyn (mem st) d;
          (if d_tag e = DT_NULL then Some (True, st)
           else do { (ok, st) \<leftarrow> b1 e st;
                     (if ok then wd mem b1 (d + sizeof_Dyn) st else Some (False, st)) }) } = Some r"
    show "body_extends b1 b2 \<longrightarrow> walk_dyn mem b2 d st = Some r"
    proof
      assume ext: "body_extends b1 b2"
      from run obtain e where e: "read_dyn (mem st) d = Some e" by (auto elim: bind_eq_SomeE)
      show "walk_dyn mem b2 d st = Some r"
      proof (cases "d_tag e = DT_NULL")
        case True
        with run e show ?thesis by (subst walk_dyn.simps) simp
      next
        case False
        with run e obtain ok st' where b: "b1 e st = Some (ok, st')"
          and n: "(if ok then wd mem b1 (d + sizeof_Dyn) st' else Some (False, st')) = Some r"
          by (auto elim!: bind_eq_SomeE)
        have "b2 e st = Some (ok, st')" using b ext by (simp add: body_extends_def)
        moreover have "(if ok then walk_dyn mem b2 (d + sizeof_Dyn) st' else Some (False, st')) = Some r"
          using n IH ext by (auto split: if_splits)
        ultimately show ?thesis using False e by (subst walk_dyn.simps) simp
      qed
    qed
  qed
  with assms(2) show ?thesis by blast
qed

lemma load_preloads_mono:
  "load_preloads f names w = Some w' \<Longrightarrow> extends f g \<Longrightarrow> load_preloads g names w = Some w'"
  by (induction names arbitrary: w) (auto simp: extends_def elim!: bind_eq_SomeE)

lemma need_dyn_mono: "extends f g \<Longrightarrow> body_extends (need_dyn f si) (need_dyn g si)"
  by (auto simp: body_extends_def need_dyn_def extends_def elim!: bind_eq_SomeE split: if_splits)

lemma link_image_mono:
  assumes "soinfo_link_image os f si breloc w = Some r" and fg: "extends f g"
  shows "soinfo_link_image os g si breloc w = Some r"
  using assms(1) load_preloads_mono [OF _ fg] walk_dyn_mono [OF _ need_dyn_mono [OF fg]]
  unfolding soinfo_link_image_def Let_def
  by (auto elim!: bind_eq_SomeE split: if_splits)

lemma find_library_internal_mono:
  assumes "find_library_internal os f name w = Some r" and fg: "extends f g"
  shows "find_library_internal os g name w = Some r"
  using assms(1) link_image_mono [OF _ fg] unfolding find_library_internal_def
  by (cases name) (auto elim!: bind_eq_SomeE split: if_splits)

lemma find_library_Suc: "extends (find_library os n) (find_library os (Suc n))"
proof (induction n)
  case 0
  then show ?case by (simp add: extends_def)
next
  case (Suc n)
  show ?case
    unfolding extends_def
  proof (intro allI impI)
    fix name w r
    assume A: "find_library os (Suc n) name w = Some r"
    then obtain q where "find_library_internal os (find_library os n) name w = Some q"
      unfolding find_library.simps(2) [of os n] by (elim bind_eq_SomeE)
    moreover from this have "find_library_internal os (find_library os (Suc n)) name w = Some q"
      by (rule find_library_internal_mono [OF _ Suc])
    ultimately show "find_library os (Suc (Suc n)) name w = Some r"
      using A unfolding find_library.simps(2) [of os n] find_library.simps(2) [of os "Suc n"] by simp
  qed
qed

lemma find_library_fuel: "n \<le> k \<Longrightarrow> find_library os n name w = Some r \<Longrightarrow> find_library os k name w = Some r"
proof (induction rule: dec_induct)
  case base
  then show ?case .
next
  case (step m)
  then show ?case using find_library_Suc [of os m] unfolding extends_def by blast
qed

section \<open>Opening\<close>

lemma c_open_cases: "c_open name m = (fd, m') \<Longrightarrow> fd = -1 \<and> m' = m \<and> fs m name = None \<or> fd \<noteq> -1"
  by (cases "fs m name") (auto simp: c_open_def Let_def)

lemma open_on_path_eq:
  "open_library_on_path name paths m =
     (if \<exists>p \<in> set paths. p = [] \<or> length (p @ ''/'' @ name) < 512 then c_open name m else (-1, m))"
proof (cases "fs m name")
  case None
  then show ?thesis by (induction paths) (auto simp: s_open_def c_open_missing Let_def)
next
  case (Some d)
  then obtain fd m' where "c_open name m = (fd, m')" "fd \<noteq> -1"
    using c_open_fd [OF Some] by (cases "c_open name m") auto
  then show ?thesis by (induction paths) (auto simp: s_open_def Let_def linorder_not_less [symmetric])
qed

lemma open_library_eq:
  "open_library name paths m =
     (if CHR ''/'' \<in> set name \<or> (\<exists>p \<in> set paths. p = [] \<or> length (p @ ''/'' @ name) < 512)
      then c_open name m else (-1, m))"
proof -
  obtain fd m' where c: "c_open name m = (fd, m')" by (cases "c_open name m")
  show ?thesis
    using c_open_cases [OF c] c
    unfolding open_library_def open_on_path_eq s_open_def by (auto simp: c_open_missing)
qed

lemma load_library_missing: "fs (mc w) name = None \<Longrightarrow> load_library os name w = Some (0, w)"
  by (auto simp: load_library_def open_library_eq c_open_missing)

lemma find_library_registered_eq:
  assumes inv: "so_inv w LS FL" and p: "find (\<lambda>p. si_name (obj w p) = basename name) LS = Some p"
  shows "find_library os (Suc n) (Some name) w =
    (if is_linked w p then Some (p, put_si p ((obj w p)\<lparr>si_ref_count := si_ref_count (obj w p) + 1\<rparr>) w)
     else Some (0, w))"
proof -
  have m: "p \<in> set LS" using p by (auto simp: find_Some_iff)
  then have live: "p \<noteq> 0" "sos w p = Some (obj w p)"
    using so_inv_live [OF inv, of p] by (auto simp: obj_def)
  have f: "find_loaded_library name w = Some p"
    using find_loaded_library_eq [OF inv, of name] p unfolding eq_commute [of "basename name"]
    by (simp add: ptr_of_def)
  show ?thesis
    using f live by (simp add: find_library_internal_def is_linked_def upd_si_def put_si_def)
qed

lemma find_library_missing_eq:
  assumes "so_inv w LS FL" and "\<forall>p \<in> set LS. si_name (obj w p) \<noteq> basename name" and "fs (mc w) name = None"
  shows "find_library os (Suc n) (Some name) w = Some (0, w)"
proof -
  have "find (\<lambda>p. basename name = si_name (obj w p)) LS = None"
    using assms(2) by (auto simp: find_None_iff)
  then show ?thesis
    using find_loaded_library_eq [OF assms(1), of name] load_library_missing [OF assms(3), of os]
    by (simp add: find_library_internal_def ptr_of_def)
qed

section \<open>Properties\<close>

text \<open>
  An image with one program header (the dynamic section), a dynamic section of three entries and a
  hash table header, and a library whose image it is.
\<close>

definition demo_dyn_bytes :: "u8 list" where
  "demo_dyn_bytes =
     [2, 0, 0, 0,  0, 0, 0, 0,  0x20, 0, 0, 0,  0, 0, 0, 0,  0x20, 0, 0, 0,  0x20, 0, 0, 0,  4, 0, 0, 0,  4, 0, 0, 0,
      5, 0, 0, 0,  0x48, 0, 0, 0,  6, 0, 0, 0,  0x50, 0, 0, 0,  4, 0, 0, 0,  0x40, 0, 0, 0,  0, 0, 0, 0,  0, 0, 0, 0,
      1, 0, 0, 0,  2, 0, 0, 0]"

definition demo_dyns :: "Elf32_Dyn list" where
  "demo_dyns = [\<lparr>d_tag = 5, d_val = 0x48\<rparr>, \<lparr>d_tag = 6, d_val = 0x50\<rparr>, \<lparr>d_tag = 4, d_val = 0x40\<rparr>]"

definition demo_unlinked :: soinfo where
  "demo_unlinked =
     zero_soinfo\<lparr>si_name := ''libnew.so'', si_base := 0x40000000, si_size := 0x1000, si_load_bias := 0x40000000,
       si_phdr := 0x40000000, si_phnum := 1\<rparr>"

lemma demo_dyn_load8:
  "load8 (mem_of 0x40000000 demo_dyn_bytes) a =
     (if unat (a - 0x40000000) < 72 then Some (demo_dyn_bytes ! unat (a - 0x40000000)) else None)"
  by (simp add: load8_def mem_of_def in_block_def demo_dyn_bytes_def)

lemma demo_dyns_at: "dyns_at (mem_of 0x40000000 demo_dyn_bytes) 0x40000020 demo_dyns"
  by (simp add: demo_dyns_def read_dyn_def load32_def demo_dyn_load8)
    (simp add: demo_dyn_bytes_def le32_def)

lemma demo_hash_words:
  "load32 (mem_of 0x40000000 demo_dyn_bytes) 0x40000040 = Some 1"
  "load32 (mem_of 0x40000000 demo_dyn_bytes) 0x40000044 = Some 2"
  by (simp_all add: load32_def demo_dyn_load8) (simp_all add: demo_dyn_bytes_def le32_def)

lemma demo_dyns_accepted: "\<forall>e \<in> set demo_dyns. dyn_accepted (mem_of 0x40000000 demo_dyn_bytes) 0x40000000 e \<and> d_tag e \<noteq> DT_NEEDED"
  using demo_hash_words by (simp add: demo_dyns_def dyn_accepted_def)

text \<open>
  C28: Over a dynamic section of accepted entries, the first walk of \<open>soinfo_link_image\<close> sets each
  field of the library from the last entry with its tag (addresses relative to the load bias,
  sizes divided by the size of an element, the hash table's geometry read from its header), leaves
  the fields without an entry, and counts the needed libraries.
\<close>

theorem dynamic_section_fields:
  assumes "dyns_at m dyn es" and "\<forall>e \<in> set es. dyn_accepted m base e"
  shows "walk_dyn (\<lambda>_. m) (parse_dyn m base) dyn (s, n) =
    Some (True, parsed m base es s, n + of_nat (length (needed_names es)))"
  by (simp only: parse_dyn_mem [OF assms(1)] run_parse [OF assms(2)])

lemma dynamic_section_fields_witness:
  "\<exists>s. walk_dyn (\<lambda>_. mem_of 0x40000000 demo_dyn_bytes) (parse_dyn (mem_of 0x40000000 demo_dyn_bytes) 0x40000000)
      0x40000020 (demo_unlinked, 0) = Some (True, s, 0) \<and>
    si_strtab s = 0x40000048 \<and> si_nbucket s = 1 \<and> si_chain s = 0x4000004C"
proof -
  have a: "\<forall>e \<in> set demo_dyns. dyn_accepted (mem_of 0x40000000 demo_dyn_bytes) 0x40000000 e"
    using demo_dyns_accepted by blast
  show ?thesis
    using dynamic_section_fields [OF demo_dyns_at a, of demo_unlinked 0] demo_hash_words
    by (simp add: needed_names_def demo_dyns_def parsed_def dyn_last_def word_at_addr_def)
qed

text \<open>
  The first walk stops with an error at the first \<open>DT_RELA\<close> entry, and at the first
  \<open>DT_PLTREL\<close> entry that does not announce \<open>DT_REL\<close>.
\<close>

theorem dynamic_section_rejects:
  assumes "dyns_at m dyn (es @ e # rest)" and "\<forall>e \<in> set es. dyn_accepted m base e"
    and "d_tag e = DT_RELA \<or> d_tag e = DT_PLTREL \<and> d_val e \<noteq> DT_REL"
  shows "walk_dyn (\<lambda>_. m) (parse_dyn m base) dyn (s, n) =
    Some (False, parsed m base es s, n + of_nat (length (needed_names es)))"
  unfolding parse_dyn_mem [OF assms(1)] run_dyns_append run_parse [OF assms(2)]
  using assms(3) by (auto simp: parse_dyn_def)

lemma dynamic_section_rejects_witness:
  "walk_dyn (\<lambda>_. mem_of 0x2000 [7, 0, 0, 0, 0, 0, 0, 0, 0, 0, 0, 0, 0, 0, 0, 0])
     (parse_dyn (mem_of 0x2000 [7, 0, 0, 0, 0, 0, 0, 0, 0, 0, 0, 0, 0, 0, 0, 0]) 0) 0x2000 (zero_soinfo, 0) =
   Some (False, parsed (mem_of 0x2000 [7, 0, 0, 0, 0, 0, 0, 0, 0, 0, 0, 0, 0, 0, 0, 0]) 0 [] zero_soinfo, 0)"
  using dynamic_section_rejects [of "mem_of 0x2000 [7, 0, 0, 0, 0, 0, 0, 0, 0, 0, 0, 0, 0, 0, 0, 0]" "0x2000" "[]"
      "\<lparr>d_tag = 7, d_val = 0\<rparr>" "[]" 0 zero_soinfo 0]
  by (simp add: read_dyn_def load32_def load8_def mem_of_def in_block_def le32_def needed_names_def)

lemma demo_unlinked_sel:
  "si_phdr demo_unlinked = 0x40000000" "si_phnum demo_unlinked = 1" "si_load_bias demo_unlinked = 0x40000000"
  "si_flags demo_unlinked = 0" "si_has_text_relocations demo_unlinked = False" "si_plt_rel demo_unlinked = 0"
  "si_rel demo_unlinked = 0"
  by (simp_all add: demo_unlinked_def zero_soinfo_def)

text \<open>
  A library that \<open>find_library\<close> returns for a name is linked: its \<open>FLAG_LINKED\<close> is set, whether
  it was loaded before or now.
\<close>

theorem find_library_returns_linked:
  assumes "find_library os n (Some name) w = Some (p, w')" and "p \<noteq> 0"
  shows "is_linked w' p"
proof (cases n)
  case 0
  with assms show ?thesis by simp
next
  case (Suc k)
  with assms obtain w1 where "find_library_internal os (find_library os k) (Some name) w = Some (p, w1)"
    and u: "upd_si p (\<lambda>s. s\<lparr>si_ref_count := si_ref_count s + 1\<rparr>) w1 = Some w'"
    by (auto elim!: bind_eq_SomeE split: if_splits)
  then have "is_linked w1 p" using assms(2) find_library_internal_linked by blast
  with u show ?thesis by (auto simp: is_linked_def upd_si_def split: option.splits)
qed

text \<open>
  \<open>find_library\<close> of a name that the registry holds: a linked library is returned with its
  reference count increased by one and nothing else changed; a library that is still being
  linked (a dependency cycle) gives null and no change.
\<close>

theorem find_library_registered:
  assumes "so_inv w LS FL" and "find (\<lambda>p. si_name (obj w p) = basename name) LS = Some p"
  shows "find_library os (Suc n) (Some name) w =
    (if is_linked w p then Some (p, put_si p ((obj w p)\<lparr>si_ref_count := si_ref_count (obj w p) + 1\<rparr>) w)
     else Some (0, w))"
  using assms by (rule find_library_registered_eq)

lemma demo_libs_find:
  "find (\<lambda>p. si_name (obj demo_libs p) = basename ''/lib/libab.so'') [0x10000, 0x20000] = Some 0x20000"
  by (simp add: obj_def demo_defs basename_def)

lemma demo_libs_linked: "is_linked demo_libs 0x20000"
  by (simp add: is_linked_def demo_defs)

lemma find_library_returns_linked_witness:
  "\<exists>w'. find_library demo_api 1 (Some ''/lib/libab.so'') demo_libs = Some (0x20000, w') \<and> is_linked w' 0x20000"
  using find_library_registered_eq [OF demo_libs_inv demo_libs_find, of demo_api 0] demo_libs_linked
    find_library_returns_linked [of demo_api 1 "''/lib/libab.so''" demo_libs "0x20000"]
  by auto

lemma find_library_registered_witness:
  "\<exists>s w'. find_library demo_api 1 (Some ''/lib/libab.so'') demo_libs = Some (0x20000, w') \<and>
     sos w' 0x20000 = Some s \<and> si_ref_count s = 1"
  using find_library_registered [OF demo_libs_inv demo_libs_find, of demo_api 0] demo_libs_linked
  by (simp add: put_si_def obj_def demo_defs)

text \<open>
  \<open>find_library\<close> returns null, and leaves the state as it is, when the name is not registered and
  no file has exactly that name.
\<close>

theorem find_library_missing:
  assumes "so_inv w LS FL" and "\<forall>p \<in> set LS. si_name (obj w p) \<noteq> basename name" and "fs (mc w) name = None"
  shows "find_library os (Suc n) (Some name) w = Some (0, w)"
  using assms by (rule find_library_missing_eq)

lemma find_library_missing_witness:
  "find_library demo_api 1 (Some ''libz.so'') demo_libs = Some (0, demo_libs)"
  using find_library_missing [OF demo_libs_inv, of "''libz.so''" demo_api 0]
  by (simp add: obj_def demo_defs basename_def mem_of_def)

text \<open>
  \<open>open_library\<close> opens the file with exactly the given name or none: the search path decides only
  whether an attempt is made (for a name with a slash it always is), and no file in a directory
  of the path is found under the bare name.
\<close>

theorem open_library_ignores_path:
  "open_library name paths m =
     (if CHR ''/'' \<in> set name \<or> (\<exists>p \<in> set paths. p = [] \<or> length (p @ ''/'' @ name) < 512)
      then c_open name m else (-1, m))"
  by (rule open_library_eq)

lemma open_library_ignores_path_witness:
  "open_library ''libc.so'' [''/system/lib''] ((mem_of 0 [])\<lparr>fs := [''/system/lib/libc.so'' \<mapsto> [1]]\<rparr>) =
     (-1, (mem_of 0 [])\<lparr>fs := [''/system/lib/libc.so'' \<mapsto> [1]]\<rparr>)"
  using open_library_ignores_path [of "''libc.so''" "[''/system/lib'']"]
  by (simp add: c_open_def mem_of_def)

end
