(* ===== verification/Lifecycle.thy ===== *)
theory Lifecycle
  imports Linker
begin

text \<open>
  Constructors, destructors, \<open>do_dlopen\<close> and \<open>do_dlclose\<close> of emulator/linker.cpp.
  The code is compiled for the host, where \<open>__arm__\<close> is not defined: a call of a
  library's function prints two lines around a call that is left out, and these
  lines are the model's record of what would run and in which order.  The
  recursions through the needed libraries are bounded by fuel.
\<close>

section \<open>Calls\<close>

definition CallFunction :: "win_api \<Rightarrow> u32 \<Rightarrow> string \<Rightarrow> u32 \<Rightarrow> world \<Rightarrow> world option" where
  "CallFunction os si function_name fn w =
     (if fn = 0 \<or> fn = -1 then Some w
      else do { s \<leftarrow> sos w si;
                let w = w\<lparr>out_log := out_log w @ [Calling function_name fn (si_name s),
                                                Done_calling function_name fn (si_name s)]\<rparr>;
                set_soinfo_pool_protection os (PROT_READ OR PROT_WRITE) w })"

text \<open>The loop from \<open>i\<close> to \<open>e\<close> in steps of 1 or -1.\<close>

partial_function (option) call_loop ::
  "win_api \<Rightarrow> u32 \<Rightarrow> u32 \<Rightarrow> u32 \<Rightarrow> u32 \<Rightarrow> u32 \<Rightarrow> world \<Rightarrow> world option" where
  "call_loop os si functions i e stp w =
     (if i = e then Some w
      else do { f \<leftarrow> load32 (mc w) (functions + 4 * i);
                w \<leftarrow> CallFunction os si ''function'' f w;
                call_loop os si functions (i + stp) e stp w })"

definition CallArray :: "win_api \<Rightarrow> u32 \<Rightarrow> u32 \<Rightarrow> u32 \<Rightarrow> bool \<Rightarrow> world \<Rightarrow> world option" where
  "CallArray os si functions cnt rvs w =
     (if functions = 0 then Some w
      else let b = (if rvs then cnt - 1 else 0); e = (if rvs then -1 else cnt); stp = (if rvs then -1 else 1)
           in call_loop os si functions b e stp w)"

definition CallPreInitConstructors :: "win_api \<Rightarrow> u32 \<Rightarrow> world \<Rightarrow> world option" where
  "CallPreInitConstructors os si w =
     do { s \<leftarrow> sos w si; CallArray os si (si_preinit_array s) (si_preinit_array_count s) False w }"

section \<open>Constructors and destructors\<close>

definition ctor_dyn :: "(u32 \<Rightarrow> world \<Rightarrow> world option) \<Rightarrow> u32 \<Rightarrow> Elf32_Dyn \<Rightarrow> world \<Rightarrow> (bool \<times> world) option" where
  "ctor_dyn rc si e w =
     (if d_tag e = DT_NEEDED
      then do { s \<leftarrow> sos w si;
                library_name \<leftarrow> cstr (mc w) (si_strtab s + d_val e);
                p \<leftarrow> find_loaded_library library_name w;
                w \<leftarrow> rc p w;
                Some (True, w) }
      else Some (True, w))"

definition call_init :: "win_api \<Rightarrow> u32 \<Rightarrow> world \<Rightarrow> world option" where
  "call_init os si w =
     do { s \<leftarrow> sos w si;
          w \<leftarrow> CallFunction os si ''DT_INIT'' (si_init_func s) w;
          CallArray os si (si_init_array s) (si_init_array_count s) False w }"

fun CallConstructors :: "win_api \<Rightarrow> nat \<Rightarrow> u32 \<Rightarrow> world \<Rightarrow> world option" where
  "CallConstructors os 0 si w = None"
| "CallConstructors os (Suc n) si w =
     do { s \<leftarrow> sos w si;
          (if si_constructors_called s then Some w
           else do {
             w \<leftarrow> upd_si si (\<lambda>s. s\<lparr>si_constructors_called := True\<rparr>) w;
             (_, w) \<leftarrow> (if si_dynamic s \<noteq> 0
                        then walk_dyn mc (ctor_dyn (CallConstructors os n) si) (si_dynamic s) w
                        else Some (True, w));
             call_init os si w }) }"

definition CallDestructors :: "win_api \<Rightarrow> u32 \<Rightarrow> world \<Rightarrow> world option" where
  "CallDestructors os si w =
     do { s \<leftarrow> sos w si;
          w \<leftarrow> CallArray os si (si_fini_array s) (si_fini_array_count s) True w;
          CallFunction os si ''DT_FINI'' (si_fini_func s) w }"

section \<open>Unloading\<close>

definition no_destructors :: "string list" where
  "no_destructors = [''libc.so'', ''libstdc++.so'', ''libm.so'', ''libz.so'', ''libdl.so'', ''liblog.so'']"

definition unload_dyn :: "(u32 \<Rightarrow> world \<Rightarrow> world option) \<Rightarrow> u32 \<Rightarrow> Elf32_Dyn \<Rightarrow> world \<Rightarrow> (bool \<times> world) option" where
  "unload_dyn rc si e w =
     (if d_tag e = DT_NEEDED
      then do { s \<leftarrow> sos w si;
                library_name \<leftarrow> cstr (mc w) (si_strtab s + d_val e);
                p \<leftarrow> find_loaded_library library_name w;
                w \<leftarrow> rc p w;
                Some (True, w) }
      else Some (True, w))"

text \<open>The result of \<open>soinfo_unload\<close> is always 0 and is left out.\<close>

fun soinfo_unload :: "win_api \<Rightarrow> nat \<Rightarrow> u32 \<Rightarrow> world \<Rightarrow> world option" where
  "soinfo_unload os 0 si w = None"
| "soinfo_unload os (Suc n) si w =
     do { s \<leftarrow> sos w si;
          (if si_ref_count s = 1
           then do {
             w \<leftarrow> (if si_name s \<in> set no_destructors then Some w else CallDestructors os si w);
             (_, w) \<leftarrow> walk_dyn mc (unload_dyn (soinfo_unload os n) si) (si_dynamic s) w;
             s \<leftarrow> sos w si;
             let w = w\<lparr>mc := snd (s_munmap os (si_base s) (si_size s) (mc w))\<rparr>;
             w \<leftarrow> soinfo_free si w;
             upd_si si (\<lambda>s. s\<lparr>si_ref_count := 0\<rparr>) w }
           else upd_si si (\<lambda>s. s\<lparr>si_ref_count := si_ref_count s - 1\<rparr>) w) }"

section \<open>\<open>dlopen\<close> and \<open>dlclose\<close>\<close>

definition RTLD_NOW :: u32 where [simp]: "RTLD_NOW = 0"
definition RTLD_LAZY :: u32 where [simp]: "RTLD_LAZY = 1"
definition RTLD_LOCAL :: u32 where [simp]: "RTLD_LOCAL = 0"
definition RTLD_GLOBAL :: u32 where [simp]: "RTLD_GLOBAL = 2"

definition no_constructors :: "string list" where
  "no_constructors = [''libc.so'', ''libstdc++.so'', ''libz.so'', ''libm.so'', ''liblog.so'']"

definition do_dlopen :: "win_api \<Rightarrow> nat \<Rightarrow> string option \<Rightarrow> u32 \<Rightarrow> world \<Rightarrow> (u32 \<times> world) option" where
  "do_dlopen os fuel name flags w =
     (if flags AND NOT (RTLD_NOW OR RTLD_LAZY OR RTLD_LOCAL OR RTLD_GLOBAL) \<noteq> 0 then Some (0, w)
      else do {
        w \<leftarrow> set_soinfo_pool_protection os (PROT_READ OR PROT_WRITE) w;
        (si, w) \<leftarrow> find_library os fuel name w;
        w \<leftarrow> (if si \<noteq> 0
              then do { s \<leftarrow> sos w si;
                        (if si_name s \<in> set no_constructors then Some w else CallConstructors os fuel si w) }
              else Some w);
        w \<leftarrow> set_soinfo_pool_protection os PROT_READ w;
        Some (si, w) })"

definition do_dlclose :: "win_api \<Rightarrow> nat \<Rightarrow> u32 \<Rightarrow> world \<Rightarrow> (int \<times> world) option" where
  "do_dlclose os fuel si w =
     do { w \<leftarrow> set_soinfo_pool_protection os (PROT_READ OR PROT_WRITE) w;
          w \<leftarrow> soinfo_unload os fuel si w;
          w \<leftarrow> set_soinfo_pool_protection os PROT_READ w;
          Some (0, w) }"

section \<open>Protecting the pools\<close>

text \<open>
  Changes of protection are granted: \<open>VirtualProtect\<close> succeeds, and changes neither the values of
  bytes nor which addresses are mapped.  The documentation promises the second part for every call
  and the first for committed pages of the process; the hypothesis asks it of every call, so that the
  theorems that rest on it describe runs in which no change of protection is refused.  The calls
  they make are those of \<open>set_soinfo_pool_protection\<close> on the pages of the pools and, where a library is
  linked, those on the pages of its segments.
\<close>

definition protect_works :: "win_api \<Rightarrow> bool" where
  "protect_works os \<longleftrightarrow>
     (\<forall>a l p m. fst (VirtualProtect os a l p m) \<and> vbytes (snd (VirtualProtect os a l p m)) = vbytes m)"

lemma demo_protect_works: "protect_works demo_api"
  by (simp add: protect_works_def demo_api_def)

lemma protect_pools_works:
  "protect_works os \<Longrightarrow> \<exists>m'. protect_pools os prot ps m = Some m' \<and> vbytes m' = vbytes m"
proof (induction ps arbitrary: m)
  case Nil
  then show ?case by simp
next
  case (Cons p ps)
  obtain ok m1 where v: "VirtualProtect os p sizeof_pool (map_mmap_prot_page prot) m = (ok, m1)"
    by (cases "VirtualProtect os p sizeof_pool (map_mmap_prot_page prot) m")
  have "ok" "vbytes m1 = vbytes m"
    using Cons.prems v unfolding protect_works_def by (metis fst_conv, metis snd_conv)
  with v Cons.IH [OF Cons.prems, of m1] show ?case by (simp add: s_mprotect_def)
qed

text \<open>
  The effect of calls and of changes of protection on the world: lines are added to the record, and
  memory keeps its bytes.
\<close>

definition logs :: "world \<Rightarrow> world \<Rightarrow> event list \<Rightarrow> bool" where
  "logs w w' ev \<longleftrightarrow> (\<exists>m. w' = w\<lparr>mc := m, out_log := out_log w @ ev\<rparr> \<and> vbytes m = vbytes (mc w))"

lemma logs_refl: "logs w w []"
  by (auto simp: logs_def intro!: exI [of _ "mc w"])

lemma logs_trans:
  assumes "logs w w1 ev1" and "logs w1 w2 ev2"
  shows "logs w w2 (ev1 @ ev2)"
proof -
  obtain m where m: "w1 = w\<lparr>mc := m, out_log := out_log w @ ev1\<rparr>" "vbytes m = vbytes (mc w)"
    using assms(1) by (auto simp: logs_def)
  obtain m2 where "w2 = w1\<lparr>mc := m2, out_log := out_log w1 @ ev2\<rparr>" "vbytes m2 = vbytes (mc w1)"
    using assms(2) by (auto simp: logs_def)
  with m show ?thesis by (auto simp: logs_def intro!: exI [of _ m2])
qed

lemma logs_sel:
  assumes "logs w w' ev"
  shows "sos w' = sos w" "solist w' = solist w" "out_log w' = out_log w @ ev" "vbytes (mc w') = vbytes (mc w)"
    "somain w' = somain w" "gSoInfoPools w' = gSoInfoPools w" "gSoInfoFreeList w' = gSoInfoFreeList w"
    "sonext w' = sonext w"
  using assms by (auto simp: logs_def)

lemma pool_protection_works:
  "protect_works os \<Longrightarrow> \<exists>w'. set_soinfo_pool_protection os prot w = Some w' \<and> logs w w' []"
  using protect_pools_works [of os prot "gSoInfoPools w" "mc w"]
  by (auto simp: set_soinfo_pool_protection_def logs_def)

lemma load8_vbytes: "vbytes m' = vbytes m \<Longrightarrow> load8 m' = load8 m"
  by (simp add: load8_def fun_eq_iff)

lemma load32_vbytes: "vbytes m' = vbytes m \<Longrightarrow> load32 m' = load32 m"
  by (simp add: load32_def load8_def fun_eq_iff)

lemma read_dyn_vbytes: "vbytes m' = vbytes m \<Longrightarrow> read_dyn m' a = read_dyn m a"
  using load32_vbytes [of m' m] by (simp add: read_dyn_def)

section \<open>The order of calls\<close>

definition call_events :: "string \<Rightarrow> string \<Rightarrow> u32 \<Rightarrow> event list" where
  "call_events fname lib f =
     (if f = 0 \<or> f = -1 then [] else [Calling fname f lib, Done_calling fname f lib])"

lemma CallFunction_works:
  assumes os: "protect_works os" and s: "sos w si = Some s"
  shows "\<exists>w'. CallFunction os si fname f w = Some w' \<and> logs w w' (call_events fname (si_name s) f)"
proof (cases "f = 0 \<or> f = -1")
  case True
  then show ?thesis using logs_refl by (auto simp: CallFunction_def call_events_def)
next
  case False
  let ?ev = "call_events fname (si_name s) f"
  let ?w = "w\<lparr>out_log := out_log w @ ?ev\<rparr>"
  obtain w' where w': "set_soinfo_pool_protection os (PROT_READ OR PROT_WRITE) ?w = Some w'" "logs ?w w' []"
    using pool_protection_works [OF os] by blast
  have "logs w ?w ?ev" by (auto simp: logs_def intro!: exI [of _ "mc w"])
  from logs_trans [OF this w'(2)] w'(1) False s show ?thesis
    by (simp add: CallFunction_def call_events_def)
qed

text \<open>The array of functions at \<open>a\<close>.\<close>

definition funs_at :: "world \<Rightarrow> u32 \<Rightarrow> u32 list \<Rightarrow> bool" where
  "funs_at w a gs \<longleftrightarrow> length gs < 4294967296 \<and> (\<forall>i < length gs. load32 (mc w) (a + 4 * of_nat i) = Some (gs ! i))"

lemma funs_at_logs: "logs w w' ev \<Longrightarrow> funs_at w' a gs = funs_at w a gs"
  by (simp add: funs_at_def load32_vbytes [OF logs_sel(4)])

definition array_events :: "string \<Rightarrow> u32 list \<Rightarrow> event list" where
  "array_events lib gs = concat (map (call_events ''function'' lib) gs)"

lemma of_nat_u32_eq: "i < 4294967296 \<Longrightarrow> j < 4294967296 \<Longrightarrow> (of_nat i :: u32) = of_nat j \<longleftrightarrow> i = j"
  by (metis unat_of_nat_u32)

lemma call_loop_forward:
  assumes os: "protect_works os" and gs: "funs_at w a gs" and s: "sos w si = Some s" and k: "k \<le> length gs"
  shows "\<exists>w'. call_loop os si a (of_nat k) (of_nat (length gs)) 1 w = Some w' \<and>
    logs w w' (array_events (si_name s) (drop k gs))"
  using gs s k
proof (induction "length gs - k" arbitrary: k w)
  case 0
  then show ?case using logs_refl by (subst call_loop.simps) (auto simp: array_events_def)
next
  case (Suc n)
  then have k: "k < length gs" by simp
  have ne: "(of_nat k :: u32) \<noteq> of_nat (length gs)"
    using k Suc.prems(1) of_nat_u32_eq [of k "length gs"] by (auto simp: funs_at_def)
  obtain w1 where w1: "CallFunction os si ''function'' (gs ! k) w = Some w1"
    "logs w w1 (call_events ''function'' (si_name s) (gs ! k))"
    using CallFunction_works [OF os Suc.prems(2)] by blast
  have "funs_at w1 a gs" "sos w1 si = Some s"
    using Suc.prems funs_at_logs [OF w1(2)] logs_sel(1) [OF w1(2)] by simp_all
  then obtain w2 where w2: "call_loop os si a (of_nat (Suc k)) (of_nat (length gs)) 1 w1 = Some w2"
    "logs w1 w2 (array_events (si_name s) (drop (Suc k) gs))"
  proof -
    have "n = length gs - Suc k" using Suc.hyps(2) k by linarith
    from Suc.hyps(1) [OF this \<open>funs_at w1 a gs\<close> \<open>sos w1 si = Some s\<close>] k that show thesis by auto
  qed
  have "load32 (mc w) (a + 4 * of_nat k) = Some (gs ! k)" using Suc.prems(1) k by (simp add: funs_at_def)
  with ne w1 w2 have "call_loop os si a (of_nat k) (of_nat (length gs)) 1 w = Some w2"
    by (subst call_loop.simps) (simp add: add.commute)
  moreover have "drop k gs = gs ! k # drop (Suc k) gs" using k by (rule Cons_nth_drop_Suc [symmetric])
  ultimately show ?case
    using logs_trans [OF w1(2) w2(2)] by (simp add: array_events_def)
qed

lemma call_loop_reverse:
  assumes os: "protect_works os" and gs: "funs_at w a gs" and s: "sos w si = Some s" and k: "k \<le> length gs"
  shows "\<exists>w'. call_loop os si a (of_nat k - 1) (-1) (-1) w = Some w' \<and>
    logs w w' (array_events (si_name s) (rev (take k gs)))"
  using gs s k
proof (induction k arbitrary: w)
  case 0
  then show ?case using logs_refl by (subst call_loop.simps) (auto simp: array_events_def)
next
  case (Suc k)
  then have k: "k < length gs" by simp
  have ne: "(of_nat (Suc k) - 1 :: u32) \<noteq> -1"
    using k Suc.prems(1) of_nat_u32_eq [of "Suc k" 0] by (auto simp: funs_at_def)
  obtain w1 where w1: "CallFunction os si ''function'' (gs ! k) w = Some w1"
    "logs w w1 (call_events ''function'' (si_name s) (gs ! k))"
    using CallFunction_works [OF os Suc.prems(2)] by blast
  have "funs_at w1 a gs" "sos w1 si = Some s"
    using Suc.prems funs_at_logs [OF w1(2)] logs_sel(1) [OF w1(2)] by simp_all
  then obtain w2 where w2: "call_loop os si a (of_nat k - 1) (-1) (-1) w1 = Some w2"
    "logs w1 w2 (array_events (si_name s) (rev (take k gs)))"
    using Suc.IH [of w1] k by auto
  have "load32 (mc w) (a + 4 * of_nat k) = Some (gs ! k)" using Suc.prems(1) k by (simp add: funs_at_def)
  with ne w1 w2 have "call_loop os si a (of_nat (Suc k) - 1) (-1) (-1) w = Some w2"
    by (subst call_loop.simps) simp
  moreover have "rev (take (Suc k) gs) = gs ! k # rev (take k gs)" using k by (simp add: take_Suc_conv_app_nth)
  ultimately show ?case
    using logs_trans [OF w1(2) w2(2)] by (simp add: array_events_def)
qed

lemma CallArray_works:
  assumes os: "protect_works os" and s: "sos w si = Some s"
    and gs: "a \<noteq> 0 \<Longrightarrow> funs_at w a gs \<and> cnt = of_nat (length gs)"
  shows "\<exists>w'. CallArray os si a cnt rvs w = Some w' \<and>
    logs w w' (if a = 0 then [] else array_events (si_name s) (if rvs then rev gs else gs))"
proof (cases "a = 0")
  case True
  then show ?thesis using logs_refl by (auto simp: CallArray_def)
next
  case False
  then show ?thesis
    using gs call_loop_forward [OF os _ s, of a gs 0] call_loop_reverse [OF os _ s, of a gs "length gs"]
    by (cases rvs) (simp_all add: CallArray_def)
qed

lemma call_init_works:
  assumes os: "protect_works os" and s: "sos w si = Some s"
    and gs: "si_init_array s \<noteq> 0 \<Longrightarrow> funs_at w (si_init_array s) gs \<and> si_init_array_count s = of_nat (length gs)"
  shows "\<exists>w'. call_init os si w = Some w' \<and>
    logs w w' (call_events ''DT_INIT'' (si_name s) (si_init_func s) @
               (if si_init_array s = 0 then [] else array_events (si_name s) gs))"
proof -
  obtain w1 where w1: "CallFunction os si ''DT_INIT'' (si_init_func s) w = Some w1"
    "logs w w1 (call_events ''DT_INIT'' (si_name s) (si_init_func s))"
    using CallFunction_works [OF os s] by blast
  have "sos w1 si = Some s" using s logs_sel(1) [OF w1(2)] by simp
  from CallArray_works [OF os this, of "si_init_array s" gs "si_init_array_count s" False]
  obtain w2 where "CallArray os si (si_init_array s) (si_init_array_count s) False w1 = Some w2"
    "logs w1 w2 (if si_init_array s = 0 then [] else array_events (si_name s) gs)"
    using gs funs_at_logs [OF w1(2)] by (auto cong: if_cong)
  with w1 s show ?thesis
    using logs_trans [OF w1(2)] by (simp add: call_init_def)
qed

lemma CallDestructors_works:
  assumes os: "protect_works os" and s: "sos w si = Some s"
    and gs: "si_fini_array s \<noteq> 0 \<Longrightarrow> funs_at w (si_fini_array s) gs \<and> si_fini_array_count s = of_nat (length gs)"
  shows "\<exists>w'. CallDestructors os si w = Some w' \<and>
    logs w w' ((if si_fini_array s = 0 then [] else array_events (si_name s) (rev gs)) @
               call_events ''DT_FINI'' (si_name s) (si_fini_func s))"
proof -
  obtain w1 where w1: "CallArray os si (si_fini_array s) (si_fini_array_count s) True w = Some w1"
    "logs w w1 (if si_fini_array s = 0 then [] else array_events (si_name s) (rev gs))"
    using CallArray_works [OF os s, of "si_fini_array s" gs "si_fini_array_count s" True] gs by (auto cong: if_cong)
  have "sos w1 si = Some s" using s logs_sel(1) [OF w1(2)] by simp
  from CallFunction_works [OF os this, of "''DT_FINI''" "si_fini_func s"]
  obtain w2 where "CallFunction os si ''DT_FINI'' (si_fini_func s) w1 = Some w2"
    "logs w1 w2 (call_events ''DT_FINI'' (si_name s) (si_fini_func s))" by blast
  with w1 s show ?thesis
    using logs_trans [OF w1(2)] by (simp add: CallDestructors_def)
qed

section \<open>Constructors of libraries that need each other\<close>

text \<open>
  What calling constructors may change: libraries become marked as called, lines are added, and
  memory keeps its bytes.
\<close>

definition ctor_step :: "world \<Rightarrow> world \<Rightarrow> bool" where
  "ctor_step w w' \<longleftrightarrow>
     solist w' = solist w \<and> sonext w' = sonext w \<and> gSoInfoFreeList w' = gSoInfoFreeList w \<and>
     vbytes (mc w') = vbytes (mc w) \<and>
     (\<forall>p. sos w' p = sos w p \<or> sos w' p = map_option (\<lambda>s. s\<lparr>si_constructors_called := True\<rparr>) (sos w p)) \<and>
     (\<exists>ev. out_log w' = out_log w @ ev)"

lemma ctor_step_refl: "ctor_step w w"
  by (simp add: ctor_step_def)

lemma ctor_step_trans:
  assumes a: "ctor_step w w1" and b: "ctor_step w1 w2"
  shows "ctor_step w w2"
proof -
  have "sos w2 p = sos w p \<or> sos w2 p = map_option (\<lambda>s. s\<lparr>si_constructors_called := True\<rparr>) (sos w p)" for p
  proof -
    have "sos w1 p = sos w p \<or> sos w1 p = map_option (\<lambda>s. s\<lparr>si_constructors_called := True\<rparr>) (sos w p)"
      and "sos w2 p = sos w1 p \<or> sos w2 p = map_option (\<lambda>s. s\<lparr>si_constructors_called := True\<rparr>) (sos w1 p)"
      using a b unfolding ctor_step_def by blast+
    then show ?thesis by (cases "sos w p") auto
  qed
  with a b show ?thesis by (auto simp: ctor_step_def)
qed

lemma logs_ctor_step: "logs w w' ev \<Longrightarrow> ctor_step w w'"
  by (simp add: ctor_step_def logs_sel)

lemma mark_ctor_step:
  "sos w p = Some s \<Longrightarrow> upd_si p (\<lambda>s. s\<lparr>si_constructors_called := True\<rparr>) w =
     Some (put_si p (s\<lparr>si_constructors_called := True\<rparr>) w) \<and> ctor_step w (put_si p (s\<lparr>si_constructors_called := True\<rparr>) w)"
  by (simp add: upd_si_def put_si_def ctor_step_def)

lemma ctor_step_obj:
  assumes "ctor_step w w'"
  shows "si_name (obj w' p) = si_name (obj w p)" "si_dynamic (obj w' p) = si_dynamic (obj w p)"
    "si_strtab (obj w' p) = si_strtab (obj w p)" "si_init_array (obj w' p) = si_init_array (obj w p)"
    "si_init_array_count (obj w' p) = si_init_array_count (obj w p)"
    "si_constructors_called (obj w p) \<Longrightarrow> si_constructors_called (obj w' p)"
    "map_option si_next (sos w' p) = map_option si_next (sos w p)" "sos w' p = None \<longleftrightarrow> sos w p = None"
proof -
  have "sos w' p = sos w p \<or> sos w' p = map_option (\<lambda>s. s\<lparr>si_constructors_called := True\<rparr>) (sos w p)"
    using assms by (simp add: ctor_step_def)
  then show "si_name (obj w' p) = si_name (obj w p)" "si_dynamic (obj w' p) = si_dynamic (obj w p)"
    "si_strtab (obj w' p) = si_strtab (obj w p)" "si_init_array (obj w' p) = si_init_array (obj w p)"
    "si_init_array_count (obj w' p) = si_init_array_count (obj w p)"
    "si_constructors_called (obj w p) \<Longrightarrow> si_constructors_called (obj w' p)"
    "map_option si_next (sos w' p) = map_option si_next (sos w p)" "sos w' p = None \<longleftrightarrow> sos w p = None"
    by (cases "sos w p"; auto simp: obj_def)+
qed

lemma ctor_step_inv:
  assumes "ctor_step w w'" and "so_inv w LS FL"
  shows "so_inv w' LS FL"
  using assms so_inv_links [OF ctor_step_obj(7) [OF assms(1)]] by (simp add: ctor_step_def)

lemma str_at_vbytes: "vbytes m' = vbytes m \<Longrightarrow> str_at m' a s = str_at m a s"
  by (drule load8_vbytes, induction m a s rule: str_at.induct) simp_all

lemma dyns_at_vbytes: "vbytes m' = vbytes m \<Longrightarrow> dyns_at m' a es = dyns_at m a es"
  using read_dyn_vbytes [of m' m] by (induction es arbitrary: a) simp_all

lemma funs_at_vbytes: "vbytes (mc w') = vbytes (mc w) \<Longrightarrow> funs_at w' a gs = funs_at w a gs"
  using load32_vbytes [of "mc w'" "mc w"] by (simp add: funs_at_def)

section \<open>Opening and closing a library that is loaded\<close>

definition skips_constructors :: "soinfo \<Rightarrow> bool" where
  "skips_constructors s \<longleftrightarrow> si_name s \<in> set no_constructors \<or> si_constructors_called s"

lemma so_inv_logs: "logs w w' ev \<Longrightarrow> so_inv w' LS FL = so_inv w LS FL"
  by (simp add: so_inv_def logs_sel)

lemma obj_logs: "logs w w' ev \<Longrightarrow> obj w' = obj w"
  by (simp add: obj_def logs_sel fun_eq_iff)

lemma dlopen_registered:
  assumes os: "protect_works os" and inv: "so_inv w LS FL"
    and p: "find (\<lambda>p. si_name (obj w p) = basename name) LS = Some p"
    and l: "is_linked w p" and c: "skips_constructors (obj w p)"
    and fl: "flags AND NOT 3 = 0"
  shows "\<exists>w'. do_dlopen os (Suc n) (Some name) flags w = Some (p, w') \<and>
    sos w' = (sos w)(p \<mapsto> (obj w p)\<lparr>si_ref_count := si_ref_count (obj w p) + 1\<rparr>) \<and>
    solist w' = solist w \<and> out_log w' = out_log w \<and> vbytes (mc w') = vbytes (mc w) \<and>
    sonext w' = sonext w \<and> gSoInfoFreeList w' = gSoInfoFreeList w"
proof -
  have m: "p \<in> set LS" using p by (auto simp: find_Some_iff)
  then have live: "p \<noteq> 0" using so_inv_live [OF inv] by blast
  obtain w1 where w1: "set_soinfo_pool_protection os (PROT_READ OR PROT_WRITE) w = Some w1" "logs w w1 []"
    using pool_protection_works [OF os] by blast
  let ?s = "(obj w p)\<lparr>si_ref_count := si_ref_count (obj w p) + 1\<rparr>"
  let ?w2 = "put_si p ?s w1"
  have "is_linked w1 p" using l by (simp add: is_linked_def logs_sel [OF w1(2)])
  then have f: "find_library os (Suc n) (Some name) w1 = Some (p, ?w2)"
    using find_library_registered_eq [of w1 LS FL name p os n] inv p so_inv_logs [OF w1(2)] obj_logs [OF w1(2)]
    by simp
  have s2: "sos ?w2 p = Some ?s" by (simp add: put_si_def)
  have k: "(if si_name ?s \<in> set no_constructors then Some ?w2 else CallConstructors os (Suc n) p ?w2) = Some ?w2"
    using c s2 by (auto simp: skips_constructors_def)
  obtain w3 where w3: "set_soinfo_pool_protection os PROT_READ ?w2 = Some w3" "logs ?w2 w3 []"
    using pool_protection_works [OF os] by blast
  have "do_dlopen os (Suc n) (Some name) flags w = Some (p, w3)"
    using fl w1(1) f live s2 k w3(1) by (simp add: do_dlopen_def del: find_library.simps CallConstructors.simps)
  then show ?thesis
    by (intro exI [of _ w3]) (simp add: logs_sel [OF w3(2)] put_si_def logs_sel [OF w1(2)])
qed

lemma dlclose_counts_down:
  assumes os: "protect_works os" and s: "sos w p = Some s" and r: "si_ref_count s \<noteq> 1"
  shows "\<exists>w'. do_dlclose os (Suc n) p w = Some (0, w') \<and>
    sos w' = (sos w)(p \<mapsto> s\<lparr>si_ref_count := si_ref_count s - 1\<rparr>) \<and>
    solist w' = solist w \<and> out_log w' = out_log w \<and> vbytes (mc w') = vbytes (mc w)"
proof -
  obtain w1 where w1: "set_soinfo_pool_protection os (PROT_READ OR PROT_WRITE) w = Some w1" "logs w w1 []"
    using pool_protection_works [OF os] by blast
  have s1: "sos w1 p = Some s" using s by (simp add: logs_sel [OF w1(2)])
  let ?w2 = "put_si p (s\<lparr>si_ref_count := si_ref_count s - 1\<rparr>) w1"
  have u: "soinfo_unload os (Suc n) p w1 = Some ?w2"
    using s1 r by (simp add: upd_si_def put_si_def)
  obtain w3 where w3: "set_soinfo_pool_protection os PROT_READ ?w2 = Some w3" "logs ?w2 w3 []"
    using pool_protection_works [OF os] by blast
  have "do_dlclose os (Suc n) p w = Some (0, w3)"
    using w1(1) u w3(1) by (simp add: do_dlclose_def del: soinfo_unload.simps)
  then show ?thesis
    by (intro exI [of _ w3]) (simp add: logs_sel [OF w3(2)] put_si_def logs_sel [OF w1(2)])
qed

section \<open>Unloading the last reference\<close>

lemma upd_si_log: "upd_si p f w = Some w' \<Longrightarrow> out_log w' = out_log w"
  by (auto simp: upd_si_def split: option.splits)

lemma soinfo_free_log: "soinfo_free si w = Some w' \<Longrightarrow> out_log w' = out_log w"
  unfolding soinfo_free_def Let_def
  by (auto elim!: bind_eq_SomeE split: if_splits option.splits dest!: upd_si_log)

lemma unload_dyn_other: "d_tag e \<noteq> DT_NEEDED \<Longrightarrow> unload_dyn rc si e w = Some (True, w)"
  by (simp add: unload_dyn_def)

lemma walk_unload_none:
  assumes "dyns_at (mc w) a es" and "\<forall>e \<in> set es. d_tag e \<noteq> DT_NEEDED"
  shows "walk_dyn mc (unload_dyn rc si) a w = Some (True, w)"
  using assms
proof (induction es arbitrary: a)
  case Nil
  then show ?case by (subst walk_dyn.simps) auto
next
  case (Cons e es)
  then show ?case by (subst walk_dyn.simps) (simp add: unload_dyn_other)
qed

definition fini_events :: "soinfo \<Rightarrow> u32 list \<Rightarrow> event list" where
  "fini_events s gs =
     (if si_name s \<in> set no_destructors then []
      else (if si_fini_array s = 0 then [] else array_events (si_name s) (rev gs)) @
           call_events ''DT_FINI'' (si_name s) (si_fini_func s))"

lemma unload_leaf:
  assumes os: "protect_works os" and inv: "so_inv w (as @ si # bs) FL" and as: "as \<noteq> []"
    and s: "sos w si = Some s" "si_ref_count s = 1"
    and gs: "si_fini_array s \<noteq> 0 \<Longrightarrow> funs_at w (si_fini_array s) gs \<and> si_fini_array_count s = of_nat (length gs)"
    and es: "dyns_at (mc w) (si_dynamic s) es" "\<forall>e \<in> set es. d_tag e \<noteq> DT_NEEDED"
  shows "\<exists>w'. soinfo_unload os (Suc n) si w = Some w' \<and> so_inv w' (as @ bs) (si # FL) \<and>
    out_log w' = out_log w @ fini_events s gs \<and> si_ref_count (obj w' si) = 0"
proof -
  have "\<exists>w1. (if si_name s \<in> set no_destructors then Some w else CallDestructors os si w) = Some w1 \<and>
      logs w w1 (fini_events s gs)"
    using CallDestructors_works [OF os s(1) gs] logs_refl by (auto simp: fini_events_def)
  then obtain w1 where w1: "(if si_name s \<in> set no_destructors then Some w else CallDestructors os si w) = Some w1"
    and l: "logs w w1 (fini_events s gs)" by blast
  have walk: "walk_dyn mc (unload_dyn (soinfo_unload os n) si) (si_dynamic s) w1 = Some (True, w1)"
    using es by (intro walk_unload_none) (simp_all add: dyns_at_vbytes [OF logs_sel(4) [OF l]])
  have s1: "sos w1 si = Some s" using s by (simp add: logs_sel [OF l])
  let ?w2 = "w1\<lparr>mc := snd (s_munmap os (si_base s) (si_size s) (mc w1))\<rparr>"
  have "logs w1 ?w2 [] \<or> so_inv ?w2 (as @ si # bs) FL = so_inv w1 (as @ si # bs) FL"
    unfolding so_inv_def by simp
  then have "so_inv ?w2 (as @ si # bs) FL" using inv so_inv_logs [OF l] so_inv_logs by blast
  then obtain w3 where f: "soinfo_free si ?w2 = Some w3" and i3: "so_inv w3 (as @ bs) (si # FL)"
    using soinfo_free_present as by blast
  obtain t where t: "sos w3 si = Some t" using so_inv_live [OF i3, of si] by auto
  let ?w4 = "put_si si (t\<lparr>si_ref_count := 0\<rparr>) w3"
  have u: "upd_si si (\<lambda>s. s\<lparr>si_ref_count := 0\<rparr>) w3 = Some ?w4" using t by (simp add: upd_si_def put_si_def)
  have "so_inv ?w4 (as @ bs) (si # FL)"
    using i3 t so_inv_links [of ?w4 w3] by (simp add: put_si_def)
  moreover have "soinfo_unload os (Suc n) si w = Some ?w4"
    using s w1 walk s1 f u by simp
  moreover have "out_log ?w4 = out_log w @ fini_events s gs"
    using soinfo_free_log [OF f] logs_sel(3) [OF l] by (simp add: put_si_def)
  moreover have "si_ref_count (obj ?w4 si) = 0" by (simp add: obj_def put_si_def)
  ultimately show ?thesis by blast
qed

section \<open>Properties\<close>

text \<open>
  \<open>CallArray\<close> over a readable array calls every entry that is neither null nor -1 exactly once, in the
  order of the array or, for destructors, in the reverse order, and changes nothing but the protection
  of the pools; a null array is skipped.
\<close>

theorem call_array_order:
  assumes "protect_works os" and "sos w si = Some s" and "a = 0 \<or> funs_at w a gs \<and> cnt = of_nat (length gs)"
  shows "\<exists>w'. CallArray os si a cnt rvs w = Some w' \<and>
    out_log w' = out_log w @ (if a = 0 then [] else array_events (si_name s) (if rvs then rev gs else gs)) \<and>
    sos w' = sos w \<and> vbytes (mc w') = vbytes (mc w)"
  using CallArray_works [OF assms(1,2), of a gs cnt rvs] assms(3) logs_sel by fastforce

definition demo_fun_world :: world where
  "demo_fun_world = demo_registry\<lparr>mc := mem_of 0x2000 [0, 1, 0, 0, 0, 0, 0, 0, 0, 2, 0, 0]\<rparr>"

lemma demo_fun_world_sel:
  "sos demo_fun_world 0x20000 = Some (demo_so ''libc.so'' 0x40000000 0x1000 0)" "out_log demo_fun_world = []"
  "si_name (demo_so ''libc.so'' 0x40000000 0x1000 0) = ''libc.so''"
  by (simp_all add: demo_fun_world_def demo_registry_def demo_so_def)

lemma demo_funs: "funs_at demo_fun_world 0x2000 [0x100, 0, 0x200]"
  by (auto simp: funs_at_def demo_fun_world_def less_Suc_eq load32_def load8_def mem_of_def in_block_def le32_def)

lemma call_array_order_witness:
  "\<exists>w'. CallArray demo_api 0x20000 0x2000 3 True demo_fun_world = Some w' \<and>
     out_log w' = [Calling ''function'' 0x200 ''libc.so'', Done_calling ''function'' 0x200 ''libc.so'',
                   Calling ''function'' 0x100 ''libc.so'', Done_calling ''function'' 0x100 ''libc.so'']"
  using call_array_order [OF demo_protect_works demo_fun_world_sel(1), of "0x2000" "[0x100, 0, 0x200]" 3 True] demo_funs
  by (auto simp: array_events_def call_events_def demo_fun_world_sel)

text \<open>
  Unloading the last reference to a library that needs no other: its destructors run in reverse
  order of the array and then \<open>DT_FINI\<close> (none for the system libraries), the library leaves the
  list and becomes the first free object, and its count is 0.
\<close>

theorem unload_last_reference:
  assumes "protect_works os" and "so_inv w (as @ si # bs) FL" and "as \<noteq> []"
    and "sos w si = Some s" and "si_ref_count s = 1"
    and "si_fini_array s = 0 \<or> funs_at w (si_fini_array s) gs \<and> si_fini_array_count s = of_nat (length gs)"
    and "dyns_at (mc w) (si_dynamic s) es" and "\<forall>e \<in> set es. d_tag e \<noteq> DT_NEEDED"
  shows "\<exists>w'. soinfo_unload os (Suc n) si w = Some w' \<and> so_inv w' (as @ bs) (si # FL) \<and>
    out_log w' = out_log w @ fini_events s gs \<and> si_ref_count (obj w' si) = 0"
  using unload_leaf [OF assms(1-5) _ assms(7,8), of gs n] assms(6) by blast

definition demo_last :: soinfo where
  "demo_last = (demo_so ''liblast.so'' 0x40000000 0x1000 0)\<lparr>si_ref_count := 1, si_dynamic := 0x2000, si_fini_func := 0x300\<rparr>"

definition demo_last_world :: world where
  "demo_last_world = demo_registry\<lparr>mc := mem_of 0x2000 [0, 0, 0, 0, 0, 0, 0, 0],
     sos := [0x10000 \<mapsto> demo_so ''libdl.so'' 0 0 0x20000, 0x20000 \<mapsto> demo_last, 0x30000 \<mapsto> zero_soinfo]\<rparr>"

lemma demo_last_sel:
  "sos demo_last_world 0x20000 = Some demo_last" "out_log demo_last_world = []" "si_ref_count demo_last = 1"
  "si_dynamic demo_last = 0x2000" "si_fini_array demo_last = 0" "si_name demo_last = ''liblast.so''"
  "si_fini_func demo_last = 0x300"
  by (simp_all add: demo_last_world_def demo_last_def demo_registry_def demo_so_def zero_soinfo_def)

lemma demo_last_inv: "so_inv demo_last_world ([0x10000] @ 0x20000 # []) [0x30000]"
  by (simp add: so_inv_def demo_last_world_def demo_last_def demo_registry_def demo_so_def zero_soinfo_def)

lemma demo_last_dyns: "dyns_at (mc demo_last_world) 0x2000 []"
  by (simp add: demo_last_world_def read_dyn_def load32_def load8_def mem_of_def in_block_def le32_def)

lemma unload_last_reference_witness:
  "\<exists>w'. soinfo_unload demo_api 1 0x20000 demo_last_world = Some w' \<and> so_inv w' [0x10000] [0x20000, 0x30000] \<and>
     out_log w' = [Calling ''DT_FINI'' 0x300 ''liblast.so'', Done_calling ''DT_FINI'' 0x300 ''liblast.so'']"
  using unload_last_reference [OF demo_protect_works demo_last_inv _ demo_last_sel(1,3), of "[]" "[]" 0]
    demo_last_dyns
  by (auto simp: demo_last_sel fini_events_def no_destructors_def call_events_def simp del: soinfo_unload.simps)

text \<open>
  C20: Opening a linked library and closing it again gives back every library and the list as they
  were, when the library is in use already and its constructors need not run; in between the
  reference count is one higher.
\<close>

theorem dlopen_dlclose_roundtrip:
  assumes "protect_works os" and "so_inv w LS FL"
    and "find (\<lambda>p. si_name (obj w p) = basename name) LS = Some p" and "is_linked w p"
    and "skips_constructors (obj w p)" and "si_ref_count (obj w p) \<noteq> 0" and "flags AND NOT 3 = 0"
  shows "\<exists>w1 w2. do_dlopen os (Suc n) (Some name) flags w = Some (p, w1) \<and>
    si_ref_count (obj w1 p) = si_ref_count (obj w p) + 1 \<and>
    do_dlclose os (Suc k) p w1 = Some (0, w2) \<and> sos w2 = sos w \<and> solist w2 = solist w \<and>
    out_log w2 = out_log w \<and> vbytes (mc w2) = vbytes (mc w)"
proof -
  let ?s = "(obj w p)\<lparr>si_ref_count := si_ref_count (obj w p) + 1\<rparr>"
  obtain w1 where w1: "do_dlopen os (Suc n) (Some name) flags w = Some (p, w1)" "sos w1 = (sos w)(p \<mapsto> ?s)"
    "solist w1 = solist w" "out_log w1 = out_log w" "vbytes (mc w1) = vbytes (mc w)"
    using dlopen_registered [OF assms(1-5,7), of n] by blast
  have s1: "sos w1 p = Some ?s" by (simp add: w1(2))
  have "si_ref_count ?s \<noteq> 1" using assms(6) by simp
  from dlclose_counts_down [OF assms(1) s1 this, of k] obtain w2 where
    w2: "do_dlclose os (Suc k) p w1 = Some (0, w2)" "sos w2 = (sos w1)(p \<mapsto> ?s\<lparr>si_ref_count := si_ref_count ?s - 1\<rparr>)"
    "solist w2 = solist w1" "out_log w2 = out_log w1" "vbytes (mc w2) = vbytes (mc w1)" by blast
  have "p \<in> set LS" using assms(3) by (auto simp: find_Some_iff)
  then have "sos w p = Some (obj w p)" using so_inv_live [OF assms(2), of p] by (auto simp: obj_def)
  then have "sos w2 = sos w" by (auto simp: w2(2) w1(2) fun_eq_iff)
  moreover have "si_ref_count (obj w1 p) = si_ref_count (obj w p) + 1" using s1 by (simp add: obj_def)
  ultimately show ?thesis using w1 w2 by (intro exI [of _ w1] exI [of _ w2]) simp
qed

definition demo_used :: world where
  "demo_used = demo_libs\<lparr>sos := (sos demo_libs)(0x20000 \<mapsto> demo_lib\<lparr>si_ref_count := 1, si_constructors_called := True\<rparr>)\<rparr>"

lemma demo_used_facts:
  "so_inv demo_used [0x10000, 0x20000] [0x30000]"
  "find (\<lambda>p. si_name (obj demo_used p) = basename ''libab.so'') [0x10000, 0x20000] = Some 0x20000"
  "is_linked demo_used 0x20000" "skips_constructors (obj demo_used 0x20000)" "si_ref_count (obj demo_used 0x20000) = 1"
  by (simp_all add: demo_used_def so_inv_def demo_defs obj_def basename_def is_linked_def skips_constructors_def)

lemma dlopen_dlclose_roundtrip_witness:
  "\<exists>w1 w2. do_dlopen demo_api 1 (Some ''libab.so'') 0 demo_used = Some (0x20000, w1) \<and>
     do_dlclose demo_api 1 0x20000 w1 = Some (0, w2) \<and> sos w2 = sos demo_used"
  using dlopen_dlclose_roundtrip [OF demo_protect_works demo_used_facts(1-4), of 0 0 0] demo_used_facts(5) by auto

text \<open>
  Closing a library whose count is not 1 only counts down, and a count of 0 wraps: a library that is
  closed more often than opened gets the largest count and is never unloaded.
\<close>

theorem dlclose_counts:
  assumes "protect_works os" and "sos w p = Some s" and "si_ref_count s \<noteq> 1"
  shows "\<exists>w'. do_dlclose os (Suc n) p w = Some (0, w') \<and>
    sos w' = (sos w)(p \<mapsto> s\<lparr>si_ref_count := si_ref_count s - 1\<rparr>) \<and>
    solist w' = solist w \<and> out_log w' = out_log w"
  using dlclose_counts_down [OF assms] by blast

lemma dlclose_counts_witness:
  "\<exists>w' s. do_dlclose demo_api 1 0x20000 demo_libs = Some (0, w') \<and> sos w' 0x20000 = Some s \<and>
     unat (si_ref_count s) = 4294967295"
  using dlclose_counts [OF demo_protect_works demo_lib_is(1), of 0] by (auto simp: demo_defs)

text \<open>
  \<open>do_dlopen\<close> of a null name, which should give the main program, returns null as long as
  \<open>somain\<close> has its initial value; flags outside the four known ones also give null, with no change.
\<close>

theorem dlopen_null_result:
  assumes "protect_works os" and "somain w = 0"
  shows "(\<exists>w'. do_dlopen os (Suc n) (if flags AND NOT 3 = 0 then None else name) flags w = Some (0, w') \<and>
    sos w' = sos w \<and> solist w' = solist w)"
proof (cases "flags AND NOT 3 = 0")
  case False
  then show ?thesis by (simp add: do_dlopen_def)
next
  case True
  obtain w1 where w1: "set_soinfo_pool_protection os (PROT_READ OR PROT_WRITE) w = Some w1" "logs w w1 []"
    using pool_protection_works [OF assms(1)] by blast
  have f: "find_library os (Suc n) None w1 = Some (0, w1)"
    using assms(2) by (simp add: find_library_internal_def logs_sel [OF w1(2)])
  obtain w2 where w2: "set_soinfo_pool_protection os PROT_READ w1 = Some w2" "logs w1 w2 []"
    using pool_protection_works [OF assms(1)] by blast
  have "do_dlopen os (Suc n) None flags w = Some (0, w2)"
    using True w1(1) f w2(1) by (simp add: do_dlopen_def del: find_library.simps)
  with True show ?thesis by (simp add: logs_sel [OF w1(2)] logs_sel [OF w2(2)])
qed

lemma dlopen_null_result_witness:
  "\<exists>w' w''. do_dlopen demo_api 1 None 0 demo_libs = Some (0, w') \<and>
     do_dlopen demo_api 1 (Some ''libab.so'') 4 demo_libs = Some (0, w'')"
proof -
  have "(4 :: u32) AND NOT 3 \<noteq> 0" by simp
  with dlopen_null_result [OF demo_protect_works demo_globals(1), of 0 0 None]
    dlopen_null_result [OF demo_protect_works demo_globals(1), of 0 4 "Some ''libab.so''"]
  show ?thesis by auto
qed

end
