(* ===== verification/Machine_Frame.thy ===== *)
theory Machine_Frame
  imports Lifecycle
begin

text \<open>
  What the calls that work on the machine leave alone.  Memory mapping, file access, the ELF reader, changes of
  protection and relocations change the machine through the Win32 functions, the bytes of memory, the table of open
  files and \<open>errno\<close>.  The locale states these moves as an interface; the relation that interests us is that the files on
  disk stay the same.
\<close>

locale machine_frame =
  fixes os :: win_api and M :: "mach \<Rightarrow> mach \<Rightarrow> bool"
  assumes M_refl: "M m m"
    and M_trans: "M m1 m2 \<Longrightarrow> M m2 m3 \<Longrightarrow> M m1 m3"
    and alloc_pages: "VirtualAlloc os a l t p m = (r, m') \<Longrightarrow> M m m'"
    and change_pages: "VirtualProtect os a l p m = (ok, m') \<Longrightarrow> M m m'"
    and make_mapping: "CreateFileMappingA os h p hi lo m = (r, m') \<Longrightarrow> M m m'"
    and map_view: "MapViewOfFile os h acc hi lo l m = (r, m') \<Longrightarrow> M m m'"
    and unmap_view: "UnmapViewOfFile os a m = (ok, m') \<Longrightarrow> M m m'"
    and close_handle: "M m (CloseHandle os h m)"
    and bytes: "M m (m\<lparr>vbytes := b\<rparr>)"
    and files: "M m (m\<lparr>fds := f\<rparr>)"
    and error_number: "M m (m\<lparr>errno := e\<rparr>)"
begin

section \<open>The C library and the mappings\<close>

lemma fd_moves: "M m (set_fd fd f m)" "M m (c_close fd m)" "M m (c_lseek fd off m)" "M m (set_errno os m)"
  by (simp_all add: set_fd_def c_close_def c_lseek_def set_errno_def files error_number M_refl split: option.split)

lemma stores: "mem_step m m' \<Longrightarrow> M m m'"
  using bytes [of m "vbytes m'"] by (simp add: mem_step_def)

lemma opens: "c_open name m = (fd, m') \<Longrightarrow> M m m'"
  by (auto simp: c_open_def Let_def M_refl files split: option.splits)

lemma reads: "c_read fd n m = (res, m') \<Longrightarrow> M m m'"
  by (auto simp: c_read_def Let_def M_refl fd_moves split: option.splits)

lemma reads_mem: "c_read_mem fd a n m = (res, m') \<Longrightarrow> M m m'"
  using M_trans [OF reads bytes]
  by (auto simp: c_read_mem_def put_bytes_def M_refl split: if_splits option.splits prod.splits dest: reads)

lemma maps_direct: "s_mmap_direct os start len prot fd offset m = (r, m') \<Longrightarrow> M m m'"
proof -
  assume run: "s_mmap_direct os start len prot fd offset m = (r, m')"
  obtain p m1 where p: "(if fd = -1 \<and> prot = 0 then VirtualAlloc os 0 len MEM_COMMIT PAGE_READWRITE m
      else if start = 0 then VirtualAlloc os 0 len MEM_COMMIT PAGE_READWRITE m else (MAP_FAILED, m)) = (p, m1)"
    by (meson surj_pair)
  have "M m m1" using p by (auto simp: M_refl split: if_splits dest: alloc_pages)
  with fd_moves(4) have m1: "M m (set_errno os m1)" by (rule M_trans [rotated])
  have rd: "M m (snd (c_read_mem fd a n (set_errno os m1)))" for a n
    using M_trans [OF m1 reads_mem] by (metis prod.collapse)
  have rs: "M m (snd (c_read_mem fd a n (c_lseek fd offset (set_errno os m1))))" for a n
    using M_trans [OF M_trans [OF m1 fd_moves(3)] reads_mem] by (metis prod.collapse)
  show ?thesis using run m1 rd rs unfolding s_mmap_direct_def p Let_def prod.case by (auto split: if_splits)
qed

lemma maps_view: "s_mmap_view os len prot flags fd offset m = (r, m') \<Longrightarrow> M m m'"
  unfolding s_mmap_view_def Let_def
  by (auto simp: M_refl split: if_splits prod.splits
      dest!: make_mapping map_view intro: M_trans [OF _ fd_moves(4)] M_trans [OF _ close_handle] M_trans)

lemma maps: "s_mmap os start len prot flags fd offset m = (r, m') \<Longrightarrow> M m m'"
  by (auto simp: s_mmap_def M_refl split: if_splits dest: maps_direct maps_view)

lemma unmaps: "M m (snd (s_munmap os a l m))"
  by (auto simp: s_munmap_def split: prod.split dest: unmap_view)

lemma protects_range: "s_mprotect os a l p m = (r, m') \<Longrightarrow> M m m'"
  by (auto simp: s_mprotect_def split: prod.splits dest: change_pages)

section \<open>Changes of protection\<close>

lemma protects_pools: "protect_pools os prot ps m = Some m' \<Longrightarrow> M m m'"
  by (induction ps arbitrary: m) (auto simp: M_refl split: prod.splits if_splits dest!: protects_range intro: M_trans)

lemma protects_loads: "phdr_table_set_load_prot os a n b x m = Some (r, m') \<Longrightarrow> M m m'"
  by (induction n arbitrary: a m)
    (auto simp: M_refl Let_def Option.bind_eq_Some_conv split: prod.splits if_splits dest!: protects_range intro: M_trans)

lemma protects_relro: "phdr_table_set_gnu_relro_prot os a n b x m = Some (r, m') \<Longrightarrow> M m m'"
  by (induction n arbitrary: a m)
    (auto simp: M_refl Let_def Option.bind_eq_Some_conv split: prod.splits if_splits dest!: protects_range intro: M_trans)

lemma protects_image:
  "phdr_table_protect_segments os a n b m = Some (r, m') \<Longrightarrow> M m m'"
  "phdr_table_unprotect_segments os a n b m = Some (r, m') \<Longrightarrow> M m m'"
  "phdr_table_protect_gnu_relro os a n b m = Some (r, m') \<Longrightarrow> M m m'"
  by (auto simp: phdr_table_protect_segments_def phdr_table_unprotect_segments_def phdr_table_protect_gnu_relro_def
      dest: protects_loads protects_relro)

section \<open>Opening and loading a file\<close>

lemma opens_path: "open_library_on_path name paths m = (fd, m') \<Longrightarrow> M m m'"
  unfolding open_on_path_eq by (auto simp: M_refl split: if_splits dest: opens)

lemma opens_library: "open_library name paths m = (fd, m') \<Longrightarrow> M m m'"
  unfolding open_library_eq by (auto simp: M_refl split: if_splits dest: opens)

lemma destroys: "M m (ElfReader_destroy os r m)"
  unfolding ElfReader_destroy_def Let_def by (auto intro: M_trans [OF fd_moves(2) unmaps] unmaps fd_moves(2) M_refl)

lemma stores_bytes: "store_bytes m a bs = Some m' \<Longrightarrow> M m m'"
  by (induction bs arbitrary: m a)
    (auto simp: M_refl store8_def Option.bind_eq_Some_conv split: if_splits intro: M_trans [OF bytes])

lemma loads_header: "ReadElfHeader r m = (ok, r', m') \<Longrightarrow> M m m'"
  by (auto simp: ReadElfHeader_def Let_def split: prod.splits if_splits option.splits dest: reads)

lemma loads_table: "ReadProgramHeader os r m = (ok, r', m') \<Longrightarrow> M m m'"
  by (auto simp: ReadProgramHeader_def Let_def M_refl split: prod.splits if_splits dest: maps)

lemma reserve_moves: "ReserveAddressSpace os r m = Some (ok, r', m') \<Longrightarrow> M m m'"
  by (auto simp: ReserveAddressSpace_def Let_def Option.bind_eq_Some_conv M_refl split: prod.splits if_splits dest: maps)

lemma loads_segment: "load_segment os fd b ph m = Some (ok, m') \<Longrightarrow> M m m'"
proof -
  assume run: "load_segment os fd b ph m = Some (ok, m')"
  obtain sa m1 where s: "(if p_offset ph + p_filesz ph - PAGE_START (p_offset ph) \<noteq> 0
      then s_mmap os (PAGE_START (p_vaddr ph + b)) (p_offset ph + p_filesz ph - PAGE_START (p_offset ph))
        (PFLAGS_TO_PROT (p_flags ph)) (MAP_FIXED OR MAP_PRIVATE) fd (PAGE_START (p_offset ph)) m else (0, m)) = (sa, m1)"
    by (meson surj_pair)
  have m1: "M m m1" using s by (auto simp: M_refl split: if_splits dest: maps)
  have z: "M m m3" if "c_memset m1 a 0 n = Some m2" "s_mmap os st l pr fl f off m2 = (zm, m3)" for a n m2 st l pr fl f off zm m3
    using that m1 by (auto simp: c_memset_def dest!: stores_bytes maps intro: M_trans)
  have z': "M m m3" if "s_mmap os st l pr fl f off m1 = (zm, m3)" for st l pr fl f off zm m3
    using that m1 by (auto dest!: maps intro: M_trans)
  have z'': "M m m2" if "c_memset m1 a 0 n = Some m2" for a n m2
    using that m1 by (auto simp: c_memset_def dest!: stores_bytes intro: M_trans)
  show ?thesis
    using run m1 z z' z'' unfolding load_segment_def Let_def s prod.case
    by (auto simp: Option.bind_eq_Some_conv split: if_splits prod.splits)
qed

lemma loads_segments: "load_segments_loop os fd b a n m = Some (ok, m') \<Longrightarrow> M m m'"
  by (induction n arbitrary: a m)
    (auto simp: M_refl Option.bind_eq_Some_conv split: if_splits dest!: loads_segment intro: M_trans)

lemma loads_file: "Load os r m = Some (ok, r', m') \<Longrightarrow> M m m'"
proof -
  assume run: "Load os r m = Some (ok, r', m')"
  obtain k1 r1 m1 where h: "ReadElfHeader r m = (k1, r1, m1)" by (metis prod_cases3)
  obtain k2 r2 m2 where t: "ReadProgramHeader os r1 m1 = (k2, r2, m2)" by (metis prod_cases3)
  have m2: "M m m2" using M_trans [OF loads_header [OF h] loads_table [OF t]] .
  show ?thesis
    using run loads_header [OF h] m2 unfolding Load_def h t Let_def prod.case
    by (auto simp: Option.bind_eq_Some_conv LoadSegments_def split: if_splits
        dest!: reserve_moves loads_segments intro: M_trans)
qed

lemma maps_pool: "ensure_free_list_non_empty os w = (ok, w') \<Longrightarrow> M (mc w) (mc w')"
  by (auto simp: ensure_free_list_non_empty_def Let_def M_refl split: if_splits prod.splits dest: maps)

end

section \<open>The files on disk stay\<close>

text \<open>No Win32 function that the program calls creates, deletes or changes a file.\<close>

definition keeps_files :: "win_api \<Rightarrow> bool" where
  "keeps_files os \<longleftrightarrow>
     (\<forall>a l t p m. fs (snd (VirtualAlloc os a l t p m)) = fs m) \<and> (\<forall>a l p m. fs (snd (VirtualProtect os a l p m)) = fs m) \<and>
     (\<forall>h p hi lo m. fs (snd (CreateFileMappingA os h p hi lo m)) = fs m) \<and>
     (\<forall>h acc hi lo l m. fs (snd (MapViewOfFile os h acc hi lo l m)) = fs m) \<and>
     (\<forall>a m. fs (snd (UnmapViewOfFile os a m)) = fs m) \<and> (\<forall>h m. fs (CloseHandle os h m) = fs m)"

interpretation disk: machine_frame os "\<lambda>m m'. keeps_files os \<longrightarrow> fs m' = fs m" for os
  by unfold_locales (auto simp: keeps_files_def dest!: arg_cong [of _ _ "\<lambda>p. fs (snd p)"])

interpretation anything: machine_frame os "\<lambda>_ _. True" for os
  by unfold_locales auto

end
