(* ===== verification/Frame.thy ===== *)
theory Frame
  imports Machine_Frame
begin

text \<open>
  What the linker's calls leave alone.  The calls change the linker's state through few elementary
  moves: memory, the record of printed lines, fields of a library other than its link, an allocation, a
  release, and the preload list of an executable.  A reflexive and transitive relation that holds
  for each of these moves holds between the state before and after every call.  The locales state the
  moves as an interface, from the calls of functions alone to loading and linking; the relations that
  interest us are interpretations.
\<close>

section \<open>Loops\<close>

lemma walk_dyn_rel:
  assumes run: "walk_dyn mem body d st = Some (ok, st')"
    and body: "\<And>e st ok st'. body e st = Some (ok, st') \<Longrightarrow> S st st'"
    and refl: "\<And>st. S st st" and trans: "\<And>a b c. S a b \<Longrightarrow> S b c \<Longrightarrow> S a c"
  shows "S st st'"
proof -
  let ?B = "\<lambda>body. \<forall>e st ok st'. body e st = Some (ok, st') \<longrightarrow> S st st'"
  have "?B body \<longrightarrow> S st (snd (ok, st'))"
  proof (rule walk_dyn.raw_induct [where P = "\<lambda>mem body d st r. ?B body \<longrightarrow> S st (snd r)", OF _ run])
    fix wd mem and b :: "Elf32_Dyn \<Rightarrow> 'a \<Rightarrow> (bool \<times> 'a) option" and d st r
    assume IH: "\<And>mem b d st r. wd mem b d st = Some r \<Longrightarrow> ?B b \<longrightarrow> S st (snd r)"
      and run: "do { e \<leftarrow> read_dyn (mem st) d;
          (if d_tag e = DT_NULL then Some (True, st)
           else do { (ok, st) \<leftarrow> b e st;
                     (if ok then wd mem b (d + sizeof_Dyn) st else Some (False, st)) }) } = Some r"
    show "?B b \<longrightarrow> S st (snd r)"
    proof
      assume B: "?B b"
      from run obtain e where e: "read_dyn (mem st) d = Some e" by (auto elim: bind_eq_SomeE)
      show "S st (snd r)"
      proof (cases "d_tag e = DT_NULL")
        case True
        with run e refl show ?thesis by auto
      next
        case False
        with run e obtain ok st' where b: "b e st = Some (ok, st')"
          and n: "(if ok then wd mem b (d + sizeof_Dyn) st' else Some (False, st')) = Some r"
          by (auto elim!: bind_eq_SomeE)
        have "S st' (snd r)" using n IH B refl by (auto split: if_splits)
        with b B trans show ?thesis by blast
      qed
    qed
  qed
  with body show ?thesis by simp
qed

section \<open>Calls of constructors and destructors\<close>

locale call_frame =
  fixes os :: win_api and R :: "world \<Rightarrow> world \<Rightarrow> bool"
  assumes same: "R w w"
    and chain: "R w1 w2 \<Longrightarrow> R w2 w3 \<Longrightarrow> R w1 w3"
    and protection: "set_soinfo_pool_protection os prot w = Some w' \<Longrightarrow> R w w'"
    and lines: "R w (w\<lparr>out_log := out_log w @ l\<rparr>)"
    and marked: "sos w p = Some s \<Longrightarrow> R w (w\<lparr>sos := (sos w)(p \<mapsto> s\<lparr>si_constructors_called := True\<rparr>)\<rparr>)"
begin

lemma call_function: "CallFunction os si fname f w = Some w' \<Longrightarrow> R w w'"
  by (auto simp: CallFunction_def Option.bind_eq_Some_conv Let_def same split: if_splits
      intro: chain [OF lines protection])

lemma calls_loop:
  assumes "call_loop os si a i e stp w = Some w'"
  shows "R w w'"
proof -
  have "os = os \<longrightarrow> R w w'"
  proof (rule call_loop.raw_induct [where P = "\<lambda>os' si a i e stp w w'. os' = os \<longrightarrow> R w w'", OF _ assms])
    fix cl os' si a i e stp w w'
    assume IH: "\<And>os' si a i e stp w w'. cl os' si a i e stp w = Some w' \<Longrightarrow> os' = os \<longrightarrow> R w w'"
      and run: "(if i = e then Some w
        else do { f \<leftarrow> load32 (mc w) (a + 4 * i); w \<leftarrow> CallFunction os' si ''function'' f w;
                  cl os' si a (i + stp) e stp w }) = Some w'"
    show "os' = os \<longrightarrow> R w w'"
      using run IH call_function
      by (auto simp: same Option.bind_eq_Some_conv split: if_splits) (blast intro: chain)
  qed
  then show ?thesis by simp
qed

lemma call_array: "CallArray os si a n rvs w = Some w' \<Longrightarrow> R w w'"
  by (auto simp: CallArray_def Let_def same split: if_splits dest: calls_loop)

lemma init_calls: "call_init os si w = Some w' \<Longrightarrow> R w w'"
  unfolding call_init_def
  by (auto simp: Option.bind_eq_Some_conv intro: chain [OF call_function call_array])

lemma destructors: "CallDestructors os si w = Some w' \<Longrightarrow> R w w'"
  unfolding CallDestructors_def
  by (auto simp: Option.bind_eq_Some_conv intro: chain [OF call_array call_function])

lemma ctor_walk_frame:
  assumes "walk_dyn mc (ctor_dyn rc si) d w = Some (ok, w')" and "\<And>p w w'. rc p w = Some w' \<Longrightarrow> R w w'"
  shows "R w w'"
  using assms(1)
proof (rule walk_dyn_rel [where S = R])
  show "R w w'" if "ctor_dyn rc si e w = Some (ok, w')" for e w ok w'
    using that assms(2) by (auto simp: ctor_dyn_def Option.bind_eq_Some_conv same split: if_splits)
qed (rule same, rule chain)

lemma constructors: "CallConstructors os n si w = Some w' \<Longrightarrow> R w w'"
proof (induction n arbitrary: si w w')
  case 0
  then show ?case by simp
next
  case (Suc n)
  from Suc.prems obtain s where s: "sos w si = Some s"
    and r: "(if si_constructors_called s then Some w
           else do {
             w \<leftarrow> upd_si si (\<lambda>s. s\<lparr>si_constructors_called := True\<rparr>) w;
             (_, w) \<leftarrow> (if si_dynamic s \<noteq> 0
                        then walk_dyn mc (ctor_dyn (CallConstructors os n) si) (si_dynamic s) w
                        else Some (True, w));
             call_init os si w }) = Some w'"
    by (auto simp: Option.bind_eq_Some_conv)
  show ?case
  proof (cases "si_constructors_called s")
    case True
    with r show ?thesis by (simp add: same)
  next
    case False
    let ?w = "w\<lparr>sos := (sos w)(si \<mapsto> s\<lparr>si_constructors_called := True\<rparr>)\<rparr>"
    from r s False obtain ok w2
      where "(if si_dynamic s \<noteq> 0 then walk_dyn mc (ctor_dyn (CallConstructors os n) si) (si_dynamic s) ?w
              else Some (True, ?w)) = Some (ok, w2)" and i: "call_init os si w2 = Some w'"
      by (auto simp: upd_si_def elim!: bind_eq_SomeE)
    then have "R ?w w2" using ctor_walk_frame Suc.IH same by (auto split: if_splits)
    with marked [OF s] init_calls [OF i] show ?thesis by (blast intro: chain)
  qed
qed

end

text \<open>The same moves, when the machine may change as \<open>M\<close> allows and the record is free.\<close>

locale world_frame = machine_frame os M for os M +
  fixes R :: "world \<Rightarrow> world \<Rightarrow> bool"
  assumes refl: "R w w"
    and trans: "R w1 w2 \<Longrightarrow> R w2 w3 \<Longrightarrow> R w1 w3"
    and mem: "M (mc w) m \<Longrightarrow> R w (w\<lparr>mc := m\<rparr>)"
    and log: "R w (w\<lparr>out_log := l\<rparr>)"
    and mark: "sos w p = Some s \<Longrightarrow> R w (w\<lparr>sos := (sos w)(p \<mapsto> s\<lparr>si_constructors_called := True\<rparr>)\<rparr>)"
begin

lemma pool_protection: "set_soinfo_pool_protection os prot w = Some w' \<Longrightarrow> R w w'"
  by (auto simp: set_soinfo_pool_protection_def Option.bind_eq_Some_conv intro: mem protects_pools)

end

sublocale world_frame \<subseteq> call_frame os R
  by unfold_locales (auto intro: refl trans pool_protection log mark)

section \<open>Unloading\<close>

locale fields_frame = world_frame os M R for os M R +
  assumes fields: "sos w p = Some s \<Longrightarrow> si_next s' = si_next s \<Longrightarrow> si_name s' = si_name s \<Longrightarrow>
      si_flags s' \<in> {si_flags s, si_flags s OR FLAG_LINKED, 0} \<Longrightarrow> R w (w\<lparr>sos := (sos w)(p \<mapsto> s')\<rparr>)"
begin

lemma update:
  assumes "upd_si p f w = Some w'" and "\<And>s. si_next (f s) = si_next s" and "\<And>s. si_name (f s) = si_name s"
    and "\<And>s. si_flags (f s) \<in> {si_flags s, si_flags s OR FLAG_LINKED, 0}"
  shows "R w w'"
  using assms fields by (auto simp: upd_si_def split: option.splits)

end

locale unload_frame = fields_frame os M R for os M R +
  assumes free: "soinfo_free p w = Some w' \<Longrightarrow> R w w'"
begin

lemma unload_walk_frame:
  assumes "walk_dyn mc (unload_dyn rc si) d w = Some (ok, w')" and "\<And>p w w'. rc p w = Some w' \<Longrightarrow> R w w'"
  shows "R w w'"
  using assms(1)
proof (rule walk_dyn_rel [where S = R])
  show "R w w'" if "unload_dyn rc si e w = Some (ok, w')" for e w ok w'
    using that assms(2) by (auto simp: unload_dyn_def Option.bind_eq_Some_conv refl split: if_splits)
qed (rule refl, rule trans)

lemma unload: "soinfo_unload os n si w = Some w' \<Longrightarrow> R w w'"
proof (induction n arbitrary: si w w')
  case 0
  then show ?case by simp
next
  case (Suc n)
  from Suc.prems obtain s where s: "sos w si = Some s"
    by (auto simp: Option.bind_eq_Some_conv)
  show ?case
  proof (cases "si_ref_count s = 1")
    case False
    with Suc.prems s show ?thesis by (auto intro: update)
  next
    case True
    with Suc.prems s obtain w1 ok w2 and t :: soinfo and w3
      where d: "(if si_name s \<in> set no_destructors then Some w else CallDestructors os si w) = Some w1"
        and k: "walk_dyn mc (unload_dyn (soinfo_unload os n) si) (si_dynamic s) w1 = Some (ok, w2)"
        and f: "soinfo_free si (w2\<lparr>mc := snd (s_munmap os (si_base t) (si_size t) (mc w2))\<rparr>) = Some w3"
        and u: "upd_si si (\<lambda>s. s\<lparr>si_ref_count := 0\<rparr>) w3 = Some w'"
      by (auto simp: Let_def elim!: bind_eq_SomeE)
    have "R w w1" using d refl destructors by (auto split: if_splits)
    moreover have "R w1 w2" using unload_walk_frame [OF k] Suc.IH by blast
    moreover have "R w2 w3" using trans [OF mem [OF unmaps] free [OF f]] .
    moreover have "R w3 w'" using u by (rule update) auto
    ultimately show ?thesis by (blast intro: trans)
  qed
qed

lemma dlclose:
  assumes "do_dlclose os n si w = Some (r, w')"
  shows "R w w'"
proof -
  obtain w1 w2 where "set_soinfo_pool_protection os (PROT_READ OR PROT_WRITE) w = Some w1"
    and "soinfo_unload os n si w1 = Some w2" and "set_soinfo_pool_protection os PROT_READ w2 = Some w'"
    using assms unfolding do_dlclose_def by (auto elim!: bind_eq_SomeE)
  then show ?thesis using protection unload by (blast intro: trans)
qed

end

section \<open>Loading and linking\<close>

lemma parse_walk_keeps:
  assumes "walk_dyn mem (parse_dyn m base) d (s, n) = Some (ok, s', n')"
  shows "si_next s' = si_next s \<and> si_flags s' = si_flags s \<and> si_name s' = si_name s"
proof -
  let ?S = "\<lambda>st st'. si_next (fst st') = si_next (fst st) \<and> si_flags (fst st') = si_flags (fst st) \<and>
    si_name (fst st') = si_name (fst st)"
  have "?S (s, n) (s', n')"
    using assms
  proof (rule walk_dyn_rel [where S = ?S])
    show "?S st st'" if "parse_dyn m base e st = Some (ok, st')" for e st ok st'
      using that unfolding parse_dyn_def Let_def
      by (cases st) (auto simp: Option.bind_eq_Some_conv split: if_splits)
  qed auto
  then show ?thesis by simp
qed

locale image_frame = fields_frame os M R for os M R +
  assumes preload: "sos w p = Some s \<Longrightarrow> si_flags s AND FLAG_EXE \<noteq> 0 \<Longrightarrow> R w w' \<Longrightarrow> R w (w'\<lparr>gLdPreloads := ps\<rparr>)"
begin

definition keeps_finder :: "finder \<Rightarrow> bool" where
  "keeps_finder fl \<longleftrightarrow> (\<forall>name w p w'. fl name w = Some (p, w') \<longrightarrow> R w w')"

lemma keeps_finderD: "keeps_finder fl \<Longrightarrow> fl name w = Some (p, w') \<Longrightarrow> R w w'"
  by (auto simp: keeps_finder_def)

lemma preloads:
  "load_preloads fl names w = Some w' \<Longrightarrow> keeps_finder fl \<Longrightarrow> sos w0 p = Some s \<Longrightarrow> si_flags s AND FLAG_EXE \<noteq> 0 \<Longrightarrow>
     R w0 w \<Longrightarrow> R w0 w'"
proof (induction names arbitrary: w)
  case Nil
  then show ?case by simp
next
  case (Cons name names)
  from Cons.prems(1) obtain lsi w1 where f: "fl (Some name) w = Some (lsi, w1)"
    and l: "load_preloads fl names (if lsi \<noteq> 0 then w1\<lparr>gLdPreloads := gLdPreloads w1 @ [lsi]\<rparr> else w1) = Some w'"
    by (auto simp: Option.bind_eq_Some_conv)
  have w1: "R w0 w1" using Cons.prems(5) keeps_finderD [OF Cons.prems(2) f] by (rule trans)
  then have "R w0 (if lsi \<noteq> 0 then w1\<lparr>gLdPreloads := gLdPreloads w1 @ [lsi]\<rparr> else w1)"
    using preload [OF Cons.prems(3,4)] by simp
  with Cons.IH [OF l Cons.prems(2-4)] show ?case .
qed

lemma needed_walk:
  assumes "walk_dyn (\<lambda>st. mc (snd st)) (need_dyn fl si) d (ns, w) = Some (ok, ns', w')" and "keeps_finder fl"
  shows "R w w'"
proof -
  have "R (snd (ns, w)) (snd (ns', w'))"
    using assms(1)
  proof (rule walk_dyn_rel [where S = "\<lambda>st st'. R (snd st) (snd st')"])
    show "R (snd st) (snd st')" if "need_dyn fl si e st = Some (ok, st')" for e st ok st'
      using that keeps_finderD [OF assms(2)]
      by (cases st) (auto simp: need_dyn_def Option.bind_eq_Some_conv refl split: if_splits)
  qed (rule refl, rule trans)
  then show ?thesis by simp
qed

lemma table: "relocate_table b si rel cnt needed w = Some (ok, w') \<Longrightarrow> R w w'"
  by (auto simp: relocate_table_def soinfo_relocate_def Option.bind_eq_Some_conv refl only_memory_def
      split: if_splits dest!: relocate_loop_only_memory intro!: mem [OF stores])

lemma pass:
  "protect_pass (phdr_table_protect_segments os) s w = Some (ok, w') \<Longrightarrow> R w w'"
  "protect_pass (phdr_table_unprotect_segments os) s w = Some (ok, w') \<Longrightarrow> R w w'"
  "protect_pass (phdr_table_protect_gnu_relro os) s w = Some (ok, w') \<Longrightarrow> R w w'"
  by (auto simp: protect_pass_def Option.bind_eq_Some_conv intro!: mem dest: protects_image)

lemma seal:
  assumes "seal_image os si s w = Some (ok, w')"
  shows "R w w'"
proof -
  obtain w2 ok2 w3 where u: "upd_si si (\<lambda>s. s\<lparr>si_flags := si_flags s OR FLAG_LINKED\<rparr>) w = Some w2"
    and p: "(if si_has_text_relocations s then protect_pass (phdr_table_protect_segments os) s w2
             else Some (True, w2)) = Some (ok2, w3)"
    and q: "(if \<not> ok2 then Some (False, w3) else protect_pass (phdr_table_protect_gnu_relro os) s w3) = Some (ok, w')"
    using assms unfolding seal_image_def by (elim bind_eq_SomeE) (auto elim!: bind_eq_SomeE)
  have "R w w2" using u by (rule update) auto
  moreover have "R w2 w3" using p pass refl by (auto split: if_splits)
  moreover have "R w3 w'" using q pass refl by (auto split: if_splits)
  ultimately show ?thesis by (blast intro: trans)
qed

lemma image:
  assumes "relocate_image os si breloc needed w = Some (ok, w')"
  shows "R w w'"
proof -
  obtain s ok1 w1 where s: "sos w si = Some s"
    and p: "(if si_has_text_relocations s then protect_pass (phdr_table_unprotect_segments os) s w
             else Some (True, w)) = Some (ok1, w1)"
    and r: "(if \<not> ok1 then Some (False, w1)
           else do {
             (ok, w) \<leftarrow> relocate_table breloc si (si_plt_rel s) (si_plt_rel_count s) needed w1;
             (if \<not> ok then Some (False, w)
              else do {
                (ok, w) \<leftarrow> relocate_table breloc si (si_rel s) (si_rel_count s) needed w;
                (if \<not> ok then Some (False, w) else seal_image os si s w) }) }) = Some (ok, w')"
    using assms unfolding relocate_image_def by (elim bind_eq_SomeE) (auto elim!: bind_eq_SomeE)
  have "R w w1" using p pass refl by (auto split: if_splits)
  moreover have "R w1 w'"
    using r by (auto simp: refl Option.bind_eq_Some_conv split: if_splits dest!: table seal) (blast intro: trans)+
  ultimately show ?thesis by (rule trans)
qed

end

context image_frame
begin

lemma put:
  "sos w p = Some s \<Longrightarrow> si_next s' = si_next s \<Longrightarrow> si_name s' = si_name s \<Longrightarrow> si_flags s' \<in> {si_flags s, si_flags s OR FLAG_LINKED, 0} \<Longrightarrow>
     R w (put_si p s' w)"
  by (simp add: put_si_def fields)

text \<open>The part of \<open>soinfo_link_image\<close> after the checks, on the library with its fields set.\<close>

lemma link_tail:
  assumes s: "sos w si = Some s" and fl: "keeps_finder fl"
    and run: "do {
      w \<leftarrow> (if si_flags s AND FLAG_EXE \<noteq> 0
            then load_preloads fl (gLdPreloadNames w) (w\<lparr>gLdPreloads := []\<rparr>) else Some w);
      (ok, needed, w) \<leftarrow> walk_dyn (\<lambda>st. mc (snd st)) (need_dyn fl si) dyn ([], w);
      (if \<not> ok then Some (False, w) else relocate_image os si breloc needed w) } = Some (ok, w')"
  shows "R w w'"
proof -
  from run obtain w1 ok2 needed w2
    where p: "(if si_flags s AND FLAG_EXE \<noteq> 0
            then load_preloads fl (gLdPreloadNames w) (w\<lparr>gLdPreloads := []\<rparr>) else Some w) = Some w1"
      and n: "walk_dyn (\<lambda>st. mc (snd st)) (need_dyn fl si) dyn ([], w1) = Some (ok2, needed, w2)"
      and i: "(if \<not> ok2 then Some (False, w2) else relocate_image os si breloc needed w2) = Some (ok, w')"
    by (elim bind_eq_SomeE) (auto elim!: bind_eq_SomeE)
  have "R w w1"
    using p preloads [OF _ fl s _ preload [OF s _ refl]] refl by (auto split: if_splits)
  moreover have "R w1 w2" using needed_walk [OF n fl] .
  moreover have "R w2 w'" using i image refl by (auto split: if_splits)
  ultimately show ?thesis by (blast intro: trans)
qed

lemma link:
  assumes run: "soinfo_link_image os fl si breloc w = Some (ok, w')" and fl: "keeps_finder fl"
  shows "R w w'"
proof -
  let ?tail = "\<lambda>s dyn w. do {
      w \<leftarrow> (if si_flags s AND FLAG_EXE \<noteq> 0
            then load_preloads fl (gLdPreloadNames w) (w\<lparr>gLdPreloads := []\<rparr>) else Some w);
      (ok, needed, w) \<leftarrow> walk_dyn (\<lambda>st. mc (snd st)) (need_dyn fl si) dyn ([], w);
      (if \<not> ok then Some (False, w) else relocate_image os si breloc needed w) }"
  obtain s dyn x where s: "sos w si = Some s"
    and d: "phdr_table_get_dynamic_section (mc w) (si_phdr s) (unat (si_phnum s)) (si_load_bias s) = Some (dyn, x)"
    using run unfolding soinfo_link_image_def Let_def by (auto elim!: bind_eq_SomeE)
  show ?thesis
  proof (cases "dyn = 0")
    case True
    with run s d have "w' = put_si si (s\<lparr>si_dynamic := dyn\<rparr>) w"
      by (auto simp: soinfo_link_image_def split: prod.splits)
    then show ?thesis using put [OF s] by simp
  next
    case False
    let ?s1 = "\<lambda>exidx cnt. s\<lparr>si_dynamic := dyn, si_ARM_exidx := exidx, si_ARM_exidx_count := cnt\<rparr>"
    from run s d False have "do {
        (r, exidx, cnt) \<leftarrow> phdr_table_get_arm_exidx (mc w) (si_phdr s) (unat (si_phnum s)) (si_load_bias s);
        (ok, s', n) \<leftarrow> walk_dyn (\<lambda>_. mc w) (parse_dyn (mc w) (si_load_bias s)) dyn (?s1 exidx cnt, 0);
        (if \<not> ok \<or> (si_flags s AND FLAG_LINKER \<noteq> 0 \<and> n \<noteq> 0) \<or> si_nbucket s' = 0 \<or> si_strtab s' = 0 \<or> si_symtab s' = 0
         then Some (False, put_si si s' w) else ?tail s' dyn (put_si si s' w)) } = Some (ok, w')"
      unfolding soinfo_link_image_def Let_def by (simp add: split_def cong: if_cong)
    then obtain r exidx cnt where "do {
        (ok, s', n) \<leftarrow> walk_dyn (\<lambda>_. mc w) (parse_dyn (mc w) (si_load_bias s)) dyn (?s1 exidx cnt, 0);
        (if \<not> ok \<or> (si_flags s AND FLAG_LINKER \<noteq> 0 \<and> n \<noteq> 0) \<or> si_nbucket s' = 0 \<or> si_strtab s' = 0 \<or> si_symtab s' = 0
         then Some (False, put_si si s' w) else ?tail s' dyn (put_si si s' w)) } = Some (ok, w')"
      by (elim bind_eq_SomeE) (simp only: split_paired_all prod.case)
    then obtain ok1 s' n where p: "walk_dyn (\<lambda>_. mc w) (parse_dyn (mc w) (si_load_bias s)) dyn (?s1 exidx cnt, 0) = Some (ok1, s', n)"
      and t: "(if \<not> ok1 \<or> (si_flags s AND FLAG_LINKER \<noteq> 0 \<and> n \<noteq> 0) \<or> si_nbucket s' = 0 \<or> si_strtab s' = 0 \<or> si_symtab s' = 0
           then Some (False, put_si si s' w) else ?tail s' dyn (put_si si s' w)) = Some (ok, w')"
      by (elim bind_eq_SomeE) (simp only: split_paired_all prod.case)
    have s': "R w (put_si si s' w)" using parse_walk_keeps [OF p] by (intro put [OF s]) auto
    have "sos (put_si si s' w) si = Some s'" by (simp add: put_si_def)
    from t have "w' = put_si si s' w \<or> ?tail s' dyn (put_si si s' w) = Some (ok, w')" by (auto split: if_splits)
    with link_tail [OF \<open>sos (put_si si s' w) si = Some s'\<close> fl] s' show ?thesis by (blast intro: trans)
  qed
qed

end

text \<open>All the moves together.\<close>

locale link_frame = unload_frame os M R + image_frame os M R for os M R +
  assumes alloc: "soinfo_alloc os name w = Some (p, w') \<Longrightarrow> R w w'"
begin

lemma load:
  assumes "load_library os name w = Some (p, w')"
  shows "R w w'"
proof -
  obtain fd m where o: "open_library name (gLdPaths w) (mc w) = (fd, m)"
    by (cases "open_library name (gLdPaths w) (mc w)")
  show ?thesis
  proof (cases "fd = -1")
    case True
    with assms o show ?thesis by (auto simp: load_library_def intro: mem opens_library)
  next
    case False
    with assms o obtain ok r m2 where l: "Load os (ElfReader name fd) m = Some (ok, r, m2)"
      and t: "(if \<not> ok then Some (0, w\<lparr>mc := ElfReader_destroy os r m2\<rparr>)
        else do {
          (si, w) \<leftarrow> soinfo_alloc os (basename name) (w\<lparr>mc := m2\<rparr>);
          (if si = 0 then Some (0, w\<lparr>mc := ElfReader_destroy os r (mc w)\<rparr>)
           else do {
             w \<leftarrow> upd_si si (\<lambda>s. s\<lparr>si_base := er_load_start r, si_size := er_load_size r,
                    si_load_bias := er_load_bias r, si_flags := 0, si_entry := 0, si_dynamic := 0,
                    si_phnum := er_phdr_num r, si_phdr := er_loaded_phdr r\<rparr>) w;
             Some (si, w\<lparr>mc := ElfReader_destroy os r (mc w)\<rparr>) }) }) = Some (p, w')"
      by (auto simp: load_library_def Let_def elim!: bind_eq_SomeE cong: if_cong)
    have m2: "M (mc w) m2" using opens_library [OF o] loads_file [OF l] by (rule M_trans)
    show ?thesis
    proof (cases ok)
      case False
      with t show ?thesis using mem [OF M_trans [OF m2 destroys]] by auto
    next
      case True
      with t obtain si w3 where a: "soinfo_alloc os (basename name) (w\<lparr>mc := m2\<rparr>) = Some (si, w3)"
        and u: "(if si = 0 then Some (0, w3\<lparr>mc := ElfReader_destroy os r (mc w3)\<rparr>)
           else do {
             w \<leftarrow> upd_si si (\<lambda>s. s\<lparr>si_base := er_load_start r, si_size := er_load_size r,
                    si_load_bias := er_load_bias r, si_flags := 0, si_entry := 0, si_dynamic := 0,
                    si_phnum := er_phdr_num r, si_phdr := er_loaded_phdr r\<rparr>) w3;
             Some (si, w\<lparr>mc := ElfReader_destroy os r (mc w)\<rparr>) }) = Some (p, w')"
        by (auto elim!: bind_eq_SomeE)
      have w3: "R w w3" using mem [OF m2] alloc [OF a] by (rule trans)
      have "R w3 w'"
      proof (cases "si = 0")
        case True
        with u show ?thesis using mem [OF destroys] by auto
      next
        case False
        with u obtain w4 where "w' = w4\<lparr>mc := ElfReader_destroy os r (mc w4)\<rparr>" and "R w3 w4"
          by (auto elim!: bind_eq_SomeE dest!: update)
        with mem [OF destroys] show ?thesis by (blast intro: trans)
      qed
      with w3 show ?thesis by (rule trans)
    qed
  qed
qed

lemma find_internal:
  assumes run: "find_library_internal os fl name w = Some (p, w')" and fl: "keeps_finder fl"
  shows "R w w'"
proof (cases name)
  case None
  with run show ?thesis by (simp add: find_library_internal_def refl)
next
  case (Some nm)
  with run obtain si where f: "find_loaded_library nm w = Some si"
    unfolding find_library_internal_def by (auto elim!: bind_eq_SomeE)
  show ?thesis
  proof (cases "si = 0")
    case False
    with run Some f show ?thesis by (auto simp: find_library_internal_def refl Option.bind_eq_Some_conv)
  next
    case True
    with run Some f obtain q w1 where l: "load_library os nm w = Some (q, w1)"
      and t: "(if q = 0 then Some (0, w1)
         else do {
           (ok, w) \<leftarrow> soinfo_link_image os fl q True w1;
           (if ok then Some (q, w)
            else do {
              s \<leftarrow> sos w q;
              let w = w\<lparr>mc := snd (s_munmap os (si_base s) (si_size s) (mc w))\<rparr>;
              w \<leftarrow> soinfo_free q w;
              Some (0, w) }) }) = Some (p, w')"
      unfolding find_library_internal_def by (auto elim!: bind_eq_SomeE)
    have "R w1 w'"
    proof (cases "q = 0")
      case True
      with t show ?thesis by (simp add: refl)
    next
      case False
      with t obtain ok w2 where k: "soinfo_link_image os fl q True w1 = Some (ok, w2)"
        and u: "(if ok then Some (q, w2)
            else do {
              s \<leftarrow> sos w2 q;
              let w = w2\<lparr>mc := snd (s_munmap os (si_base s) (si_size s) (mc w2))\<rparr>;
              w \<leftarrow> soinfo_free q w;
              Some (0, w) }) = Some (p, w')"
        by (auto elim!: bind_eq_SomeE)
      have "R w2 w'"
        using u by (auto simp: refl Option.bind_eq_Some_conv Let_def split: if_splits intro: trans [OF mem [OF unmaps] free])
      with link [OF k fl] show ?thesis by (rule trans)
    qed
    with load [OF l] show ?thesis by (rule trans)
  qed
qed

lemma find_library_keeps: "keeps_finder (find_library os n)"
proof (induction n)
  case 0
  then show ?case by (simp add: keeps_finder_def)
next
  case (Suc n)
  show ?case
    unfolding keeps_finder_def
  proof (intro allI impI)
    fix name w p w'
    assume "find_library os (Suc n) name w = Some (p, w')"
    then obtain q w1 where f: "find_library_internal os (find_library os n) name w = Some (q, w1)"
      and u: "(if q \<noteq> 0
           then do { w \<leftarrow> upd_si q (\<lambda>s. s\<lparr>si_ref_count := si_ref_count s + 1\<rparr>) w1; Some (q, w) }
           else Some (q, w1)) = Some (p, w')"
      by (auto elim!: bind_eq_SomeE)
    have "R w1 w'"
      using u by (auto simp: refl Option.bind_eq_Some_conv split: if_splits intro: update)
    with find_internal [OF f Suc] show "R w w'" by (rule trans)
  qed
qed

lemma dlopen:
  assumes "do_dlopen os n name flags w = Some (p, w')"
  shows "R w w'"
proof (cases "flags AND NOT (RTLD_NOW OR RTLD_LAZY OR RTLD_LOCAL OR RTLD_GLOBAL) = 0")
  case False
  with assms show ?thesis by (simp add: do_dlopen_def refl)
next
  case True
  with assms obtain w1 q w2 w3 where p1: "set_soinfo_pool_protection os (PROT_READ OR PROT_WRITE) w = Some w1"
    and f: "find_library os n name w1 = Some (q, w2)"
    and c: "(if q \<noteq> 0
              then do { s \<leftarrow> sos w2 q;
                        (if si_name s \<in> set no_constructors then Some w2 else CallConstructors os n q w2) }
              else Some w2) = Some w3"
    and p2: "set_soinfo_pool_protection os PROT_READ w3 = Some w'"
    unfolding do_dlopen_def by (auto elim!: bind_eq_SomeE)
  have "R w2 w3"
    using c by (auto simp: refl Option.bind_eq_Some_conv split: if_splits intro: constructors)
  with protection [OF p1] keeps_finderD [OF find_library_keeps f] protection [OF p2]
  show ?thesis by (blast intro: trans)
qed

end

end
