(* ===== verification/Dlfcn.thy ===== *)
theory Dlfcn
  imports Lifecycle
begin

text \<open>
  emulator/dlfcn.cpp: the static description of libdl.so itself, with its symbol
  table and its one-bucket hash table, and the calls \<open>dlopen\<close>, \<open>dlsym\<close>,
  \<open>dladdr\<close>, \<open>dlclose\<close>.  Where the compiler puts the static data and the
  functions is a parameter, and so is the frame pointer with which \<open>dlsym\<close> runs: for
  \<open>RTLD_NEXT\<close> it reads its return address from the stack.
\<close>

section \<open>The static data of libdl.so\<close>

definition libdl_names :: "string list" where
  "libdl_names =
     [''dlopen'', ''dlclose'', ''dlsym'', ''dlerror'', ''dladdr'', ''__cxa_begin_cleanup'',
      ''__cxa_call_unexpected'', ''dl_unwind_find_exidx'']"

text \<open>\<open>ANDROID_LIBDL_STRTAB\<close>, with the terminating NUL that the compiler adds.\<close>

definition ANDROID_LIBDL_STRTAB :: "u8 list" where
  "ANDROID_LIBDL_STRTAB = concat (map (\<lambda>s. map char_byte s @ [0]) libdl_names) @ [0]"

definition ELF32_SYM_INITIALIZER :: "u32 \<Rightarrow> u32 \<Rightarrow> u16 \<Rightarrow> Elf32_Sym" where
  "ELF32_SYM_INITIALIZER name_offset value shndx =
     \<lparr>st_name = name_offset, st_value = value, st_size = 0,
      st_info = (if shndx = 0 then 0 else push_bit 4 STB_GLOBAL), st_other = 0, st_shndx = shndx\<rparr>"

text \<open>The argument gives the addresses of the eight functions.\<close>

definition gLibDlSymtab :: "(nat \<Rightarrow> u32) \<Rightarrow> Elf32_Sym list" where
  "gLibDlSymtab f =
     [ELF32_SYM_INITIALIZER (of_nat (length ANDROID_LIBDL_STRTAB) - 1) 0 0,
      ELF32_SYM_INITIALIZER 0 (f 0) 1,
      ELF32_SYM_INITIALIZER 7 (f 1) 1,
      ELF32_SYM_INITIALIZER 15 (f 2) 1,
      ELF32_SYM_INITIALIZER 21 (f 3) 1,
      ELF32_SYM_INITIALIZER 29 (f 4) 1,
      ELF32_SYM_INITIALIZER 36 (f 5) 1,
      ELF32_SYM_INITIALIZER 56 (f 6) 1,
      ELF32_SYM_INITIALIZER 78 (f 7) 1]"

definition gLibDlBuckets :: "u32 list" where
  "gLibDlBuckets = [1]"

definition gLibDlChains :: "u32 list" where
  "gLibDlChains = [0, 2, 3, 4, 5, 6, 7, 8, 0, 0, 0, 0]"

record libdl_layout =
  ll_strtab :: u32
  ll_symtab :: u32
  ll_buckets :: u32
  ll_chains :: u32

definition libdl_info :: "libdl_layout \<Rightarrow> soinfo" where
  "libdl_info l = zero_soinfo\<lparr>si_name := ''libdl.so'', si_flags := FLAG_LINKED, si_strtab := ll_strtab l,
     si_symtab := ll_symtab l, si_nbucket := 1, si_nchain := 10, si_bucket := ll_buckets l,
     si_chain := ll_chains l, si_ref_count := 0xffffff, si_constructors_called := False,
     si_load_bias := 0, si_has_text_relocations := False, si_has_DT_SYMBOLIC := True\<rparr>"

section \<open>The calls\<close>

definition RTLD_DEFAULT :: u32 where [simp]: "RTLD_DEFAULT = 0xffffffff"
definition RTLD_NEXT :: u32 where [simp]: "RTLD_NEXT = 0xfffffffe"

definition s_dlopen :: "win_api \<Rightarrow> nat \<Rightarrow> string option \<Rightarrow> u32 \<Rightarrow> world \<Rightarrow> (u32 \<times> world) option" where
  "s_dlopen os fuel filename flags w =
     do { (result, w) \<leftarrow> do_dlopen os fuel filename flags w;
          Some (if result = 0 then (0, w) else (result, w)) }"

definition s_dlerror :: u32 where
  "s_dlerror = 0"

text \<open>
  The assembly of \<open>__builtin_return_address\<close> for x86.  It is naked, so that \<open>ebp\<close> is the frame pointer of its caller: it
  follows \<open>iLevel\<close> saved frame pointers and reads the return address above the last one.  The word that it
  pushes and pops below the stack pointer is left out.
\<close>

fun frame_walk :: "mach \<Rightarrow> nat \<Rightarrow> u32 \<Rightarrow> u32 option" where
  "frame_walk m 0 eax = Some eax"
| "frame_walk m (Suc ebx) eax = do { eax \<leftarrow> load32 m eax; frame_walk m ebx eax }"

definition builtin_return_address :: "mach \<Rightarrow> u32 \<Rightarrow> u32 \<Rightarrow> u32 option" where
  "builtin_return_address m ebp iLevel =
     do { eax \<leftarrow> frame_walk m (unat iLevel) ebp; load32 m (eax + 4) }"

definition s_dlsym :: "world \<Rightarrow> u32 \<Rightarrow> u32 \<Rightarrow> string option \<Rightarrow> u32 option" where
  "s_dlsym w ebp handle symbol =
     (if handle = 0 then Some 0
      else case symbol of
        None \<Rightarrow> Some 0
      | Some name \<Rightarrow>
          do { (y, found) \<leftarrow>
                 (if handle = RTLD_DEFAULT then dlsym_linear_lookup w name 0
                  else if handle = RTLD_NEXT
                  then do { ret_addr \<leftarrow> builtin_return_address (mc w) ebp 0;
                            si \<leftarrow> find_containing_library ret_addr w;
                            (if si \<noteq> 0
                             then do { s \<leftarrow> sos w si;
                                       (if si_next s \<noteq> 0 then dlsym_linear_lookup w name (si_next s)
                                        else Some (0, 0)) }
                             else Some (0, 0)) }
                  else do { y \<leftarrow> dlsym_handle_lookup w handle name; Some (y, handle) });
               (if y \<noteq> 0
                then do { sy \<leftarrow> read_sym (mc w) y;
                          (if ELF32_ST_BIND (st_info sy) = STB_GLOBAL \<and> st_shndx sy \<noteq> 0
                           then do { f \<leftarrow> sos w found; Some (st_value sy + si_load_bias f) }
                           else Some 0) }
                else Some 0) })"

record Dl_info =
  dli_fname :: u32
  dli_fbase :: u32
  dli_sname :: u32
  dli_saddr :: u32

text \<open>The library's name is the first member of its object, so that its address is the object's.\<close>

definition s_dladdr :: "world \<Rightarrow> u32 \<Rightarrow> Dl_info \<Rightarrow> (int \<times> Dl_info) option" where
  "s_dladdr w addr info =
     do { si \<leftarrow> find_containing_library addr w;
          (if si = 0 then Some (0, info)
           else do {
             s \<leftarrow> sos w si;
             let info = \<lparr>dli_fname = si, dli_fbase = si_base s, dli_sname = 0, dli_saddr = 0\<rparr>;
             y \<leftarrow> dladdr_find_symbol w si addr;
             (if y \<noteq> 0
              then do { sy \<leftarrow> read_sym (mc w) y;
                        Some (1, info\<lparr>dli_sname := si_strtab s + st_name sy,
                                      dli_saddr := si_load_bias s + st_value sy\<rparr>) }
              else Some (1, info)) }) }"

definition s_dlclose :: "win_api \<Rightarrow> nat \<Rightarrow> u32 \<Rightarrow> world \<Rightarrow> (int \<times> world) option" where
  "s_dlclose os fuel handle w = do_dlclose os fuel handle w"

section \<open>Objects in memory as bytes\<close>

definition bytes_at :: "mach \<Rightarrow> u32 \<Rightarrow> u8 list \<Rightarrow> bool" where
  "bytes_at m a bs \<longleftrightarrow> (\<forall>i < length bs. load8 m (a + of_nat i) = Some (bs ! i))"

lemma bytes_at_append: "bytes_at m a (bs @ cs) \<longleftrightarrow> bytes_at m a bs \<and> bytes_at m (a + of_nat (length bs)) cs"
proof (rule iffI)
  assume l: "bytes_at m a (bs @ cs)"
  show "bytes_at m a bs \<and> bytes_at m (a + of_nat (length bs)) cs"
    unfolding bytes_at_def
  proof (intro conjI allI impI)
    fix i assume "i < length bs"
    then show "load8 m (a + of_nat i) = Some (bs ! i)"
      using l by (auto simp: bytes_at_def nth_append dest: spec [of _ i])
  next
    fix i assume "i < length cs"
    then show "load8 m (a + of_nat (length bs) + of_nat i) = Some (cs ! i)"
      using l by (auto simp: bytes_at_def nth_append add.assoc dest: spec [of _ "length bs + i"])
  qed
next
  assume r: "bytes_at m a bs \<and> bytes_at m (a + of_nat (length bs)) cs"
  show "bytes_at m a (bs @ cs)"
    unfolding bytes_at_def
  proof (intro allI impI)
    fix i assume i: "i < length (bs @ cs)"
    show "load8 m (a + of_nat i) = Some ((bs @ cs) ! i)"
    proof (cases "i < length bs")
      case True
      with r show ?thesis by (simp add: bytes_at_def nth_append)
    next
      case False
      then obtain j where j: "i = length bs + j" by (metis le_iff_add not_less)
      with r i have "load8 m (a + of_nat (length bs) + of_nat j) = Some (cs ! j)"
        by (simp add: bytes_at_def)
      with j show ?thesis by (simp add: nth_append add.assoc)
    qed
  qed
qed

lemma bytes_at_mem_of:
  assumes "length xs + length bs \<le> length (xs @ bs @ ys)" and "length (xs @ bs @ ys) < 4294967296"
  shows "bytes_at (mem_of a (xs @ bs @ ys)) (a + of_nat (length xs)) bs"
  unfolding bytes_at_def
proof (intro allI impI)
  fix i assume "i < length bs"
  then have i: "length xs + i < length (xs @ bs @ ys)" using assms(1) by simp
  then have n: "length xs + i < 4294967296" using assms(2) by simp
  have "unat (of_nat (length xs + i) :: u32) = length xs + i" by (rule unat_of_nat_u32 [OF n])
  moreover have e: "a + of_nat (length xs) + of_nat i = a + of_nat (length xs + i)" by (simp add: add.assoc)
  ultimately show "load8 (mem_of a (xs @ bs @ ys)) (a + of_nat (length xs) + of_nat i) = Some (bs ! i)"
    using i \<open>i < length bs\<close> unfolding e
    by (simp add: load8_def mem_of_def in_block_def nth_append del: of_nat_add)
qed

lemma bytes_at_load32: "bytes_at m a (bytes32 v) \<Longrightarrow> load32 m a = Some v"
proof -
  assume b: "bytes_at m a (bytes32 v)"
  have "load8 m (a + of_nat i) = Some (bytes32 v ! i)" if "i < 4" for i
    using b that by (simp add: bytes_at_def)
  from this [of 0] this [of 1] this [of 2] this [of 3] le32_bytes32 [of v] show ?thesis
    by (simp add: load32_def bytes32_def)
qed

fun words32 :: "u32 list \<Rightarrow> u8 list" where
  "words32 [] = []"
| "words32 (v # vs) = bytes32 v @ words32 vs"

lemma length_words32 [simp]: "length (words32 vs) = 4 * length vs"
  by (induction vs) auto

lemma bytes_at_words32: "bytes_at m a (words32 vs) \<Longrightarrow> i < length vs \<Longrightarrow> load32 m (a + 4 * of_nat i) = Some (vs ! i)"
proof (induction vs arbitrary: a i)
  case Nil
  then show ?case by simp
next
  case (Cons v vs)
  then have v: "load32 m a = Some v" and t: "bytes_at m (a + 4) (words32 vs)"
    by (simp_all add: bytes_at_append bytes_at_load32)
  show ?case
  proof (cases i)
    case 0
    with v show ?thesis by simp
  next
    case (Suc j)
    with Cons.IH [OF t, of j] Cons.prems(2) show ?thesis by (simp add: algebra_simps)
  qed
qed

definition sym_bytes :: "Elf32_Sym \<Rightarrow> u8 list" where
  "sym_bytes sy = bytes32 (st_name sy) @ bytes32 (st_value sy) @ bytes32 (st_size sy) @
     [st_info sy, st_other sy] @ bytes16 (st_shndx sy)"

lemma length_sym_bytes [simp]: "length (sym_bytes sy) = 16"
  by (simp add: sym_bytes_def bytes16_def)

text \<open>A symbol reads back from its bytes.\<close>

lemma read_sym_bytes: "bytes_at m a (sym_bytes sy) \<Longrightarrow> read_sym m a = Some sy"
proof -
  assume "bytes_at m a (sym_bytes sy)"
  then have b: "bytes_at m a (bytes32 (st_name sy))" "bytes_at m (a + 4) (bytes32 (st_value sy))"
    "bytes_at m (a + 8) (bytes32 (st_size sy))" "bytes_at m (a + 12) [st_info sy, st_other sy]"
    "bytes_at m (a + 14) (bytes16 (st_shndx sy))"
    unfolding sym_bytes_def bytes_at_append by (simp_all add: add.assoc)
  have l: "load8 m (a + 12 + of_nat i) = Some ([st_info sy, st_other sy] ! i)"
    "load8 m (a + 14 + of_nat i) = Some (bytes16 (st_shndx sy) ! i)" if "i < 2" for i
    using b(4,5) that by (simp_all add: bytes_at_def bytes16_def)
  have "load8 m (a + 12) = Some (st_info sy)" "load8 m (a + 13) = Some (st_other sy)"
    using l(1) [of 0] l(1) [of 1] by (simp_all add: add.commute)
  moreover have "load16 m (a + 14) = Some (st_shndx sy)"
    using l(2) [of 0] l(2) [of 1] le16_bytes16 [of "st_shndx sy"] by (simp add: load16_def bytes16_def add.assoc)
  ultimately show ?thesis
    using b(1-3) [THEN bytes_at_load32] by (simp add: read_sym_def)
qed

lemma bytes_at_syms:
  "bytes_at m a (concat (map sym_bytes sys)) \<Longrightarrow> i < length sys \<Longrightarrow> read_sym m (a + of_nat i * 16) = Some (sys ! i)"
proof (induction sys arbitrary: a i)
  case Nil
  then show ?case by simp
next
  case (Cons sy sys)
  then have h: "read_sym m a = Some sy" and t: "bytes_at m (a + 16) (concat (map sym_bytes sys))"
    by (simp_all add: bytes_at_append read_sym_bytes)
  show ?case
  proof (cases i)
    case 0
    with h show ?thesis by simp
  next
    case (Suc j)
    with Cons.IH [OF t, of j] Cons.prems(2) show ?thesis by (simp add: algebra_simps)
  qed
qed

lemma bytes_at_Cons: "bytes_at m a (b # bs) \<longleftrightarrow> load8 m a = Some b \<and> bytes_at m (a + 1) bs"
  using bytes_at_append [of m a "[b]" bs] by (simp add: bytes_at_def)

lemma load_bytes_bytes_at: "bytes_at m a bs \<Longrightarrow> load_bytes m a (length bs) = Some bs"
  by (induction bs arbitrary: a) (simp_all add: bytes_at_Cons)

lemma load_bytes_mem_of: "length bs < 4294967296 \<Longrightarrow> load_bytes (mem_of a bs) a (length bs) = Some bs"
  using bytes_at_mem_of [of "[]" bs "[]" a] by (intro load_bytes_bytes_at) simp

lemma bytes_at_str: "bytes_at m a (map char_byte s @ 0 # post) \<Longrightarrow> no_nul s \<Longrightarrow> str_at m a s"
  by (induction s arbitrary: a) (auto simp: bytes_at_Cons no_nul_def)

section \<open>The hash table of libdl.so\<close>

definition libdl_mapped :: "mach \<Rightarrow> libdl_layout \<Rightarrow> (nat \<Rightarrow> u32) \<Rightarrow> bool" where
  "libdl_mapped m l f \<longleftrightarrow>
     bytes_at m (ll_strtab l) ANDROID_LIBDL_STRTAB \<and>
     bytes_at m (ll_symtab l) (concat (map sym_bytes (gLibDlSymtab f))) \<and>
     bytes_at m (ll_buckets l) (words32 gLibDlBuckets) \<and> bytes_at m (ll_chains l) (words32 gLibDlChains) \<and>
     (\<forall>i < 9. ll_symtab l + of_nat i * 16 \<noteq> 0)"

definition libdl_table :: "(nat \<Rightarrow> u32) \<Rightarrow> (Elf32_Sym \<times> string) list" where
  "libdl_table f = zip (gLibDlSymtab f) ([] # libdl_names)"

lemma all_less_8: "(\<forall>i < 8. P i) \<longleftrightarrow> P 0 \<and> P 1 \<and> P 2 \<and> P 3 \<and> P 4 \<and> P 5 \<and> P 6 \<and> P (7 :: nat)"
  by (simp add: numeral_eq_Suc All_less_Suc) blast

lemma libdl_names_no_nul: "\<forall>s \<in> set libdl_names. no_nul s"
  by (simp add: libdl_names_def no_nul_def char_byte_def)

lemma length_libdl_names [simp]: "length libdl_names = 8"
  by (simp add: libdl_names_def)

definition libdl_offset :: "nat \<Rightarrow> nat" where
  "libdl_offset i = length (concat (map (\<lambda>s. map char_byte s @ [0]) (take i libdl_names)))"

lemma libdl_str_at:
  assumes b: "bytes_at m a ANDROID_LIBDL_STRTAB" and i: "i < 8"
  shows "str_at m (a + of_nat (libdl_offset i)) (libdl_names ! i)"
proof -
  let ?enc = "\<lambda>s. map char_byte s @ [0 :: u8]"
  have "libdl_names = take i libdl_names @ libdl_names ! i # drop (Suc i) libdl_names"
    using i by (simp add: id_take_nth_drop [symmetric])
  then have "concat (map ?enc libdl_names) = concat (map ?enc (take i libdl_names)) @ ?enc (libdl_names ! i) @
      concat (map ?enc (drop (Suc i) libdl_names))"
    by (metis (no_types, lifting) concat.simps(2) concat_append list.simps(9) map_append)
  then have "ANDROID_LIBDL_STRTAB = concat (map ?enc (take i libdl_names)) @
      map char_byte (libdl_names ! i) @ 0 # concat (map ?enc (drop (Suc i) libdl_names)) @ [0]"
    by (simp add: ANDROID_LIBDL_STRTAB_def)
  then have "bytes_at m (a + of_nat (libdl_offset i))
      (map char_byte (libdl_names ! i) @ 0 # concat (map ?enc (drop (Suc i) libdl_names)) @ [0])"
    using b unfolding libdl_offset_def by (metis bytes_at_append)
  then show ?thesis using libdl_names_no_nul i by (intro bytes_at_str) auto
qed

lemma libdl_offsets:
  "\<forall>i < 8. st_name (gLibDlSymtab f ! Suc i) = of_nat (libdl_offset i)"
  unfolding all_less_8
  by (simp add: libdl_offset_def libdl_names_def gLibDlSymtab_def ELF32_SYM_INITIALIZER_def)

lemma libdl_symbols:
  "\<forall>i < 8. st_value (gLibDlSymtab f ! Suc i) = f i \<and> ELF32_ST_BIND (st_info (gLibDlSymtab f ! Suc i)) = STB_GLOBAL \<and>
     st_shndx (gLibDlSymtab f ! Suc i) = 1"
  unfolding all_less_8
  by (simp add: gLibDlSymtab_def ELF32_SYM_INITIALIZER_def ELF32_ST_BIND_def drop_bit_eq_div push_bit_eq_mult)

lemma length_gLibDlSymtab [simp]: "length (gLibDlSymtab f) = 9"
  by (simp add: gLibDlSymtab_def)

lemma libdl_table_nth: "i < 8 \<Longrightarrow> libdl_table f ! Suc i = (gLibDlSymtab f ! Suc i, libdl_names ! i)"
  by (simp add: libdl_table_def)

lemma length_libdl_table [simp]: "length (libdl_table f) = 9"
  by (simp add: libdl_table_def)

lemma libdl_info_sel [simp]:
  "si_symtab (libdl_info l) = ll_symtab l" "si_strtab (libdl_info l) = ll_strtab l" "si_nbucket (libdl_info l) = 1"
  "si_bucket (libdl_info l) = ll_buckets l" "si_chain (libdl_info l) = ll_chains l" "si_load_bias (libdl_info l) = 0"
  by (simp_all add: libdl_info_def)

lemma libdl_sym_at:
  assumes m: "libdl_mapped m l f" and i: "i < 8"
  shows "sym_at m (libdl_info l) (of_nat (Suc i)) (gLibDlSymtab f ! Suc i) (libdl_names ! i)"
proof -
  have "read_sym m (ll_symtab l + of_nat (Suc i) * 16) = Some (gLibDlSymtab f ! Suc i)"
    using m i by (intro bytes_at_syms) (simp_all add: libdl_mapped_def)
  moreover have "str_at m (ll_strtab l + of_nat (libdl_offset i)) (libdl_names ! i)"
    using m i by (intro libdl_str_at) (simp_all add: libdl_mapped_def)
  ultimately show ?thesis using libdl_offsets i by (simp add: sym_at_def sym_addr_of_def)
qed

lemma libdl_chain:
  assumes m: "libdl_mapped m l f"
  shows "load32 m (ll_buckets l) = Some 1" and "idx_chain m (libdl_info l) 1 [1, 2, 3, 4, 5, 6, 7, 8]"
proof -
  have "load32 m (ll_buckets l + 4 * of_nat 0) = Some (gLibDlBuckets ! 0)"
    using m by (intro bytes_at_words32) (simp_all add: libdl_mapped_def gLibDlBuckets_def)
  then show "load32 m (ll_buckets l) = Some 1" by (simp add: gLibDlBuckets_def)
  have c: "load32 m (ll_chains l + 4 * of_nat i) = Some (gLibDlChains ! i)" if "i < 12" for i
    using m that by (intro bytes_at_words32) (simp_all add: libdl_mapped_def gLibDlChains_def)
  show "idx_chain m (libdl_info l) 1 [1, 2, 3, 4, 5, 6, 7, 8]"
    using c [of 1] c [of 2] c [of 3] c [of 4] c [of 5] c [of 6] c [of 7] c [of 8]
    by (simp add: gLibDlChains_def)
qed

lemma less_9_Suc:
  assumes "i < 9" and "0 < (i :: nat)"
  obtains j where "i = Suc j" and "j < 8"
  using assms by (cases i) auto

lemma libdl_hash_table:
  assumes m: "libdl_mapped m l f"
  shows "hash_table_ok m (libdl_info l) (libdl_table f)"
proof -
  have b: "b < si_nbucket (libdl_info l) \<longleftrightarrow> b = 0" for b
    by (auto simp: word_less_nat_alt unat_eq_0)
  have "sym_at m (libdl_info l) (of_nat i) (fst (libdl_table f ! i)) (snd (libdl_table f ! i)) \<and>
      sym_addr_of (libdl_info l) (of_nat i) \<noteq> 0" if i: "i < 9" "0 < i" for i
  proof -
    obtain j where j: "i = Suc j" "j < 8" by (rule less_9_Suc [OF i])
    have "sym_addr_of (libdl_info l) (of_nat i) \<noteq> 0"
      using m i by (auto simp: libdl_mapped_def sym_addr_of_def)
    with libdl_sym_at [OF m j(2)] show ?thesis by (simp add: j libdl_table_nth)
  qed
  moreover have "of_nat i \<in> set [1, 2, 3, 4, 5, 6, 7, 8 :: u32]" if i: "i < 9" "0 < i" for i
  proof -
    have "\<forall>j < 8. of_nat (Suc j) \<in> set [1, 2, 3, 4, 5, 6, 7, 8 :: u32]" unfolding all_less_8 by simp
    moreover obtain j where "i = Suc j" "j < 8" by (rule less_9_Suc [OF i])
    ultimately show ?thesis by blast
  qed
  ultimately show ?thesis
    unfolding hash_table_ok_def b using libdl_chain [OF m]
    by (intro conjI allI impI exI [of _ 1] exI [of _ "[1, 2, 3, 4, 5, 6, 7, 8 :: u32]"]) simp_all
qed

lemma distinct_libdl_names: "distinct libdl_names"
  by (simp add: libdl_names_def)

lemma libdl_exports_iff: "exports (libdl_table f) name k \<longleftrightarrow> (\<exists>i < 8. k = Suc i \<and> name = libdl_names ! i)"
proof
  assume e: "exports (libdl_table f) name k"
  then obtain i where "k = Suc i" "i < 8" by (cases k) (auto simp: exports_def)
  with e show "\<exists>i < 8. k = Suc i \<and> name = libdl_names ! i" by (auto simp: exports_def libdl_table_nth)
next
  assume "\<exists>i < 8. k = Suc i \<and> name = libdl_names ! i"
  then show "exports (libdl_table f) name k"
    using libdl_symbols by (auto simp: exports_def libdl_table_nth exported_def)
qed

section \<open>Results of \<open>dlsym\<close>\<close>

text \<open>The address for a symbol-table entry found in a library, null for a null entry.\<close>

definition dlsym_value :: "world \<Rightarrow> u32 \<times> u32 \<Rightarrow> u32 option" where
  "dlsym_value w r =
     (if fst r = 0 then Some 0
      else do { sy \<leftarrow> read_sym (mc w) (fst r);
                (if ELF32_ST_BIND (st_info sy) = STB_GLOBAL \<and> st_shndx sy \<noteq> 0
                 then do { f \<leftarrow> sos w (snd r); Some (st_value sy + si_load_bias f) }
                 else Some 0) })"

text \<open>A chain of frames from \<open>f\<close> with the return addresses \<open>rs\<close>, the innermost first.\<close>

fun frames_at :: "mach \<Rightarrow> u32 \<Rightarrow> u32 list \<Rightarrow> bool" where
  "frames_at m f [] = True"
| "frames_at m f (r # rs) =
     (load32 m (f + 4) = Some r \<and> (rs = [] \<or> (case load32 m f of None \<Rightarrow> False | Some g \<Rightarrow> frames_at m g rs)))"

lemma frame_walk_frames:
  "frames_at m f rs \<Longrightarrow> i < length rs \<Longrightarrow>
    do { eax \<leftarrow> frame_walk m i f; load32 m (eax + 4) } = Some (rs ! i)"
proof (induction rs arbitrary: f i)
  case (Cons r rs)
  then show ?case by (cases i) (auto split: option.splits)
qed simp

lemma dlsym_value_null: "dlsym_value w (0, p) = Some 0"
  by (simp add: dlsym_value_def)

lemma dlsym_handle_eq:
  assumes "h \<noteq> 0" and "h \<noteq> RTLD_DEFAULT" and "h \<noteq> RTLD_NEXT"
  shows "s_dlsym w ra h (Some name) =
    do { y \<leftarrow> soinfo_elf_lookup w h (elfhash name) name; dlsym_value w (y, h) }"
  using assms by (auto simp: s_dlsym_def dlsym_handle_lookup_def dlsym_value_def intro!: Option.bind_cong)

lemma dlsym_default_eq:
  "s_dlsym w ra RTLD_DEFAULT (Some name) = do { r \<leftarrow> dlsym_linear_lookup w name 0; dlsym_value w r }"
  by (auto simp: s_dlsym_def dlsym_value_def split_def intro!: Option.bind_cong)

lemma dlsym_next_eq:
  "s_dlsym w ebp RTLD_NEXT (Some name) =
     do { ra \<leftarrow> builtin_return_address (mc w) ebp 0;
          si \<leftarrow> find_containing_library ra w;
          (if si = 0 then Some 0
           else do { s \<leftarrow> sos w si;
                     (if si_next s = 0 then Some 0
                      else do { r \<leftarrow> dlsym_linear_lookup w name (si_next s); dlsym_value w r }) }) }"
  by (auto simp: s_dlsym_def dlsym_value_def split_def intro!: Option.bind_cong)

lemma dlsym_handle_table:
  assumes "hash_table_ok (mc w) s tab" and "sos w h = Some s" and "no_nul name"
    and h: "h \<noteq> 0" "h \<noteq> RTLD_DEFAULT" "h \<noteq> RTLD_NEXT"
  shows "if \<exists>i. exports tab name i
    then \<exists>i. exports tab name i \<and> s_dlsym w ra h (Some name) =
      Some (if ELF32_ST_BIND (st_info (fst (tab ! i))) = STB_GLOBAL
            then st_value (fst (tab ! i)) + si_load_bias s else 0)
    else s_dlsym w ra h (Some name) = Some 0"
proof -
  obtain r where r: "soinfo_elf_lookup w h (elfhash name) name = Some r"
    and c: "if r = 0 then \<forall>i. \<not> exports tab name i else \<exists>i. exports tab name i \<and> r = sym_addr_of s (of_nat i)"
    using elf_lookup_hash_table [OF assms(1-3)] by blast
  have sym: "read_sym (mc w) (sym_addr_of s (of_nat i)) = Some (fst (tab ! i)) \<and>
      sym_addr_of s (of_nat i) \<noteq> 0 \<and> st_shndx (fst (tab ! i)) \<noteq> 0" if "exports tab name i" for i
    using assms(1) that by (auto simp: hash_table_ok_def exports_def sym_at_def exported_def)
  show ?thesis
    using c sym assms(2) by (auto simp: dlsym_handle_eq [OF h] r dlsym_value_def split: if_splits)
qed

section \<open>Properties\<close>

text \<open>The static data of libdl.so at 0x40000000 and on, and its functions at 0x100, 0x200 and so on.\<close>

definition demo_layout :: libdl_layout where
  "demo_layout = \<lparr>ll_strtab = 0x40000000, ll_symtab = 0x40000064, ll_buckets = 0x400000F4, ll_chains = 0x400000F8\<rparr>"

definition demo_entry :: "nat \<Rightarrow> u32" where
  "demo_entry i = 0x100 * of_nat (Suc i)"

definition demo_libdl :: world where
  "demo_libdl = demo_registry\<lparr>mc := mem_of 0x40000000 (ANDROID_LIBDL_STRTAB @
       concat (map sym_bytes (gLibDlSymtab demo_entry)) @ words32 gLibDlBuckets @ words32 gLibDlChains),
     sos := [0x10000 \<mapsto> (libdl_info demo_layout)\<lparr>si_next := 0x20000\<rparr>, 0x20000 \<mapsto> demo_so ''libc.so'' 0x50000000 0x1000 0]\<rparr>"

lemma length_libdl_strtab: "length ANDROID_LIBDL_STRTAB = 100"
  by (simp add: ANDROID_LIBDL_STRTAB_def libdl_names_def)

lemma length_sym_table: "length (concat (map sym_bytes sys)) = 16 * length sys"
  by (induction sys) auto

lemma demo_libdl_mapped: "libdl_mapped (mc demo_libdl) demo_layout demo_entry"
proof -
  let ?a = ANDROID_LIBDL_STRTAB and ?b = "concat (map sym_bytes (gLibDlSymtab demo_entry))"
    and ?c = "words32 gLibDlBuckets" and ?d = "words32 gLibDlChains"
  have l: "length ?a = 100" "length ?b = 144" "length ?c = 4" "length ?d = 48"
    by (simp_all add: length_libdl_strtab length_sym_table gLibDlBuckets_def gLibDlChains_def)
  have "bytes_at (mem_of 0x40000000 (?a @ ?b @ ?c @ ?d)) 0x40000000 ?a"
    using bytes_at_mem_of [of "[]" ?a "?b @ ?c @ ?d" "0x40000000"] l by simp
  moreover have "bytes_at (mem_of 0x40000000 (?a @ ?b @ ?c @ ?d)) 0x40000064 ?b"
    using bytes_at_mem_of [of ?a ?b "?c @ ?d" "0x40000000"] l by simp
  moreover have "bytes_at (mem_of 0x40000000 (?a @ ?b @ ?c @ ?d)) 0x400000F4 ?c"
    using bytes_at_mem_of [of "?a @ ?b" ?c ?d "0x40000000"] l by simp
  moreover have "bytes_at (mem_of 0x40000000 (?a @ ?b @ ?c @ ?d)) 0x400000F8 ?d"
    using bytes_at_mem_of [of "?a @ ?b @ ?c" ?d "[]" "0x40000000"] l by simp
  moreover have "0x40000064 + of_nat i * 16 \<noteq> (0 :: u32)" if "i < 9" for i
  proof -
    have "i = 0 \<or> (\<exists>j < 8. i = Suc j)" using that by (cases i) auto
    moreover have "\<forall>j < 8. 0x40000064 + of_nat (Suc j) * 16 \<noteq> (0 :: u32)" unfolding all_less_8 by simp
    ultimately show ?thesis by auto
  qed
  ultimately show ?thesis by (simp add: libdl_mapped_def demo_libdl_def demo_layout_def)
qed

lemma idx_chain_table: "si_chain s' = si_chain s \<Longrightarrow> idx_chain m s' n ns = idx_chain m s n ns"
  by (induction ns arbitrary: n) auto

lemma hash_table_ok_table:
  assumes "si_chain s' = si_chain s" and "si_bucket s' = si_bucket s" and "si_nbucket s' = si_nbucket s"
    and "si_symtab s' = si_symtab s" and "si_strtab s' = si_strtab s"
  shows "hash_table_ok m s' tab = hash_table_ok m s tab"
  using assms(2-) by (simp add: hash_table_ok_def idx_chain_table [OF assms(1)] sym_at_def sym_addr_of_def)

lemma libdl_hash_table_linked:
  "libdl_mapped m l f \<Longrightarrow> hash_table_ok m ((libdl_info l)\<lparr>si_next := n, si_ref_count := c\<rparr>) (libdl_table f)"
  using libdl_hash_table hash_table_ok_table
    [of "(libdl_info l)\<lparr>si_next := n, si_ref_count := c\<rparr>" "libdl_info l" m "libdl_table f"] by simp

lemma map_of_zip_indexed:
  assumes "distinct xs"
  shows "map_of (zip xs (map f [0..<length xs])) x = Some a \<longleftrightarrow> (\<exists>i < length xs. x = xs ! i \<and> a = f i)"
proof -
  have "(x, a) \<in> set (zip xs (map f [0..<length xs])) \<longleftrightarrow> (\<exists>i < length xs. x = xs ! i \<and> a = f i)"
    by (auto simp: set_zip)
  then show ?thesis using assms by (simp add: map_of_eq_Some_iff)
qed

lemma map_of_names:
  "map_of (zip libdl_names (map f [0..<8])) name = Some a \<longleftrightarrow> (\<exists>i < 8. name = libdl_names ! i \<and> a = f i)"
  using map_of_zip_indexed [OF distinct_libdl_names, unfolded length_libdl_names] .



text \<open>
  C24: \<open>s_dlsym\<close> on a library with a sound hash table returns null when the library exports no symbol of
  the name.  Otherwise it returns the address of one that it exports, moved by the load bias, if that
  symbol is global, and null if it is weak.
\<close>

theorem dlsym_library:
  assumes "hash_table_ok (mc w) s tab" and "sos w h = Some s" and "no_nul name"
    and "h \<noteq> 0" and "h \<noteq> RTLD_DEFAULT" and "h \<noteq> RTLD_NEXT"
  shows "if \<exists>i. exports tab name i
    then \<exists>i. exports tab name i \<and> s_dlsym w ra h (Some name) =
      Some (if ELF32_ST_BIND (st_info (fst (tab ! i))) = STB_GLOBAL
            then st_value (fst (tab ! i)) + si_load_bias s else 0)
    else s_dlsym w ra h (Some name) = Some 0"
  using assms by (rule dlsym_handle_table)

lemma dlsym_library_witness:
  "s_dlsym demo_libs 0 0x20000 (Some ''ab'') = Some 0x40000100 \<and> s_dlsym demo_libs 0 0x20000 (Some ''x'') = Some 0"
proof -
  have e: "exports [(demo_sym0, []), (demo_sym, ''ab'')] ''ab'' i \<longleftrightarrow> i = 1"
    "exports [(demo_sym0, []), (demo_sym, ''ab'')] ''x'' i \<longleftrightarrow> False" for i
    by (auto simp: exports_def demo_exported less_Suc_eq)
  have b: "ELF32_ST_BIND (st_info demo_sym) = STB_GLOBAL" "st_value demo_sym + si_load_bias demo_lib = 0x40000100"
    by (simp_all add: demo_sym_def ELF32_ST_BIND_def drop_bit_eq_div demo_defs)
  show ?thesis
    using dlsym_library [OF demo_table_ok' demo_lib_is(1) good_ab(1), of 0, unfolded e]
      dlsym_library [OF demo_table_ok' demo_lib_is(1) good_ab(2), of 0, unfolded e] b by simp
qed

text \<open>
  C33: With \<open>RTLD_DEFAULT\<close>, \<open>s_dlsym\<close> searches all libraries in load order.  With \<open>RTLD_NEXT\<close> it searches only
  the libraries after the one that contains the caller, whose address is the return address in the frame
  of \<open>s_dlsym\<close>, and finds nothing when no library contains it.
\<close>

theorem dlsym_pseudo_handles:
  assumes inv: "so_inv w (as @ p # bs) FL" and ra: "load32 (mc w) (ebp + 4) = Some ra"
    and c: "find_containing_library ra w = Some q"
  shows "s_dlsym w ebp RTLD_DEFAULT (Some name) =
      do { r \<leftarrow> first_hit (lib_probe w name) (as @ p # bs); dlsym_value w (sym_or_null r) } \<and>
    (q = p \<longrightarrow> s_dlsym w ebp RTLD_NEXT (Some name) =
      do { r \<leftarrow> first_hit (lib_probe w name) bs; dlsym_value w (sym_or_null r) }) \<and>
    (q = 0 \<longrightarrow> s_dlsym w ebp RTLD_NEXT (Some name) = Some 0)"
proof (intro conjI impI)
  have r: "builtin_return_address (mc w) ebp 0 = Some ra" using ra by (simp add: builtin_return_address_def)
  show "s_dlsym w ebp RTLD_DEFAULT (Some name) =
      do { r \<leftarrow> first_hit (lib_probe w name) (as @ p # bs); dlsym_value w (sym_or_null r) }"
    using linear_lookup_first_hit [of w "[]" "as @ p # bs" FL name] inv
    by (simp add: dlsym_default_eq bind_map_option comp_def del: RTLD_DEFAULT_def)
  show "s_dlsym w ebp RTLD_NEXT (Some name) = Some 0" if "q = 0"
    using c that r by (simp add: dlsym_next_eq del: RTLD_NEXT_def)
  assume q: "q = p"
  obtain s where p: "p \<noteq> 0" "sos w p = Some s" using so_inv_live [OF inv, of p] by auto
  have ch: "so_chain (sos w) (si_next s) bs 0"
    using so_invD(1) [OF inv] p(2) by (auto simp: so_chain_append)
  show "s_dlsym w ebp RTLD_NEXT (Some name) =
      do { r \<leftarrow> first_hit (lib_probe w name) bs; dlsym_value w (sym_or_null r) }"
  proof (cases bs)
    case Nil
    with ch p q c r show ?thesis by (simp add: dlsym_next_eq dlsym_value_def sym_or_null_def del: RTLD_NEXT_def)
  next
    case (Cons b bs')
    with ch have b: "si_next s = b" "b \<noteq> 0" by auto
    have "dlsym_linear_lookup w name b = map_option sym_or_null (first_hit (lib_probe w name) bs)"
      using linear_lookup_first_hit [of w "as @ [p]" bs FL name] inv Cons by simp
    with b p q c r show ?thesis
      by (simp add: dlsym_next_eq bind_map_option comp_def del: RTLD_NEXT_def)
  qed
qed

text \<open>
  \<open>__builtin_return_address\<close> of a level returns the return address of that frame of the chain of saved frame
  pointers, counted from the caller's own frame.
\<close>

theorem return_address_of_level:
  assumes "frames_at m ebp rs" and "unat iLevel < length rs"
  shows "builtin_return_address m ebp iLevel = Some (rs ! unat iLevel)"
  using frame_walk_frames [OF assms] by (simp add: builtin_return_address_def)

lemma return_address_of_level_witness:
  "builtin_return_address (mem_of 0x7000 [8, 0x70, 0, 0, 0x10, 0, 0, 0x40, 0, 0, 0, 0, 0x20, 0, 0, 0x40]) 0x7000 1 =
     Some 0x40000020"
proof -
  have "frames_at (mem_of 0x7000 [8, 0x70, 0, 0, 0x10, 0, 0, 0x40, 0, 0, 0, 0, 0x20, 0, 0, 0x40]) 0x7000 [0x40000010, 0x40000020]"
    by (simp add: load32_def load8_def mem_of_def in_block_def le32_def)
  from return_address_of_level [OF this, of 1] show ?thesis by simp
qed

text \<open>A caller of \<open>dlsym\<close> in the second library: its return address is in the frame at 0x7000.\<close>

definition demo_frame :: world where
  "demo_frame = demo_libs\<lparr>mc := (mc demo_libs)\<lparr>vbytes := (vbytes (mc demo_libs))
     (0x7004 \<mapsto> 0x10, 0x7005 \<mapsto> 0, 0x7006 \<mapsto> 0, 0x7007 \<mapsto> 0x40)\<rparr>\<rparr>"

lemma dlsym_pseudo_handles_witness:
  "s_dlsym demo_libs 0x3FFFFFFC RTLD_DEFAULT (Some ''ab'') = Some 0x40000100 \<and>
   s_dlsym demo_libs 0x3FFFFFFC RTLD_NEXT (Some ''ab'') = Some 0 \<and>
   s_dlsym demo_frame 0x7000 RTLD_NEXT (Some ''ab'') = Some 0"
proof -
  have i: "so_inv demo_libs ([0x10000] @ 0x20000 # []) [0x30000]" using demo_libs_inv by simp
  have "so_inv demo_frame [0x10000, 0x20000] [0x30000] = so_inv demo_libs [0x10000, 0x20000] [0x30000]"
    by (rule so_inv_links) (simp_all add: demo_frame_def)
  then have j: "so_inv demo_frame [0x10000, 0x20000] [0x30000]" using demo_libs_inv by simp
  have c: "find_containing_library 1 demo_libs = Some 0"
    using find_containing_library_eq [OF demo_libs_inv, of 1] by (simp add: obj_def demo_defs ptr_of_def)
  have d: "find_containing_library 0x40000010 demo_frame = Some 0x20000"
    using find_containing_library_eq [OF j, of "0x40000010"] by (simp add: demo_frame_def obj_def demo_defs ptr_of_def)
  have ra: "load32 (mc demo_libs) (0x3FFFFFFC + 4) = Some 1" using demo_words(1) by (simp add: demo_lib_is(2))
  have rb: "load32 (mc demo_frame) (0x7000 + 4) = Some 0x40000010"
    by (simp add: demo_frame_def load32_def load8_def le32_def)
  have "dlsym_value demo_libs (0x40000020, 0x20000) = Some 0x40000100"
    by (simp add: dlsym_value_def demo_read_sym1 demo_lib_is)
      (simp add: demo_sym_def ELF32_ST_BIND_def drop_bit_eq_div demo_defs)
  with dlsym_pseudo_handles [OF i ra c, of "''ab''"] demo_lookup_ab demo_lookup_x(2)
    dlsym_pseudo_handles [of demo_frame "[0x10000]" "0x20000" "[]" "[0x30000]" "0x7000", OF _ rb d, of "''ab''"] j
  show ?thesis by (simp add: lib_probe_def dlsym_value_null del: RTLD_NEXT_def RTLD_DEFAULT_def)
qed

text \<open>
  C30: \<open>s_dladdr\<close> of an address that no library holds returns 0 and leaves the caller's record alone.  Of an
  address in the block of a library it returns 1 with the library and its base, and the name and address
  of the first entry of the library's symbol table that is defined and covers the address less the base,
  or null for both.  This is what the code does, and not what the comments on \<open>Dl_info\<close> in linker.h say:
  there \<open>dli_sname\<close> is the nearest symbol below the address, while the code wants a symbol whose range
  holds the address and gives null when a symbol lies below but none covers; and \<open>dli_fname\<close> is a path
  name there, while the code stores the pointer to the field \<open>name\<close> of the object (its first field, hence
  the address of the object), which holds the base name.
\<close>

theorem dladdr_result:
  assumes inv: "so_inv w LS FL"
    and nw: "\<forall>p \<in> set LS. unat (si_base (obj w p)) + unat (si_size (obj w p)) < 4294967296"
    and tab: "\<forall>p \<in> set LS. si_nchain (obj w p) = of_nat (length (syms p)) \<and> length (syms p) < 4294967296 \<and>
      (\<forall>i < length (syms p). read_sym (mc w) (sym_addr_of (obj w p) (of_nat i)) = Some (syms p ! i) \<and>
         sym_addr_of (obj w p) (of_nat i) \<noteq> 0)"
  shows "s_dladdr w a info =
    Some (case find (holds_addr w a) LS of
            None \<Rightarrow> (0, info)
          | Some p \<Rightarrow>
              (case find (\<lambda>y. sym_covers y (a - si_base (obj w p))) (syms p) of
                 None \<Rightarrow> (1, \<lparr>dli_fname = p, dli_fbase = si_base (obj w p), dli_sname = 0, dli_saddr = 0\<rparr>)
               | Some y \<Rightarrow> (1, \<lparr>dli_fname = p, dli_fbase = si_base (obj w p),
                                dli_sname = si_strtab (obj w p) + st_name y,
                                dli_saddr = si_load_bias (obj w p) + st_value y\<rparr>)))"
proof -
  have c: "find_containing_library a w = Some (ptr_of (find (holds_addr w a) LS))"
    by (rule find_containing_library_holds [OF inv nw])
  show ?thesis
  proof (cases "find (holds_addr w a) LS")
    case None
    with c show ?thesis by (simp add: s_dladdr_def ptr_of_def)
  next
    case (Some p)
    then have p: "p \<in> set LS" by (auto simp: find_Some_iff)
    then have s: "sos w p = Some (obj w p)" "p \<noteq> 0" using so_inv_live [OF inv, of p] by (auto simp: obj_def)
    have r: "\<And>i. i < length (syms p) \<Longrightarrow> read_sym (mc w) (sym_addr_of (obj w p) (of_nat i)) = Some (syms p ! i) \<and>
        sym_addr_of (obj w p) (of_nat i) \<noteq> 0"
      and n: "unat (si_nchain (obj w p)) = length (syms p)" using tab p by auto
    have d: "dladdr_find_symbol w p a = Some (ptr_of (map_option (\<lambda>i. sym_addr_of (obj w p) (of_nat i))
        (find (\<lambda>i. sym_covers (syms p ! i) (a - si_base (obj w p))) [0..<length (syms p)])))"
      using sym_scan_find [of "length (syms p)" "mc w" "obj w p" 0 "\<lambda>i. syms p ! i"] r n s
      by (simp add: dladdr_find_symbol_def)
    have c': "find_containing_library a w = Some p" using c Some by (simp add: ptr_of_def)
    note u = find_upt_nth [of "\<lambda>y. sym_covers y (a - si_base (obj w p))" "syms p"]
    show ?thesis
    proof (cases "find (\<lambda>i. sym_covers (syms p ! i) (a - si_base (obj w p))) [0..<length (syms p)]")
      case N: None
      then have "dladdr_find_symbol w p a = Some 0" using d by (simp add: ptr_of_def)
      with c' Some s u N show ?thesis by (simp add: s_dladdr_def)
    next
      case S: (Some i)
      then have "dladdr_find_symbol w p a = Some (sym_addr_of (obj w p) (of_nat i))" using d by (simp add: ptr_of_def)
      moreover have "i < length (syms p)" using S by (auto simp: find_Some_iff)
      ultimately show ?thesis using c' Some s u S r [of i] by (simp add: s_dladdr_def)
    qed
  qed
qed

lemma dladdr_result_witness:
  "s_dladdr demo_libs 0x40000104 \<lparr>dli_fname = 7, dli_fbase = 7, dli_sname = 7, dli_saddr = 7\<rparr> =
     Some (1, \<lparr>dli_fname = 0x20000, dli_fbase = 0x40000000, dli_sname = 0x40000031, dli_saddr = 0x40000100\<rparr>) \<and>
   s_dladdr demo_libs 0x30000000 \<lparr>dli_fname = 7, dli_fbase = 7, dli_sname = 7, dli_saddr = 7\<rparr> =
     Some (0, \<lparr>dli_fname = 7, dli_fbase = 7, dli_sname = 7, dli_saddr = 7\<rparr>) \<and>
   s_dladdr demo_libs 0x40000900 \<lparr>dli_fname = 7, dli_fbase = 7, dli_sname = 7, dli_saddr = 7\<rparr> =
     Some (1, \<lparr>dli_fname = 0x20000, dli_fbase = 0x40000000, dli_sname = 0, dli_saddr = 0\<rparr>)"
proof -
  let ?syms = "\<lambda>p. if p = 0x20000 then [demo_sym0, demo_sym] else []"
  have o: "obj demo_libs 0x20000 = demo_lib" "obj demo_libs 0x10000 = demo_head"
    by (simp_all add: obj_def demo_libs_def)
  have f: "si_nchain demo_lib = 2" "si_base demo_lib = 0x40000000" "si_size demo_lib = 0x1000"
    "si_symtab demo_lib = 0x40000010" "si_strtab demo_lib = 0x40000030" "si_load_bias demo_lib = 0x40000000"
    "si_nchain demo_head = 0" "si_base demo_head = 0" "si_size demo_head = 0"
    by (simp_all add: demo_defs)
  have t: "\<forall>p \<in> set [0x10000, 0x20000]. si_nchain (obj demo_libs p) = of_nat (length (?syms p)) \<and>
      length (?syms p) < 4294967296 \<and> (\<forall>i < length (?syms p).
        read_sym (mc demo_libs) (sym_addr_of (obj demo_libs p) (of_nat i)) = Some (?syms p ! i) \<and>
        sym_addr_of (obj demo_libs p) (of_nat i) \<noteq> 0)"
    using demo_read_sym0 demo_read_sym1 by (auto simp: less_Suc_eq sym_addr_of_def o f demo_lib_is(2))
  have n: "\<forall>p \<in> set [0x10000, 0x20000]. unat (si_base (obj demo_libs p)) + unat (si_size (obj demo_libs p)) < 4294967296"
    by (simp add: o f)
  show ?thesis
    using dladdr_result [OF demo_libs_inv n t, of "0x40000104"] dladdr_result [OF demo_libs_inv n t, of "0x30000000"]
      dladdr_result [OF demo_libs_inv n t, of "0x40000900"]
    by (simp add: holds_addr_def in_block_def o f sym_covers_def)
      (simp add: demo_sym0_def demo_sym_def)
qed

end
