(* ===== verification/Emulator.thy ===== *)
theory Emulator
  imports Dlfcn
begin

text \<open>
  emulator/emulator.cpp: the program loads an Android library with the linker, looks up
  \<open>JNI_OnLoad\<close>, copies the library's image into a Unicorn engine and runs \<open>DT_INIT\<close> and
  \<open>JNI_OnLoad\<close> there.  The Unicorn functions (include/unicorn/unicorn.h declares them, their code is
  not in the repository) are a parameter over an engine state of any type.
\<close>

section \<open>The Unicorn interface\<close>

type_synonym u64 = "64 word"

datatype uc_err =
    UC_ERR_OK | UC_ERR_NOMEM | UC_ERR_ARCH | UC_ERR_HANDLE | UC_ERR_MODE | UC_ERR_VERSION
  | UC_ERR_READ_UNMAPPED | UC_ERR_WRITE_UNMAPPED | UC_ERR_FETCH_UNMAPPED | UC_ERR_HOOK
  | UC_ERR_INSN_INVALID | UC_ERR_MAP | UC_ERR_WRITE_PROT | UC_ERR_READ_PROT | UC_ERR_FETCH_PROT
  | UC_ERR_ARG | UC_ERR_READ_UNALIGNED | UC_ERR_WRITE_UNALIGNED | UC_ERR_FETCH_UNALIGNED
  | UC_ERR_HOOK_EXIST

definition UC_ARCH_ARM :: u32 where "UC_ARCH_ARM = 1"
definition UC_MODE_THUMB :: u32 where "UC_MODE_THUMB = push_bit 4 1"
definition UC_PROT_ALL :: u32 where "UC_PROT_ALL = 7"
definition UC_HOOK_INTR :: u32 where "UC_HOOK_INTR = push_bit 0 1"
definition UC_HOOK_INSN :: u32 where "UC_HOOK_INSN = push_bit 1 1"
definition UC_HOOK_CODE :: u32 where "UC_HOOK_CODE = push_bit 2 1"
definition UC_HOOK_BLOCK :: u32 where "UC_HOOK_BLOCK = push_bit 3 1"

definition UC_ARM_REG_CPSR :: nat where "UC_ARM_REG_CPSR = 3"
definition UC_ARM_REG_LR :: nat where "UC_ARM_REG_LR = 10"
definition UC_ARM_REG_PC :: nat where "UC_ARM_REG_PC = 11"
definition UC_ARM_REG_SP :: nat where "UC_ARM_REG_SP = 12"

text \<open>
  The callbacks that the program registers, and the lines they print for an address and a size.
\<close>

datatype vm_hook = hook_block | hook_code | hook_instr | hook_inter

datatype trace_line = Tracing_basic_block u64 u32 | Tracing_instruction u64 u32

fun run_hook :: "vm_hook \<Rightarrow> u64 \<Rightarrow> u32 \<Rightarrow> trace_line" where
  "run_hook hook_block address sz = Tracing_basic_block address sz"
| "run_hook hook_code address sz = Tracing_instruction address sz"
| "run_hook hook_instr address sz = Tracing_basic_block address sz"
| "run_hook hook_inter address sz = Tracing_instruction address sz"

text \<open>
  The functions, over an engine state.  \<open>uc_mem_write\<close> reads the host's memory, so it is given that
  memory with the pointer and the size, and a read outside it traps.  The arguments of
  \<open>uc_hook_add\<close> after the callback are the two words that the code passes.
\<close>

record 'e unicorn =
  uc_open :: "u32 \<Rightarrow> u32 \<Rightarrow> uc_err \<times> 'e"
  uc_mem_map :: "u64 \<Rightarrow> u32 \<Rightarrow> u32 \<Rightarrow> 'e \<Rightarrow> uc_err \<times> 'e"
  uc_mem_write :: "u64 \<Rightarrow> mach \<Rightarrow> u32 \<Rightarrow> u32 \<Rightarrow> 'e \<Rightarrow> (uc_err \<times> 'e) option"
  uc_reg_write :: "nat \<Rightarrow> u32 \<Rightarrow> 'e \<Rightarrow> uc_err \<times> 'e"
  uc_hook_add :: "u32 \<Rightarrow> vm_hook \<Rightarrow> u32 \<times> u32 \<Rightarrow> 'e \<Rightarrow> uc_err \<times> 'e"
  uc_emu_start :: "u64 \<Rightarrow> u64 \<Rightarrow> u64 \<Rightarrow> u32 \<Rightarrow> 'e \<Rightarrow> uc_err \<times> 'e"
  uc_close :: "'e \<Rightarrow> uc_err \<times> 'e"

section \<open>The program\<close>

definition load_android_so :: "win_api \<Rightarrow> nat \<Rightarrow> string \<Rightarrow> world \<Rightarrow> (u32 \<times> world) option" where
  "load_android_so os fuel path w = s_dlopen os fuel (Some path) 0 w"

text \<open>
  Memory, registers and hooks.  Every result is assigned to \<open>err\<close> and none is tested.  The argument
  \<open>g_sp\<close> is the address of the array of that name.
\<close>

definition vm_setup ::
  "'e unicorn \<Rightarrow> u32 \<Rightarrow> mach \<Rightarrow> soinfo \<Rightarrow> u32 \<Rightarrow> 'e \<Rightarrow> 'e option" where
  "vm_setup uc g_sp m s JNI_OnLoad e =
     (let sp = g_sp; pc = JNI_OnLoad; cpsr = 0x600f0010;
          (err, e) = uc_mem_map uc (ucast (si_base s)) (64 * 1024 * 1024) UC_PROT_ALL e
      in do {
        (err, e) \<leftarrow> uc_mem_write uc (ucast (si_base s)) m (si_base s) (si_size s) e;
        let (err, e) = uc_reg_write uc UC_ARM_REG_SP sp e;
        let (err, e) = uc_reg_write uc UC_ARM_REG_PC pc e;
        let (err, e) = uc_reg_write uc UC_ARM_REG_CPSR cpsr e;
        let (err, e) = uc_reg_write uc UC_ARM_REG_LR pc e;
        let (err, e) = uc_hook_add uc UC_HOOK_BLOCK hook_block (1, 0) e;
        let (err, e) = uc_hook_add uc UC_HOOK_CODE hook_code (si_base s, si_base s) e;
        let (err, e) = uc_hook_add uc UC_HOOK_INSN hook_instr (si_base s, si_base s) e;
        let (err, e) = uc_hook_add uc UC_HOOK_INTR hook_inter (si_base s, si_base s) e;
        Some e })"

text \<open>
  The two runs.  A pointer becomes a \<open>uint64_t\<close> by sign extension, in the compiler for Windows as in
  gcc.
\<close>

definition vm_emulate :: "'e unicorn \<Rightarrow> u32 \<Rightarrow> u64 \<Rightarrow> 'e \<Rightarrow> bool \<times> 'e" where
  "vm_emulate uc fn len e =
     (if fn \<noteq> 0
      then let (err, e) = uc_emu_start uc (scast fn) (scast fn + len) 0 0 e in (err = UC_ERR_OK, e)
      else (True, e))"

definition start_vm ::
  "'e unicorn \<Rightarrow> u32 \<Rightarrow> world \<Rightarrow> u32 \<Rightarrow> u32 \<Rightarrow> (int \<times> 'e) option" where
  "start_vm uc g_sp w si JNI_OnLoad =
     (let (err, e) = uc_open uc UC_ARCH_ARM UC_MODE_THUMB
      in if err \<noteq> UC_ERR_OK then Some (0, e)
         else do {
           s \<leftarrow> sos w si;
           e \<leftarrow> vm_setup uc g_sp (mc w) s JNI_OnLoad e;
           let (ok, e) = vm_emulate uc (si_init_func s) 10 e;
           (if \<not> ok then Some (0, e)
            else do {
              let (ok, e) = vm_emulate uc JNI_OnLoad 20 e;
              (if \<not> ok then Some (0, e)
               else do { let (err, e) = uc_close uc e; Some (1, e) }) }) })"

definition main ::
  "win_api \<Rightarrow> 'e unicorn \<Rightarrow> nat \<Rightarrow> u32 \<Rightarrow> u32 \<Rightarrow> world \<Rightarrow> (int \<times> world \<times> int \<times> 'e) option" where
  "main os uc fuel ebp g_sp w =
     do { (h, w) \<leftarrow> s_dlopen os fuel (Some ''libc.so'') 0 w;
          (h2, w) \<leftarrow> s_dlopen os fuel (Some ''libm.so'') 0 w;
          (h3, w) \<leftarrow> s_dlopen os fuel (Some ''liblog.so'') 0 w;
          (h4, w) \<leftarrow> s_dlopen os fuel (Some ''libz.so'') 0 w;
          (h1, w) \<leftarrow> s_dlopen os fuel (Some ''libstdc++.so'') 0 w;
          (si, w) \<leftarrow> load_android_so os fuel ''libsgmainso-6.0.71.so'' w;
          JNI_OnLoad \<leftarrow> s_dlsym w ebp si (Some ''JNI_OnLoad'');
          (r, e) \<leftarrow> start_vm uc g_sp w si JNI_OnLoad;
          Some (0, w, r, e) }"

section \<open>A recording engine\<close>

text \<open>
  An engine that keeps the list of its calls and answers each as \<open>rs\<close> says.
\<close>

datatype uc_call =
    Uc_open u32 u32 | Uc_mem_map u64 u32 u32 | Uc_mem_write u64 "u8 list" | Uc_reg_write nat u32
  | Uc_hook_add u32 vm_hook "u32 \<times> u32" | Uc_emu_start u64 u64 u64 u32 | Uc_close

definition recorder :: "(uc_call \<Rightarrow> uc_err) \<Rightarrow> uc_call list unicorn" where
  "recorder rs =
     (let log = (\<lambda>c e. (rs c, e @ [c]))
      in \<lparr>uc_open = (\<lambda>a md. (rs (Uc_open a md), [Uc_open a md])),
          uc_mem_map = (\<lambda>a n p. log (Uc_mem_map a n p)),
          uc_mem_write = (\<lambda>a m p n e. do { bs \<leftarrow> load_bytes m p (unat n); Some (log (Uc_mem_write a bs) e) }),
          uc_reg_write = (\<lambda>r v. log (Uc_reg_write r v)),
          uc_hook_add = (\<lambda>t h x. log (Uc_hook_add t h x)),
          uc_emu_start = (\<lambda>b u t n. log (Uc_emu_start b u t n)),
          uc_close = log Uc_close\<rparr>)"

definition setup_calls :: "u32 \<Rightarrow> soinfo \<Rightarrow> u8 list \<Rightarrow> u32 \<Rightarrow> uc_call list" where
  "setup_calls g_sp s img fn =
     [Uc_open UC_ARCH_ARM UC_MODE_THUMB,
      Uc_mem_map (ucast (si_base s)) 0x4000000 UC_PROT_ALL, Uc_mem_write (ucast (si_base s)) img,
      Uc_reg_write UC_ARM_REG_SP g_sp, Uc_reg_write UC_ARM_REG_PC fn,
      Uc_reg_write UC_ARM_REG_CPSR 0x600f0010, Uc_reg_write UC_ARM_REG_LR fn,
      Uc_hook_add UC_HOOK_BLOCK hook_block (1, 0), Uc_hook_add UC_HOOK_CODE hook_code (si_base s, si_base s),
      Uc_hook_add UC_HOOK_INSN hook_instr (si_base s, si_base s),
      Uc_hook_add UC_HOOK_INTR hook_inter (si_base s, si_base s)]"

definition vm_runs :: "soinfo \<Rightarrow> u32 \<Rightarrow> uc_call list" where
  "vm_runs s fn =
     map (\<lambda>(f, n). Uc_emu_start (scast f) (scast f + n) 0 0) (filter (\<lambda>r. fst r \<noteq> 0) [(si_init_func s, 10), (fn, 20)])"

lemma vm_setup_recorder:
  assumes "load_bytes m (si_base s) (unat (si_size s)) = Some img"
  shows "vm_setup (recorder rs) g_sp m s fn [Uc_open UC_ARCH_ARM UC_MODE_THUMB] = Some (setup_calls g_sp s img fn)"
  using assms by (simp add: vm_setup_def recorder_def setup_calls_def Let_def)

lemma vm_emulate_recorder:
  "vm_emulate (recorder rs) f n e =
     (if f = 0 then (True, e)
      else (rs (Uc_emu_start (scast f) (scast f + n) 0 0) = UC_ERR_OK, e @ [Uc_emu_start (scast f) (scast f + n) 0 0]))"
  by (simp add: vm_emulate_def recorder_def Let_def)

text \<open>
  C26: What \<open>start_vm\<close> does with the engine: it opens it, and if that succeeds it maps 64 MB at the base of
  the library, copies the library's image there, writes the stack pointer, and the address of
  \<open>JNI_OnLoad\<close> to both the program counter and the link register, and adds the four hooks, whatever these
  calls return.  Then it runs \<open>DT_INIT\<close> and \<open>JNI_OnLoad\<close>, those of them that are there, and stops at the
  first run that fails; it returns 1 and closes the engine exactly when none fails.
\<close>

theorem start_vm_calls:
  assumes "sos w si = Some s" and "load_bytes (mc w) (si_base s) (unat (si_size s)) = Some img"
    and "rs (Uc_open UC_ARCH_ARM UC_MODE_THUMB) = UC_ERR_OK"
  shows "start_vm (recorder rs) g_sp w si fn =
    (let good = takeWhile (\<lambda>c. rs c = UC_ERR_OK) (vm_runs s fn)
     in if good = vm_runs s fn then Some (1, setup_calls g_sp s img fn @ vm_runs s fn @ [Uc_close])
        else Some (0, setup_calls g_sp s img fn @ take (Suc (length good)) (vm_runs s fn)))"
proof -
  have o: "uc_open (recorder rs) a b = (rs (Uc_open a b), [Uc_open a b])"
    and c: "uc_close (recorder rs) e = (rs Uc_close, e @ [Uc_close])" for a b e
    by (simp_all add: recorder_def)
  show ?thesis
    using assms by (simp add: start_vm_def o c vm_setup_recorder vm_emulate_recorder vm_runs_def Let_def)
qed

lemma start_vm_calls_witness:
  "start_vm (recorder (\<lambda>c. case c of Uc_emu_start _ _ _ _ \<Rightarrow> UC_ERR_INSN_INVALID | _ \<Rightarrow> UC_ERR_OK)) 0x7000
     (demo_registry\<lparr>mc := mem_of 0x40000000 (replicate 4096 0)\<rparr>) 0x20000 0x80000100 =
   Some (0, setup_calls 0x7000 (demo_so ''libc.so'' 0x40000000 0x1000 0) (replicate 4096 0) 0x80000100 @
     [Uc_emu_start 0xFFFFFFFF80000100 0xFFFFFFFF80000114 0 0])"
proof -
  let ?w = "demo_registry\<lparr>mc := mem_of 0x40000000 (replicate 4096 0)\<rparr>"
  have s: "sos ?w 0x20000 = Some (demo_so ''libc.so'' 0x40000000 0x1000 0)" by (simp add: demo_registry_def)
  have f: "si_base (demo_so ''libc.so'' 0x40000000 0x1000 0) = 0x40000000"
    "si_size (demo_so ''libc.so'' 0x40000000 0x1000 0) = 0x1000"
    "si_init_func (demo_so ''libc.so'' 0x40000000 0x1000 0) = 0"
    by (simp_all add: demo_so_def zero_soinfo_def)
  have "load_bytes (mem_of 0x40000000 (replicate 4096 0)) 0x40000000 4096 = Some (replicate 4096 0)"
    using load_bytes_mem_of [of "replicate 4096 0" "0x40000000"] by simp
  then have l: "load_bytes (mc ?w) (si_base (demo_so ''libc.so'' 0x40000000 0x1000 0))
      (unat (si_size (demo_so ''libc.so'' 0x40000000 0x1000 0))) = Some (replicate 4096 0)" by (simp add: f)
  show ?thesis
    using start_vm_calls [OF s l, of "\<lambda>c. case c of Uc_emu_start _ _ _ _ \<Rightarrow> UC_ERR_INSN_INVALID | _ \<Rightarrow> UC_ERR_OK"
        "0x7000" "0x80000100"]
    by (simp add: vm_runs_def f)
qed

section \<open>The engine's memory\<close>

text \<open>
  What unicorn.h documents of the calls that set the engine up, for an observer \<open>ram\<close> of its memory and
  \<open>reg\<close> of its registers: a region that was mapped can be used and the rest stays; writing bytes
  within mapped memory succeeds and changes just those; a register that was written has the value; and
  hooks and registers do not change memory.
\<close>

definition unicorn_laws :: "'e unicorn \<Rightarrow> ('e \<Rightarrow> u64 \<Rightarrow> u8 option) \<Rightarrow> ('e \<Rightarrow> nat \<Rightarrow> u32) \<Rightarrow> bool" where
  "unicorn_laws uc ram reg \<longleftrightarrow>
     (\<forall>a n p e e'. uc_mem_map uc a n p e = (UC_ERR_OK, e') \<longrightarrow> (\<forall>x. unat (x - a) < unat n \<longrightarrow> ram e' x \<noteq> None)) \<and>
     (\<forall>a m q n bs e. load_bytes m q (unat n) = Some bs \<and> (\<forall>x. unat (x - a) < unat n \<longrightarrow> ram e x \<noteq> None) \<longrightarrow>
        (\<exists>e'. uc_mem_write uc a m q n e = Some (UC_ERR_OK, e') \<and>
           (\<forall>x. ram e' x = (if unat (x - a) < unat n then Some (bs ! unat (x - a)) else ram e x)))) \<and>
     (\<forall>r v e e'. uc_reg_write uc r v e = (UC_ERR_OK, e') \<longrightarrow> reg e' r = v) \<and>
     (\<forall>r v e. ram (snd (uc_reg_write uc r v e)) = ram e) \<and>
     (\<forall>t h x e. ram (snd (uc_hook_add uc t h x e)) = ram e \<and> reg (snd (uc_hook_add uc t h x e)) = reg e)"

lemma unicorn_lawsD:
  assumes "unicorn_laws uc ram reg"
  shows "uc_mem_map uc a n p e = (UC_ERR_OK, e') \<Longrightarrow> unat (x - a) < unat n \<Longrightarrow> ram e' x \<noteq> None"
    and "load_bytes m q (unat n) = Some bs \<Longrightarrow> (\<And>x. unat (x - a) < unat n \<Longrightarrow> ram e x \<noteq> None) \<Longrightarrow>
      \<exists>e'. uc_mem_write uc a m q n e = Some (UC_ERR_OK, e') \<and>
        (\<forall>x. ram e' x = (if unat (x - a) < unat n then Some (bs ! unat (x - a)) else ram e x))"
    and "uc_reg_write uc r v e = (UC_ERR_OK, e') \<Longrightarrow> reg e' r = v"
    and "ram (snd (uc_reg_write uc r v e)) = ram e"
    and "ram (snd (uc_hook_add uc t h f e)) = ram e" and "reg (snd (uc_hook_add uc t h f e)) = reg e"
proof -
  note laws = assms [unfolded unicorn_laws_def]
  show "uc_mem_map uc a n p e = (UC_ERR_OK, e') \<Longrightarrow> unat (x - a) < unat n \<Longrightarrow> ram e' x \<noteq> None"
    by (rule conjunct1 [OF laws, rule_format])
  show "load_bytes m q (unat n) = Some bs \<Longrightarrow> (\<And>x. unat (x - a) < unat n \<Longrightarrow> ram e x \<noteq> None) \<Longrightarrow>
      \<exists>e'. uc_mem_write uc a m q n e = Some (UC_ERR_OK, e') \<and>
        (\<forall>x. ram e' x = (if unat (x - a) < unat n then Some (bs ! unat (x - a)) else ram e x))"
    by (rule conjunct1 [OF conjunct2 [OF laws], rule_format]) blast
qed (use assms in \<open>simp_all add: unicorn_laws_def del: split_paired_All\<close>)

lemma vm_setup_copies:
  assumes "unicorn_laws uc ram reg"
    and img: "load_bytes m (si_base s) (unat (si_size s)) = Some img" and sz: "unat (si_size s) \<le> 0x4000000"
    and mp: "fst (uc_mem_map uc (ucast (si_base s)) 0x4000000 UC_PROT_ALL e) = UC_ERR_OK"
  shows "\<exists>e'. vm_setup uc g_sp m s fn e = Some e' \<and>
    (\<forall>i < unat (si_size s). ram e' (ucast (si_base s) + of_nat i) = Some (img ! i)) \<and>
    ((\<forall>e. fst (uc_reg_write uc UC_ARM_REG_LR fn e) = UC_ERR_OK) \<longrightarrow> reg e' UC_ARM_REG_LR = fn)"
proof -
  let ?b = "ucast (si_base s) :: u64"
  note laws = unicorn_lawsD [OF assms(1)]
  obtain e1 where e1: "uc_mem_map uc ?b 0x4000000 UC_PROT_ALL e = (UC_ERR_OK, e1)"
    using mp by (metis prod.collapse)
  have "ram e1 x \<noteq> None" if "unat (x - ?b) < unat (si_size s)" for x
    using laws(1) [OF e1, of x] that sz by simp
  from laws(2) [OF img this] obtain e2
    where e2: "uc_mem_write uc ?b m (si_base s) (si_size s) e1 = Some (UC_ERR_OK, e2)"
      and ram: "\<And>x. ram e2 x = (if unat (x - ?b) < unat (si_size s) then Some (img ! unat (x - ?b)) else ram e1 x)"
    by blast
  have l: "reg (snd (uc_reg_write uc UC_ARM_REG_LR fn e)) UC_ARM_REG_LR = fn"
    if "\<forall>e. fst (uc_reg_write uc UC_ARM_REG_LR fn e) = UC_ERR_OK" for e
    using laws(3) that by (metis prod.collapse)
  have "\<exists>e'. vm_setup uc g_sp m s fn e = Some e' \<and> ram e' = ram e2 \<and>
      ((\<forall>e. fst (uc_reg_write uc UC_ARM_REG_LR fn e) = UC_ERR_OK) \<longrightarrow> reg e' UC_ARM_REG_LR = fn)"
    unfolding vm_setup_def Let_def by (simp add: e1 e2 split_def laws(4-6) l)
  moreover have "ram e2 (?b + of_nat i) = Some (img ! i)" if "i < unat (si_size s)" for i
  proof -
    have "i < 2 ^ 64" using that sz by simp
    then have "unat (of_nat i :: u64) = i" by (simp add: unsigned_of_nat take_bit_nat_eq_self)
    then show ?thesis using that by (simp add: ram)
  qed
  ultimately show ?thesis by auto
qed

text \<open>
  C25: After \<open>start_vm\<close>'s setup the engine's memory holds the library's image byte for byte at the
  address where the linker put it, provided the mapping succeeded and the library is not larger than the
  64 MB that are mapped.  The link register, if it can be written, holds the address of \<open>JNI_OnLoad\<close>, so
  that \<open>JNI_OnLoad\<close> would return to itself.
\<close>

theorem vm_setup_image:
  assumes "unicorn_laws uc ram reg"
    and img: "load_bytes m (si_base s) (unat (si_size s)) = Some img" and sz: "unat (si_size s) \<le> 0x4000000"
    and mp: "fst (uc_mem_map uc (ucast (si_base s)) 0x4000000 UC_PROT_ALL e) = UC_ERR_OK"
    and lr: "\<forall>e. fst (uc_reg_write uc UC_ARM_REG_LR fn e) = UC_ERR_OK"
  shows "\<exists>e'. vm_setup uc g_sp m s fn e = Some e' \<and> reg e' UC_ARM_REG_LR = fn \<and>
    (\<forall>i < unat (si_size s). ram e' (ucast (si_base s) + of_nat i) = Some (img ! i))"
  using vm_setup_copies [OF assms(1-4)] lr by blast

text \<open>A small engine: memory, registers, and no error but for a page that is not aligned.\<close>

definition demo_unicorn :: "((u64 \<Rightarrow> u8 option) \<times> (nat \<Rightarrow> u32)) unicorn" where
  "demo_unicorn =
     \<lparr>uc_open = (\<lambda>a md. (UC_ERR_OK, (\<lambda>_. None, \<lambda>_. 0))),
      uc_mem_map = (\<lambda>a n p (ram, reg).
        if a AND 0xFFF \<noteq> 0 \<or> n AND 0xFFF \<noteq> 0 then (UC_ERR_ARG, (ram, reg))
        else (UC_ERR_OK, (\<lambda>x. if unat (x - a) < unat n then Some 0 else ram x, reg))),
      uc_mem_write = (\<lambda>a m q n (ram, reg). do { bs \<leftarrow> load_bytes m q (unat n);
        Some (UC_ERR_OK, (\<lambda>x. if unat (x - a) < unat n then Some (bs ! unat (x - a)) else ram x, reg)) }),
      uc_reg_write = (\<lambda>r v (ram, reg). (UC_ERR_OK, (ram, reg(r := v)))),
      uc_hook_add = (\<lambda>t h x e. (UC_ERR_OK, e)),
      uc_emu_start = (\<lambda>b u t n e. (UC_ERR_OK, e)),
      uc_close = (\<lambda>e. (UC_ERR_OK, e))\<rparr>"

lemma demo_unicorn_laws: "unicorn_laws demo_unicorn fst snd"
  by (auto simp: unicorn_laws_def demo_unicorn_def split: if_splits)

lemma vm_setup_image_witness:
  "\<exists>e'. vm_setup demo_unicorn 0x7000 (mem_of 0x40000000 (replicate 4096 7)) (demo_so ''libc.so'' 0x40000000 0x1000 0) 0x80000100
     (\<lambda>_. None, \<lambda>_. 0) = Some e' \<and> fst e' 0x40000FFF = Some 7 \<and> snd e' UC_ARM_REG_LR = 0x80000100"
proof -
  let ?s = "demo_so ''libc.so'' 0x40000000 0x1000 0"
  have f: "si_base ?s = 0x40000000" "si_size ?s = 0x1000" by (simp_all add: demo_so_def)
  have l: "load_bytes (mem_of 0x40000000 (replicate 4096 7)) (si_base ?s) (unat (si_size ?s)) = Some (replicate 4096 7)"
    using load_bytes_mem_of [of "replicate 4096 7" "0x40000000"] by (simp add: f)
  obtain e' where "vm_setup demo_unicorn 0x7000 (mem_of 0x40000000 (replicate 4096 7)) ?s 0x80000100 (\<lambda>_. None, \<lambda>_. 0) = Some e'"
    and "snd e' UC_ARM_REG_LR = 0x80000100"
    and "\<forall>i < unat (si_size ?s). fst e' (ucast (si_base ?s) + of_nat i) = Some (replicate 4096 7 ! i)"
    using vm_setup_image [OF demo_unicorn_laws l, of "(\<lambda>_. None, \<lambda>_. 0)" "0x80000100" "0x7000"]
    by (auto simp: f demo_unicorn_def)
  moreover from this(3) have "fst e' 0x40000FFF = Some 7"
    by (auto simp: f dest: spec [of _ 4095])
  ultimately show ?thesis by blast
qed

end
