(* ===== verification/Session.thy ===== *)
theory Session
  imports Frame Emulator
begin

text \<open>
  Sequences of calls of \<open>dlopen\<close> and \<open>dlclose\<close>, as a program makes them.  Two invariants hold in every state
  such a sequence reaches: the lists of libraries and of free objects stay well formed as long as
  the pools that the system hands out are fresh, and the parts of the linker that serve an executable
  stay idle.
\<close>

section \<open>What an allocation changes\<close>

lemma ensure_free_list_cases:
  assumes "ensure_free_list_non_empty os w = (ok, w0)"
  obtains (cached) "gSoInfoFreeList w \<noteq> 0" "ok" "w0 = w"
  | (failed) m where "\<not> ok" "w0 = w\<lparr>mc := m\<rparr>"
  | (pool) pool m where "gSoInfoFreeList w = 0" "ok" "pool_mmap os (mc w) = (pool, m)" "pool \<noteq> MAP_FAILED"
      "w0 = w\<lparr>mc := m, gSoInfoPools := pool # gSoInfoPools w, gSoInfoFreeList := pool_info pool 0,
              sos := chain_pool pool SOINFO_PER_POOL 0 (sos w)\<rparr>"
  using assms unfolding ensure_free_list_non_empty_def pool_mmap_def
  by (auto simp: Let_def split: if_splits prod.splits)

lemma soinfo_alloc_cases:
  assumes "soinfo_alloc os name w = Some (p, w')"
  obtains (null) m where "p = 0" "w' = w\<lparr>mc := m\<rparr>"
  | (object) w0 s nm t where "ensure_free_list_non_empty os w = (True, w0)" "p = gSoInfoFreeList w0" "sos w0 p = Some s"
      "((sos w0)(p \<mapsto> zero_soinfo\<lparr>si_name := nm\<rparr>)) (sonext w0) = Some t"
      "w' = w0\<lparr>gSoInfoFreeList := si_next s,
               sos := (sos w0)(p \<mapsto> zero_soinfo\<lparr>si_name := nm\<rparr>, sonext w0 \<mapsto> t\<lparr>si_next := p\<rparr>), sonext := p\<rparr>"
proof -
  obtain ok w0 where e: "ensure_free_list_non_empty os w = (ok, w0)" by (cases "ensure_free_list_non_empty os w")
  show thesis
  proof (cases "SOINFO_NAME_LEN \<le> length name")
    case True
    with assms null [of "mc w"] show ?thesis by (simp add: soinfo_alloc_def)
  next
    case len: False
    show ?thesis
    proof (cases ok)
      case False
      with e obtain m where "w0 = w\<lparr>mc := m\<rparr>" by (auto elim: ensure_free_list_cases)
      with assms e len False null [of m] show ?thesis by (simp add: soinfo_alloc_def)
    next
      case True
      with assms e len show ?thesis
        unfolding soinfo_alloc_def Let_def
        by (auto simp: upd_si_def split: option.splits elim!: bind_eq_SomeE) (rule object, auto)
    qed
  qed
qed

lemma dom_chain_pool: "dom (chain_pool pool n nxt h) = dom h \<union> pool_info pool ` {..<n}"
  by (induction n arbitrary: nxt h) (auto simp: lessThan_Suc)

lemma soinfo_free_cases:
  assumes "soinfo_free p w = Some w'"
  obtains (same) "w' = w"
  | (unlink) prev s t u where "find_prev (sos w) p 0 (solist w) = Some (Some prev)" "sos w p = Some s" "sos w prev = Some t"
      "((sos w)(prev \<mapsto> t\<lparr>si_next := si_next s\<rparr>)) p = Some u"
      "w' = w\<lparr>sos := (sos w)(prev \<mapsto> t\<lparr>si_next := si_next s\<rparr>, p \<mapsto> u\<lparr>si_next := gSoInfoFreeList w\<rparr>),
              sonext := if p = sonext w then prev else sonext w, gSoInfoFreeList := p\<rparr>"
proof (cases "p = 0")
  case True
  with assms same show ?thesis by (simp add: soinfo_free_def)
next
  case False
  with assms obtain r where r: "find_prev (sos w) p 0 (solist w) = Some r"
    unfolding soinfo_free_def by (auto elim!: bind_eq_SomeE)
  show ?thesis
  proof (cases r)
    case None
    with assms r False same show ?thesis by (simp add: soinfo_free_def)
  next
    case (Some prev)
    with assms r False obtain s w1 w2 where s: "sos w p = Some s"
      and w1: "upd_si prev (\<lambda>t. t\<lparr>si_next := si_next s\<rparr>) w = Some w1"
      and w2: "upd_si p (\<lambda>u. u\<lparr>si_next := gSoInfoFreeList w\<rparr>)
          (if p = sonext w1 then w1\<lparr>sonext := prev\<rparr> else w1) = Some w2"
      and w': "w' = w2\<lparr>gSoInfoFreeList := p\<rparr>"
      unfolding soinfo_free_def Let_def by (auto simp: upd_si_def split: option.splits elim!: bind_eq_SomeE)
    obtain t where t: "sos w prev = Some t" "w1 = w\<lparr>sos := (sos w)(prev \<mapsto> t\<lparr>si_next := si_next s\<rparr>)\<rparr>"
      using w1 by (auto simp: upd_si_def split: option.splits)
    obtain u where u: "sos w1 p = Some u"
      "w2 = (if p = sonext w1 then w1\<lparr>sonext := prev\<rparr> else w1)\<lparr>sos := (sos w1)(p \<mapsto> u\<lparr>si_next := gSoInfoFreeList w\<rparr>)\<rparr>"
      using w2 by (auto simp: upd_si_def split: option.splits if_splits)
    show ?thesis
      by (rule unlink [of prev s t u]) (use r Some s t u w' in auto)
  qed
qed

section \<open>The parts that serve an executable stay idle\<close>

text \<open>
  No library is flagged as the executable or as the linker itself, no library is preloaded and
  \<open>somain\<close> is null; the list starts with \<open>libdl_info\<close>, at \<open>L\<close>.
\<close>

definition ordinary :: "so_heap \<Rightarrow> bool" where
  "ordinary h \<longleftrightarrow> (\<forall>p s. h p = Some s \<longrightarrow> si_flags s AND (FLAG_EXE OR FLAG_LINKER) = 0)"

definition quiet :: "u32 \<Rightarrow> world \<Rightarrow> bool" where
  "quiet L w \<longleftrightarrow> solist w = L \<and> somain w = 0 \<and> gLdPreloads w = [] \<and> ordinary (sos w)"

lemma ordinary_upd: "ordinary h \<Longrightarrow> si_flags s AND (FLAG_EXE OR FLAG_LINKER) = 0 \<Longrightarrow> ordinary (h(p \<mapsto> s))"
  by (auto simp: ordinary_def)

lemma ordinaryD: "ordinary h \<Longrightarrow> h p = Some s \<Longrightarrow> si_flags s AND (FLAG_EXE OR FLAG_LINKER) = 0"
  unfolding ordinary_def by blast

lemma flags_zero_soinfo: "si_flags zero_soinfo = 0"
  by (simp add: zero_soinfo_def)

lemma ordinary_chain_pool: "ordinary h \<Longrightarrow> ordinary (chain_pool pool n nxt h)"
proof (induction n arbitrary: nxt h)
  case (Suc n)
  have "ordinary (h(pool_info pool n \<mapsto> zero_soinfo\<lparr>si_next := nxt\<rparr>))"
    by (rule ordinary_upd [OF Suc.prems]) (simp add: flags_zero_soinfo)
  with Suc.IH show ?case by simp
qed simp

lemma linked_keeps_exe: "(f OR FLAG_LINKED) AND (FLAG_EXE OR FLAG_LINKER) = f AND (FLAG_EXE OR FLAG_LINKER)" for f :: u32
proof -
  have z: "FLAG_LINKED AND (FLAG_EXE OR FLAG_LINKER) = 0" by simp
  show ?thesis by (simp only: bit.conj_disj_distrib2 z or.right_neutral)
qed

lemma exe_flag: "f AND (FLAG_EXE OR FLAG_LINKER) = 0 \<Longrightarrow> f AND FLAG_EXE = 0" for f :: u32
proof -
  assume "f AND (FLAG_EXE OR FLAG_LINKER) = 0"
  moreover have "f AND FLAG_EXE = (f AND (FLAG_EXE OR FLAG_LINKER)) AND FLAG_EXE"
    by (simp add: and.assoc)
  ultimately show ?thesis by simp
qed

lemma quiet_alloc:
  assumes "soinfo_alloc os name w = Some (p, w')" and q: "quiet L w"
  shows "quiet L w'"
  using assms(1)
proof (cases rule: soinfo_alloc_cases)
  case (null m)
  with q show ?thesis by (simp add: quiet_def)
next
  case (object w0 s nm t)
  have q0: "quiet L w0"
    using object(1) by (cases rule: ensure_free_list_cases) (use q in \<open>auto simp: quiet_def ordinary_chain_pool\<close>)
  then have z: "ordinary ((sos w0)(p \<mapsto> zero_soinfo\<lparr>si_name := nm\<rparr>))"
    by (intro ordinary_upd) (simp_all add: quiet_def zero_soinfo_def)
  have "ordinary ((sos w0)(p \<mapsto> zero_soinfo\<lparr>si_name := nm\<rparr>, sonext w0 \<mapsto> t\<lparr>si_next := p\<rparr>))"
    using ordinaryD [OF z object(4)] by (intro ordinary_upd [OF z]) simp
  with q0 object(5) show ?thesis by (simp add: quiet_def)
qed

lemma quiet_free:
  assumes "soinfo_free p w = Some w'" and q: "quiet L w"
  shows "quiet L w'"
  using assms(1)
proof (cases rule: soinfo_free_cases)
  case same
  with q show ?thesis by simp
next
  case (unlink prev s t u)
  have o: "ordinary (sos w)" using q by (simp add: quiet_def)
  have z: "ordinary ((sos w)(prev \<mapsto> t\<lparr>si_next := si_next s\<rparr>))"
    using ordinaryD [OF o unlink(3)] by (intro ordinary_upd [OF o]) simp
  have "ordinary ((sos w)(prev \<mapsto> t\<lparr>si_next := si_next s\<rparr>, p \<mapsto> u\<lparr>si_next := gSoInfoFreeList w\<rparr>))"
    using ordinaryD [OF z unlink(4)] by (intro ordinary_upd [OF z]) simp
  with q unlink(5) show ?thesis by (simp add: quiet_def)
qed

lemma quiet_fields:
  assumes s: "sos w p = Some s" and f: "si_flags s' \<in> {si_flags s, si_flags s OR FLAG_LINKED, 0}" and q: "quiet L w"
  shows "quiet L (w\<lparr>sos := (sos w)(p \<mapsto> s')\<rparr>)"
proof -
  have o: "ordinary (sos w)" using q by (simp add: quiet_def)
  have "si_flags s' AND (FLAG_EXE OR FLAG_LINKER) = 0"
    using f ordinaryD [OF o s] linked_keeps_exe by auto
  with q ordinary_upd [OF o] show ?thesis by (simp add: quiet_def)
qed

interpretation idle: link_frame os "\<lambda>_ _. True" "\<lambda>w w'. quiet L w \<longrightarrow> quiet L w'" for os L
proof
  fix w w' :: world and p and s :: soinfo and ps
  assume s: "sos w p = Some s" and f: "si_flags s AND FLAG_EXE \<noteq> 0"
  have "\<not> quiet L w"
  proof
    assume "quiet L w"
    then have o: "ordinary (sos w)" by (simp add: quiet_def)
    show False using exe_flag [OF ordinaryD [OF o s]] f by blast
  qed
  then show "quiet L w \<longrightarrow> quiet L (w'\<lparr>gLdPreloads := ps\<rparr>)" by blast
qed (auto intro: quiet_fields quiet_alloc quiet_free, simp_all add: quiet_def)

section \<open>The lists stay well formed\<close>

text \<open>
  The pools that a call adds, latest first, are fresh when the objects of each of them were no objects
  before: that is what the system promises of a new mapping.
\<close>

definition pools_objects :: "u32 list \<Rightarrow> u32 set" where
  "pools_objects ps = (\<Union>p\<in>set ps. set (pool_objects p))"

lemma pools_objects_simps [simp]:
  "pools_objects [] = {}"
  "pools_objects (p # ps) = set (pool_objects p) \<union> pools_objects ps"
  "pools_objects (ps @ qs) = pools_objects ps \<union> pools_objects qs"
  by (auto simp: pools_objects_def)

fun fresh_pools :: "u32 list \<Rightarrow> u32 set \<Rightarrow> bool" where
  "fresh_pools [] D \<longleftrightarrow> True"
| "fresh_pools (p # ps) D \<longleftrightarrow> set (pool_objects p) \<inter> ({0} \<union> D \<union> pools_objects ps) = {} \<and> fresh_pools ps D"

lemma fresh_pools_append [simp]:
  "fresh_pools (qs @ ps) D \<longleftrightarrow> fresh_pools qs (D \<union> pools_objects ps) \<and> fresh_pools ps D"
  by (induction qs) auto

definition well_listed :: "world \<Rightarrow> bool" where
  "well_listed w \<longleftrightarrow> (\<exists>LS FL. so_inv w LS FL)"

definition reg_step :: "world \<Rightarrow> world \<Rightarrow> bool" where
  "reg_step w w' \<longleftrightarrow>
     (\<exists>ps. gSoInfoPools w' = ps @ gSoInfoPools w \<and> dom (sos w') = dom (sos w) \<union> pools_objects ps \<and>
           (fresh_pools ps (dom (sos w)) \<longrightarrow> well_listed w \<longrightarrow> well_listed w'))"

lemma reg_step_trans:
  assumes "reg_step w1 w2" and "reg_step w2 w3"
  shows "reg_step w1 w3"
proof -
  from assms obtain ps qs where p: "gSoInfoPools w2 = ps @ gSoInfoPools w1" "dom (sos w2) = dom (sos w1) \<union> pools_objects ps"
      "fresh_pools ps (dom (sos w1)) \<longrightarrow> well_listed w1 \<longrightarrow> well_listed w2"
    and q: "gSoInfoPools w3 = qs @ gSoInfoPools w2" "dom (sos w3) = dom (sos w2) \<union> pools_objects qs"
      "fresh_pools qs (dom (sos w2)) \<longrightarrow> well_listed w2 \<longrightarrow> well_listed w3"
    unfolding reg_step_def by blast
  then show ?thesis unfolding reg_step_def by (intro exI [of _ "qs @ ps"]) auto
qed

lemma reg_step_same_pools:
  "gSoInfoPools w' = gSoInfoPools w \<Longrightarrow> dom (sos w') = dom (sos w) \<Longrightarrow>
     (\<And>LS FL. so_inv w LS FL \<Longrightarrow> well_listed w') \<Longrightarrow> reg_step w w'"
  unfolding reg_step_def by (intro exI [of _ "[]"]) (auto simp: well_listed_def)

lemma reg_step_links:
  assumes "\<And>x. map_option si_next (sos w' x) = map_option si_next (sos w x)"
    and "solist w' = solist w" "gSoInfoFreeList w' = gSoInfoFreeList w" "sonext w' = sonext w"
    and "gSoInfoPools w' = gSoInfoPools w"
  shows "reg_step w w'"
proof (rule reg_step_same_pools [OF assms(5)])
  show "dom (sos w') = dom (sos w)" using assms(1) by (metis (no_types) dom_map_option_comp comp_def ext)
  show "well_listed w'" if "so_inv w LS FL" for LS FL
    using that so_inv_links [OF assms(1-4)] by (auto simp: well_listed_def)
qed

lemma reg_step_fields:
  assumes "sos w p = Some s" and "si_next s' = si_next s"
  shows "reg_step w (w\<lparr>sos := (sos w)(p \<mapsto> s')\<rparr>)"
  by (rule reg_step_links) (use assms in auto)

lemma reg_step_new_pool:
  assumes "gSoInfoFreeList w = 0" and "ensure_free_list_non_empty os w = (True, w0)"
    and m: "pool_mmap os (mc w) = (pool, m)" and p: "pool \<noteq> MAP_FAILED"
    and w0: "w0 = w\<lparr>mc := m, gSoInfoPools := pool # gSoInfoPools w, gSoInfoFreeList := pool_info pool 0,
              sos := chain_pool pool SOINFO_PER_POOL 0 (sos w)\<rparr>"
  shows "reg_step w w0"
proof -
  have "well_listed w0" if "set (pool_objects pool) \<inter> ({0} \<union> dom (sos w)) = {}" and "so_inv w LS FL" for LS FL
  proof -
    have "FL = []" using that(2) assms(1) by (auto simp: so_inv_def so_chain_0)
    moreover have "set LS \<subseteq> dom (sos w)" using so_inv_live [OF that(2)] by auto
    then have "set (pool_objects pool) \<inter> (set LS \<union> {0}) = {}" using that(1) by blast
    ultimately show ?thesis
      using ensure_free_list_new_pool [of w LS os pool m] that(2) m p assms(2) unfolding well_listed_def by fastforce
  qed
  then show ?thesis
    unfolding reg_step_def
    by (intro exI [of _ "[pool]"])
      (auto simp: w0 dom_chain_pool set_pool_objects well_listed_def)
qed

lemma reg_step_alloc:
  assumes "soinfo_alloc os name w = Some (p, w')"
  shows "reg_step w w'"
  using assms
proof (cases rule: soinfo_alloc_cases)
  case (null m)
  show ?thesis unfolding null by (rule reg_step_links) auto
next
  case (object w0 s nm t)
  have w0: "reg_step w w0"
    using object(1)
  proof (cases rule: ensure_free_list_cases)
    case cached
    then show ?thesis by (auto intro: reg_step_links)
  next
    case (pool pool m)
    with reg_step_new_pool object(1) show ?thesis by blast
  qed simp
  have p: "p \<in> dom (sos w0)" "sonext w0 \<in> dom (sos w0) \<union> {p}"
    using object(3,4) by (auto split: if_splits)
  have "reg_step w0 w'"
  proof (rule reg_step_same_pools)
    show "dom (sos w') = dom (sos w0)" using p object(3,4) by (auto simp: object(5) split: if_splits)
    show "well_listed w'" if inv: "so_inv w0 LS FL" for LS FL
    proof (cases "p = 0")
      case True
      with object(3) so_invD(8) [OF inv] show ?thesis by simp
    next
      case False
      then obtain FL' where FL: "FL = p # FL'"
        using so_invD(2) [OF inv] object(2) by (cases FL) auto
      have "sonext w0 \<noteq> p"
        using so_invD(3-7) [OF inv] last_in_set [of LS] unfolding FL by auto
      then have t: "sos w0 (sonext w0) = Some t" using object(4) by simp
      show ?thesis
        using soinfo_alloc_links [OF inv [unfolded FL] object(3) t, of "zero_soinfo\<lparr>si_name := nm\<rparr>"]
        unfolding object(5) well_listed_def by (auto simp: zero_soinfo_def)
    qed
  qed (simp add: object(5))
  with w0 show ?thesis by (rule reg_step_trans)
qed

lemma reg_step_free:
  assumes f: "soinfo_free p w = Some w'"
  shows "reg_step w w'"
proof (rule reg_step_same_pools)
  show "gSoInfoPools w' = gSoInfoPools w" using f by (cases rule: soinfo_free_cases) auto
  show "dom (sos w') = dom (sos w)"
    using f by (cases rule: soinfo_free_cases) (auto split: if_splits)
  show "well_listed w'" if inv: "so_inv w LS FL" for LS FL
  proof (cases "p \<in> set LS")
    case False
    with soinfo_free_absent [OF inv] f inv show ?thesis by (auto simp: well_listed_def)
  next
    case True
    then obtain as bs where LS: "LS = as @ p # bs" by (auto dest: split_list)
    show ?thesis
    proof (cases "as = []")
      case True
      with soinfo_free_head [of w p bs FL] inv f show ?thesis by (simp add: LS)
    next
      case False
      with soinfo_free_present [of w as p bs FL] inv f show ?thesis unfolding LS well_listed_def by auto
    qed
  qed
qed

interpretation listed: link_frame os "\<lambda>_ _. True" reg_step for os
proof
  show "reg_step w (w'\<lparr>gLdPreloads := ps\<rparr>)" if "reg_step w w'" for w w' ps
    using that by (rule reg_step_trans) (auto intro: reg_step_links)
qed (auto intro: reg_step_links reg_step_fields reg_step_alloc reg_step_free reg_step_trans)

section \<open>Calls of constructors keep a library linked, unloading allocates nothing\<close>

definition keeps_libs :: "world \<Rightarrow> world \<Rightarrow> bool" where
  "keeps_libs w w' \<longleftrightarrow>
     (\<forall>p s. sos w p = Some s \<longrightarrow>
        (\<exists>t. sos w' p = Some t \<and> si_flags t = si_flags s \<and> si_name t = si_name s \<and>
             (si_constructors_called s \<longrightarrow> si_constructors_called t)))"

lemma keeps_libsD:
  assumes "keeps_libs w w'" and "sos w p = Some s"
  obtains t where "sos w' p = Some t" "si_flags t = si_flags s" "si_name t = si_name s"
    "si_constructors_called s \<Longrightarrow> si_constructors_called t"
  using assms unfolding keeps_libs_def by blast

lemma keeps_libs_trans: "keeps_libs w1 w2 \<Longrightarrow> keeps_libs w2 w3 \<Longrightarrow> keeps_libs w1 w3"
  unfolding keeps_libs_def by (metis (no_types, lifting))

interpretation calling: world_frame os "\<lambda>_ _. True" keeps_libs for os
proof
  show "keeps_libs w1 w3" if "keeps_libs w1 w2" and "keeps_libs w2 w3" for w1 w2 w3
    using that by (rule keeps_libs_trans)
qed (auto simp: keeps_libs_def)

interpretation unloading: unload_frame os "\<lambda>_ _. True"
  "\<lambda>w w'. gSoInfoPools w' = gSoInfoPools w \<and> dom (sos w') = dom (sos w) \<and> solist w' = solist w" for os
proof
  show "gSoInfoPools w' = gSoInfoPools w \<and> dom (sos w') = dom (sos w) \<and> solist w' = solist w"
    if "soinfo_free p w = Some w'" for p w w'
    using that by (cases rule: soinfo_free_cases) (auto split: if_splits)
qed auto

lemma CallConstructors_marks:
  assumes "CallConstructors os n p w = Some w'"
  shows "\<exists>t. sos w' p = Some t \<and> si_constructors_called t"
proof (cases n)
  case 0
  with assms show ?thesis by simp
next
  case (Suc k)
  from assms Suc obtain s where s: "sos w p = Some s" by (auto elim: bind_eq_SomeE)
  show ?thesis
  proof (cases "si_constructors_called s")
    case True
    with assms Suc s show ?thesis by simp
  next
    case False
    let ?w = "w\<lparr>sos := (sos w)(p \<mapsto> s\<lparr>si_constructors_called := True\<rparr>)\<rparr>"
    from assms Suc s False obtain ok w2
      where d: "(if si_dynamic s \<noteq> 0 then walk_dyn mc (ctor_dyn (CallConstructors os k) p) (si_dynamic s) ?w
              else Some (True, ?w)) = Some (ok, w2)" and i: "call_init os p w2 = Some w'"
      by (auto simp: upd_si_def elim!: bind_eq_SomeE)
    have "keeps_libs ?w w2"
      using d calling.ctor_walk_frame calling.constructors calling.refl by (auto split: if_splits)
    then have "keeps_libs ?w w'" using calling.init_calls [OF i] by (rule keeps_libs_trans)
    then show ?thesis by (rule keeps_libsD [of _ _ p]) auto
  qed
qed

lemma s_dlopen_iff: "s_dlopen os n name flags w = Some (p, w') \<longleftrightarrow> do_dlopen os n name flags w = Some (p, w')"
  by (cases "do_dlopen os n name flags w") (auto simp: s_dlopen_def split: if_splits)

lemma s_dlopen_ready:
  assumes "s_dlopen os n (Some name) flags w = Some (p, w')" and "p \<noteq> 0"
  shows "\<exists>s. sos w' p = Some s \<and> si_flags s AND FLAG_LINKED \<noteq> 0 \<and>
    (si_constructors_called s \<or> si_name s \<in> set no_constructors)"
proof (cases "flags AND NOT (RTLD_NOW OR RTLD_LAZY OR RTLD_LOCAL OR RTLD_GLOBAL) = 0")
  case False
  with assms show ?thesis by (simp add: s_dlopen_iff do_dlopen_def)
next
  case True
  with assms obtain w1 w2 s w3 where f: "find_library os n (Some name) w1 = Some (p, w2)" and s: "sos w2 p = Some s"
    and c: "(if si_name s \<in> set no_constructors then Some w2 else CallConstructors os n p w2) = Some w3"
    and p2: "set_soinfo_pool_protection os PROT_READ w3 = Some w'"
    unfolding s_dlopen_iff do_dlopen_def by (auto elim!: bind_eq_SomeE)
  have l: "si_flags s AND FLAG_LINKED \<noteq> 0"
    using find_library_returns_linked [OF f assms(2)] s by (simp add: is_linked_def)
  have same: "keeps_libs w3 w'" using p2 by (rule calling.protection)
  show ?thesis
  proof (cases "si_name s \<in> set no_constructors")
    case True
    with c have "w3 = w2" by simp
    with keeps_libsD [OF same, of p s] s l True show ?thesis by metis
  next
    case False
    with c have cc: "CallConstructors os n p w2 = Some w3" by simp
    obtain t where t: "sos w3 p = Some t" "si_flags t = si_flags s"
      using keeps_libsD [OF calling.constructors [OF cc] s] by metis
    then have "si_constructors_called t" using CallConstructors_marks [OF cc] by simp
    with keeps_libsD [OF same t(1)] t(2) l show ?thesis by metis
  qed
qed

section \<open>Sequences of calls\<close>

text \<open>One call of a program, with the handle that it returns or takes.\<close>

datatype call = Opened "string option" u32 u32 | Closed u32

inductive call_step :: "win_api \<Rightarrow> world \<Rightarrow> call \<Rightarrow> world \<Rightarrow> bool" for os where
  opens: "s_dlopen os n name flags w = Some (p, w') \<Longrightarrow> call_step os w (Opened name flags p) w'"
| closes: "s_dlclose os n p w = Some (r, w') \<Longrightarrow> call_step os w (Closed p) w'"

inductive_cases call_stepE: "call_step os w c w'"

inductive session :: "win_api \<Rightarrow> world \<Rightarrow> call list \<Rightarrow> world \<Rightarrow> bool" for os where
  start: "session os w [] w"
| further: "session os w cs w1 \<Longrightarrow> call_step os w1 c w2 \<Longrightarrow> session os w (cs @ [c]) w2"

inductive_cases session_snocE: "session os w (cs @ [c]) w'"

context link_frame
begin

lemma one_call: "call_step os w c w' \<Longrightarrow> R w w'"
  by (erule call_stepE) (auto simp: s_dlopen_iff s_dlclose_def intro: dlopen dlclose)

lemma session: "session os w cs w' \<Longrightarrow> R w w'"
  by (induction rule: session.induct) (auto intro: refl trans one_call)

end

text \<open>The linker's state when the process starts: the globals' initial values, with \<open>libdl_info\<close> at \<open>L\<close>.\<close>

definition linker_start :: "u32 \<Rightarrow> libdl_layout \<Rightarrow> mach \<Rightarrow> world" where
  "linker_start L l m =
     \<lparr>mc = m, sos = [L \<mapsto> libdl_info l], gSoInfoPools = [], gSoInfoFreeList = 0, solist = L, sonext = L,
      somain = 0, gLdPaths = ['''', ''/system/lib'', ''/vendor/lib'', ''/data/local/tmp''], gLdPreloadNames = [],
      gLdPreloads = [], out_log = []\<rparr>"

lemma linker_start_inv: "L \<noteq> 0 \<Longrightarrow> so_inv (linker_start L l m) [L] []"
  by (simp add: so_inv_def linker_start_def libdl_info_def zero_soinfo_def)

lemma linker_start_quiet: "quiet L (linker_start L l m)"
  by (simp add: quiet_def ordinary_def linker_start_def libdl_info_def)

lemma session_start_registry:
  assumes run: "session os (linker_start L l m) cs w" and L: "L \<noteq> 0" and fresh: "fresh_pools (gSoInfoPools w) {L}"
  shows "\<exists>LS FL. so_inv w (L # LS) FL"
proof -
  let ?w = "linker_start L l m"
  have "gSoInfoPools ?w = []" "dom (sos ?w) = {L}" by (simp_all add: linker_start_def)
  moreover have "reg_step ?w w" using run by (rule listed.session)
  ultimately have "well_listed w"
    using fresh linker_start_inv [OF L, of l m] unfolding reg_step_def well_listed_def by auto
  then obtain LS FL where inv: "so_inv w LS FL" by (auto simp: well_listed_def)
  have "solist w = L" using idle.session [OF run] linker_start_quiet by (simp add: quiet_def)
  with so_invD(1,6) [OF inv] have "hd LS = L" by (cases LS) auto
  with so_invD(6) [OF inv] inv show ?thesis by (metis list.collapse)
qed

section \<open>A session\<close>

text \<open>A process without files that opens the main program and libdl.so and closes libdl.so.\<close>

definition demo_start :: world where
  "demo_start = linker_start 0x10000 demo_layout (mem_of 0 [])"

definition demo_opened :: world where
  "demo_opened = demo_start\<lparr>sos := [0x10000 \<mapsto> (libdl_info demo_layout)\<lparr>si_ref_count := 0x1000000, si_constructors_called := True\<rparr>]\<rparr>"

lemma no_pools_protection: "gSoInfoPools w = [] \<Longrightarrow> set_soinfo_pool_protection os prot w = Some w"
  by (simp add: set_soinfo_pool_protection_def)

lemma demo_open_null: "s_dlopen demo_api 1 None 0 demo_start = Some (0, demo_start)"
  by (simp add: s_dlopen_def do_dlopen_def no_pools_protection demo_start_def linker_start_def
      find_library_internal_def)

lemma demo_open_libdl: "s_dlopen demo_api 1 (Some ''libdl.so'') 0 demo_start = Some (0x10000, demo_opened)"
proof -
  have inv: "so_inv demo_start [0x10000] []" unfolding demo_start_def by (rule linker_start_inv) simp
  have o: "obj demo_start 0x10000 = libdl_info demo_layout" by (simp add: obj_def demo_start_def linker_start_def)
  have "find (\<lambda>p. si_name (obj demo_start p) = basename ''libdl.so'') [0x10000] = Some 0x10000"
    by (simp add: o libdl_info_def basename_def)
  from find_library_registered_eq [OF inv this, of demo_api 0] have
    "find_library demo_api 1 (Some ''libdl.so'') demo_start =
       Some (0x10000, put_si 0x10000 ((libdl_info demo_layout)\<lparr>si_ref_count := 0x1000000\<rparr>) demo_start)"
    by (simp add: o is_linked_def) (simp add: demo_start_def linker_start_def libdl_info_def)
  then show ?thesis
    by (simp add: s_dlopen_def do_dlopen_def no_pools_protection demo_start_def linker_start_def put_si_def
        no_constructors_def libdl_info_def zero_soinfo_def upd_si_def call_init_def CallFunction_def CallArray_def
        demo_opened_def del: find_library.simps)
qed

definition demo_closed :: world where
  "demo_closed = demo_opened\<lparr>sos :=
     [0x10000 \<mapsto> (libdl_info demo_layout)\<lparr>si_constructors_called := True, si_ref_count := 0xffffff\<rparr>]\<rparr>"

lemma demo_close_libdl: "s_dlclose demo_api 1 0x10000 demo_opened = Some (0, demo_closed)"
  by (simp add: s_dlclose_def do_dlclose_def no_pools_protection demo_opened_def demo_start_def linker_start_def
      upd_si_def demo_closed_def)

lemma demo_session:
  "session demo_api demo_start
     [Opened None 0 0, Opened (Some ''libdl.so'') 0 0x10000, Closed 0x10000] demo_closed"
proof -
  have "session demo_api demo_start [Opened None 0 0] demo_start"
    using session.further [OF session.start opens [OF demo_open_null]] by simp
  from session.further [OF session.further [OF this opens [OF demo_open_libdl]] closes [OF demo_close_libdl]]
  show ?thesis by simp
qed

section \<open>Properties\<close>

text \<open>
  C12: Every sequence of calls of \<open>dlopen\<close> and \<open>dlclose\<close> that a process makes from its start keeps the
  registry well formed, as long as each new pool lies where no object was: the global list and the free
  list are disjoint and end, \<open>sonext\<close> is the last entry of the global list, and the list still starts
  with libdl.so, which is never released.
\<close>

theorem session_keeps_registry:
  assumes "session os (linker_start L l m) cs w" and "L \<noteq> 0" and "fresh_pools (gSoInfoPools w) {L}"
  shows "\<exists>LS FL. so_inv w (L # LS) FL"
  using assms by (rule session_start_registry)

lemma session_keeps_registry_witness:
  "\<exists>LS FL. so_inv demo_closed (0x10000 # LS) FL"
  by (rule session_keeps_registry [OF demo_session [unfolded demo_start_def]])
    (simp_all add: demo_closed_def demo_opened_def demo_start_def linker_start_def)

text \<open>
  C34: In every state that a sequence of calls reaches from the start of the process, the parts of the
  linker for an executable are unused: \<open>somain\<close> is null, no library is preloaded and none has
  the flags of an executable or of the linker.  So \<open>dlopen\<close> of the main program never gives a handle.
\<close>

theorem session_without_executable:
  assumes "session os (linker_start L l m) cs w"
  shows "somain w = 0 \<and> gLdPreloads w = [] \<and>
    (\<forall>p s. sos w p = Some s \<longrightarrow> si_flags s AND (FLAG_EXE OR FLAG_LINKER) = 0) \<and>
    (\<forall>n flags p w'. s_dlopen os n None flags w = Some (p, w') \<longrightarrow> p = 0)"
proof -
  have q: "quiet L w" using idle.session [OF assms] linker_start_quiet by simp
  have "p = 0" if "s_dlopen os n None flags w = Some (p, w')" for n flags p w'
  proof (cases "flags AND NOT (RTLD_NOW OR RTLD_LAZY OR RTLD_LOCAL OR RTLD_GLOBAL) = 0")
    case False
    with that show ?thesis by (simp add: s_dlopen_iff do_dlopen_def)
  next
    case True
    with that obtain w1 q w2 where p1: "set_soinfo_pool_protection os (PROT_READ OR PROT_WRITE) w = Some w1"
      and f: "find_library os n None w1 = Some (q, w2)" and r: "p = q"
      unfolding s_dlopen_iff do_dlopen_def by (auto elim!: bind_eq_SomeE)
    have "somain w1 = 0" using idle.protection [OF p1] q by (simp add: quiet_def)
    with f r show ?thesis by (cases n) (auto simp: find_library_internal_def)
  qed
  with q show ?thesis by (auto simp: quiet_def ordinary_def)
qed

lemma session_without_executable_witness:
  "somain demo_closed = 0 \<and> gLdPreloads demo_closed = [] \<and> the (s_dlopen demo_api 1 None 0 demo_closed) = (0, demo_closed)"
proof -
  have "s_dlopen demo_api 1 None 0 demo_closed = Some (0, demo_closed)"
    by (simp add: s_dlopen_def do_dlopen_def no_pools_protection demo_closed_def demo_opened_def demo_start_def
        linker_start_def find_library_internal_def)
  then show ?thesis using session_without_executable [OF demo_session [unfolded demo_start_def]] by simp
qed

text \<open>
  C17: A handle that \<open>dlopen\<close> of a name returns is an object with the flag \<open>FLAG_LINKED\<close> in the state it
  returns, and the library's constructors have been called, except for the five system libraries
  whose constructors \<open>do_dlopen\<close> skips.
\<close>

theorem dlopen_returns_ready:
  assumes "s_dlopen os n (Some name) flags w = Some (p, w')" and "p \<noteq> 0"
  shows "\<exists>s. sos w' p = Some s \<and> si_flags s AND FLAG_LINKED \<noteq> 0 \<and>
    (si_constructors_called s \<or> si_name s \<in> set no_constructors)"
  using assms by (rule s_dlopen_ready)

lemma dlopen_returns_ready_witness:
  "\<exists>s. sos demo_opened 0x10000 = Some s \<and> si_flags s AND FLAG_LINKED \<noteq> 0 \<and>
    (si_constructors_called s \<or> si_name s \<in> set no_constructors)"
  using dlopen_returns_ready [OF demo_open_libdl] by simp

text \<open>
  C40: Closing the last reference to the first library of the list never returns: \<open>soinfo_free\<close> has no
  entry before it and writes through a null pointer.  Only the initial count of libdl.so, 0xffffff, keeps
  this from happening.
\<close>

theorem last_close_of_first_faults:
  assumes "sos w (solist w) = Some s" and "si_ref_count s = 1" and "sos w 0 = None"
  shows "s_dlclose os n (solist w) w = None"
proof (rule ccontr)
  let ?p = "solist w"
  assume "s_dlclose os n ?p w \<noteq> None"
  then obtain w1 w2 where p: "set_soinfo_pool_protection os (PROT_READ OR PROT_WRITE) w = Some w1"
    and u: "soinfo_unload os n ?p w1 = Some w2"
    unfolding s_dlclose_def do_dlclose_def by (auto elim!: bind_eq_SomeE)
  obtain k where n: "n = Suc k" using u by (cases n) auto
  have s1: "sos w1 = sos w" using p by (auto simp: set_soinfo_pool_protection_def elim!: bind_eq_SomeE)
  with u n assms(1,2) obtain w3 ok w4 and t :: soinfo and w5
    where d: "(if si_name s \<in> set no_destructors then Some w1 else CallDestructors os ?p w1) = Some w3"
      and k: "walk_dyn mc (unload_dyn (soinfo_unload os k) ?p) (si_dynamic s) w3 = Some (ok, w4)"
      and f: "soinfo_free ?p (w4\<lparr>mc := snd (s_munmap os (si_base t) (si_size t) (mc w4))\<rparr>) = Some w5"
    by (auto simp: Let_def elim!: bind_eq_SomeE)
  let ?w = "w4\<lparr>mc := snd (s_munmap os (si_base t) (si_size t) (mc w4))\<rparr>"
  note same = unloading.protection [OF p]
  moreover have "dom (sos w3) = dom (sos w1) \<and> solist w3 = solist w1"
    using d unloading.destructors by (auto split: if_splits)
  moreover have "dom (sos w4) = dom (sos w3) \<and> solist w4 = solist w3"
    using unloading.unload_walk_frame [OF k] unloading.unload by blast
  ultimately have w4: "dom (sos ?w) = dom (sos w)" "solist ?w = ?p" by simp_all
  have "?p \<noteq> 0" using assms(1,3) by auto
  then have "find_prev (sos ?w) ?p 0 (solist ?w) = Some (Some 0)"
    unfolding w4(2) by (subst find_prev.simps) simp
  moreover have "sos ?w 0 = None" using w4(1) assms(3) by (auto simp: domIff)
  ultimately have "soinfo_free ?p ?w = None"
    using \<open>?p \<noteq> 0\<close> by (simp add: soinfo_free_def upd_si_def)
  with f show False by simp
qed

lemma last_close_of_first_faults_witness:
  "s_dlclose demo_api 3 0x10000 (demo_start\<lparr>sos := [0x10000 \<mapsto> (libdl_info demo_layout)\<lparr>si_ref_count := 1\<rparr>]\<rparr>) = None"
proof -
  let ?w = "demo_start\<lparr>sos := [0x10000 \<mapsto> (libdl_info demo_layout)\<lparr>si_ref_count := 1\<rparr>]\<rparr>"
  have "solist ?w = 0x10000" by (simp add: demo_start_def linker_start_def)
  with last_close_of_first_faults [of ?w _ demo_api 3] show ?thesis by simp
qed

section \<open>The whole program\<close>

lemma main_is_session:
  assumes run: "main os uc n ra g_sp w = Some (r, w', v, e)"
    and engine: "fst (uc_open uc UC_ARCH_ARM UC_MODE_THUMB) = UC_ERR_OK"
  obtains h h2 h3 h4 h1 w5 si s where
    "session os w [Opened (Some ''libc.so'') 0 h, Opened (Some ''libm.so'') 0 h2, Opened (Some ''liblog.so'') 0 h3,
       Opened (Some ''libz.so'') 0 h4, Opened (Some ''libstdc++.so'') 0 h1] w5"
    and "s_dlopen os n (Some ''libsgmainso-6.0.71.so'') 0 w5 = Some (si, w')" and "sos w' si = Some s" and "r = 0"
proof -
  obtain h w1 h2 w2 h3 w3 h4 w4 h1 w5 si w6 fn v' e'
    where o: "s_dlopen os n (Some ''libc.so'') 0 w = Some (h, w1)"
      "s_dlopen os n (Some ''libm.so'') 0 w1 = Some (h2, w2)"
      "s_dlopen os n (Some ''liblog.so'') 0 w2 = Some (h3, w3)"
      "s_dlopen os n (Some ''libz.so'') 0 w3 = Some (h4, w4)"
      "s_dlopen os n (Some ''libstdc++.so'') 0 w4 = Some (h1, w5)"
      and l: "s_dlopen os n (Some ''libsgmainso-6.0.71.so'') 0 w5 = Some (si, w6)"
      and v: "start_vm uc g_sp w6 si fn = Some (v', e')" and r: "(0, w6, v', e') = (r, w', v, e)"
    using run unfolding main_def load_android_so_def by (auto elim!: bind_eq_SomeE)
  note S = session.further [OF _ opens]
  have "session os w ([] @ [Opened (Some ''libc.so'') 0 h]) w1" by (rule S [OF session.start o(1)])
  note S [OF S [OF S [OF S [OF this o(2)] o(3)] o(4)] o(5)]
  moreover obtain s where "sos w6 si = Some s"
    using v engine by (auto simp: start_vm_def split_def Let_def elim!: bind_eq_SomeE split: if_splits)
  ultimately show thesis using that l r by auto
qed

text \<open>A process with the library already loaded: 52 bytes at 0x40000000, with the symbol \<open>ab\<close> only.\<close>

definition demo_app_lib :: soinfo where
  "demo_app_lib = demo_lib\<lparr>si_name := ''libsgmainso-6.0.71.so'', si_size := 52, si_constructors_called := True\<rparr>"

definition demo_app :: world where
  "demo_app = demo_libs\<lparr>sos := (sos demo_libs)(0x20000 \<mapsto> demo_app_lib)\<rparr>"

definition demo_app_loaded :: world where
  "demo_app_loaded = demo_app\<lparr>sos := (sos demo_app)(0x20000 \<mapsto> demo_app_lib\<lparr>si_ref_count := 1\<rparr>)\<rparr>"

lemma demo_app_inv: "so_inv demo_app [0x10000, 0x20000] [0x30000]"
  by (simp add: so_inv_def demo_app_def demo_app_lib_def demo_defs)

lemma demo_app_names:
  "si_name (obj demo_app 0x10000) = ''libdl.so''" "si_name (obj demo_app 0x20000) = ''libsgmainso-6.0.71.so''"
  by (simp_all add: obj_def demo_app_def demo_app_lib_def demo_defs)

lemma demo_app_missing:
  assumes "basename name \<noteq> ''libdl.so''" and "basename name \<noteq> ''libsgmainso-6.0.71.so''"
  shows "s_dlopen demo_api 1 (Some name) 0 demo_app = Some (0, demo_app)"
proof -
  have "fs (mc demo_app) name = None" by (simp add: demo_app_def demo_libs_def mem_of_def)
  with find_library_missing_eq [OF demo_app_inv, of name demo_api 0] demo_app_names assms
  have "find_library demo_api 1 (Some name) demo_app = Some (0, demo_app)" by simp
  then show ?thesis
    by (simp add: s_dlopen_def do_dlopen_def no_pools_protection demo_app_def demo_defs del: find_library.simps)
qed

lemma demo_app_load: "s_dlopen demo_api 1 (Some ''libsgmainso-6.0.71.so'') 0 demo_app = Some (0x20000, demo_app_loaded)"
proof -
  have "find (\<lambda>p. si_name (obj demo_app p) = basename ''libsgmainso-6.0.71.so'') [0x10000, 0x20000] = Some 0x20000"
    by (simp add: demo_app_names basename_def)
  note f = find_library_registered_eq [OF demo_app_inv this, of demo_api 0]
  have o: "obj demo_app 0x20000 = demo_app_lib" "si_ref_count demo_app_lib = 0" "is_linked demo_app 0x20000"
    by (simp_all add: obj_def demo_app_def is_linked_def demo_app_lib_def demo_defs)
  from f have "find_library demo_api 1 (Some ''libsgmainso-6.0.71.so'') demo_app = Some (0x20000, demo_app_loaded)"
    by (simp add: o put_si_def demo_app_loaded_def del: find_library.simps)
  moreover have "gSoInfoPools demo_app = []" "gSoInfoPools demo_app_loaded = []"
    "sos demo_app_loaded 0x20000 = Some (demo_app_lib\<lparr>si_ref_count := 1\<rparr>)" "si_constructors_called demo_app_lib"
    by (simp_all add: demo_app_loaded_def demo_app_def demo_libs_def demo_registry_def demo_app_lib_def)
  ultimately show ?thesis
    by (simp add: s_dlopen_def do_dlopen_def no_pools_protection del: find_library.simps)
qed

lemma demo_app_dlsym: "s_dlsym demo_app_loaded 0 0x20000 (Some ''JNI_OnLoad'') = Some 0"
proof -
  let ?s = "demo_app_lib\<lparr>si_ref_count := 1\<rparr>"
  have "hash_table_ok (mc demo_libs) ?s [(demo_sym0, []), (demo_sym, ''ab'')]"
    using demo_table_ok' hash_table_ok_table [of ?s demo_lib] by (simp add: demo_app_lib_def)
  moreover have "mc demo_app_loaded = mc demo_libs" "sos demo_app_loaded 0x20000 = Some ?s"
    by (simp_all add: demo_app_loaded_def demo_app_def)
  moreover have "no_nul ''JNI_OnLoad''" by (simp add: no_nul_def char_byte_def)
  moreover have "\<not> exports [(demo_sym0, []), (demo_sym, ''ab'')] ''JNI_OnLoad'' i" for i
    by (auto simp: exports_def less_Suc_eq)
  ultimately show ?thesis
    using dlsym_handle_table [of demo_app_loaded ?s _ "0x20000" "''JNI_OnLoad''" 0] by simp
qed

lemma demo_app_main:
  "\<exists>e. main demo_api (recorder (\<lambda>_. UC_ERR_OK)) 1 0 0x7000 demo_app = Some (0, demo_app_loaded, 1, e)"
proof -
  let ?uc = "recorder (\<lambda>_. UC_ERR_OK)" and ?s = "demo_app_lib\<lparr>si_ref_count := 1\<rparr>"
  have s: "sos demo_app_loaded 0x20000 = Some ?s" by (simp add: demo_app_loaded_def)
  have f: "si_base demo_app_lib = 0x40000000" "si_size demo_app_lib = 52" "si_init_func demo_app_lib = 0"
    by (simp_all add: demo_app_lib_def demo_defs)
  have len: "length demo_tables = 52" by (simp add: demo_tables_def)
  have "load_bytes (mem_of 0x40000000 demo_tables) 0x40000000 (length demo_tables) = Some demo_tables"
    by (rule load_bytes_mem_of) (simp add: len)
  note this [unfolded len]
  then have l: "load_bytes (mc demo_app_loaded) (si_base ?s) (unat (si_size ?s)) = Some demo_tables"
    by (simp add: f demo_app_loaded_def demo_app_def demo_libs_def)
  have "uc_open ?uc UC_ARCH_ARM UC_MODE_THUMB = (UC_ERR_OK, [Uc_open UC_ARCH_ARM UC_MODE_THUMB])"
    "fst (uc_close ?uc x) = UC_ERR_OK" for x by (simp_all add: recorder_def)
  then have "\<exists>e. start_vm ?uc 0x7000 demo_app_loaded 0x20000 0 = Some (1, e)"
    using s l by (simp add: start_vm_def vm_setup_recorder vm_emulate_recorder f split_def)
  moreover have
    "s_dlopen demo_api 1 (Some ''libc.so'') 0 demo_app = Some (0, demo_app)"
    "s_dlopen demo_api 1 (Some ''libm.so'') 0 demo_app = Some (0, demo_app)"
    "s_dlopen demo_api 1 (Some ''liblog.so'') 0 demo_app = Some (0, demo_app)"
    "s_dlopen demo_api 1 (Some ''libz.so'') 0 demo_app = Some (0, demo_app)"
    "s_dlopen demo_api 1 (Some ''libstdc++.so'') 0 demo_app = Some (0, demo_app)"
    by (rule demo_app_missing; simp add: basename_def)+
  ultimately show ?thesis
    using demo_app_load demo_app_dlsym by (auto simp: main_def load_android_so_def)
qed

text \<open>
  C19: When \<open>main\<close> returns, with an engine that opens and with no object at address 0, it has made the six
  calls of \<open>dlopen\<close> in its order, the library that it emulates was really loaded: its handle is not null and is
  an object that is linked, with its constructors called; and \<open>main\<close> returns 0 whatever \<open>start_vm\<close>
  returned.  So \<open>main\<close> does not return when the library is missing: \<open>start_vm\<close> dereferences the null handle.
\<close>

theorem main_needs_library:
  assumes "main os uc n ra g_sp w = Some (r, w', v, e)"
    and "fst (uc_open uc UC_ARCH_ARM UC_MODE_THUMB) = UC_ERR_OK" and "sos w' 0 = None"
  shows "r = 0 \<and> (\<exists>h h2 h3 h4 h1 si s.
    session os w [Opened (Some ''libc.so'') 0 h, Opened (Some ''libm.so'') 0 h2, Opened (Some ''liblog.so'') 0 h3,
      Opened (Some ''libz.so'') 0 h4, Opened (Some ''libstdc++.so'') 0 h1,
      Opened (Some ''libsgmainso-6.0.71.so'') 0 si] w' \<and>
    si \<noteq> 0 \<and> sos w' si = Some s \<and> si_flags s AND FLAG_LINKED \<noteq> 0 \<and>
    (si_constructors_called s \<or> si_name s \<in> set no_constructors))"
proof -
  obtain h h2 h3 h4 h1 w5 si s where
    se: "session os w [Opened (Some ''libc.so'') 0 h, Opened (Some ''libm.so'') 0 h2, Opened (Some ''liblog.so'') 0 h3,
       Opened (Some ''libz.so'') 0 h4, Opened (Some ''libstdc++.so'') 0 h1] w5"
    and l: "s_dlopen os n (Some ''libsgmainso-6.0.71.so'') 0 w5 = Some (si, w')" and s: "sos w' si = Some s" and r: "r = 0"
    using main_is_session [OF assms(1,2)] by blast
  have n0: "si \<noteq> 0" using s assms(3) by auto
  have "si_flags s AND FLAG_LINKED \<noteq> 0 \<and> (si_constructors_called s \<or> si_name s \<in> set no_constructors)"
    using s_dlopen_ready [OF l n0] s by auto
  moreover have "session os w [Opened (Some ''libc.so'') 0 h, Opened (Some ''libm.so'') 0 h2,
      Opened (Some ''liblog.so'') 0 h3, Opened (Some ''libz.so'') 0 h4, Opened (Some ''libstdc++.so'') 0 h1,
      Opened (Some ''libsgmainso-6.0.71.so'') 0 si] w'"
    using session.further [OF se opens [OF l]] by simp
  ultimately show ?thesis using n0 s r by blast
qed

lemma main_needs_library_witness:
  "\<exists>h h2 h3 h4 h1 si s.
    session demo_api demo_app
      [Opened (Some ''libc.so'') 0 h, Opened (Some ''libm.so'') 0 h2, Opened (Some ''liblog.so'') 0 h3,
       Opened (Some ''libz.so'') 0 h4, Opened (Some ''libstdc++.so'') 0 h1,
       Opened (Some ''libsgmainso-6.0.71.so'') 0 si] demo_app_loaded \<and>
    si \<noteq> 0 \<and> sos demo_app_loaded si = Some s \<and> si_flags s AND FLAG_LINKED \<noteq> 0"
proof -
  obtain e where m: "main demo_api (recorder (\<lambda>_. UC_ERR_OK)) 1 0 0x7000 demo_app = Some (0, demo_app_loaded, 1, e)"
    using demo_app_main by blast
  have "fst (uc_open (recorder (\<lambda>_. UC_ERR_OK)) UC_ARCH_ARM UC_MODE_THUMB) = UC_ERR_OK" by (simp add: recorder_def)
  moreover have "sos demo_app_loaded 0 = None"
    by (simp add: demo_app_loaded_def demo_app_def demo_libs_def)
  ultimately show ?thesis using main_needs_library [OF m] by blast
qed

end
