(* ===== verification/Reads.thy ===== *)
theory Reads
  imports Relocate
begin

text \<open>
  What a computation reads.  A run of the linker's searches that returns with part of the memory hidden returns
  the same with that part in place, whatever it holds: \<open>mach_le m m'\<close> says that \<open>m'\<close> shows at least
  what \<open>m\<close> shows, and each function that only reads is monotone in it.  With this order a table of relocations
  is applied as a whole: its places are hidden while the symbols are looked up.
\<close>

section \<open>The order\<close>

definition mach_le :: "mach \<Rightarrow> mach \<Rightarrow> bool" where
  "mach_le m m' \<longleftrightarrow> vbytes m \<subseteq>\<^sub>m vbytes m'"

definition hide :: "u32 set \<Rightarrow> mach \<Rightarrow> mach" where
  "hide P m = m\<lparr>vbytes := vbytes m |` (- P)\<rparr>"

lemma mach_le_refl [simp]: "mach_le m m"
  by (simp add: mach_le_def)

lemma hide_le [simp]: "mach_le (hide P m) m"
  by (auto simp: mach_le_def hide_def map_le_def restrict_map_def)

lemma load8_hide: "load8 (hide P m) x = (if x \<in> P then None else load8 m x)"
  by (simp add: load8_def hide_def restrict_map_def)

lemma mach_le_agree: "\<forall>x. x \<notin> P \<longrightarrow> load8 m' x = load8 m x \<Longrightarrow> mach_le (hide P m) m'"
  by (auto simp: mach_le_def hide_def map_le_def restrict_map_def load8_def)

lemma mach_le_put_bytes:
  assumes "mach_le h m" and "\<forall>x. in_block a (length bs) x \<longrightarrow> load8 h x = None"
  shows "mach_le h (put_bytes a bs m)"
  using assms by (auto simp: mach_le_def map_le_def put_bytes_def load8_def)

lemma load8_mono: "load8 m a = Some b \<Longrightarrow> mach_le m m' \<Longrightarrow> load8 m' a = Some b"
  by (force simp: mach_le_def map_le_def load8_def dom_def)

section \<open>Reads and searches in a memory that shows more\<close>

text \<open>The memory \<open>m'\<close> shows what \<open>m\<close> shows; every read of \<open>m\<close> that returns, returns the same in \<open>m'\<close>.\<close>

locale shows_more =
  fixes m m' :: mach
  assumes le: "mach_le m m'"
begin

lemma load8_more: "load8 m a = Some b \<Longrightarrow> load8 m' a = Some b"
  by (rule load8_mono [OF _ le])

lemma load16_more: "load16 m a = Some v \<Longrightarrow> load16 m' a = Some v"
  unfolding load16_def by (auto simp: Option.bind_eq_Some_conv dest!: load8_more)

lemma load32_more: "load32 m a = Some v \<Longrightarrow> load32 m' a = Some v"
  unfolding load32_def by (auto simp: Option.bind_eq_Some_conv dest!: load8_more)

lemma read_sym_more: "read_sym m a = Some v \<Longrightarrow> read_sym m' a = Some v"
  unfolding read_sym_def by (auto simp: Option.bind_eq_Some_conv dest!: load8_more load16_more load32_more)

lemma read_rel_more: "read_rel m a = Some v \<Longrightarrow> read_rel m' a = Some v"
  unfolding read_rel_def by (auto simp: Option.bind_eq_Some_conv dest!: load32_more)

lemma read_dyn_more: "read_dyn m a = Some v \<Longrightarrow> read_dyn m' a = Some v"
  unfolding read_dyn_def by (auto simp: Option.bind_eq_Some_conv dest!: load32_more)

lemma rels_at_more: "rels_at m a rs \<Longrightarrow> rels_at m' a rs"
  by (induction rs arbitrary: a) (auto dest: read_rel_more)

lemma str_at_more: "str_at m a s \<Longrightarrow> str_at m' a s"
  by (induction s arbitrary: a) (auto dest: load8_more)

lemma strcmp_eq_more: "strcmp_eq m a s = Some v \<Longrightarrow> strcmp_eq m' a s = Some v"
  by (induction s arbitrary: a) (auto simp: Option.bind_eq_Some_conv dest!: load8_more split: if_splits)

lemma cstr_more:
  assumes "cstr m a = Some s"
  shows "cstr m' a = Some s"
proof -
  have "m = m1 \<longrightarrow> cstr m' a = Some s" if "cstr m1 a = Some s" for m1
    using that
  proof (rule cstr.raw_induct [where P = "\<lambda>m1 a s. m = m1 \<longrightarrow> cstr m' a = Some s", rotated])
    fix f m1 a s
    assume ih: "\<And>m1 a s. f m1 a = Some s \<Longrightarrow> m = m1 \<longrightarrow> cstr m' a = Some s"
      and run: "do { b \<leftarrow> load8 m1 a; (if b = 0 then Some [] else do { s \<leftarrow> f m1 (a + 1); Some (byte_char b # s) }) } = Some s"
    show "m = m1 \<longrightarrow> cstr m' a = Some s"
      using run ih load8_more
      by (subst cstr.simps) (auto simp: Option.bind_eq_Some_conv split: if_splits)
  qed
  with assms show ?thesis by blast
qed

lemma chain_lookup_more:
  assumes "chain_lookup m s name n = Some r"
  shows "chain_lookup m' s name n = Some r"
proof -
  have "m = m1 \<longrightarrow> chain_lookup m' s name n = Some r" if "chain_lookup m1 s name n = Some r" for m1
    using that
  proof (rule chain_lookup.raw_induct [where P = "\<lambda>m1 s name n r. m = m1 \<longrightarrow> chain_lookup m' s name n = Some r", rotated])
    fix f m1 s name n r
    assume ih: "\<And>m1 s name n r. f m1 s name n = Some r \<Longrightarrow> m = m1 \<longrightarrow> chain_lookup m' s name n = Some r"
      and run: "(if n = 0 then Some 0
        else do { sy \<leftarrow> read_sym m1 (sym_addr_of s n);
                  eq \<leftarrow> strcmp_eq m1 (si_strtab s + st_name sy) name;
                  (if eq \<and> exported sy then Some (sym_addr_of s n)
                   else do { n \<leftarrow> load32 m1 (si_chain s + 4 * n); f m1 s name n }) }) = Some r"
    show "m = m1 \<longrightarrow> chain_lookup m' s name n = Some r"
    proof (cases "n = 0")
      case True
      with run show ?thesis by (simp add: chain_lookup.simps)
    next
      case False
      with run obtain sy eq where sy: "read_sym m1 (sym_addr_of s n) = Some sy"
        and eq: "strcmp_eq m1 (si_strtab s + st_name sy) name = Some eq"
        and rest: "(if eq \<and> exported sy then Some (sym_addr_of s n)
          else do { n \<leftarrow> load32 m1 (si_chain s + 4 * n); f m1 s name n }) = Some r"
        by (auto simp: Option.bind_eq_Some_conv simp del: not_Some_eq)
      show ?thesis
      proof
        assume m: "m = m1"
        have here: "read_sym m' (sym_addr_of s n) = Some sy" "strcmp_eq m' (si_strtab s + st_name sy) name = Some eq"
          using sy eq read_sym_more strcmp_eq_more unfolding m by blast+
        show "chain_lookup m' s name n = Some r"
        proof (cases "eq \<and> exported sy")
          case True
          with here rest False show ?thesis by (subst chain_lookup.simps) simp
        next
          case no: False
          with rest obtain k where "load32 m1 (si_chain s + 4 * n) = Some k" "f m1 s name k = Some r"
            by (auto simp: Option.bind_eq_Some_conv)
          then have "load32 m' (si_chain s + 4 * n) = Some k" "chain_lookup m' s name k = Some r"
            using load32_more ih unfolding m by blast+
          with here no False show ?thesis by (subst chain_lookup.simps) auto
        qed
      qed
    qed
  qed
  with assms show ?thesis by blast
qed

lemma elf_lookup_more:
  "soinfo_elf_lookup (w\<lparr>mc := m\<rparr>) si h name = Some r \<Longrightarrow> soinfo_elf_lookup (w\<lparr>mc := m'\<rparr>) si h name = Some r"
  by (auto simp: soinfo_elf_lookup_def Option.bind_eq_Some_conv split: if_splits dest!: load32_more chain_lookup_more)

lemma lookup_in_more: "lookup_in (w\<lparr>mc := m\<rparr>) h si name = Some r \<Longrightarrow> lookup_in (w\<lparr>mc := m'\<rparr>) h si name = Some r"
  by (auto simp: lookup_in_def Option.bind_eq_Some_conv dest!: elf_lookup_more)

lemma lookup_array_more:
  "lookup_array (w\<lparr>mc := m\<rparr>) h name ps = Some r \<Longrightarrow> lookup_array (w\<lparr>mc := m'\<rparr>) h name ps = Some r"
  by (induction ps) (auto simp: Option.bind_eq_Some_conv split: if_splits dest!: lookup_in_more)

lemma lookup_local_more:
  "lookup_local (w\<lparr>mc := m\<rparr>) h name si = Some r \<Longrightarrow> lookup_local (w\<lparr>mc := m'\<rparr>) h name si = Some r"
  unfolding lookup_local_def
  by (auto simp: Option.bind_eq_Some_conv split: if_splits dest!: lookup_in_more)

lemma do_lookup_more:
  "soinfo_do_lookup (w\<lparr>mc := m\<rparr>) si name needed = Some r \<Longrightarrow> soinfo_do_lookup (w\<lparr>mc := m'\<rparr>) si name needed = Some r"
  unfolding soinfo_do_lookup_def Let_def
  by (auto simp: Option.bind_eq_Some_conv split: if_splits dest!: lookup_local_more lookup_array_more)

lemma reloc_symbol_more:
  assumes "reloc_symbol (w\<lparr>mc := m\<rparr>) si s needed tp k = Some r"
  shows "reloc_symbol (w\<lparr>mc := m'\<rparr>) si s needed tp k = Some r"
proof -
  from assms obtain sy name d lsi where sy: "read_sym m (sym_addr_of s k) = Some sy"
    and nm: "cstr m (si_strtab s + st_name sy) = Some name"
    and lk: "soinfo_do_lookup (w\<lparr>mc := m\<rparr>) si name needed = Some (d, lsi)"
    and rest: "(if d = 0 then Some (if ELF32_ST_BIND (st_info sy) \<noteq> STB_WEAK then None
        else if weak_ref_ok tp then Some (0, sy, name) else None)
      else do { dsy \<leftarrow> read_sym m d; l \<leftarrow> sos w lsi; Some (Some (st_value dsy + si_load_bias l, dsy, name)) }) = Some r"
    unfolding reloc_symbol_def by (auto simp: Option.bind_eq_Some_conv simp del: not_Some_eq not_None_eq STB_WEAK_def cong: if_cong)
  have "(if d = 0 then Some (if ELF32_ST_BIND (st_info sy) \<noteq> STB_WEAK then None
        else if weak_ref_ok tp then Some (0, sy, name) else None)
      else do { dsy \<leftarrow> read_sym m' d; l \<leftarrow> sos w lsi; Some (Some (st_value dsy + si_load_bias l, dsy, name)) }) = Some r"
    using rest by (cases "d = 0") (auto simp: Option.bind_eq_Some_conv dest!: read_sym_more)
  with read_sym_more [OF sy] cstr_more [OF nm] do_lookup_more [OF lk] show ?thesis
    by (simp add: reloc_symbol_def del: STB_WEAK_def cong: if_cong)
qed

end

interpretation hidden: shows_more "hide P m" m for P m
  by unfold_locales simp

end
