(* ===== verification/Reloc_Table.thy ===== *)
theory Reloc_Table
  imports Reads
begin

text \<open>
  A table of relocations as a whole.  The entries are applied one after the other to the image they relocate; when the
  places they write do not overlap, and nothing that the lookups read lies in them, the result does not depend on
  the order: every place gets the value that its entry has in the memory before.
\<close>

section \<open>The value of one entry\<close>

text \<open>The bytes that the entries \<open>rs\<close> write.\<close>

definition place_bytes :: "soinfo \<Rightarrow> Elf32_Rel list \<Rightarrow> u32 set" where
  "place_bytes s rs = (\<Union>r \<in> set rs. {x. in_block (place s r) 4 x})"

text \<open>The word that an entry of one of the five types leaves at its place, from the old one.\<close>

definition reloc_word :: "world \<Rightarrow> u32 \<Rightarrow> soinfo \<Rightarrow> u32 list \<Rightarrow> Elf32_Rel \<Rightarrow> u32 \<Rightarrow> u32 option" where
  "reloc_word w si s needed r old =
     (let tp = ELF32_R_TYPE (r_info r); k = ELF32_R_SYM (r_info r)
      in if relative r then Some (old + si_base s)
         else if \<not> word_reloc tp then None
         else if k = 0 then Some (reloc_value tp (r_offset r) 0 old)
         else do { sym \<leftarrow> reloc_symbol w si s needed tp k; (a, _) \<leftarrow> sym; Some (reloc_value tp (r_offset r) a old) })"

context shows_more
begin

lemma reloc_word_more:
  "reloc_word (w\<lparr>mc := m\<rparr>) si s needed r old = Some v \<Longrightarrow> reloc_word (w\<lparr>mc := m'\<rparr>) si s needed r old = Some v"
  unfolding reloc_word_def Let_def
  by (auto simp: Option.bind_eq_Some_conv split: if_splits dest!: reloc_symbol_more)

end

lemma word_reloc_not_none: "word_reloc tp \<Longrightarrow> tp \<noteq> R_ARM_NONE"
  by (auto simp: word_reloc_def)

lemma relocate_one_word:
  assumes v: "reloc_word w si s needed r old = Some v" and wr: "writable_block (mc w) (place s r) 4"
    and old: "load32 (mc w) (place s r) = Some old"
  shows "relocate_one w si s needed r = Some (True, w\<lparr>mc := put_bytes (place s r) (bytes32 v) (mc w)\<rparr>)"
proof (cases "relative r")
  case True
  with v have "v = old + si_base s" by (simp add: reloc_word_def)
  with True wr old show ?thesis by (simp add: relocate_one_relative on_mem_def add_word_eq)
next
  case False
  let ?tp = "ELF32_R_TYPE (r_info r)" and ?k = "ELF32_R_SYM (r_info r)"
  have tp: "word_reloc ?tp" using v False by (auto simp: reloc_word_def Let_def split: if_splits)
  note app = reloc_apply_word [OF tp wr old, of needed]
  show ?thesis
  proof (cases "?k = 0")
    case True
    with v False tp have "v = reloc_value ?tp (r_offset r) 0 old" by (simp add: reloc_word_def)
    with True app word_reloc_not_none [OF tp] show ?thesis by (simp add: relocate_one_def del: R_ARM_NONE_def)
  next
    case k: False
    with v False tp obtain a sy name where sym: "reloc_symbol w si s needed ?tp ?k = Some (Some (a, sy, name))"
      and "v = reloc_value ?tp (r_offset r) a old"
      by (auto simp: reloc_word_def Let_def Option.bind_eq_Some_conv)
    with k app word_reloc_not_none [OF tp] show ?thesis by (simp add: relocate_one_def del: R_ARM_NONE_def)
  qed
qed

section \<open>The loop\<close>

text \<open>No two entries write the same byte.\<close>

definition places_apart :: "soinfo \<Rightarrow> Elf32_Rel list \<Rightarrow> bool" where
  "places_apart s rs \<longleftrightarrow> sorted_wrt (\<lambda>r q. apart4 (place s r) (place s q)) rs"

lemma apart4_blocks: "apart4 a b \<Longrightarrow> in_block b 4 x \<Longrightarrow> \<not> in_block a 4 x"
  by (erule in_blockE) (simp add: apart4_not_in_block)

lemma load32_bytes: "(\<forall>x. in_block a 4 x \<longrightarrow> load8 m' x = load8 m x) \<Longrightarrow> load32 m' a = load32 m a"
  by (simp add: load32_def in_block_def)

text \<open>The memory \<open>h\<close> is what the table and the lookups need; no place lies in it.\<close>

lemma table_loop:
  assumes "mach_le h (mc w)" and "rels_at h a rs"
    and "\<forall>r \<in> set rs. writable_block (mc w) (place s r) 4 \<and> (\<forall>x. in_block (place s r) 4 x \<longrightarrow> load8 h x = None) \<and>
      (\<exists>old. load32 (mc w) (place s r) = Some old \<and> reloc_word (w\<lparr>mc := h\<rparr>) si s needed r old = Some (val r))"
    and "places_apart s rs"
  shows "\<exists>m'. relocate_loop w si s needed a (length rs) = Some (0, w\<lparr>mc := m'\<rparr>) \<and>
    (\<forall>r \<in> set rs. load32 m' (place s r) = Some (val r)) \<and>
    (\<forall>x. x \<notin> place_bytes s rs \<longrightarrow> load8 m' x = load8 (mc w) x) \<and>
    m'\<lparr>vbytes := vbytes (mc w)\<rparr> = mc w"
  using assms
proof (induction rs arbitrary: w a)
  case Nil
  then show ?case by (auto intro!: exI [of _ "mc w"])
next
  case (Cons r rs)
  let ?p = "place s r"
  let ?m = "put_bytes ?p (bytes32 (val r)) (mc w)"
  have more: "shows_more h (mc w)" by (rule shows_more.intro) (rule Cons.prems(1))
  have "read_rel h a = Some r" "rels_at h (a + sizeof_Rel) rs" using Cons.prems(2) by (simp_all del: sizeof_Rel_def)
  then have rd: "read_rel (mc w) a = Some r" by (simp add: shows_more.read_rel_more [OF more])
  from Cons.prems(3) obtain old where wr: "writable_block (mc w) ?p 4" and hid: "\<forall>x. in_block ?p 4 x \<longrightarrow> load8 h x = None"
    and old: "load32 (mc w) ?p = Some old" and v: "reloc_word (w\<lparr>mc := h\<rparr>) si s needed r old = Some (val r)" by auto
  have "reloc_word w si s needed r old = Some (val r)" using shows_more.reloc_word_more [OF more v] by simp
  then have one: "relocate_one w si s needed r = Some (True, w\<lparr>mc := ?m\<rparr>)" by (rule relocate_one_word [OF _ wr old])
  have ap: "places_apart s rs" and apr: "\<And>q. q \<in> set rs \<Longrightarrow> apart4 ?p (place s q)"
    using Cons.prems(4) by (simp_all add: places_apart_def)
  have le: "mach_le h ?m" by (rule mach_le_put_bytes [OF Cons.prems(1)]) (simp add: hid)
  have rest: "writable_block ?m (place s q) 4 \<and> (\<forall>x. in_block (place s q) 4 x \<longrightarrow> load8 h x = None) \<and>
      (\<exists>old. load32 ?m (place s q) = Some old \<and> reloc_word (w\<lparr>mc := h\<rparr>) si s needed q old = Some (val q))"
    if q: "q \<in> set rs" for q
    using Cons.prems(3) q word_at_place(2) [OF wr apr [OF q]] wr by simp
  obtain m' where loop: "relocate_loop (w\<lparr>mc := ?m\<rparr>) si s needed (a + sizeof_Rel) (length rs) = Some (0, w\<lparr>mc := m'\<rparr>)"
    and here: "\<And>q. q \<in> set rs \<Longrightarrow> load32 m' (place s q) = Some (val q)"
    and there: "\<And>x. x \<notin> place_bytes s rs \<Longrightarrow> load8 m' x = load8 ?m x"
    and eq: "m'\<lparr>vbytes := vbytes ?m\<rparr> = ?m"
    using Cons.IH [of "w\<lparr>mc := ?m\<rparr>" "a + sizeof_Rel"] le \<open>rels_at h (a + sizeof_Rel) rs\<close> rest ap
    by auto
  have run: "relocate_loop w si s needed a (length (r # rs)) = Some (0, w\<lparr>mc := m'\<rparr>)"
    using rd one loop by simp
  have "\<forall>x. in_block ?p 4 x \<longrightarrow> load8 m' x = load8 ?m x"
    using there apr apart4_blocks apart4_sym unfolding place_bytes_def by blast
  then have "load32 m' ?p = load32 ?m ?p" by (rule load32_bytes)
  then have hr: "load32 m' ?p = Some (val r)" using word_at_place(1) [OF wr] by simp
  have fr: "load8 m' x = load8 (mc w) x" if "x \<notin> place_bytes s (r # rs)" for x
    using that there [of x] by (simp add: place_bytes_def load8_put_bytes)
  have "m'\<lparr>vbytes := vbytes (mc w)\<rparr> = mc w"
    using arg_cong [OF eq, of "\<lambda>m. m\<lparr>vbytes := vbytes (mc w)\<rparr>"] by (simp add: put_bytes_def)
  with run hr here fr show ?case by auto
qed

section \<open>Properties\<close>

text \<open>
  C15: A relocation table of relative entries and references to symbols is applied completely.  When its places are
  writable and do not overlap, and when the table can be read and every symbol resolved with the bytes of the
  places hidden, every place holds afterwards the value that its entry has in the memory before (the old word plus
  the base, the symbol's address, their sum), no other byte has changed, and the result is 0.
\<close>

theorem relocate_whole_table:
  assumes "sos w si = Some s" and "length rs < 4294967296"
    and "rels_at (hide (place_bytes s rs) (mc w)) rel rs" and "places_apart s rs"
    and "\<forall>r \<in> set rs. writable_block (mc w) (place s r) 4 \<and> (\<exists>old. load32 (mc w) (place s r) = Some old \<and>
      reloc_word (w\<lparr>mc := hide (place_bytes s rs) (mc w)\<rparr>) si s needed r old = Some (val r))"
  shows "\<exists>m'. soinfo_relocate w si rel (of_nat (length rs)) needed = Some (0, w\<lparr>mc := m'\<rparr>) \<and>
    (\<forall>r \<in> set rs. load32 m' (place s r) = Some (val r)) \<and>
    (\<forall>x. x \<notin> place_bytes s rs \<longrightarrow> load8 m' x = load8 (mc w) x) \<and> m'\<lparr>vbytes := vbytes (mc w)\<rparr> = mc w"
proof -
  have "load8 (hide (place_bytes s rs) (mc w)) x = None" if "r \<in> set rs" "in_block (place s r) 4 x" for r x
    using that by (auto simp: load8_hide place_bytes_def)
  with table_loop [OF hide_le assms(3) _ assms(4), of si needed val] assms(1,2,5) show ?thesis
    by (simp add: soinfo_relocate_def)
qed

text \<open>
  The library of \<open>demo_libs\<close> with a table of two entries behind its tables, at 0x40000034: a reference to its
  symbol \<open>ab\<close>, and a relative one.
\<close>

definition demo_table_bytes :: "u8 list" where
  "demo_table_bytes = demo_tables @
     [0x44, 0, 0, 0, 0x15, 1, 0, 0,  0x48, 0, 0, 0, 0x17, 0, 0, 0,  0, 0, 0, 0,  9, 0, 0, 0]"

definition demo_table :: "Elf32_Rel list" where
  "demo_table = [\<lparr>r_offset = 0x44, r_info = 0x115\<rparr>, \<lparr>r_offset = 0x48, r_info = 0x17\<rparr>]"

definition demo_table_world :: world where
  "demo_table_world = demo_libs\<lparr>mc := mem_of 0x40000000 demo_table_bytes\<rparr>"

lemma length_demo_tables: "length demo_tables = 52" "length demo_table_bytes = 76"
  by (simp_all add: demo_tables_def demo_table_bytes_def)

lemma demo_table_load8:
  "load8 (mem_of 0x40000000 demo_table_bytes) a =
     (if unat (a - 0x40000000) < 76 then Some (demo_table_bytes ! unat (a - 0x40000000)) else None)"
  by (simp add: load8_def mem_of_def in_block_def length_demo_tables)

lemma demo_table_places:
  "place demo_lib \<lparr>r_offset = 0x44, r_info = 0x115\<rparr> = 0x40000044" "place demo_lib \<lparr>r_offset = 0x48, r_info = 0x17\<rparr> = 0x40000048"
  by (simp_all add: place_def demo_defs)

lemma in_block_after: "in_block (a + of_nat k) n x \<Longrightarrow> k + n \<le> 4294967296 \<Longrightarrow> k \<le> unat (x - a)"
proof (erule in_blockE)
  fix i assume i: "k + n \<le> 4294967296" "i < n" and x: "x = a + of_nat k + of_nat i"
  have "x - a = of_nat (k + i)" by (simp add: x)
  moreover have "unat (of_nat (k + i) :: u32) = k + i" using i by (intro unat_of_nat_u32) linarith
  ultimately show "k \<le> unat (x - a)" by (simp only:)
qed

lemma demo_place_bytes: "x \<in> place_bytes demo_lib demo_table \<Longrightarrow> 68 \<le> unat (x - 0x40000000)"
  using in_block_after [of "0x40000000" 68 4 x] in_block_after [of "0x40000000" 72 4 x]
  by (auto simp: place_bytes_def demo_table_def demo_table_places)

lemma demo_table_shows: "mach_le (mc demo_libs) (hide (place_bytes demo_lib demo_table) (mc demo_table_world))"
proof -
  have "load8 (hide (place_bytes demo_lib demo_table) (mem_of 0x40000000 demo_table_bytes)) a = Some b"
    if "load8 (mem_of 0x40000000 demo_tables) a = Some b" for a b
    using that demo_place_bytes [of a]
    by (auto simp: load8_hide demo_table_load8 demo_load8 split: if_splits)
      (simp_all add: demo_table_bytes_def nth_append length_demo_tables)
  then show ?thesis
    unfolding mach_le_def map_le_def by (auto simp: demo_lib_is(2) demo_table_world_def load8_def dom_def)
qed

lemma demo_table_reads: "rels_at (hide (place_bytes demo_lib demo_table) (mc demo_table_world)) 0x40000034 demo_table"
proof -
  have "load8 (hide (place_bytes demo_lib demo_table) (mem_of 0x40000000 demo_table_bytes)) a =
      Some (demo_table_bytes ! unat (a - 0x40000000))" if "unat (a - 0x40000000) < 68" for a
    using that demo_place_bytes [of a] by (auto simp: load8_hide demo_table_load8)
  then show ?thesis
    by (simp add: demo_table_def demo_table_world_def read_rel_def load32_def)
      (simp add: demo_table_bytes_def nth_append length_demo_tables le32_def)
qed

lemma demo_table_symbol: "reloc_symbol demo_libs 0x20000 demo_lib [0x10000, 0x20000] 0x15 1 =
    Some (Some (0x40000100, demo_sym, ''ab''))"
proof -
  have b: "si_has_DT_SYMBOLIC demo_lib = False" "si_load_bias demo_lib = 0x40000000" by (simp_all add: demo_defs)
  have d: "read_sym (mc demo_libs) 0x40000020 = Some demo_sym" using demo_read_sym1 by (simp add: demo_lib_is(2))
  from reloc_symbol_eq [OF _ demo_lib_is(1) demo_sym_at, of "[0x10000, 0x20000]", unfolded b, OF _ demo_scope(1)] d
  show ?thesis by (simp add: demo_lib_is(1) b demo_sym_def)
qed

lemma relocate_whole_table_witness:
  "\<exists>m'. soinfo_relocate demo_table_world 0x20000 0x40000034 2 [0x10000, 0x20000] =
       Some (0, demo_table_world\<lparr>mc := m'\<rparr>) \<and>
     load32 m' 0x40000044 = Some 0x40000100 \<and> load32 m' 0x40000048 = Some 0x40000009"
proof -
  let ?h = "hide (place_bytes demo_lib demo_table) (mc demo_table_world)"
  let ?r = "\<lparr>r_offset = 0x44, r_info = 0x115\<rparr>" and ?q = "\<lparr>r_offset = 0x48, r_info = 0x17\<rparr>"
  let ?val = "\<lambda>r. if r_offset r = 0x44 then 0x40000100 else 0x40000009"
  have s: "sos demo_table_world 0x20000 = Some demo_lib" using demo_lib_is(1) by (simp add: demo_table_world_def)
  have r: "ELF32_R_SYM 0x115 = 1" "ELF32_R_TYPE 0x115 = 0x15" "ELF32_R_SYM 0x17 = 0" "ELF32_R_TYPE 0x17 = 0x17"
    by (simp_all add: ELF32_R_SYM_def ELF32_R_TYPE_def drop_bit_eq_div)
  have "demo_libs\<lparr>mc := mc demo_libs\<rparr> = demo_libs" "demo_libs\<lparr>mc := ?h\<rparr> = demo_table_world\<lparr>mc := ?h\<rparr>"
    by (simp_all add: demo_table_world_def)
  with shows_more.reloc_symbol_more [OF shows_more.intro [OF demo_table_shows], of demo_libs] demo_table_symbol
  have "reloc_symbol (demo_table_world\<lparr>mc := ?h\<rparr>) 0x20000 demo_lib [0x10000, 0x20000] 0x15 1 =
      Some (Some (0x40000100, demo_sym, ''ab''))" by metis
  then have v1: "reloc_word (demo_table_world\<lparr>mc := ?h\<rparr>) 0x20000 demo_lib [0x10000, 0x20000] ?r 0 = Some 0x40000100"
    by (simp add: reloc_word_def r relative_def word_reloc_def reloc_value_def)
  have v2: "reloc_word (demo_table_world\<lparr>mc := ?h\<rparr>) 0x20000 demo_lib [0x10000, 0x20000] ?q 9 = Some 0x40000009"
    by (simp add: reloc_word_def r relative_def demo_defs)
  have old: "load32 (mc demo_table_world) 0x40000044 = Some 0" "load32 (mc demo_table_world) 0x40000048 = Some 9"
    by (simp_all add: demo_table_world_def load32_def demo_table_load8)
      (simp_all add: demo_table_bytes_def demo_tables_def le32_def)
  have wr: "writable_block (mc demo_table_world) 0x40000044 4" "writable_block (mc demo_table_world) 0x40000048 4"
    using mem_of_writable [of 68 4 demo_table_bytes "0x40000000"] mem_of_writable [of 72 4 demo_table_bytes "0x40000000"]
    by (simp_all add: demo_table_world_def length_demo_tables)
  have ap: "places_apart demo_lib demo_table"
    by (simp add: places_apart_def demo_table_def demo_table_places apart4_def)
  have "\<forall>r \<in> set demo_table. writable_block (mc demo_table_world) (place demo_lib r) 4 \<and>
      (\<exists>old. load32 (mc demo_table_world) (place demo_lib r) = Some old \<and>
        reloc_word (demo_table_world\<lparr>mc := ?h\<rparr>) 0x20000 demo_lib [0x10000, 0x20000] r old = Some (?val r))"
    using v1 v2 old wr by (simp add: demo_table_def demo_table_places)
  from relocate_whole_table [OF s _ demo_table_reads ap this]
  obtain m' where m': "soinfo_relocate demo_table_world 0x20000 0x40000034 (of_nat (length demo_table)) [0x10000, 0x20000] =
      Some (0, demo_table_world\<lparr>mc := m'\<rparr>)"
    "\<forall>r \<in> set demo_table. load32 m' (place demo_lib r) = Some (?val r)" by (auto simp: demo_table_def)
  have "load32 m' 0x40000044 = Some 0x40000100" "load32 m' 0x40000048 = Some 0x40000009"
    using m'(2) by (simp_all add: demo_table_def demo_table_places)
  with m'(1) show ?thesis by (auto simp: demo_table_def)
qed

end
