(* ===== verification/Load_File.thy ===== *)
theory Load_File
  imports Segment_Image
begin

text \<open>
  \<open>ElfReader::Load\<close> from end to end: for a well-formed file, and a system that grants the view of
  the program header table and the block of memory, it returns with the image of every
  segment in memory and with the address of the table in that image.
\<close>

section \<open>What the system provides\<close>

definition fresh_block :: "mach \<Rightarrow> u32 \<Rightarrow> nat \<Rightarrow> bool" where
  "fresh_block m a n \<longleftrightarrow> unat a + n \<le> 4294967296 \<and> (\<forall>x. in_block a n x \<longrightarrow> load8 m x = None)"

definition same_outside :: "mach \<Rightarrow> mach \<Rightarrow> u32 \<Rightarrow> nat \<Rightarrow> bool" where
  "same_outside m m' a n \<longleftrightarrow>
     fds m' = fds m \<and> fs m' = fs m \<and> (\<forall>x. \<not> in_block a n x \<longrightarrow> load8 m' x = load8 m x \<and> vwr m' x = vwr m x)"

text \<open>
  The calls that map \<open>len\<close> bytes of a file from \<open>off\<close> for reading succeed: the view, at \<open>a\<close>, is a new block on a
  page boundary, within the file, and shows the file's bytes.
\<close>

definition view_granted :: "win_api \<Rightarrow> int \<Rightarrow> u8 list \<Rightarrow> u32 \<Rightarrow> u32 \<Rightarrow> mach \<Rightarrow> u32 \<Rightarrow> mach \<Rightarrow> bool" where
  "view_granted os fd bs off len m a m' \<longleftrightarrow>
     (let h = get_osfhandle os fd m;
          (fm, m1) = CreateFileMappingA os h PAGE_READONLY 0 (off + len) m;
          (p, m2) = MapViewOfFile os fm FILE_MAP_READ 0 off len m1
      in h \<noteq> INVALID_HANDLE_VALUE \<and> fm \<noteq> 0 \<and> p = a \<and> m' = CloseHandle os fm m2) \<and>
     a \<noteq> 0 \<and> 4096 dvd unat a \<and> unat off + unat len \<le> length bs \<and>
     fresh_block m a (unat len) \<and> same_outside m m' a (unat len) \<and>
     (\<forall>i < unat len. load8 m' (a + of_nat i) = Some (bs ! (unat off + i)))"

text \<open>
  \<open>VirtualAlloc\<close> succeeds: the block, at \<open>p\<close>, is new, on a page boundary, below the last page, writable and zero.
\<close>

definition block_granted :: "win_api \<Rightarrow> u32 \<Rightarrow> mach \<Rightarrow> u32 \<Rightarrow> mach \<Rightarrow> bool" where
  "block_granted os len m p m' \<longleftrightarrow>
     VirtualAlloc os 0 len MEM_COMMIT PAGE_READWRITE m = (p, m') \<and>
     p \<noteq> 0 \<and> 4096 dvd unat p \<and> unat p + unat len + 4096 \<le> 4294967296 \<and>
     fresh_block m p (unat len) \<and> same_outside m m' p (unat len) \<and>
     (\<forall>x. in_block p (unat len) x \<longrightarrow> load8 m' x = Some 0 \<and> vwr m' x)"

section \<open>A well-formed file\<close>

definition phdr_in :: "u8 list \<Rightarrow> nat \<Rightarrow> Elf32_Phdr" where
  "phdr_in bs i =
     \<lparr>p_type = word_at bs i, p_offset = word_at bs (i + 4), p_vaddr = word_at bs (i + 8),
      p_paddr = word_at bs (i + 12), p_filesz = word_at bs (i + 16), p_memsz = word_at bs (i + 20),
      p_flags = word_at bs (i + 24), p_align = word_at bs (i + 28)\<rparr>"

fun phdrs_in :: "u8 list \<Rightarrow> nat \<Rightarrow> nat \<Rightarrow> Elf32_Phdr list" where
  "phdrs_in bs i 0 = []"
| "phdrs_in bs i (Suc n) = phdr_in bs i # phdrs_in bs (i + 32) n"

lemma length_phdrs_in [simp]: "length (phdrs_in bs i n) = n"
  by (induction n arbitrary: i) auto

definition seg_in_file :: "u8 list \<Rightarrow> Elf32_Phdr \<Rightarrow> bool" where
  "seg_in_file bs ph \<longleftrightarrow>
     fits ph \<and> p_filesz ph \<le> p_memsz ph \<and> unat (p_offset ph) + unat (p_filesz ph) \<le> length bs \<and>
     PAGE_OFFSET (p_offset ph) = PAGE_OFFSET (p_vaddr ph) \<and>
     PFLAGS_TO_PROT (p_flags ph) \<noteq> PROT_EXEC \<and> PFLAGS_TO_PROT (p_flags ph) \<noteq> PROT_NONE"

text \<open>
  The table's \<open>len\<close> bytes at \<open>off\<close> are part of a loadable segment, and \<open>FindPhdr\<close> looks for them there: a
  \<open>PT_PHDR\<close> entry gives their address, or the segment is the first one and holds the file's start.
\<close>

definition table_loaded :: "u32 \<Rightarrow> Elf32_Phdr list \<Rightarrow> Elf32_Phdr \<Rightarrow> bool" where
  "table_loaded off ps ph \<longleftrightarrow>
     p_offset ph \<le> off \<and>
     unat off + 32 * length ps \<le> unat (p_offset ph) + unat (p_filesz ph) \<and>
     (case find (\<lambda>q. p_type q = PT_PHDR) ps of
        Some q \<Rightarrow> p_vaddr q = p_vaddr ph + (off - p_offset ph)
      | None \<Rightarrow> ph = hd (loads ps) \<and> p_offset ph = 0 \<and> 32 \<le> unat (p_filesz ph))"

definition file_header :: "u8 list \<Rightarrow> Elf32_Ehdr" where
  "file_header bs = decode_ehdr (take 52 bs)"

definition file_phdrs :: "u8 list \<Rightarrow> Elf32_Phdr list" where
  "file_phdrs bs = phdrs_in bs (unat (e_phoff (file_header bs))) (unat (e_phnum (file_header bs)))"

definition elf_file :: "u8 list \<Rightarrow> bool" where
  "elf_file bs \<longleftrightarrow>
     52 \<le> length bs \<and> length bs + 4096 < 4294967296 \<and> VerifyElfHeader (file_header bs) \<and>
     1 \<le> length (file_phdrs bs) \<and> length (file_phdrs bs) \<le> 2048 \<and>
     (\<exists>ph \<in> set (loads (file_phdrs bs)). table_loaded (e_phoff (file_header bs)) (file_phdrs bs) ph) \<and>
     (\<forall>ph \<in> set (loads (file_phdrs bs)). seg_in_file bs ph) \<and>
     foot_disjoint (seg_foot 0) (loads (file_phdrs bs))"

section \<open>Structures that memory shows as the file has them\<close>

definition mirrors :: "mach \<Rightarrow> u32 \<Rightarrow> u8 list \<Rightarrow> nat \<Rightarrow> nat \<Rightarrow> bool" where
  "mirrors m a bs k n \<longleftrightarrow> k + n \<le> length bs \<and> (\<forall>i < n. load8 m (a + of_nat i) = Some (bs ! (k + i)))"

lemma mirrorsD:
  assumes "mirrors m a bs k n"
  shows "k + n \<le> length bs" and "i < n \<Longrightarrow> load8 m (a + of_nat i) = Some (bs ! (k + i))"
  using assms by (simp_all add: mirrors_def)

lemma mirrors_load32:
  assumes "mirrors m a bs k n" and "i + 4 \<le> n"
  shows "load32 m (a + of_nat i) = Some (word_at bs (k + i))"
proof -
  have "load8 m (a + of_nat (i + j)) = Some (bs ! (k + (i + j)))" if "j < 4" for j
    by (rule mirrorsD(2) [OF assms(1)]) (use that assms(2) in simp)
  from this [of 0] this [of 1] this [of 2] this [of 3] assms(2) mirrorsD(1) [OF assms(1)] show ?thesis
    by (simp add: load32_def word_at_def byte_at_def ac_simps)
qed

lemma mirrors_tail:
  assumes "mirrors m a bs k (j + n)"
  shows "mirrors m (a + of_nat j) bs (k + j) n"
  unfolding mirrors_def
proof (intro conjI allI impI)
  show "k + j + n \<le> length bs" using mirrorsD(1) [OF assms] by simp
  fix i assume "i < n"
  then have "load8 m (a + of_nat (j + i)) = Some (bs ! (k + (j + i)))" by (intro mirrorsD(2) [OF assms]) simp
  then show "load8 m (a + of_nat j + of_nat i) = Some (bs ! (k + j + i))" by (simp only: of_nat_add add.assoc)
qed

lemma mirrors_phdr: "mirrors m a bs k n \<Longrightarrow> 32 \<le> n \<Longrightarrow> read_phdr m a = Some (phdr_in bs k)"
  using mirrors_load32 [of m a bs k n 0] mirrors_load32 [of m a bs k n 4] mirrors_load32 [of m a bs k n 8]
    mirrors_load32 [of m a bs k n 12] mirrors_load32 [of m a bs k n 16] mirrors_load32 [of m a bs k n 20]
    mirrors_load32 [of m a bs k n 24] mirrors_load32 [of m a bs k n 28]
  by (simp add: read_phdr_def phdr_in_def)

lemma mirrors_phdrs: "mirrors m a bs k (32 * n) \<Longrightarrow> phdrs_at m a (phdrs_in bs k n)"
proof (induction n arbitrary: a k)
  case 0
  then show ?case by simp
next
  case (Suc n)
  then have s: "mirrors m a bs k (32 + 32 * n)" by simp
  from mirrors_phdr [OF s] mirrors_tail [OF s] Suc.IH [of "a + 32" "k + 32"] show ?case by simp
qed

section \<open>The first three steps\<close>

lemma reads_header:
  assumes "fd_file m fd = Some \<lparr>f_data = bs, f_pos = 0\<rparr>" and "52 \<le> length bs"
  shows "ReadElfHeader (ElfReader name fd) m =
    (True, (ElfReader name fd)\<lparr>er_header := file_header bs\<rparr>, set_fd fd (Some \<lparr>f_data = bs, f_pos = 52\<rparr>) m)"
  using assms by (simp add: ReadElfHeader_def c_read_def ElfReader_def file_header_def Let_def min_absorb2)

lemma table_span:
  assumes "unat off + 32 * n \<le> k" and "k + 4096 < 4294967296" and "n \<le> 2048" and "1 \<le> n"
  defines "len \<equiv> PAGE_END (off + of_nat n * 32) - PAGE_START off"
  shows "len \<noteq> 0" and "unat (PAGE_OFFSET off) + 32 * n \<le> unat len"
proof -
  have n: "unat (of_nat n * 32 :: u32) = 32 * n" using assms(3) by (simp add: unat_word_ariths unat_of_nat_u32)
  then have e: "unat (off + of_nat n * 32) = unat off + 32 * n" using assms(1,2) by (simp add: unat_add_no_wrap)
  with assms(1,2) have "unat off + 32 * n \<le> unat (PAGE_END (off + of_nat n * 32))"
    using PAGE_END_least(1) [of "off + of_nat n * 32"] by simp
  moreover have "unat (PAGE_START off) + unat (PAGE_OFFSET off) = unat off"
    by (simp add: unat_PAGE_START unat_PAGE_OFFSET)
  ultimately have "unat (PAGE_OFFSET off) + 32 * n + unat (PAGE_START off) \<le> unat (PAGE_END (off + of_nat n * 32))"
    by linarith
  then show "unat (PAGE_OFFSET off) + 32 * n \<le> unat len"
    unfolding len_def by (simp add: unat_sub word_le_nat_alt)
  then show "len \<noteq> 0" using assms(4) by auto
qed

lemma view_is_mmap:
  assumes "view_granted os fd bs off len m a m'" and "len \<noteq> 0" and "fd \<noteq> -1"
  shows "s_mmap os 0 len PROT_READ MAP_PRIVATE fd off m = (a, m')"
  using assms by (auto simp: view_granted_def s_mmap_def s_mmap_view_def map_mmap_prot_page_def map_mmap_prot_file_def
      Let_def split: prod.splits)

lemma view_mirrors:
  assumes v: "view_granted os fd bs (PAGE_START off) len m a m'" and n: "unat (PAGE_OFFSET off) + k \<le> unat len"
  shows "mirrors m' (a + PAGE_OFFSET off) bs (unat off) k"
proof -
  let ?o = "unat (PAGE_OFFSET off)"
  have s: "unat (PAGE_START off) + ?o = unat off" by (simp add: unat_PAGE_START unat_PAGE_OFFSET)
  have "mirrors m' a bs (unat (PAGE_START off)) (?o + k)"
    using v n by (auto simp: view_granted_def mirrors_def)
  from mirrors_tail [OF this] show ?thesis by (simp add: s)
qed

definition table_len :: "u32 \<Rightarrow> nat \<Rightarrow> u32" where
  "table_len off n = PAGE_END (off + of_nat n * 32) - PAGE_START off"

lemma reads_table:
  assumes v: "view_granted os (er_fd r) bs (PAGE_START (e_phoff h)) (table_len (e_phoff h) (unat (e_phnum h))) m a m'"
    and h: "er_header r = h" and n: "1 \<le> unat (e_phnum h)" "unat (e_phnum h) \<le> 2048"
    and k: "unat (e_phoff h) + 32 * unat (e_phnum h) \<le> k" "k + 4096 < 4294967296" and fd: "er_fd r \<noteq> -1"
  shows "ReadProgramHeader os r m =
    (True, r\<lparr>er_phdr_num := ucast (e_phnum h), er_phdr_size := table_len (e_phoff h) (unat (e_phnum h)),
             er_phdr_mmap := a, er_phdr_table := a + PAGE_OFFSET (e_phoff h)\<rparr>, m')"
proof -
  have w: "of_nat (unat (e_phnum h)) = (ucast (e_phnum h) :: u32)" by simp
  have u: "unat (ucast (e_phnum h) :: u32) = unat (e_phnum h)" by simp
  have "\<not> (ucast (e_phnum h) < (1 :: u32) \<or> ucast (e_phnum h) > (2048 :: u32))"
    using n by (simp add: word_less_nat_alt u)
  moreover note t = table_span [OF k n(2,1)]
  have "s_mmap os 0 (table_len (e_phoff h) (unat (e_phnum h))) PROT_READ MAP_PRIVATE (er_fd r) (PAGE_START (e_phoff h)) m = (a, m')"
    using view_is_mmap [OF v _ fd] t(1) by (simp add: table_len_def)
  moreover have "a \<noteq> MAP_FAILED" using v not_aligned_MAP_FAILED by (simp add: view_granted_def)
  ultimately show ?thesis by (simp add: ReadProgramHeader_def h table_len_def w Let_def)
qed

section \<open>Placing the segments\<close>

definition load_min :: "Elf32_Phdr list \<Rightarrow> u32" where
  "load_min ps = PAGE_START (Min (insert 0xFFFFFFFF (p_vaddr ` set (loads ps))))"

definition load_max :: "Elf32_Phdr list \<Rightarrow> u32" where
  "load_max ps = PAGE_END (Max (insert 0 (seg_top ` set (loads ps))))"

lemma load_extent:
  assumes t: "phdrs_at m tab ps" and ne: "loads ps \<noteq> []" and fit: "\<forall>ph \<in> set (loads ps). fits ph"
  shows "phdr_table_get_load_size m tab (length ps) = Some (load_max ps - load_min ps, load_min ps, load_max ps)"
    and "unat (load_min ps) \<le> unat (load_max ps)"
    and "unat (load_max ps - load_min ps) = unat (load_max ps) - unat (load_min ps)"
    and "4096 dvd unat (load_min ps)" and "4096 dvd unat (load_max ps)"
    and "\<forall>ph \<in> set (loads ps). unat (load_min ps) \<le> unat (p_vaddr ph) \<and>
       unat (p_vaddr ph) + unat (p_memsz ph) \<le> unat (load_max ps)"
  using load_size_covers [OF assms] get_load_size_eq [OF t ne]
  by (auto simp: load_min_def load_max_def Let_def)

text \<open>Addresses between \<open>mn\<close> and \<open>mx\<close> move to \<open>p\<close> and on, without wrapping.\<close>

definition placed :: "u32 \<Rightarrow> u32 \<Rightarrow> u32 \<Rightarrow> bool" where
  "placed mn mx p \<longleftrightarrow>
     4096 dvd unat mn \<and> 4096 dvd unat mx \<and> 4096 dvd unat p \<and> p \<noteq> 0 \<and> unat mn \<le> unat mx \<and>
     unat p + (unat mx - unat mn) + 4096 \<le> 4294967296"

definition seg_between :: "u32 \<Rightarrow> u32 \<Rightarrow> Elf32_Phdr \<Rightarrow> bool" where
  "seg_between mn mx ph \<longleftrightarrow> unat mn \<le> unat (p_vaddr ph) \<and> unat (p_vaddr ph) + unat (p_memsz ph) \<le> unat mx"

lemma unat_placed:
  assumes "placed mn mx p" and "unat mn \<le> unat v" and "unat v \<le> unat mx"
  shows "unat (v + (p - mn)) = unat p + (unat v - unat mn)"
proof -
  have "unat (v - mn) = unat v - unat mn" using assms(2) by (simp add: unat_sub word_le_nat_alt)
  moreover have "unat (v - mn) + unat p < 4294967296"
    using assms calculation unfolding placed_def by linarith
  ultimately have "unat (p + (v - mn)) = unat p + (unat v - unat mn)" by (simp add: unat_add_no_wrap)
  moreover have "v + (p - mn) = p + (v - mn)" by simp
  ultimately show ?thesis by (simp only:)
qed

lemma placed_offset: "placed mn mx p \<Longrightarrow> PAGE_OFFSET (p - mn) = 0"
  using PAGE_OFFSET_add_aligned [of mn "p - mn"] PAGE_OFFSET_eq_0_iff [of mn] PAGE_OFFSET_eq_0_iff [of p]
  by (simp add: placed_def)

lemma seg_pages_between:
  assumes pl: "placed mn mx p" and b: "seg_between mn mx ph" and f: "fits ph"
  shows "unat mn \<le> unat (PAGE_START (p_vaddr ph))" and "unat (PAGE_START (p_vaddr ph)) \<le> unat (PAGE_END (seg_top ph))"
    and "unat (PAGE_END (seg_top ph)) \<le> unat mx"
proof -
  have t: "unat (seg_top ph) = unat (p_vaddr ph) + unat (p_memsz ph)" by (rule fits_top [OF f])
  then have t': "unat (seg_top ph) + 4095 < 4294967296" using f by (simp add: fits_def)
  have "unat mn \<le> unat (p_vaddr ph)" and "4096 dvd unat mn" using pl b by (simp_all add: placed_def seg_between_def)
  then show "unat mn \<le> unat (PAGE_START (p_vaddr ph))"
    by (auto simp: unat_PAGE_START elim!: dvdE)
  show "unat (PAGE_START (p_vaddr ph)) \<le> unat (PAGE_END (seg_top ph))"
    using unat_PAGE_START_le [of "p_vaddr ph"] PAGE_END_least(1) [OF t'] t by linarith
  show "unat (PAGE_END (seg_top ph)) \<le> unat mx"
    using pl b t by (intro PAGE_END_least(3) [OF t']) (simp_all add: placed_def seg_between_def)
qed

lemma seg_foot_placed:
  assumes pl: "placed mn mx p" and b: "seg_between mn mx ph" and f: "fits ph"
  shows "x \<in> seg_foot (p - mn) ph \<longleftrightarrow>
    unat p + (unat (PAGE_START (p_vaddr ph)) - unat mn) \<le> unat x \<and>
    unat x < unat p + (unat (PAGE_END (seg_top ph)) - unat mn)"
proof -
  note n = seg_pages_between [OF assms] and o = placed_offset [OF pl]
  have s: "PAGE_START (seg_addr (p - mn) ph) = PAGE_START (p_vaddr ph) + (p - mn)"
    unfolding seg_addr_def by (rule PAGE_START_add_aligned [OF o])
  have "seg_addr (p - mn) ph + p_memsz ph = seg_top ph + (p - mn)" by (simp add: seg_addr_def seg_top_def)
  then have e: "PAGE_END (seg_addr (p - mn) ph + p_memsz ph) = PAGE_END (seg_top ph) + (p - mn)"
    using PAGE_END_add_aligned [OF o] by simp
  have "unat (PAGE_START (p_vaddr ph) + (p - mn)) = unat p + (unat (PAGE_START (p_vaddr ph)) - unat mn)"
    using n by (intro unat_placed [OF pl]) linarith+
  moreover have "unat (PAGE_END (seg_top ph) + (p - mn)) = unat p + (unat (PAGE_END (seg_top ph)) - unat mn)"
    using n by (intro unat_placed [OF pl]) linarith+
  ultimately show ?thesis by (simp add: seg_foot_def s e)
qed

lemma seg_foot_inside:
  assumes "placed mn mx p" and "seg_between mn mx ph" and "fits ph" and "x \<in> seg_foot (p - mn) ph"
  shows "in_block p (unat mx - unat mn) x"
proof -
  have "unat p + (unat mx - unat mn) \<le> 4294967296" using assms(1) unfolding placed_def by linarith
  then show ?thesis
    using seg_pages_between [OF assms(1-3)] seg_foot_placed [OF assms(1-3)] assms(4)
    by (simp add: in_block_no_wrap) linarith
qed

lemma seg_foot_back:
  assumes pl: "placed mn mx p" and "seg_between mn mx ph" and "fits ph" and "x \<in> seg_foot (p - mn) ph"
  shows "x - (p - mn) \<in> seg_foot 0 ph"
proof -
  note n = seg_pages_between [OF assms(1-3)] and x = seg_foot_placed [OF assms(1-3), of x]
  have x: "unat p + (unat (PAGE_START (p_vaddr ph)) - unat mn) \<le> unat x"
    "unat x < unat p + (unat (PAGE_END (seg_top ph)) - unat mn)" using x assms(4) by simp_all
  have "unat (x - p) = unat x - unat p" using x by (simp add: unat_sub word_le_nat_alt)
  moreover have "unat (x - p) + unat mn < 4294967296"
    using x n calculation unat_less_4294967296 [of mx] by linarith
  ultimately have "unat (x - p + mn) = unat x - unat p + unat mn" by (simp add: unat_add_no_wrap)
  moreover have "x - (p - mn) = x - p + mn" by simp
  ultimately have "unat (x - (p - mn)) = unat x - unat p + unat mn" by (simp only:)
  then show ?thesis using x n by (simp add: seg_foot_def seg_addr_def seg_top_def) linarith
qed

lemma seg_ok_placed:
  assumes pl: "placed mn mx p" and b: "seg_between mn mx ph" and sf: "seg_in_file bs ph" and k: "length bs < 4294967296"
  shows "seg_ok (p - mn) bs ph"
proof -
  have f: "fits ph" using sf by (simp add: seg_in_file_def)
  have v: "unat mn \<le> unat (p_vaddr ph)" "unat (p_vaddr ph) + unat (p_memsz ph) \<le> unat mx"
    using b by (simp_all add: seg_between_def)
  then have "unat (seg_addr (p - mn) ph) = unat p + (unat (p_vaddr ph) - unat mn)"
    unfolding seg_addr_def by (intro unat_placed [OF pl]) linarith+
  moreover have "unat p + (unat mx - unat mn) + 4096 \<le> 4294967296" "p \<noteq> 0"
    using pl unfolding placed_def by linarith+
  ultimately have "unat (seg_addr (p - mn) ph) + unat (p_memsz ph) + 4095 < 4294967296" using v by linarith
  moreover have "PAGE_START (seg_addr (p - mn) ph) \<noteq> 0"
  proof -
    note n = seg_pages_between [OF pl b f]
    have "PAGE_START (seg_addr (p - mn) ph) = PAGE_START (p_vaddr ph) + (p - mn)"
      unfolding seg_addr_def by (rule PAGE_START_add_aligned [OF placed_offset [OF pl]])
    moreover have "unat (PAGE_START (p_vaddr ph) + (p - mn)) = unat p + (unat (PAGE_START (p_vaddr ph)) - unat mn)"
      using n by (intro unat_placed [OF pl]) linarith+
    moreover have "unat p \<noteq> 0" using \<open>p \<noteq> 0\<close> by (simp add: unat_eq_0)
    ultimately have "unat (PAGE_START (seg_addr (p - mn) ph)) \<noteq> 0" by simp
    then show ?thesis by (simp add: unat_eq_0)
  qed
  moreover have "PAGE_OFFSET (seg_addr (p - mn) ph) = PAGE_OFFSET (p_vaddr ph)"
    unfolding seg_addr_def by (rule PAGE_OFFSET_add_aligned [OF placed_offset [OF pl]])
  ultimately show ?thesis using sf k by (simp add: seg_ok_def seg_in_file_def)
qed

lemma foot_disjoint_placed:
  assumes pl: "placed mn mx p" and d: "foot_disjoint (seg_foot 0) ls"
    and b: "\<forall>ph \<in> set ls. seg_between mn mx ph \<and> fits ph"
  shows "foot_disjoint (seg_foot (p - mn)) ls"
  unfolding foot_disjoint_def
proof (intro allI impI)
  fix i j assume ij: "i < j \<and> j < length ls"
  then have m: "ls ! i \<in> set ls" "ls ! j \<in> set ls" by simp_all
  have "seg_foot 0 (ls ! i) \<inter> seg_foot 0 (ls ! j) = {}" using d ij unfolding foot_disjoint_def by blast
  then show "seg_foot (p - mn) (ls ! i) \<inter> seg_foot (p - mn) (ls ! j) = {}"
    using seg_foot_back [OF pl] b m by blast
qed

section \<open>The table in the image\<close>

lemma find_load: "loads ps \<noteq> [] \<Longrightarrow> find (\<lambda>ph. p_type ph = PT_LOAD) ps = Some (hd (loads ps))"
  by (induction ps) (auto simp: loads_def)

definition table_address :: "u32 \<Rightarrow> u32 \<Rightarrow> Elf32_Phdr \<Rightarrow> u32" where
  "table_address bias off ph = seg_addr bias ph + (off - p_offset ph)"

lemma image_mirrors:
  assumes im: "seg_image bias bs ph m" and k: "unat (p_offset ph) + unat (p_filesz ph) \<le> length bs"
    and o: "p_offset ph \<le> off" "unat off + n \<le> unat (p_offset ph) + unat (p_filesz ph)"
  shows "mirrors m (seg_addr bias ph + (off - p_offset ph)) bs (unat off) n"
proof -
  let ?d = "unat (off - p_offset ph)"
  have d: "?d = unat off - unat (p_offset ph)" "unat (p_offset ph) \<le> unat off"
    using o(1) by (simp_all add: unat_sub word_le_nat_alt)
  have "mirrors m (seg_addr bias ph) bs (unat (p_offset ph)) (?d + n)"
    using im k o d unfolding mirrors_def seg_image_def by auto
  from mirrors_tail [OF this] d show ?thesis by simp
qed

lemma finds_table:
  assumes t: "phdrs_at m (er_phdr_table r) ps" and n: "unat (er_phdr_num r) = length ps" "length ps \<le> 2048"
    and tl: "table_loaded off ps ph" and ph: "ph \<in> set (loads ps)"
    and ok: "seg_ok (er_load_bias r) bs ph" and im: "seg_image (er_load_bias r) bs ph m"
    and off: "off = word_at bs 28"
  shows "FindPhdr r m = Some (True, r\<lparr>er_loaded_phdr := table_address (er_load_bias r) off ph\<rparr>)"
proof -
  let ?s = "seg_addr (er_load_bias r) ph"
  let ?l = "?s + (off - p_offset ph)"
  have o: "p_offset ph \<le> off" "unat off + 32 * length ps \<le> unat (p_offset ph) + unat (p_filesz ph)"
    using tl by (simp_all add: table_loaded_def)
  have k: "unat (p_offset ph) + unat (p_filesz ph) \<le> length bs" using ok by (simp add: seg_ok_def)
  note sn = seg_numbers [OF ok]
  have d: "unat (off - p_offset ph) = unat off - unat (p_offset ph)" "unat (p_offset ph) \<le> unat off"
    using o(1) by (simp_all add: unat_sub word_le_nat_alt)
  have n32: "unat (er_phdr_num r * 32) = 32 * length ps" using n by (simp add: unat_word_ariths)
  have l: "unat ?l = unat ?s + (unat off - unat (p_offset ph))"
    using d o(2) sn(1,2) by (subst unat_add_no_wrap) linarith+
  have "unat (?l + er_phdr_num r * 32) = unat ?l + 32 * length ps"
    using l d(2) o(2) sn(1,2) n32 by (subst unat_add_no_wrap) linarith+
  then have "contains_table (er_load_bias r) ?l (?l + er_phdr_num r * 32) ph"
    using l d(2) o(2) sn(6) unfolding contains_table_def word_le_nat_alt seg_addr_def [symmetric]
    by (simp add: add.commute [of "p_filesz ph"]) linarith
  then have c: "CheckPhdr r ?l m = Some (True, r\<lparr>er_loaded_phdr := ?l\<rparr>)"
    using CheckPhdr_eq [OF t n(1), of ?l] ph by auto
  have ne: "loads ps \<noteq> []" using ph by auto
  note find = find_type_eq [OF t, folded n(1)]
  have "FindPhdr r m = Some (True, r\<lparr>er_loaded_phdr := ?l\<rparr>)"
  proof (cases "find (\<lambda>q. p_type q = PT_PHDR) ps")
    case (Some q)
    then have "er_load_bias r + p_vaddr q = ?l" using tl by (simp add: table_loaded_def seg_addr_def ac_simps)
    with Some c show ?thesis by (simp add: FindPhdr_def find)
  next
    case None
    then have h: "ph = hd (loads ps)" "p_offset ph = 0" "32 \<le> unat (p_filesz ph)"
      using tl by (auto simp: table_loaded_def)
    have e: "er_load_bias r + p_vaddr ph = ?s" by (simp add: seg_addr_def)
    have "mirrors m (?s + (0 - p_offset ph)) bs (unat (0 :: u32)) 32"
      by (rule image_mirrors [OF im k]) (simp_all add: h(2,3))
    then have "mirrors m ?s bs 0 32" by (simp add: h(2))
    from mirrors_load32 [OF this, of 28] have "load32 m (?s + 28) = Some off" by (simp add: off)
    moreover have "find (\<lambda>ph. p_type ph = PT_LOAD) ps = Some ph" by (simp only: find_load [OF ne] h(1) [symmetric])
    ultimately show ?thesis using None c by (simp add: FindPhdr_def find h(2) e Let_def)
  qed
  then show ?thesis by (simp add: table_address_def)
qed

section \<open>Loading\<close>

lemma set_fd_read_granted:
  "load8 (set_fd fd f m) x = load8 m x" "fd_file m fd \<noteq> None \<Longrightarrow> fd_file (set_fd fd f m) fd = f"
  by (simp_all add: fd_file_set_fd)

lemma fresh_blockD: "fresh_block m a n \<Longrightarrow> load8 m x \<noteq> None \<Longrightarrow> \<not> in_block a n x"
  by (auto simp: fresh_block_def)

lemma same_outside_load8: "same_outside m m' a n \<Longrightarrow> fresh_block m a n \<Longrightarrow> load8 m x \<noteq> None \<Longrightarrow> load8 m' x = load8 m x"
  using fresh_blockD by (simp add: same_outside_def)

lemma same_outside_fd: "same_outside m m' a n \<Longrightarrow> fd_file m' fd = fd_file m fd"
  by (simp add: same_outside_def fd_file_def)

text \<open>The reader after a successful load, but for the address of the table in the image.\<close>

definition loaded_reader :: "string \<Rightarrow> int \<Rightarrow> u8 list \<Rightarrow> u32 \<Rightarrow> u32 \<Rightarrow> elf_reader" where
  "loaded_reader name fd bs a p =
     (let h = file_header bs; ps = file_phdrs bs
      in (ElfReader name fd)\<lparr>er_header := h, er_phdr_num := ucast (e_phnum h),
           er_phdr_mmap := a, er_phdr_table := a + PAGE_OFFSET (e_phoff h),
           er_phdr_size := table_len (e_phoff h) (unat (e_phnum h)),
           er_load_start := p, er_load_size := load_max ps - load_min ps, er_load_bias := p - load_min ps\<rparr>)"

lemma e_phoff_word_at: "52 \<le> length bs \<Longrightarrow> e_phoff (file_header bs) = word_at bs 28"
  by (simp add: file_header_def decode_ehdr_def word_at_take)

text \<open>The image that starts at \<open>p\<close>, with the table at \<open>l\<close>; it depends only on the block it occupies.\<close>

definition image_at :: "u8 list \<Rightarrow> u32 \<Rightarrow> u32 \<Rightarrow> mach \<Rightarrow> bool" where
  "image_at bs p l m \<longleftrightarrow>
     phdrs_at m l (file_phdrs bs) \<and>
     (\<forall>ph \<in> set (loads (file_phdrs bs)). seg_image (p - load_min (file_phdrs bs)) bs ph m)"

definition image_local :: "u8 list \<Rightarrow> u32 \<Rightarrow> u32 \<Rightarrow> bool" where
  "image_local bs p l \<longleftrightarrow>
     (\<forall>m m'. image_at bs p l m \<longrightarrow>
        (\<forall>x. in_block p (unat (load_max (file_phdrs bs) - load_min (file_phdrs bs))) x \<longrightarrow> load8 m' x = load8 m x) \<longrightarrow>
        image_at bs p l m')"

text \<open>The address \<open>l\<close> is that of the table in a segment that holds it.\<close>

definition table_in_image :: "u8 list \<Rightarrow> u32 \<Rightarrow> u32 \<Rightarrow> bool" where
  "table_in_image bs p l \<longleftrightarrow>
     (\<exists>ph \<in> set (loads (file_phdrs bs)). table_loaded (e_phoff (file_header bs)) (file_phdrs bs) ph \<and>
        l = table_address (p - load_min (file_phdrs bs)) (e_phoff (file_header bs)) ph)"

lemma image_table:
  assumes im: "seg_image bias bs ph m" and ok: "seg_ok bias bs ph"
    and tl: "table_loaded (e_phoff (file_header bs)) (file_phdrs bs) ph"
  shows "phdrs_at m (table_address bias (e_phoff (file_header bs)) ph) (file_phdrs bs)"
proof -
  have "unat (p_offset ph) + unat (p_filesz ph) \<le> length bs" using ok by (simp add: seg_ok_def)
  moreover have "p_offset ph \<le> e_phoff (file_header bs)" and
    "unat (e_phoff (file_header bs)) + 32 * length (file_phdrs bs) \<le> unat (p_offset ph) + unat (p_filesz ph)"
    using tl by (simp_all add: table_loaded_def)
  ultimately have "mirrors m (table_address bias (e_phoff (file_header bs)) ph) bs (unat (e_phoff (file_header bs)))
      (32 * length (file_phdrs bs))"
    unfolding table_address_def by (rule image_mirrors [OF im])
  then show ?thesis
    using mirrors_phdrs [of m _ bs "unat (e_phoff (file_header bs))" "length (file_phdrs bs)"] by (simp add: file_phdrs_def)
qed

lemma loaded_segments:
  assumes ef: "elf_file bs" and f: "map_option f_data (fd_file m fd) = Some bs"
    and t: "mirrors m tab bs (unat (e_phoff (file_header bs))) (32 * length (file_phdrs bs))"
    and b: "block_granted os (load_max (file_phdrs bs) - load_min (file_phdrs bs)) m p m'"
    and r: "er_phdr_table r = tab" "unat (er_phdr_num r) = length (file_phdrs bs)" "er_fd r = fd"
      "er_load_bias r = p - load_min (file_phdrs bs)"
  shows "\<exists>l m''. LoadSegments os r (set_errno os m') = Some (True, m'') \<and> FindPhdr r m'' = Some (True, r\<lparr>er_loaded_phdr := l\<rparr>) \<and>
    image_at bs p l m'' \<and> image_local bs p l \<and> table_in_image bs p l \<and>
    (\<forall>x. load8 m x \<noteq> None \<longrightarrow> load8 m'' x = load8 m x) \<and> keeps fd m' m'' \<and>
    (\<forall>x. \<not> in_block p (unat (load_max (file_phdrs bs) - load_min (file_phdrs bs))) x \<longrightarrow> load8 m'' x = load8 m x)"
proof -
  let ?ps = "file_phdrs bs" and ?off = "e_phoff (file_header bs)"
  let ?mn = "load_min ?ps" and ?mx = "load_max ?ps"
  note E = ef [unfolded elf_file_def]
  obtain ph where ph: "ph \<in> set (loads ?ps)" "table_loaded ?off ?ps ph" using E by blast
  then have ne: "loads ?ps \<noteq> []" by auto
  have fits: "\<forall>ph \<in> set (loads ?ps). fits ph" using E by (auto simp: seg_in_file_def)
  have n: "length ?ps \<le> 2048" using E by simp
  have tab: "phdrs_at m tab ?ps" using mirrors_phdrs [of m tab bs "unat ?off" "length ?ps"] t by (simp add: file_phdrs_def)
  note ext = load_extent [OF tab ne fits]
  note B = b [unfolded block_granted_def]
  have fresh: "fresh_block m p (unat ?mx - unat ?mn)" and out: "same_outside m m' p (unat ?mx - unat ?mn)"
    and zero: "\<And>x. in_block p (unat ?mx - unat ?mn) x \<Longrightarrow> load8 m' x = Some 0 \<and> vwr m' x"
    using B ext(3) by auto
  have pl: "placed ?mn ?mx p" using B ext(2-5) by (simp add: placed_def)
  have btw: "\<forall>ph \<in> set (loads ?ps). seg_between ?mn ?mx ph \<and> fits ph" using ext(6) fits by (simp add: seg_between_def)
  have k: "length bs < 4294967296" using E by simp
  have ok: "\<forall>ph \<in> set (loads ?ps). seg_ok (p - ?mn) bs ph"
    using seg_ok_placed [OF pl _ _ k] btw E by blast
  let ?m = "set_errno os m'"
  have inside: "in_block p (unat ?mx - unat ?mn) x" if "ph \<in> set (loads ?ps)" "x \<in> seg_foot (p - ?mn) ph" for ph x
    using seg_foot_inside [OF pl] btw that by blast
  have ready: "\<forall>ph \<in> set (loads ?ps). seg_ready fd (p - ?mn) bs ph ?m"
    unfolding seg_ready_def
  proof (intro ballI conjI)
    fix ph assume ph: "ph \<in> set (loads ?ps)"
    then show "seg_ok (p - ?mn) bs ph" using ok by blast
    show "map_option f_data (fd_file ?m fd) = Some bs" using f same_outside_fd [OF out] by simp
    fix x assume "x \<in> seg_foot (p - ?mn) ph"
    then have "load8 m' x = Some 0" "vwr m' x" using zero inside [OF ph] by blast+
    then show "writable ?m x" "load8 ?m x = Some 0" by (simp_all add: writable_def load8_def)
  qed
  have old: "load8 ?m x = load8 m x" if "load8 m x \<noteq> None" for x using same_outside_load8 [OF out fresh that] by simp
  have notin: "x \<notin> seg_foot (p - ?mn) ph" if "load8 m x \<noteq> None" "ph \<in> set (loads ?ps)" for x ph
    using inside [OF that(2)] fresh_blockD [OF fresh that(1)] by blast
  have tb: "load8 m x \<noteq> None" if x: "in_block tab (32 * length ?ps) x" for x
  proof -
    obtain i where "i < 32 * length ?ps" "x = tab + of_nat i" using x by (rule in_blockE)
    then show ?thesis using mirrorsD(2) [OF t] by simp
  qed
  have tab': "phdrs_at ?m tab ?ps"
    by (rule phdrs_at_same_block [OF tab]) (use n tb old in \<open>auto simp: same_block_def\<close>)
  have dis: "foot_disjoint (seg_foot (p - ?mn)) (loads ?ps)"
    by (rule foot_disjoint_placed [OF pl _ btw]) (use E in blast)
  have away: "\<forall>ph \<in> set (loads ?ps). \<forall>x \<in> seg_foot (p - ?mn) ph. \<not> in_block tab (32 * length ?ps) x"
    using notin tb by blast
  obtain m'' where l: "LoadSegments os r ?m = Some (True, m'')" and kp: "keeps fd ?m m''"
    and im: "\<forall>ph \<in> set (loads ?ps). seg_image (p - ?mn) bs ph m''"
    and fr: "\<And>x. \<forall>ph \<in> set (loads ?ps). x \<notin> seg_foot (p - ?mn) ph \<Longrightarrow> load8 m'' x = load8 ?m x"
    using LoadSegments_loaded [of ?m r ?ps bs os, unfolded r, OF tab' refl n ready dis away] by blast
  have same: "load8 m'' x = load8 m x" if "load8 m x \<noteq> None" for x
    using fr [of x] notin [OF that] old [OF that] by simp
  have "phdrs_at m'' tab ?ps"
    by (rule phdrs_at_same_block [OF tab]) (use n tb same in \<open>auto simp: same_block_def\<close>)
  then have fp: "FindPhdr r m'' = Some (True, r\<lparr>er_loaded_phdr := table_address (p - ?mn) ?off ph\<rparr>)"
    using finds_table [of m'' r ?ps ?off ph bs, unfolded r, OF _ refl n ph(2,1) bspec [OF ok ph(1)] bspec [OF im ph(1)]]
      e_phoff_word_at E by blast
  have at: "image_at bs p (table_address (p - ?mn) ?off ph) m2"
    if "\<forall>ph \<in> set (loads ?ps). seg_image (p - ?mn) bs ph m2" for m2
    using that image_table [OF _ _ ph(2)] ph(1) ok by (simp add: image_at_def)
  have "image_local bs p (table_address (p - ?mn) ?off ph)"
    unfolding image_local_def
  proof (intro allI impI)
    fix m1 m2
    assume a: "image_at bs p (table_address (p - ?mn) ?off ph) m1"
      and eq: "\<forall>x. in_block p (unat (?mx - ?mn)) x \<longrightarrow> load8 m2 x = load8 m1 x"
    have "seg_image (p - ?mn) bs q m2" if q: "q \<in> set (loads ?ps)" for q
      by (rule seg_image_frame [OF bspec [OF ok q]])
        (use a q eq inside [OF q] ext(3) in \<open>auto simp: image_at_def\<close>)
    then show "image_at bs p (table_address (p - ?mn) ?off ph) m2" by (intro at) blast
  qed
  moreover have "table_in_image bs p (table_address (p - ?mn) ?off ph)" using ph by (auto simp: table_in_image_def)
  moreover have "load8 m'' x = load8 m x" if x: "\<not> in_block p (unat (?mx - ?mn)) x" for x
  proof -
    have "load8 m'' x = load8 ?m x" by (rule fr) (use x inside ext(3) in auto)
    with out x ext(3) show ?thesis by (simp add: same_outside_def)
  qed
  ultimately show ?thesis using l kp at [OF im] fp same keeps_trans [OF keeps_set_errno kp] by blast
qed

lemma reserves:
  assumes "phdr_table_get_load_size m (er_phdr_table r) (unat (er_phdr_num r)) = Some (len, mn, mx)" and "len \<noteq> 0"
    and "block_granted os len m p m'"
  shows "ReserveAddressSpace os r m =
    Some (True, r\<lparr>er_load_size := len, er_load_start := p, er_load_bias := p - mn\<rparr>, set_errno os m')"
proof -
  have "VirtualAlloc os 0 len MEM_COMMIT PAGE_READWRITE m = (p, m')" "p \<noteq> MAP_FAILED"
    using assms(3) not_aligned_MAP_FAILED [of p] unfolding block_granted_def by blast+
  then have "s_mmap os mn len PROT_NONE (MAP_PRIVATE OR MAP_ANONYMOUS) (-1) 0 m = (p, set_errno os m')"
    by (rule s_mmap_reserve [OF assms(2)])
  with assms(1,2) \<open>p \<noteq> MAP_FAILED\<close> show ?thesis by (simp add: ReserveAddressSpace_def Let_def)
qed

lemma extent_nonzero:
  assumes ef: "elf_file bs"
  shows "load_max (file_phdrs bs) - load_min (file_phdrs bs) \<noteq> 0"
proof -
  let ?ps = "file_phdrs bs"
  note E = ef [unfolded elf_file_def]
  obtain ph where ph: "ph \<in> set (loads ?ps)" "table_loaded (e_phoff (file_header bs)) ?ps ph" using E by blast
  have "p_offset ph \<le> e_phoff (file_header bs)"
    and "unat (e_phoff (file_header bs)) + 32 * length ?ps \<le> unat (p_offset ph) + unat (p_filesz ph)"
    using ph(2) by (simp_all add: table_loaded_def)
  moreover have "1 \<le> length ?ps" using E by blast
  ultimately have "0 < unat (p_filesz ph)" by (simp add: word_le_nat_alt)
  moreover have s: "seg_in_file bs ph" using E ph(1) by blast
  then have "unat (p_filesz ph) \<le> unat (p_memsz ph)" by (simp add: seg_in_file_def word_le_nat_alt)
  ultimately have mem: "0 < unat (p_memsz ph)" by linarith
  have f: "fits ph" using s by (simp add: seg_in_file_def)
  have "PAGE_START (Min (insert 0xFFFFFFFF (p_vaddr ` set (loads ?ps)))) = load_min ?ps"
    "PAGE_END (Max (insert 0 (seg_top ` set (loads ?ps)))) = load_max ?ps" by (simp_all add: load_min_def load_max_def)
  moreover have "Min (insert 0xFFFFFFFF (p_vaddr ` set (loads ?ps))) \<le> p_vaddr ph" using ph(1) by (auto intro!: Min_le)
  then have "unat (load_min ?ps) \<le> unat (p_vaddr ph)"
    using unat_PAGE_START_le [of "Min (insert 0xFFFFFFFF (p_vaddr ` set (loads ?ps)))"]
    unfolding load_min_def word_le_nat_alt by linarith
  moreover have "unat (p_vaddr ph) + unat (p_memsz ph) \<le> unat (load_max ?ps)"
  proof -
    have ne: "loads ?ps \<noteq> []" using ph(1) by auto
    obtain q where q: "q \<in> set (loads ?ps)" "Max (insert 0 (seg_top ` set (loads ?ps))) = seg_top q"
      using max_top_in [OF ne] by auto
    have "fits q" using E q(1) by (auto simp: seg_in_file_def)
    then have "unat (seg_top q) + 4095 < 4294967296" using fits_top [of q] by (simp add: fits_def)
    then have "unat (seg_top q) \<le> unat (load_max ?ps)" unfolding load_max_def q(2) by (rule PAGE_END_least(1))
    moreover have "seg_top ph \<le> seg_top q" unfolding q(2) [symmetric] using ph(1) by (auto intro!: Max_ge)
    ultimately show ?thesis using fits_top [OF f] by (simp add: word_le_nat_alt)
  qed
  ultimately show ?thesis using mem by auto
qed

lemma load_file:
  assumes f: "fd_file m fd = Some \<lparr>f_data = bs, f_pos = 0\<rparr>" and ef: "elf_file bs"
    and v: "view_granted os fd bs (PAGE_START (e_phoff (file_header bs)))
      (table_len (e_phoff (file_header bs)) (length (file_phdrs bs))) (set_fd fd (Some \<lparr>f_data = bs, f_pos = 52\<rparr>) m) a m1"
    and b: "block_granted os (load_max (file_phdrs bs) - load_min (file_phdrs bs)) m1 p m2"
  shows "\<exists>l m'. Load os (ElfReader name fd) m = Some (True, (loaded_reader name fd bs a p)\<lparr>er_loaded_phdr := l\<rparr>, m') \<and>
    image_at bs p l m' \<and> image_local bs p l \<and> table_in_image bs p l \<and> map_option f_data (fd_file m' fd) = Some bs \<and> fs m' = fs m \<and>
    (\<forall>x. load8 m x \<noteq> None \<longrightarrow> \<not> in_block p (unat (load_max (file_phdrs bs) - load_min (file_phdrs bs))) x) \<and>
    (\<forall>x. in_block p (unat (load_max (file_phdrs bs) - load_min (file_phdrs bs))) x \<longrightarrow> writable m' x) \<and>
    (\<forall>x. load8 m x \<noteq> None \<longrightarrow> load8 m' x = load8 m x) \<and>
    (\<forall>x. in_block p (unat (load_max (file_phdrs bs) - load_min (file_phdrs bs))) x \<longrightarrow>
       \<not> in_block a (unat (table_len (e_phoff (file_header bs)) (length (file_phdrs bs)))) x) \<and>
    (\<forall>x. load8 m x \<noteq> None \<longrightarrow>
       \<not> in_block a (unat (table_len (e_phoff (file_header bs)) (length (file_phdrs bs)))) x) \<and>
    (\<forall>x. \<not> in_block p (unat (load_max (file_phdrs bs) - load_min (file_phdrs bs))) x \<longrightarrow>
       \<not> in_block a (unat (table_len (e_phoff (file_header bs)) (length (file_phdrs bs)))) x \<longrightarrow> load8 m' x = load8 m x)"
proof -
  let ?h = "file_header bs" and ?ps = "file_phdrs bs"
  let ?m0 = "set_fd fd (Some \<lparr>f_data = bs, f_pos = 52\<rparr>) m"
  note E = ef [unfolded elf_file_def]
  have n: "length ?ps = unat (e_phnum ?h)" by (simp add: file_phdrs_def)
  have n': "1 \<le> unat (e_phnum ?h)" "unat (e_phnum ?h) \<le> 2048" using E n by simp_all
  have fd: "fd \<noteq> -1" using f by (auto simp: fd_file_def split: if_splits)
  obtain ph where ph: "ph \<in> set (loads ?ps)" "table_loaded (e_phoff ?h) ?ps ph" using E by blast
  then have ne: "loads ?ps \<noteq> []" by auto
  have "seg_in_file bs ph" using ph E by blast
  then have k: "unat (e_phoff ?h) + 32 * unat (e_phnum ?h) \<le> length bs" "length bs + 4096 < 4294967296"
    using ph(2) n E by (auto simp: table_loaded_def seg_in_file_def)
  note sp = table_span [OF k n'(2,1), folded table_len_def]
  have t: "mirrors m1 (a + PAGE_OFFSET (e_phoff ?h)) bs (unat (e_phoff ?h)) (32 * length ?ps)"
    using view_mirrors [OF v] sp(2) n by simp
  have same1: "same_outside ?m0 m1 a (unat (table_len (e_phoff ?h) (length ?ps)))"
    and fresh1: "fresh_block ?m0 a (unat (table_len (e_phoff ?h) (length ?ps)))"
    using v by (simp_all add: view_granted_def)
  have "fd_file ?m0 fd = Some \<lparr>f_data = bs, f_pos = 52\<rparr>" using f by (simp add: fd_file_set_fd)
  then have fm: "map_option f_data (fd_file m1 fd) = Some bs" using same_outside_fd [OF same1] by simp
  let ?r1 = "(ElfReader name fd)\<lparr>er_header := ?h\<rparr>"
  let ?r2 = "?r1\<lparr>er_phdr_num := ucast (e_phnum ?h), er_phdr_size := table_len (e_phoff ?h) (unat (e_phnum ?h)),
             er_phdr_mmap := a, er_phdr_table := a + PAGE_OFFSET (e_phoff ?h)\<rparr>"
  let ?r3 = "?r2\<lparr>er_load_size := load_max ?ps - load_min ?ps, er_load_start := p, er_load_bias := p - load_min ?ps\<rparr>"
  have s1: "ReadElfHeader (ElfReader name fd) m = (True, ?r1, ?m0)" using reads_header [OF f] E by blast
  have s2: "ReadProgramHeader os ?r1 ?m0 = (True, ?r2, m1)"
    using reads_table [of os ?r1 bs ?h ?m0 a m1, OF _ _ n' k] v fd n by (simp add: ElfReader_def)
  have tab: "phdrs_at m1 (a + PAGE_OFFSET (e_phoff ?h)) ?ps"
    using mirrors_phdrs [of m1 _ bs "unat (e_phoff ?h)" "length ?ps"] t by (simp add: file_phdrs_def)
  have "\<forall>ph \<in> set (loads ?ps). fits ph" using E by (auto simp: seg_in_file_def)
  from load_extent(1) [OF tab ne this] have s3: "ReserveAddressSpace os ?r2 m1 = Some (True, ?r3, set_errno os m2)"
    by (intro reserves [OF _ extent_nonzero [OF ef] b]) (simp add: n)
  obtain l m' where s4: "LoadSegments os ?r3 (set_errno os m2) = Some (True, m')"
    and s5: "FindPhdr ?r3 m' = Some (True, ?r3\<lparr>er_loaded_phdr := l\<rparr>)"
    and im: "image_at bs p l m'" "image_local bs p l" "table_in_image bs p l" and kp: "keeps fd m2 m'"
    and same: "\<And>x. load8 m1 x \<noteq> None \<Longrightarrow> load8 m' x = load8 m1 x"
    and rest: "\<And>x. \<not> in_block p (unat (load_max ?ps - load_min ?ps)) x \<Longrightarrow> load8 m' x = load8 m1 x"
    using loaded_segments [OF ef fm t b, of ?r3] by (auto simp: n ElfReader_def)
  have ver: "VerifyElfHeader ?h" using E by blast
  have r3: "?r3 = loaded_reader name fd bs a p" by (simp add: loaded_reader_def Let_def)
  have "Load os (ElfReader name fd) m = Some (True, ?r3\<lparr>er_loaded_phdr := l\<rparr>, m')"
    using s1 s2 s3 s4 s5 ver by (simp add: Load_def)
  moreover have "load8 m' x = load8 m x" if "load8 m x \<noteq> None" for x
  proof -
    have x: "load8 ?m0 x \<noteq> None" using that by simp
    have "load8 m1 x = load8 ?m0 x" by (rule same_outside_load8 [OF same1 fresh1 x])
    with x same [of x] show ?thesis by simp
  qed
  moreover have "map_option f_data (fd_file m' fd) = Some bs"
    using kp fm b by (auto simp: keeps_def block_granted_def dest!: same_outside_fd [of _ _ _ _ fd])
  moreover have "fs m' = fs m" using kp b same1 by (simp add: keeps_def block_granted_def same_outside_def set_fd_sel)
  moreover have "\<not> in_block p (unat (load_max ?ps - load_min ?ps)) x" if "load8 m x \<noteq> None" for x
  proof (rule fresh_blockD)
    show "fresh_block m1 p (unat (load_max ?ps - load_min ?ps))" using b by (simp add: block_granted_def)
    show "load8 m1 x \<noteq> None" using same_outside_load8 [OF same1 fresh1, of x] that by simp
  qed
  moreover have "writable m' x" if "in_block p (unat (load_max ?ps - load_min ?ps)) x" for x
    using b that unfolding keeps_writable [OF kp] by (simp add: block_granted_def writable_def load8_def)
  moreover have "\<not> in_block p (unat (load_max ?ps - load_min ?ps)) x"
    if x: "in_block a (unat (table_len (e_phoff ?h) (length ?ps))) x" for x
  proof -
    obtain i where "i < unat (table_len (e_phoff ?h) (length ?ps))" "x = a + of_nat i" using x by (rule in_blockE)
    then have "load8 m1 x \<noteq> None" using v by (simp add: view_granted_def)
    moreover have "fresh_block m1 p (unat (load_max ?ps - load_min ?ps))" using b by (simp add: block_granted_def)
    ultimately show ?thesis using fresh_blockD by blast
  qed
  moreover have "\<not> in_block a (unat (table_len (e_phoff ?h) (length ?ps))) x" if "load8 m x \<noteq> None" for x
    by (rule fresh_blockD [OF fresh1]) (use that in simp)
  moreover have "load8 m' x = load8 m x" if "\<not> in_block p (unat (load_max ?ps - load_min ?ps)) x"
    "\<not> in_block a (unat (table_len (e_phoff ?h) (length ?ps))) x" for x
    using rest [OF that(1)] same1 that(2) by (simp add: same_outside_def)
  ultimately show ?thesis using im unfolding r3 by blast
qed

section \<open>Properties\<close>

text \<open>
  C5: \<open>ElfReader::Load\<close> from end to end.  For an open file with an accepted header, a program header table inside
  a loadable segment and loadable segments that the ELF specification allows and that share no page, and with
  a system that grants the view of the table and the block of memory, it returns true.  The block
  starts at \<open>load_start\<close>, the load bias is its distance from the lowest page of the segments, each
  segment shows its bytes of the file followed by zeros, the address it returns for the table points to a
  copy of the file's table in the image, and no byte that was mapped before has changed.
\<close>

theorem Load_image:
  assumes "fd_file m fd = Some \<lparr>f_data = bs, f_pos = 0\<rparr>" and "elf_file bs"
    and "view_granted os fd bs (PAGE_START (e_phoff (file_header bs)))
      (table_len (e_phoff (file_header bs)) (length (file_phdrs bs))) (set_fd fd (Some \<lparr>f_data = bs, f_pos = 52\<rparr>) m) a m1"
    and "block_granted os (load_max (file_phdrs bs) - load_min (file_phdrs bs)) m1 p m2"
  shows "\<exists>l m'. Load os (ElfReader name fd) m = Some (True, (loaded_reader name fd bs a p)\<lparr>er_loaded_phdr := l\<rparr>, m') \<and>
    phdrs_at m' l (file_phdrs bs) \<and>
    (\<forall>ph \<in> set (loads (file_phdrs bs)). seg_image (p - load_min (file_phdrs bs)) bs ph m') \<and>
    (\<forall>x. load8 m x \<noteq> None \<longrightarrow> load8 m' x = load8 m x)"
  using load_file [OF assms, of name] unfolding image_at_def by blast

text \<open>A file of one page, and a system that maps it at 0x1000.\<close>

definition page_file :: "u8 list" where
  "page_file = demo_file @ replicate 4012 0"

definition file_api :: "u8 list \<Rightarrow> win_api" where
  "file_api bs = demo_api\<lparr>MapViewOfFile := (\<lambda>h acc hi lo l m. (0x1000,
     m\<lparr>vbytes := (\<lambda>x. if in_block 0x1000 (unat l) x then Some (bs ! unat (x - 0x1000)) else vbytes m x)\<rparr>))\<rparr>"

lemma length_demo_file: "length demo_file = 84"
  by (simp add: demo_file_def)

lemma length_page_file [simp]: "length page_file = 4096"
  by (simp add: page_file_def length_demo_file)

lemma page_file_nth: "i < 84 \<Longrightarrow> page_file ! i = demo_file ! i"
  by (simp add: page_file_def nth_append length_demo_file)

lemma page_file_magic: "take 4 page_file = ELFMAG"
proof -
  have "4 \<le> length page_file" by simp
  from magic_take [OF this] show ?thesis by (simp add: page_file_nth demo_file_def)
qed

lemma page_file_header: "e_phoff (file_header page_file) = 52" "e_phnum (file_header page_file) = 1"
  "VerifyElfHeader (file_header page_file)"
  unfolding file_header_def
  by (simp_all add: VerifyElfHeader_decode page_file_magic)
    (simp_all add: decode_ehdr_def word_at_def half_at_def byte_at_def page_file_nth demo_file_def le32_def le16_def)

lemma page_file_phdrs: "file_phdrs page_file = [demo_phdr]"
  by (simp add: file_phdrs_def page_file_header phdr_in_def)
    (simp add: word_at_def byte_at_def page_file_nth demo_file_def le32_def demo_phdr_def)

lemma page_file_ok: "elf_file page_file"
  by (simp add: elf_file_def page_file_phdrs page_file_header demo_loads foot_disjoint_def table_loaded_def
      seg_in_file_def fits_def)
    (simp add: demo_phdr_def PAGE_OFFSET_def PAGE_MASK_def PFLAGS_TO_PROT_def MAYBE_MAP_FLAG_def)

lemma page_file_extent: "load_min (file_phdrs page_file) = 0" "load_max (file_phdrs page_file) = 4096"
  unfolding load_min_def load_max_def page_file_phdrs demo_loads
  by (simp_all add: demo_phdr_def seg_top_def PAGE_END_def PAGE_START_def PAGE_MASK_def)

lemma page_file_size: "load_max (file_phdrs page_file) - load_min (file_phdrs page_file) = 4096"
  by (simp add: page_file_extent)

lemma file_api_view:
  assumes "fd_file m fd \<noteq> None" and "\<And>x. in_block 0x1000 4096 x \<Longrightarrow> load8 m x = None" and "length bs = 4096"
  shows "view_granted (file_api bs) fd bs 0 4096 m 0x1000
    (m\<lparr>vbytes := (\<lambda>x. if in_block 0x1000 4096 x then Some (bs ! unat (x - 0x1000)) else vbytes m x)\<rparr>)"
  using assms
  by (simp add: view_granted_def file_api_def demo_api_def fresh_block_def same_outside_def load8_def in_block_offset)

lemma file_api_block:
  assumes "\<And>x. in_block 0x10000 4096 x \<Longrightarrow> load8 m x = None" and "\<And>x. vwr m x"
  shows "block_granted (file_api bs) 4096 m 0x10000
    (m\<lparr>vbytes := (\<lambda>x. if in_block 0x10000 4096 x then Some 0 else vbytes m x)\<rparr>)"
  using assms by (simp add: block_granted_def file_api_def demo_api_def fresh_block_def same_outside_def load8_def)

definition file_mach :: mach where
  "file_mach = \<lparr>vbytes = (\<lambda>a. None), vwr = (\<lambda>a. True), fs = (\<lambda>p. None),
     fds = [None, None, None, Some \<lparr>f_data = page_file, f_pos = 0\<rparr>], errno = 0\<rparr>"

lemma page_file_table: "PAGE_START (e_phoff (file_header page_file)) = 0"
  "table_len (e_phoff (file_header page_file)) (length (file_phdrs page_file)) = 4096"
  by (simp_all add: page_file_header page_file_phdrs table_len_def PAGE_START_def PAGE_END_def PAGE_MASK_def)

lemma Load_image_witness:
  "\<exists>l m'. Load (file_api page_file) (ElfReader ''a'' 3) file_mach = Some (True, (loaded_reader ''a'' 3 page_file 0x1000 0x10000)\<lparr>er_loaded_phdr := l\<rparr>, m') \<and>
     phdrs_at m' l [demo_phdr] \<and> load8 m' 0x10001 = Some 0x45 \<and> load8 m' 0x10060 = Some 0"
proof -
  let ?m0 = "set_fd 3 (Some \<lparr>f_data = page_file, f_pos = 52\<rparr>) file_mach"
  let ?m1 = "?m0\<lparr>vbytes := (\<lambda>x. if in_block 0x1000 4096 x then Some (page_file ! unat (x - 0x1000)) else vbytes ?m0 x)\<rparr>"
  have f: "fd_file file_mach 3 = Some \<lparr>f_data = page_file, f_pos = 0\<rparr>" by (simp add: file_mach_def fd_file_def)
  have v: "view_granted (file_api page_file) 3 page_file 0 4096 ?m0 0x1000 ?m1"
    by (rule file_api_view) (simp_all add: fd_file_set_fd f, simp add: file_mach_def load8_def)
  have "load8 ?m1 x = None" if "in_block 0x10000 4096 x" for x
    using that by (simp add: load8_def in_block_no_wrap file_mach_def)
  moreover have "vwr ?m1 x" for x by (simp add: file_mach_def)
  ultimately have b: "block_granted (file_api page_file) 4096 ?m1 0x10000
      (?m1\<lparr>vbytes := (\<lambda>x. if in_block 0x10000 4096 x then Some 0 else vbytes ?m1 x)\<rparr>)"
    by (rule file_api_block)
  from Load_image [where name = "''a''" and os = "file_api page_file", OF f page_file_ok, unfolded page_file_table page_file_size, OF v b, unfolded page_file_extent]
  obtain l m' where "Load (file_api page_file) (ElfReader ''a'' 3) file_mach =
      Some (True, (loaded_reader ''a'' 3 page_file 0x1000 0x10000)\<lparr>er_loaded_phdr := l\<rparr>, m')"
    and "phdrs_at m' l [demo_phdr]" and im: "seg_image 0x10000 page_file demo_phdr m'"
    by (auto simp: page_file_phdrs demo_loads)
  moreover have "\<forall>i < 84. load8 m' (0x10000 + of_nat i) = Some (page_file ! i)"
    and "\<forall>i. 84 \<le> i \<and> i < 128 \<longrightarrow> load8 m' (0x10000 + of_nat i) = Some 0"
    using im by (simp_all add: seg_image_def seg_addr_def demo_phdr_def)
  from this(1) [rule_format, of 1] this(2) [rule_format, of 96]
  have "load8 m' 0x10001 = Some 0x45" "load8 m' 0x10060 = Some 0"
    by (simp_all add: page_file_nth demo_file_def)
  ultimately show ?thesis by blast
qed

end
