(* ===== verification/Load_Library.thy ===== *)
theory Load_Library
  imports Linker Load_File
begin

text \<open>
  \<open>load_library\<close> from a file on disk to an entry of the global list: opening the file, \<open>ElfReader::Load\<close>,
  \<open>soinfo_alloc\<close>, and the destructor of the reader, which closes the file and removes the view of the
  program header table.
\<close>

section \<open>The destructor of the reader\<close>

text \<open>Removing the view at \<open>a\<close> touches nothing outside it.\<close>

definition unmaps_view :: "win_api \<Rightarrow> u32 \<Rightarrow> nat \<Rightarrow> bool" where
  "unmaps_view os a n \<longleftrightarrow> (\<forall>m. same_outside m (snd (UnmapViewOfFile os a m)) a n)"

lemma fd_file_c_close: "fd_file (c_close fd m) fd = None"
proof (cases "fd_file m fd")
  case None
  then show ?thesis by (simp add: c_close_def)
next
  case (Some f)
  then show ?thesis by (simp add: c_close_def fd_file_set_fd)
qed

lemma load8_c_close [simp]: "load8 (c_close fd m) = load8 m"
  by (simp add: c_close_def)

lemma reader_destroy:
  assumes "er_fd r \<noteq> -1" and "er_phdr_mmap r = a" and "a \<noteq> 0" and "unmaps_view os a n"
  shows "fd_file (ElfReader_destroy os r m) (er_fd r) = None"
    and "\<not> in_block a n x \<Longrightarrow> load8 (ElfReader_destroy os r m) x = load8 m x"
    and "\<not> in_block a n x \<Longrightarrow> vwr (ElfReader_destroy os r m) x = vwr m x"
    and "fs (ElfReader_destroy os r m) = fs m"
proof -
  have d: "ElfReader_destroy os r m = snd (UnmapViewOfFile os a (c_close (er_fd r) m))"
    using assms by (simp add: ElfReader_destroy_def s_munmap_def Let_def split: prod.splits)
  have "same_outside (c_close (er_fd r) m) (ElfReader_destroy os r m) a n"
    using assms(4) unfolding d unmaps_view_def by blast
  note same = this
  from same_outside_fd [OF this, of "er_fd r"] show "fd_file (ElfReader_destroy os r m) (er_fd r) = None"
    by (simp add: fd_file_c_close)
  show "load8 (ElfReader_destroy os r m) x = load8 m x" if "\<not> in_block a n x"
    using same that by (simp add: same_outside_def)
  show "vwr (ElfReader_destroy os r m) x = vwr m x" if "\<not> in_block a n x"
    using same that by (simp add: same_outside_def c_close_def)
  show "fs (ElfReader_destroy os r m) = fs m" using same by (simp add: same_outside_def c_close_def)
qed

section \<open>Loading a library\<close>

definition loaded_object :: "string \<Rightarrow> u8 list \<Rightarrow> u32 \<Rightarrow> u32 \<Rightarrow> soinfo" where
  "loaded_object name bs p l =
     zero_soinfo\<lparr>si_name := name, si_base := p,
       si_size := load_max (file_phdrs bs) - load_min (file_phdrs bs),
       si_load_bias := p - load_min (file_phdrs bs), si_phnum := ucast (e_phnum (file_header bs)), si_phdr := l\<rparr>"

lemma load8_c_open: "c_open name m = (fd, m') \<Longrightarrow> load8 m' = load8 m \<and> fs m' = fs m"
  by (auto simp: c_open_def load8_def fun_eq_iff Let_def split: option.splits)

lemma upd_si_rest:
  "upd_si p g w = Some w' \<Longrightarrow> somain w' = somain w \<and> gLdPreloads w' = gLdPreloads w \<and> out_log w' = out_log w \<and> gLdPaths w' = gLdPaths w"
  by (auto simp: upd_si_def split: option.splits)

lemma ensure_free_list_rest:
  "ensure_free_list_non_empty os w = (ok, w') \<Longrightarrow>
     somain w' = somain w \<and> gLdPreloads w' = gLdPreloads w \<and> out_log w' = out_log w \<and> gLdPaths w' = gLdPaths w"
  by (auto simp: ensure_free_list_non_empty_def Let_def split: if_splits prod.splits)

lemma soinfo_alloc_rest:
  assumes "soinfo_alloc os name w = Some (si, w')"
  shows "somain w' = somain w \<and> gLdPreloads w' = gLdPreloads w \<and> out_log w' = out_log w \<and> gLdPaths w' = gLdPaths w"
proof -
  obtain ok w1 where e: "ensure_free_list_non_empty os w = (ok, w1)" by (cases "ensure_free_list_non_empty os w")
  note r = ensure_free_list_rest [OF e]
  show ?thesis
  proof (cases "SOINFO_NAME_LEN \<le> length name \<or> \<not> ok")
    case True
    with assms e r show ?thesis by (auto simp: soinfo_alloc_def split: if_splits)
  next
    case False
    with assms e obtain g z p w2 w3 and s :: soinfo where "upd_si g (\<lambda>_. z) (w1\<lparr>gSoInfoFreeList := si_next s\<rparr>) = Some w2"
      "upd_si p (\<lambda>s. s\<lparr>si_next := g\<rparr>) w2 = Some w3" "w' = w3\<lparr>sonext := g\<rparr>"
      unfolding soinfo_alloc_def Let_def by (auto elim!: bind_eq_SomeE)
    then show ?thesis using r upd_si_rest by fastforce
  qed
qed

lemma load_library_file:
  assumes disk: "fs (mc w) name = Some bs" and path: "[] \<in> set (gLdPaths w)" and ef: "elf_file bs"
    and op: "c_open name (mc w) = (fd, m0)"
    and v: "view_granted os fd bs (PAGE_START (e_phoff (file_header bs)))
      (table_len (e_phoff (file_header bs)) (length (file_phdrs bs))) (set_fd fd (Some \<lparr>f_data = bs, f_pos = 52\<rparr>) m0) a m1"
    and b: "block_granted os (load_max (file_phdrs bs) - load_min (file_phdrs bs)) m1 p m2"
    and u: "unmaps_view os a (unat (table_len (e_phoff (file_header bs)) (length (file_phdrs bs))))"
    and inv: "so_inv w LS (f # FL)" and nm: "no_nul (basename name)" "length (basename name) < 128"
  shows "\<exists>w' l. load_library os name w = Some (f, w') \<and> so_inv w' (LS @ [f]) FL \<and>
    sos w' f = Some (loaded_object (basename name) bs p l) \<and> image_at bs p l (mc w') \<and>
    fd_file (mc w') fd = None \<and> (\<forall>x. load8 (mc w) x \<noteq> None \<longrightarrow> load8 (mc w') x = load8 (mc w) x) \<and>
    (\<forall>x. x \<noteq> f \<and> x \<noteq> last LS \<longrightarrow> sos w' x = sos w x) \<and>
    sos w' (last LS) = map_option (\<lambda>s. s\<lparr>si_next := f\<rparr>) (sos w (last LS)) \<and>
    (\<forall>x. in_block p (unat (load_max (file_phdrs bs) - load_min (file_phdrs bs))) x \<longrightarrow> writable (mc w') x) \<and>
    somain w' = somain w \<and> gLdPreloads w' = gLdPreloads w \<and> out_log w' = out_log w \<and> table_in_image bs p l \<and>
    (\<forall>x. load8 (mc w) x \<noteq> None \<longrightarrow> \<not> in_block p (unat (load_max (file_phdrs bs) - load_min (file_phdrs bs))) x) \<and>
    fs (mc w') = fs (mc w) \<and> gLdPaths w' = gLdPaths w \<and>
    (\<forall>x. \<not> in_block p (unat (load_max (file_phdrs bs) - load_min (file_phdrs bs))) x \<longrightarrow>
       \<not> in_block a (unat (table_len (e_phoff (file_header bs)) (length (file_phdrs bs)))) x \<longrightarrow>
       load8 (mc w') x = load8 (mc w) x)"
proof -
  let ?ps = "file_phdrs bs"
  let ?n = "unat (table_len (e_phoff (file_header bs)) (length ?ps))"
  have fd: "fd_file m0 fd = Some \<lparr>f_data = bs, f_pos = 0\<rparr>" "fd \<noteq> -1" using c_open_fd [OF disk op] by simp_all
  have same0: "load8 m0 = load8 (mc w)" "fs m0 = fs (mc w)" using load8_c_open [OF op] by simp_all
  have ol: "open_library name (gLdPaths w) (mc w) = (fd, m0)" using path op by (auto simp: open_library_eq)
  obtain l m' where ld: "Load os (ElfReader name fd) m0 =
      Some (True, (loaded_reader name fd bs a p)\<lparr>er_loaded_phdr := l\<rparr>, m')"
    and im: "image_at bs p l m'" "image_local bs p l" "table_in_image bs p l" and fs: "fs m' = fs m0"
    and away: "\<And>x. load8 m0 x \<noteq> None \<Longrightarrow> \<not> in_block p (unat (load_max ?ps - load_min ?ps)) x"
    and wr: "\<And>x. in_block p (unat (load_max ?ps - load_min ?ps)) x \<Longrightarrow> writable m' x"
    and same: "\<And>x. load8 m0 x \<noteq> None \<Longrightarrow> load8 m' x = load8 m0 x"
    and apart: "\<And>x. in_block p (unat (load_max ?ps - load_min ?ps)) x \<Longrightarrow> \<not> in_block a ?n x"
      "\<And>x. load8 m0 x \<noteq> None \<Longrightarrow> \<not> in_block a ?n x"
    and beside: "\<And>x. \<not> in_block p (unat (load_max ?ps - load_min ?ps)) x \<Longrightarrow> \<not> in_block a ?n x \<Longrightarrow> load8 m' x = load8 m0 x"
    using load_file [OF fd(1) ef v b, of name] by blast
  let ?r = "(loaded_reader name fd bs a p)\<lparr>er_loaded_phdr := l\<rparr>" and ?w = "w\<lparr>mc := m'\<rparr>"
  have "so_inv ?w LS (f # FL)" using inv by (simp add: so_inv_def)
  from soinfo_alloc_cached [OF this nm, of os] obtain w3 where al: "soinfo_alloc os (basename name) ?w = Some (f, w3)"
    and w3: "so_inv w3 (LS @ [f]) FL" "sos w3 f = Some (zero_soinfo\<lparr>si_name := basename name\<rparr>)" "mc w3 = m'"
    and oth: "\<forall>x. x \<noteq> f \<and> x \<noteq> last LS \<longrightarrow> sos w3 x = sos w x"
      "sos w3 (last LS) = map_option (\<lambda>s. s\<lparr>si_next := f\<rparr>) (sos w (last LS))" by auto
  have rest: "somain w3 = somain w" "gLdPreloads w3 = gLdPreloads w" "out_log w3 = out_log w" "gLdPaths w3 = gLdPaths w"
    using soinfo_alloc_rest [OF al] by simp_all
  have "last LS \<in> set LS" "f \<notin> set LS" using so_invD(5,6) [OF inv] by auto
  then have lf: "last LS \<noteq> f" by auto
  have f0: "f \<noteq> 0" using so_inv_live [OF inv, of f] by simp
  have r: "er_load_start ?r = p" "er_load_size ?r = load_max ?ps - load_min ?ps" "er_load_bias ?r = p - load_min ?ps"
    "er_phdr_num ?r = ucast (e_phnum (file_header bs))" "er_loaded_phdr ?r = l" "er_fd ?r = fd" "er_phdr_mmap ?r = a"
    by (simp_all add: loaded_reader_def Let_def ElfReader_def)
  let ?s = "loaded_object (basename name) bs p l"
  let ?w' = "w3\<lparr>sos := (sos w3)(f \<mapsto> ?s), mc := ElfReader_destroy os ?r m'\<rparr>"
  have o: "(zero_soinfo\<lparr>si_name := basename name\<rparr>)\<lparr>si_base := p, si_size := load_max ?ps - load_min ?ps,
      si_load_bias := p - load_min ?ps, si_flags := 0, si_entry := 0, si_dynamic := 0,
      si_phnum := ucast (e_phnum (file_header bs)), si_phdr := l\<rparr> = ?s"
    by (simp add: loaded_object_def zero_soinfo_def)
  have run: "load_library os name w = Some (f, ?w')"
    using al f0 fd(2) w3(2,3) o by (simp add: load_library_def ol ld upd_si_def r Let_def)
  have "a \<noteq> 0" using v by (simp add: view_granted_def)
  note d = reader_destroy [where r = ?r and m = m', unfolded r, OF fd(2) refl \<open>a \<noteq> 0\<close> u]
  have "so_inv ?w' (LS @ [f]) FL = so_inv w3 (LS @ [f]) FL"
    by (rule so_inv_links) (auto simp: w3(2) loaded_object_def)
  moreover have "image_at bs p l (ElfReader_destroy os ?r m')"
    using im d(2) apart(1) unfolding image_local_def by blast
  moreover have "load8 (ElfReader_destroy os ?r m') x = load8 (mc w) x" if "load8 (mc w) x \<noteq> None" for x
    using that d(2) [of x] apart(2) [of x] same [of x] by (simp add: same0)
  moreover have "writable (ElfReader_destroy os ?r m') x" if "in_block p (unat (load_max ?ps - load_min ?ps)) x" for x
    using wr [OF that] d(2,3) [OF apart(1) [OF that]] by (simp add: writable_def load8_def)
  moreover have "load8 (ElfReader_destroy os ?r m') x = load8 (mc w) x"
    if "\<not> in_block p (unat (load_max ?ps - load_min ?ps)) x" "\<not> in_block a ?n x" for x
    using d(2) [OF that(2)] beside [OF that] by (simp add: same0(1))
  ultimately show ?thesis using run w3(1) d(1,4) oth rest lf im(3) fs same0(2) away [unfolded same0] by (intro exI [of _ ?w'] exI [of _ l]) simp
qed

section \<open>Data of the file in the image\<close>

text \<open>The \<open>n\<close> bytes at the virtual address \<open>v\<close> are among the file bytes of a segment.\<close>

definition in_seg :: "Elf32_Phdr \<Rightarrow> u32 \<Rightarrow> nat \<Rightarrow> bool" where
  "in_seg ph v n \<longleftrightarrow> p_vaddr ph \<le> v \<and> unat (v - p_vaddr ph) + n \<le> unat (p_filesz ph)"

definition file_offset :: "Elf32_Phdr \<Rightarrow> u32 \<Rightarrow> nat" where
  "file_offset ph v = unat (p_offset ph) + unat (v - p_vaddr ph)"

lemma in_seg_image:
  assumes im: "seg_image bias bs ph m" and ok: "seg_ok bias bs ph" and v: "in_seg ph v n"
  shows "mirrors m (bias + v) bs (file_offset ph v) n" and "0 < n \<Longrightarrow> bias + v \<noteq> 0"
proof -
  let ?d = "v - p_vaddr ph"
  have k: "unat (p_offset ph) + unat (p_filesz ph) \<le> length bs" "unat (p_offset ph) + unat (p_filesz ph) < 4294967296"
    using ok by (simp_all add: seg_ok_def)
  have d: "unat ?d + n \<le> unat (p_filesz ph)" using v by (simp add: in_seg_def)
  have o: "unat (p_offset ph + ?d) = file_offset ph v"
    using d k(2) unfolding file_offset_def by (intro unat_add_no_wrap) linarith
  have a: "seg_addr bias ph + (p_offset ph + ?d - p_offset ph) = bias + v" by (simp add: seg_addr_def)
  have "mirrors m (seg_addr bias ph + (p_offset ph + ?d - p_offset ph)) bs (unat (p_offset ph + ?d)) n"
    using d by (intro image_mirrors [OF im k(1)]) (simp_all add: o word_le_nat_alt file_offset_def)
  then show "mirrors m (bias + v) bs (file_offset ph v) n" by (simp only: a o)
  note sn = seg_numbers [OF ok]
  have "unat (seg_addr bias ph + ?d) = unat (seg_addr bias ph) + unat ?d"
    using d sn(1,2) by (intro unat_add_no_wrap) linarith
  moreover have "seg_addr bias ph + ?d = bias + v" by (simp add: seg_addr_def)
  ultimately have "unat (bias + v) \<noteq> 0" using sn(3,4) by simp
  then show "bias + v \<noteq> 0" by auto
qed

fun dyns_in :: "u8 list \<Rightarrow> nat \<Rightarrow> Elf32_Dyn list \<Rightarrow> bool" where
  "dyns_in bs k [] \<longleftrightarrow> word_at bs k = DT_NULL"
| "dyns_in bs k (e # es) \<longleftrightarrow>
     e = \<lparr>d_tag = word_at bs k, d_val = word_at bs (k + 4)\<rparr> \<and> d_tag e \<noteq> DT_NULL \<and> dyns_in bs (k + 8) es"

lemma mirrors_dyn:
  assumes "mirrors m a bs k n" and "8 \<le> n"
  shows "read_dyn m a = Some \<lparr>d_tag = word_at bs k, d_val = word_at bs (k + 4)\<rparr>"
  using mirrors_load32 [OF assms(1), of 0] mirrors_load32 [OF assms(1), of 4] assms(2) by (simp add: read_dyn_def)

lemma mirrors_dyns: "mirrors m a bs k (8 * length es + 8) \<Longrightarrow> dyns_in bs k es \<Longrightarrow> dyns_at m a es"
proof (induction es arbitrary: a k)
  case Nil
  then show ?case using mirrors_dyn [of m a bs k 8] by auto
next
  case (Cons e es)
  have m: "mirrors m a bs k (8 + (8 * length es + 8))" using Cons.prems(1) by (simp add: ac_simps)
  from mirrors_dyn [OF m] have "read_dyn m a = Some e" using Cons.prems(2) by simp
  moreover have "mirrors m (a + 8) bs (k + 8) (8 * length es + 8)" using mirrors_tail [OF m] by simp
  ultimately show ?case using Cons.IH Cons.prems(2) by auto
qed

lemma find_member: "find P xs = Some x \<Longrightarrow> x \<in> set xs \<and> P x"
  by (induction xs) (auto split: if_splits)

lemma dyn_last_none: "\<forall>e \<in> set es. d_tag e \<noteq> tag \<Longrightarrow> dyn_last es tag old f = old"
proof -
  assume "\<forall>e \<in> set es. d_tag e \<noteq> tag"
  then have "find (\<lambda>e. d_tag e = tag) (rev es) = None" by (auto simp: find_None_iff)
  then show "dyn_last es tag old f = old" by (simp add: dyn_last_def)
qed

lemma dyn_last_some:
  assumes "e \<in> set es" and "d_tag e = tag"
  obtains e' where "e' \<in> set es" "d_tag e' = tag" "dyn_last es tag old f = f (d_val e')"
proof (cases "find (\<lambda>e. d_tag e = tag) (rev es)")
  case None
  with assms show ?thesis by (auto simp: find_None_iff)
next
  case (Some e')
  then have "e' \<in> set (rev es)" "d_tag e' = tag" using find_member by fastforce+
  with Some that [of e'] show ?thesis by (simp add: dyn_last_def)
qed

section \<open>A library file without dependencies and relocations\<close>

definition leaf_entry :: "u8 list \<Rightarrow> Elf32_Dyn \<Rightarrow> bool" where
  "leaf_entry bs e \<longleftrightarrow>
     d_tag e \<notin> {DT_RELA, DT_NEEDED, DT_REL, DT_JMPREL, DT_TEXTREL} \<and>
     (d_tag e = DT_PLTREL \<longrightarrow> d_val e = DT_REL) \<and>
     (d_tag e \<in> {DT_STRTAB, DT_SYMTAB} \<longrightarrow> (\<exists>ph \<in> set (loads (file_phdrs bs)). in_seg ph (d_val e) 1)) \<and>
     (d_tag e = DT_HASH \<longrightarrow> (\<exists>ph \<in> set (loads (file_phdrs bs)).
        in_seg ph (d_val e) 8 \<and> word_at bs (file_offset ph (d_val e)) \<noteq> 0))"

definition leaf_file :: "u8 list \<Rightarrow> Elf32_Phdr \<Rightarrow> Elf32_Dyn list \<Rightarrow> bool" where
  "leaf_file bs q es \<longleftrightarrow>
     find (\<lambda>ph. p_type ph = PT_DYNAMIC) (file_phdrs bs) = Some q \<and>
     (\<exists>ph \<in> set (loads (file_phdrs bs)).
        in_seg ph (p_vaddr q) (8 * length es + 8) \<and> dyns_in bs (file_offset ph (p_vaddr q)) es) \<and>
     (\<forall>e \<in> set es. leaf_entry bs e) \<and> {DT_HASH, DT_STRTAB, DT_SYMTAB} \<subseteq> d_tag ` set es"

text \<open>What linking makes of the entries, in an image that shows the file.\<close>

lemma leaf_parsed:
  assumes im: "\<forall>ph \<in> set (loads (file_phdrs bs)). seg_image bias bs ph m \<and> seg_ok bias bs ph"
    and lf: "leaf_file bs q es"
    and s: "si_plt_rel s = 0" "si_rel s = 0" "\<not> si_has_text_relocations s"
  shows "dyns_at m (bias + p_vaddr q) es" and "bias + p_vaddr q \<noteq> 0"
    and "\<forall>e \<in> set es. dyn_accepted m bias e \<and> d_tag e \<noteq> DT_NEEDED"
    and "linkable (parsed m bias es s)"
    and "si_plt_rel (parsed m bias es s) = 0" and "si_rel (parsed m bias es s) = 0"
    and "\<not> si_has_text_relocations (parsed m bias es s)"
proof -
  obtain ph where ph: "ph \<in> set (loads (file_phdrs bs))" "in_seg ph (p_vaddr q) (8 * length es + 8)"
    "dyns_in bs (file_offset ph (p_vaddr q)) es" using lf unfolding leaf_file_def by blast
  have loc: "mirrors m (bias + v) bs (file_offset ph v) n" "0 < n \<Longrightarrow> bias + v \<noteq> 0"
    if "ph \<in> set (loads (file_phdrs bs))" "in_seg ph v n" for ph v n
    using in_seg_image that im by blast+
  show "dyns_at m (bias + p_vaddr q) es" using mirrors_dyns [OF loc(1) [OF ph(1,2)] ph(3)] .
  show "bias + p_vaddr q \<noteq> 0" using loc(2) [OF ph(1,2)] by simp
  have le: "leaf_entry bs e" if "e \<in> set es" for e using lf that unfolding leaf_file_def by blast
  have hash: "load32 m (bias + d_val e) = Some (word_at bs (file_offset ph (d_val e)))"
    "load32 m (bias + d_val e + 4) \<noteq> None"
    if "ph \<in> set (loads (file_phdrs bs))" "in_seg ph (d_val e) 8" for e ph
    using mirrors_load32 [OF loc(1) [OF that], of 0] mirrors_load32 [OF loc(1) [OF that], of 4] by simp_all
  show "\<forall>e \<in> set es. dyn_accepted m bias e \<and> d_tag e \<noteq> DT_NEEDED"
  proof
    fix e assume "e \<in> set es"
    from le [OF this] have l: "d_tag e \<notin> {DT_RELA, DT_NEEDED}" "d_tag e = DT_PLTREL \<longrightarrow> d_val e = DT_REL"
      "d_tag e = DT_HASH \<longrightarrow> (\<exists>ph \<in> set (loads (file_phdrs bs)). in_seg ph (d_val e) 8)"
      unfolding leaf_entry_def by blast+
    have "load32 m (bias + d_val e) \<noteq> None \<and> load32 m (bias + d_val e + 4) \<noteq> None" if "d_tag e = DT_HASH"
      using l(3) that hash by blast
    with l(1,2) show "dyn_accepted m bias e \<and> d_tag e \<noteq> DT_NEEDED" unfolding dyn_accepted_def by blast
  qed
  have tags: "\<forall>e \<in> set es. d_tag e \<noteq> t" if "t \<in> {DT_REL, DT_JMPREL, DT_TEXTREL}" for t
    using le that unfolding leaf_entry_def by blast
  show "si_plt_rel (parsed m bias es s) = 0" "si_rel (parsed m bias es s) = 0"
    "\<not> si_has_text_relocations (parsed m bias es s)"
    using s tags by (simp_all add: parsed_def dyn_last_none)
  have ex: "\<exists>e \<in> set es. d_tag e = t" if "t \<in> {DT_HASH, DT_STRTAB, DT_SYMTAB}" for t
  proof -
    have "t \<in> d_tag ` set es" using lf that unfolding leaf_file_def by blast
    then show ?thesis by auto
  qed
  show "linkable (parsed m bias es s)"
    unfolding linkable_def
  proof (intro conjI)
    obtain e where "e \<in> set es" "d_tag e = DT_HASH" using ex by blast
    then obtain e' where e': "e' \<in> set es" "d_tag e' = DT_HASH"
      "si_nbucket (parsed m bias es s) = word_at_addr m (bias + d_val e')"
      by (rule dyn_last_some [where old = "si_nbucket s" and f = "\<lambda>v. word_at_addr m (bias + v)"]) (simp add: parsed_def)
    then obtain ph where "ph \<in> set (loads (file_phdrs bs))" "in_seg ph (d_val e') 8"
      "word_at bs (file_offset ph (d_val e')) \<noteq> 0" using le unfolding leaf_entry_def by blast
    with hash(1) [of ph e'] e'(3) show "si_nbucket (parsed m bias es s) \<noteq> 0" by (simp add: word_at_addr_def)
  next
    obtain e where "e \<in> set es" "d_tag e = DT_STRTAB" using ex by blast
    then obtain e' where e': "e' \<in> set es" "d_tag e' = DT_STRTAB"
      "si_strtab (parsed m bias es s) = bias + d_val e'"
      by (rule dyn_last_some [where old = "si_strtab s" and f = "\<lambda>v. bias + v"]) (simp add: parsed_def)
    then obtain ph where "ph \<in> set (loads (file_phdrs bs))" "in_seg ph (d_val e') 1"
      using le unfolding leaf_entry_def by blast
    with loc(2) e'(3) show "si_strtab (parsed m bias es s) \<noteq> 0" by simp
  next
    obtain e where "e \<in> set es" "d_tag e = DT_SYMTAB" using ex by blast
    then obtain e' where e': "e' \<in> set es" "d_tag e' = DT_SYMTAB"
      "si_symtab (parsed m bias es s) = bias + d_val e'"
      by (rule dyn_last_some [where old = "si_symtab s" and f = "\<lambda>v. bias + v"]) (simp add: parsed_def)
    then obtain ph where "ph \<in> set (loads (file_phdrs bs))" "in_seg ph (d_val e') 1"
      using le unfolding leaf_entry_def by blast
    with loc(2) e'(3) show "si_symtab (parsed m bias es s) \<noteq> 0" by simp
  qed
qed

section \<open>Linking\<close>

text \<open>Changes of protection succeed and leave the contents of memory alone.\<close>

definition protects :: "win_api \<Rightarrow> bool" where
  "protects os \<longleftrightarrow>
     (\<forall>a l p m. fst (VirtualProtect os a l p m) \<and> vbytes (snd (VirtualProtect os a l p m)) = vbytes m \<and>
        fds (snd (VirtualProtect os a l p m)) = fds m)"

lemma mprotect_all_protects:
  "protects os \<Longrightarrow> \<exists>m'. mprotect_all os rs m = (0, m') \<and> load8 m' = load8 m \<and> fds m' = fds m"
proof (induction rs arbitrary: m)
  case Nil
  then show ?case by simp
next
  case (Cons r rs)
  obtain a l p where r: "r = (a, l, p)" by (cases r)
  let ?v = "VirtualProtect os a l (map_mmap_prot_page p) m"
  have "fst ?v" "load8 (snd ?v) = load8 m" "fds (snd ?v) = fds m"
    using Cons.prems by (simp_all add: protects_def load8_def fun_eq_iff)
  with Cons.IH [OF Cons.prems, of "snd ?v"] show ?case
    by (cases ?v) (auto simp: r s_mprotect_def)
qed

lemma protect_relro:
  assumes "protects os" and "phdrs_at m a ps"
  shows "\<exists>m'. phdr_table_protect_gnu_relro os a (length ps) b m = Some (0, m') \<and> load8 m' = load8 m \<and> fds m' = fds m"
proof -
  have "protect_keeps_bytes os" using assms(1) by (simp add: protects_def protect_keeps_bytes_def)
  from relro_prot.pass_eq [OF this assms(2)] mprotect_all_protects [OF assms(1)] show ?thesis
    unfolding phdr_table_protect_gnu_relro_def by metis
qed

lemma relocate_plain:
  assumes "sos w f = Some s" and "\<not> si_has_text_relocations s" and "si_plt_rel s = 0" and "si_rel s = 0"
    and "phdr_table_protect_gnu_relro os (si_phdr s) (unat (si_phnum s)) (si_load_bias s) (mc w) = Some (0, m')"
  shows "relocate_image os f breloc needed w =
    Some (True, w\<lparr>sos := (sos w)(f \<mapsto> s\<lparr>si_flags := si_flags s OR FLAG_LINKED\<rparr>), mc := m'\<rparr>)"
  using assms by (simp add: relocate_image_def seal_image_def relocate_table_def upd_si_def protect_pass_def)

lemma links_leaf:
  assumes os: "protects os" and s: "sos w f = Some s" "s = loaded_object name bs p l"
    and im: "image_at bs p l (mc w)"
      "\<forall>ph \<in> set (loads (file_phdrs bs)). seg_ok (p - load_min (file_phdrs bs)) bs ph"
    and lf: "leaf_file bs q es"
  shows "\<exists>w' exidx cnt. soinfo_link_image os fl f True w = Some (True, w') \<and>
    sos w' = (sos w)(f \<mapsto> (parsed (mc w) (si_load_bias s) es (s\<lparr>si_dynamic := si_load_bias s + p_vaddr q,
      si_ARM_exidx := exidx, si_ARM_exidx_count := cnt\<rparr>))\<lparr>si_flags := FLAG_LINKED\<rparr>) \<and>
    load8 (mc w') = load8 (mc w) \<and> fds (mc w') = fds (mc w) \<and> solist w' = solist w \<and>
    gSoInfoFreeList w' = gSoInfoFreeList w \<and> sonext w' = sonext w"
proof -
  let ?ps = "file_phdrs bs" and ?b = "p - load_min (file_phdrs bs)"
  have sel: "si_flags s = 0" "si_load_bias s = ?b" "si_phdr s = l" "unat (si_phnum s) = length ?ps"
    "si_plt_rel s = 0" "si_rel s = 0" "\<not> si_has_text_relocations s"
    by (simp_all add: s(2) loaded_object_def zero_soinfo_def file_phdrs_def)
  have tab: "phdrs_at (mc w) l ?ps" using im(1) by (simp add: image_at_def)
  have segs: "\<forall>ph \<in> set (loads ?ps). seg_image ?b bs ph (mc w) \<and> seg_ok ?b bs ph"
    using im by (simp add: image_at_def)
  have dq: "find (\<lambda>ph. p_type ph = PT_DYNAMIC) ?ps = Some q" using lf by (simp add: leaf_file_def)
  have dyn: "phdr_table_get_dynamic_section (mc w) l (length ?ps) ?b =
      Some (?b + p_vaddr q, p_memsz q div 8, Some (p_flags q))"
    using get_dynamic_section_eq [OF tab] dq by simp
  obtain r exidx cnt where ex: "phdr_table_get_arm_exidx (mc w) l (length ?ps) ?b = Some (r, exidx, cnt)"
    using get_arm_exidx_eq [OF tab, of ?b] by (cases "find (\<lambda>ph. p_type ph = PT_ARM_EXIDX) ?ps") auto
  let ?s = "s\<lparr>si_dynamic := ?b + p_vaddr q, si_ARM_exidx := exidx, si_ARM_exidx_count := cnt\<rparr>"
  have "si_plt_rel ?s = 0" "si_rel ?s = 0" "\<not> si_has_text_relocations ?s" using sel by simp_all
  note P = leaf_parsed [OF segs lf this]
  let ?s' = "parsed (mc w) ?b es ?s"
  have link: "soinfo_link_image os fl f True w = relocate_image os f True [] (put_si f ?s' w)"
    using link_leaf [OF s(1) sel(1), unfolded sel(2-4), OF dyn P(2) ex P(1,3), of os fl True] P(4) by (simp add: Let_def)
  have keep: "si_phdr ?s' = l" "unat (si_phnum ?s') = length ?ps" "si_load_bias ?s' = ?b" "si_flags ?s' = 0"
    using sel by (simp_all add: parsed_def)
  obtain m' where relro: "phdr_table_protect_gnu_relro os l (length ?ps) ?b (mc w) = Some (0, m')"
    and m': "load8 m' = load8 (mc w)" "fds m' = fds (mc w)"
    using protect_relro [OF os tab] by blast
  have "sos (put_si f ?s' w) f = Some ?s'" "mc (put_si f ?s' w) = mc w" by (simp_all add: put_si_def)
  from relocate_plain [OF this(1) P(7,5,6), unfolded this(2) keep, OF relro]
  have "relocate_image os f True [] (put_si f ?s' w) =
      Some (True, w\<lparr>sos := (sos w)(f \<mapsto> ?s'\<lparr>si_flags := FLAG_LINKED\<rparr>), mc := m'\<rparr>)"
    by (simp add: put_si_def)
  with link m' sel(2) show ?thesis
    by (intro exI [of _ "w\<lparr>sos := (sos w)(f \<mapsto> ?s'\<lparr>si_flags := FLAG_LINKED\<rparr>), mc := m'\<rparr>"] exI [of _ exidx] exI [of _ cnt])
      simp
qed

lemma image_seg_ok:
  assumes ef: "elf_file bs" and tab: "phdrs_at m l (file_phdrs bs)"
    and b: "block_granted os (load_max (file_phdrs bs) - load_min (file_phdrs bs)) m1 p m2"
  shows "\<forall>ph \<in> set (loads (file_phdrs bs)). seg_ok (p - load_min (file_phdrs bs)) bs ph"
proof -
  let ?ps = "file_phdrs bs"
  note E = ef [unfolded elf_file_def]
  have ne: "loads ?ps \<noteq> []" using E by auto
  have fits: "\<forall>ph \<in> set (loads ?ps). fits ph" using E by (auto simp: seg_in_file_def)
  note ext = load_extent [OF tab ne fits]
  have pl: "placed (load_min ?ps) (load_max ?ps) p" using b ext(2-5) by (simp add: placed_def block_granted_def)
  have k: "length bs < 4294967296" using E by simp
  have "seg_between (load_min ?ps) (load_max ?ps) ph" if "ph \<in> set (loads ?ps)" for ph
    using ext(6) that by (simp add: seg_between_def)
  with seg_ok_placed [OF pl _ _ k] E show ?thesis by blast
qed

text \<open>Appending an object to the list changes a link at most.\<close>

lemma next_kept:
  assumes "so_inv w LS (f # FL)" and "\<forall>x. x \<noteq> f \<and> x \<noteq> last LS \<longrightarrow> sos w1 x = sos w x"
    and "sos w1 (last LS) = map_option (\<lambda>s. s\<lparr>si_next := f\<rparr>) (sos w (last LS))" and "x \<in> set LS"
  shows "\<exists>k. sos w1 x = map_option (\<lambda>s. s\<lparr>si_next := k\<rparr>) (sos w x)"
proof (cases "x = last LS")
  case True
  with assms(3) show ?thesis by blast
next
  case False
  have "x \<noteq> f" using assms(4) so_invD(5) [OF assms(1)] by auto
  moreover obtain s where "sos w x = Some s" using so_inv_live [OF assms(1), of x] assms(4) by auto
  ultimately show ?thesis using assms(2) False by (intro exI [of _ "si_next s"]) simp
qed

lemma find_loads_file:
  assumes disk: "fs (mc w) name = Some bs" and path: "[] \<in> set (gLdPaths w)" and ef: "elf_file bs" and lf: "leaf_file bs q es"
    and op: "c_open name (mc w) = (fd, m0)"
    and v: "view_granted os fd bs (PAGE_START (e_phoff (file_header bs)))
      (table_len (e_phoff (file_header bs)) (length (file_phdrs bs))) (set_fd fd (Some \<lparr>f_data = bs, f_pos = 52\<rparr>) m0) a m1"
    and b: "block_granted os (load_max (file_phdrs bs) - load_min (file_phdrs bs)) m1 p m2"
    and u: "unmaps_view os a (unat (table_len (e_phoff (file_header bs)) (length (file_phdrs bs))))" and os: "protects os"
    and inv: "so_inv w LS (f # FL)" and nm: "no_nul (basename name)" "length (basename name) < 128"
    and new: "\<forall>x \<in> set LS. si_name (obj w x) \<noteq> basename name"
  shows "\<exists>w' l. find_library os (Suc n) (Some name) w = Some (f, w') \<and> so_inv w' (LS @ [f]) FL \<and>
    is_linked w' f \<and> si_ref_count (obj w' f) = 1 \<and> si_name (obj w' f) = basename name \<and> si_base (obj w' f) = p \<and>
    si_load_bias (obj w' f) = p - load_min (file_phdrs bs) \<and> si_phdr (obj w' f) = l \<and>
    si_dynamic (obj w' f) = p - load_min (file_phdrs bs) + p_vaddr q \<and> image_at bs p l (mc w') \<and>
    fd_file (mc w') fd = None \<and> (\<forall>x. load8 (mc w) x \<noteq> None \<longrightarrow> load8 (mc w') x = load8 (mc w) x) \<and>
    (\<forall>x \<in> set LS. \<exists>k. sos w' x = map_option (\<lambda>s. s\<lparr>si_next := k\<rparr>) (sos w x))"
proof -
  let ?b = "p - load_min (file_phdrs bs)"
  have "find (\<lambda>x. basename name = si_name (obj w x)) LS = None" using new by (auto simp: find_None_iff)
  then have none: "find_loaded_library name w = Some 0" using find_loaded_library_eq [OF inv, of name] by (simp add: ptr_of_def)
  obtain w1 l where ll: "load_library os name w = Some (f, w1)" and inv1: "so_inv w1 (LS @ [f]) FL"
    and s: "sos w1 f = Some (loaded_object (basename name) bs p l)" and im: "image_at bs p l (mc w1)"
    and fd: "fd_file (mc w1) fd = None" and same: "\<forall>x. load8 (mc w) x \<noteq> None \<longrightarrow> load8 (mc w1) x = load8 (mc w) x"
    and oth: "\<forall>x. x \<noteq> f \<and> x \<noteq> last LS \<longrightarrow> sos w1 x = sos w x"
      "sos w1 (last LS) = map_option (\<lambda>s. s\<lparr>si_next := f\<rparr>) (sos w (last LS))"
    using load_library_file [OF disk path ef op v b u inv nm] by blast
  let ?s = "loaded_object (basename name) bs p l"
  have tab: "phdrs_at (mc w1) l (file_phdrs bs)" using im by (simp add: image_at_def)
  obtain w2 exidx cnt where lk: "soinfo_link_image os (find_library os n) f True w1 = Some (True, w2)"
    and w2: "sos w2 = (sos w1)(f \<mapsto> (parsed (mc w1) (si_load_bias ?s) es (?s\<lparr>si_dynamic := si_load_bias ?s + p_vaddr q,
      si_ARM_exidx := exidx, si_ARM_exidx_count := cnt\<rparr>))\<lparr>si_flags := FLAG_LINKED\<rparr>)"
      "load8 (mc w2) = load8 (mc w1)" "fds (mc w2) = fds (mc w1)" "solist w2 = solist w1"
      "gSoInfoFreeList w2 = gSoInfoFreeList w1" "sonext w2 = sonext w1"
    using links_leaf [OF os s refl im image_seg_ok [OF ef tab b] lf, of "find_library os n"] by blast
  define t where "t = (parsed (mc w1) (si_load_bias ?s) es (?s\<lparr>si_dynamic := si_load_bias ?s + p_vaddr q,
      si_ARM_exidx := exidx, si_ARM_exidx_count := cnt\<rparr>))\<lparr>si_flags := FLAG_LINKED\<rparr>"
  have t: "si_next t = si_next ?s" "si_name t = basename name" "si_base t = p" "si_load_bias t = ?b"
    "si_dynamic t = ?b + p_vaddr q" "si_flags t = FLAG_LINKED"
    by (simp_all add: t_def) (simp_all add: loaded_object_def)
  have t2: "si_phdr t = l" "si_ref_count t = 0" by (simp_all add: t_def parsed_def loaded_object_def zero_soinfo_def)
  have w2t: "sos w2 = (sos w1)(f \<mapsto> t)" using w2(1) by (simp add: t_def)
  let ?w' = "w2\<lparr>sos := (sos w1)(f \<mapsto> t\<lparr>si_ref_count := 1\<rparr>)\<rparr>"
  have f0: "f \<noteq> 0" using so_inv_live [OF inv, of f] by simp
  have "find_library os (Suc n) (Some name) w = Some (f, ?w')"
    using none ll f0 lk t2(2) by (simp add: find_library_internal_def w2t upd_si_def)
  moreover have "so_inv ?w' (LS @ [f]) FL = so_inv w1 (LS @ [f]) FL"
    by (rule so_inv_links) (auto simp: s t w2)
  moreover have "image_at bs p l (mc ?w')"
  proof -
    have "phdrs_at (mc w2) l (file_phdrs bs)"
      by (rule phdrs_at_same_block [OF tab]) (use ef w2(2) in \<open>auto simp: same_block_def elf_file_def\<close>)
    then show ?thesis using im w2(2) by (simp add: image_at_def seg_image_def)
  qed
  moreover have "obj ?w' f = t\<lparr>si_ref_count := 1\<rparr>" by (simp add: obj_def)
  moreover have "is_linked ?w' f" by (simp add: is_linked_def t)
  moreover have "fd_file (mc w2) fd = fd_file (mc w1) fd" by (simp add: fd_file_def w2(3))
  then have "fd_file (mc ?w') fd = None" using fd by simp
  moreover have "\<exists>k. sos ?w' x = map_option (\<lambda>s. s\<lparr>si_next := k\<rparr>) (sos w x)" if x: "x \<in> set LS" for x
    using next_kept [OF inv oth x] so_invD(5) [OF inv] x by (auto simp: disjoint_iff)
  ultimately show ?thesis
    using inv1 same t t2 w2(2) by (intro exI [of _ ?w'] exI [of _ l]) simp
qed

section \<open>Properties\<close>

text \<open>
  \<open>find_library\<close> from the file on disk to a linked library.  For a well-formed file without dependencies and
  relocations, whose name is not registered, and with a system that grants the mappings, it returns the first object
  of the free list, now the last of the global list, linked, with one reference and the fields that the file's
  headers give; the image of the segments and the program header table is in memory; the file is
  closed; and no byte that was mapped before has changed.
\<close>

theorem find_library_loads_file:
  assumes "fs (mc w) name = Some bs" and "[] \<in> set (gLdPaths w)" and "elf_file bs" and "leaf_file bs q es"
    and "c_open name (mc w) = (fd, m0)"
    and "view_granted os fd bs (PAGE_START (e_phoff (file_header bs)))
      (table_len (e_phoff (file_header bs)) (length (file_phdrs bs))) (set_fd fd (Some \<lparr>f_data = bs, f_pos = 52\<rparr>) m0) a m1"
    and "block_granted os (load_max (file_phdrs bs) - load_min (file_phdrs bs)) m1 p m2"
    and "unmaps_view os a (unat (table_len (e_phoff (file_header bs)) (length (file_phdrs bs))))" and "protects os"
    and "so_inv w LS (f # FL)" and "no_nul (basename name)" and "length (basename name) < 128"
    and "\<forall>x \<in> set LS. si_name (obj w x) \<noteq> basename name"
  shows "\<exists>w' l. find_library os (Suc n) (Some name) w = Some (f, w') \<and> so_inv w' (LS @ [f]) FL \<and>
    is_linked w' f \<and> si_ref_count (obj w' f) = 1 \<and> si_name (obj w' f) = basename name \<and> si_base (obj w' f) = p \<and>
    si_load_bias (obj w' f) = p - load_min (file_phdrs bs) \<and> si_phdr (obj w' f) = l \<and>
    si_dynamic (obj w' f) = p - load_min (file_phdrs bs) + p_vaddr q \<and> image_at bs p l (mc w') \<and>
    fd_file (mc w') fd = None \<and> (\<forall>x. load8 (mc w) x \<noteq> None \<longrightarrow> load8 (mc w') x = load8 (mc w) x)"
  using find_loads_file [OF assms, of n] by blast

text \<open>
  A library of 164 bytes in a file of one page: one segment with everything, and a dynamic section of three
  entries at 120.
\<close>

definition leaf_bytes :: "u8 list" where
  "leaf_bytes =
     [0x7f, 0x45, 0x4c, 0x46, 1, 1, 1, 0, 0, 0, 0, 0, 0, 0, 0, 0, 3, 0, 40, 0, 1, 0, 0, 0,
      0, 0, 0, 0, 52, 0, 0, 0, 0, 0, 0, 0, 0, 0, 0, 5, 52, 0, 32, 0, 2, 0, 40, 0, 0, 0, 0, 0,
      1, 0, 0, 0, 0, 0, 0, 0, 0, 0, 0, 0, 0, 0, 0, 0, 164, 0, 0, 0, 164, 0, 0, 0, 6, 0, 0, 0, 0, 16, 0, 0,
      2, 0, 0, 0, 120, 0, 0, 0, 120, 0, 0, 0, 120, 0, 0, 0, 32, 0, 0, 0, 32, 0, 0, 0, 6, 0, 0, 0, 4, 0, 0, 0,
      0, 0, 0, 0,
      4, 0, 0, 0, 152, 0, 0, 0, 5, 0, 0, 0, 160, 0, 0, 0, 6, 0, 0, 0, 160, 0, 0, 0, 0, 0, 0, 0, 0, 0, 0, 0,
      1, 0, 0, 0, 1, 0, 0, 0, 0, 0, 0, 0]"

definition leaf_page :: "u8 list" where
  "leaf_page = leaf_bytes @ replicate 3932 0"

definition leaf_segment :: Elf32_Phdr where
  "leaf_segment = \<lparr>p_type = 1, p_offset = 0, p_vaddr = 0, p_paddr = 0,
     p_filesz = 164, p_memsz = 164, p_flags = 6, p_align = 4096\<rparr>"

definition leaf_dynamic :: Elf32_Phdr where
  "leaf_dynamic = \<lparr>p_type = 2, p_offset = 120, p_vaddr = 120, p_paddr = 120,
     p_filesz = 32, p_memsz = 32, p_flags = 6, p_align = 4\<rparr>"

definition leaf_dyns :: "Elf32_Dyn list" where
  "leaf_dyns = [\<lparr>d_tag = 4, d_val = 152\<rparr>, \<lparr>d_tag = 5, d_val = 160\<rparr>, \<lparr>d_tag = 6, d_val = 160\<rparr>]"

lemma length_leaf_bytes: "length leaf_bytes = 164"
  by (simp add: leaf_bytes_def)

lemma length_leaf_page [simp]: "length leaf_page = 4096"
  by (simp add: leaf_page_def length_leaf_bytes)

lemma leaf_page_nth: "i < 164 \<Longrightarrow> leaf_page ! i = leaf_bytes ! i"
  by (simp add: leaf_page_def nth_append length_leaf_bytes)

lemma leaf_page_magic: "take 4 leaf_page = ELFMAG"
proof -
  have "4 \<le> length leaf_page" by simp
  from magic_take [OF this] show ?thesis by (simp add: leaf_page_nth leaf_bytes_def)
qed

lemma leaf_page_header: "e_phoff (file_header leaf_page) = 52" "e_phnum (file_header leaf_page) = 2"
  "VerifyElfHeader (file_header leaf_page)"
  unfolding file_header_def
  by (simp_all add: VerifyElfHeader_decode leaf_page_magic)
    (simp_all add: decode_ehdr_def word_at_def half_at_def byte_at_def leaf_page_nth leaf_bytes_def le32_def le16_def)

lemma leaf_page_phdrs: "file_phdrs leaf_page = [leaf_segment, leaf_dynamic]"
proof -
  have "phdr_in leaf_page 52 = leaf_segment" "phdr_in leaf_page 84 = leaf_dynamic"
    by (simp_all add: phdr_in_def word_at_def byte_at_def leaf_page_nth leaf_bytes_def le32_def leaf_segment_def leaf_dynamic_def)
  moreover have "unat (2 :: u16) = Suc (Suc 0)" by simp
  ultimately show ?thesis by (simp only: file_phdrs_def leaf_page_header phdrs_in.simps) simp
qed

lemma leaf_page_loads: "loads (file_phdrs leaf_page) = [leaf_segment]"
  by (simp add: leaf_page_phdrs loads_def leaf_segment_def leaf_dynamic_def)

lemma leaf_page_elf: "elf_file leaf_page"
proof -
  have "table_loaded 52 [leaf_segment, leaf_dynamic] leaf_segment"
    using leaf_page_loads by (simp add: leaf_page_phdrs table_loaded_def)
      (simp add: leaf_segment_def leaf_dynamic_def)
  moreover have "seg_in_file leaf_page leaf_segment"
    by (simp add: seg_in_file_def fits_def)
      (simp add: leaf_segment_def PAGE_OFFSET_def PAGE_MASK_def PFLAGS_TO_PROT_def MAYBE_MAP_FLAG_def)
  ultimately show ?thesis
    using leaf_page_loads by (simp add: elf_file_def leaf_page_phdrs leaf_page_header foot_disjoint_def)
qed

lemma leaf_page_leaf: "leaf_file leaf_page leaf_dynamic leaf_dyns"
proof -
  have w: "word_at leaf_page i = word_at leaf_bytes i" if "i + 4 \<le> 164" for i
    using that by (simp add: word_at_def byte_at_def leaf_page_nth length_leaf_bytes)
  have "dyns_in leaf_page 120 leaf_dyns"
    by (simp add: leaf_dyns_def w) (simp add: word_at_def byte_at_def leaf_bytes_def le32_def)
  moreover have "word_at leaf_page 152 = 1" by (simp add: w) (simp add: word_at_def byte_at_def leaf_bytes_def le32_def)
  ultimately show ?thesis
    by (simp add: leaf_file_def leaf_page_loads leaf_entry_def in_seg_def file_offset_def)
      (simp add: leaf_page_phdrs leaf_segment_def leaf_dynamic_def leaf_dyns_def)
qed

lemma leaf_page_extent: "load_min (file_phdrs leaf_page) = 0" "load_max (file_phdrs leaf_page) = 4096"
  unfolding load_min_def load_max_def leaf_page_loads
  by (simp_all add: leaf_segment_def seg_top_def PAGE_END_def PAGE_START_def PAGE_MASK_def)

lemma leaf_page_size: "load_max (file_phdrs leaf_page) - load_min (file_phdrs leaf_page) = 4096"
  by (simp add: leaf_page_extent)

lemma leaf_page_table: "PAGE_START (e_phoff (file_header leaf_page)) = 0"
  "table_len (e_phoff (file_header leaf_page)) (length (file_phdrs leaf_page)) = 4096"
  "unat (table_len (e_phoff (file_header leaf_page)) (length (file_phdrs leaf_page))) = 4096"
  by (simp_all add: leaf_page_header leaf_page_phdrs table_len_def PAGE_START_def PAGE_END_def PAGE_MASK_def)

text \<open>The registry with \<open>libdl.so\<close> and \<open>libc.so\<close>, and \<open>liba.so\<close> on disk.\<close>

definition leaf_mach :: mach where
  "leaf_mach = \<lparr>vbytes = (\<lambda>a. None), vwr = (\<lambda>a. True), fs = [''liba.so'' \<mapsto> leaf_page],
     fds = [None, None, None], errno = 0\<rparr>"

definition leaf_world :: world where
  "leaf_world = demo_registry\<lparr>mc := leaf_mach, gLdPaths := [[]]\<rparr>"

definition leaf_opened :: mach where
  "leaf_opened = leaf_mach\<lparr>fds := [Some \<lparr>f_data = leaf_page, f_pos = 0\<rparr>, None, None]\<rparr>"

lemma leaf_world_sel: "fs (mc leaf_world) ''liba.so'' = Some leaf_page" "[] \<in> set (gLdPaths leaf_world)"
  "c_open ''liba.so'' (mc leaf_world) = (0, leaf_opened)" "so_inv leaf_world [0x10000, 0x20000] [0x30000]"
  "\<forall>x \<in> set [0x10000, 0x20000]. si_name (obj leaf_world x) \<noteq> basename ''liba.so''"
  by (simp_all add: leaf_world_def leaf_mach_def leaf_opened_def c_open_def so_inv_def obj_def demo_defs basename_def)

lemma leaf_name: "no_nul (basename ''liba.so'')" "length (basename ''liba.so'') < 128" "basename ''liba.so'' = ''liba.so''"
  by (simp_all add: basename_def no_nul_def char_byte_def)

lemma file_api_works: "unmaps_view (file_api bs) a n" "protects (file_api bs)"
  by (simp_all add: unmaps_view_def protects_def file_api_def demo_api_def same_outside_def)

lemma find_library_loads_file_witness:
  "\<exists>w'. find_library (file_api leaf_page) 1 (Some ''liba.so'') leaf_world = Some (0x30000, w') \<and>
     so_inv w' [0x10000, 0x20000, 0x30000] [] \<and> is_linked w' 0x30000 \<and> si_ref_count (obj w' 0x30000) = 1 \<and>
     si_dynamic (obj w' 0x30000) = 0x10078 \<and> fd_file (mc w') 0 = None"
proof -
  let ?m0 = "set_fd 0 (Some \<lparr>f_data = leaf_page, f_pos = 52\<rparr>) leaf_opened"
  let ?m1 = "?m0\<lparr>vbytes := (\<lambda>x. if in_block 0x1000 4096 x then Some (leaf_page ! unat (x - 0x1000)) else vbytes ?m0 x)\<rparr>"
  have v: "view_granted (file_api leaf_page) 0 leaf_page 0 4096 ?m0 0x1000 ?m1"
    by (rule file_api_view)
      (simp add: set_fd_def fd_file_def leaf_opened_def, simp_all add: leaf_opened_def leaf_mach_def load8_def)
  have "load8 ?m1 x = None" if "in_block 0x10000 4096 x" for x
    using that by (simp add: load8_def in_block_no_wrap leaf_opened_def leaf_mach_def)
  moreover have "vwr ?m1 x" for x by (simp add: leaf_opened_def leaf_mach_def)
  ultimately have b: "block_granted (file_api leaf_page) 4096 ?m1 0x10000
      (?m1\<lparr>vbytes := (\<lambda>x. if in_block 0x10000 4096 x then Some 0 else vbytes ?m1 x)\<rparr>)"
    by (rule file_api_block)
  from find_library_loads_file [where os = "file_api leaf_page" and n = 0,
      OF leaf_world_sel(1,2) leaf_page_elf leaf_page_leaf leaf_world_sel(3),
      unfolded leaf_page_table leaf_page_size, OF v b file_api_works leaf_world_sel(4) leaf_name(1,2) leaf_world_sel(5)]
  show ?thesis by (auto simp: leaf_page_extent leaf_dynamic_def)
qed

end
