(* ===== verification/Link_Needed.thy ===== *)
theory Link_Needed
  imports Reloc_Table Load_Library
begin

text \<open>
  Linking a library that needs others which are loaded already: the second walk over its dynamic section takes a
  reference to each of them, and its two relocation tables are applied in their scope.
\<close>

section \<open>Lookups in a state that shows more\<close>

text \<open>The fields of a library that a lookup in it reads.\<close>

definition same_tables :: "soinfo \<Rightarrow> soinfo \<Rightarrow> bool" where
  "same_tables s s' \<longleftrightarrow>
     si_nbucket s' = si_nbucket s \<and> si_bucket s' = si_bucket s \<and> si_chain s' = si_chain s \<and>
     si_symtab s' = si_symtab s \<and> si_strtab s' = si_strtab s \<and> si_load_bias s' = si_load_bias s"

lemma same_tables_chain: "same_tables s s' \<Longrightarrow> chain_lookup m s' name n = chain_lookup m s name n"
proof -
  assume t: "same_tables s s'"
  have *: "chain_lookup m s' name n = Some r" if "same_tables s s'" "chain_lookup m s name n = Some r" for s s' r
  proof -
    have "same_tables s s' \<longrightarrow> chain_lookup m s' name n = Some r"
      using that(2)
    proof (rule chain_lookup.raw_induct [where P = "\<lambda>m s name n r. same_tables s s' \<longrightarrow> chain_lookup m s' name n = Some r", rotated])
      fix f m s name n r
      assume ih: "\<And>m s name n r. f m s name n = Some r \<Longrightarrow> same_tables s s' \<longrightarrow> chain_lookup m s' name n = Some r"
        and run: "(if n = 0 then Some 0
          else do { sy \<leftarrow> read_sym m (sym_addr_of s n);
                    eq \<leftarrow> strcmp_eq m (si_strtab s + st_name sy) name;
                    (if eq \<and> exported sy then Some (sym_addr_of s n)
                     else do { n \<leftarrow> load32 m (si_chain s + 4 * n); f m s name n }) }) = Some r"
      show "same_tables s s' \<longrightarrow> chain_lookup m s' name n = Some r"
      proof
        assume st: "same_tables s s'"
        then have a: "sym_addr_of s' n = sym_addr_of s n" "si_strtab s' = si_strtab s" "si_chain s' = si_chain s"
          by (simp_all add: same_tables_def sym_addr_of_def)
        have step: "f m s name k = Some r \<Longrightarrow> chain_lookup m s' name k = Some r" for k using ih st by blast
        show "chain_lookup m s' name n = Some r"
          by (subst chain_lookup.simps, unfold a) (use run in \<open>auto elim!: bind_eq_SomeE split: if_splits simp: step\<close>)
      qed
    qed
    with that(1) show ?thesis by blast
  qed
  have t': "same_tables s' s" using t by (simp add: same_tables_def)
  show ?thesis
  proof (cases "chain_lookup m s name n")
    case None
    then show ?thesis using * [OF t'] by (cases "chain_lookup m s' name n") auto
  next
    case (Some r)
    then show ?thesis using * [OF t] by simp
  qed
qed

text \<open>The libraries \<open>A\<close> are in \<open>w'\<close> as in \<open>w\<close>, for a lookup, and the memory of \<open>w'\<close> shows what that of \<open>w\<close> shows.\<close>

locale scope_more =
  fixes w w' :: world and A :: "u32 set"
  assumes memory: "mach_le (mc w) (mc w')"
    and tables: "p \<in> A \<Longrightarrow> sos w p = Some s \<Longrightarrow> \<exists>s'. sos w' p = Some s' \<and> same_tables s s'"

sublocale scope_more \<subseteq> shows_more "mc w" "mc w'"
  by unfold_locales (rule memory)

context scope_more
begin

lemma lookup_more:
  assumes "soinfo_elf_lookup w p h name = Some r" and "p \<in> A"
  shows "soinfo_elf_lookup w' p h name = Some r"
proof -
  obtain s n where s: "sos w p = Some s" and nz: "si_nbucket s \<noteq> 0"
    and n: "load32 (mc w) (si_bucket s + 4 * (h mod si_nbucket s)) = Some n" "chain_lookup (mc w) s name n = Some r"
    using assms(1) by (auto simp: soinfo_elf_lookup_def elim!: bind_eq_SomeE split: if_splits)
  obtain s' where s': "sos w' p = Some s'" and t: "same_tables s s'" using tables [OF assms(2) s] by blast
  have "si_nbucket s' = si_nbucket s" "si_bucket s' = si_bucket s" using t by (simp_all add: same_tables_def)
  with s' nz load32_more [OF n(1)] chain_lookup_more [OF n(2)] same_tables_chain [OF t] show ?thesis
    by (simp add: soinfo_elf_lookup_def)
qed

lemma probe_more: "lib_probe w name p = Some r \<Longrightarrow> p \<in> A \<Longrightarrow> lib_probe w' name p = Some r"
  by (auto simp: lib_probe_def elim!: bind_eq_SomeE dest: lookup_more)

lemma first_hit_more: "first_hit (lib_probe w name) ps = Some r \<Longrightarrow> set ps \<subseteq> A \<Longrightarrow> first_hit (lib_probe w' name) ps = Some r"
  by (induction ps) (auto elim!: bind_eq_SomeE dest: probe_more split: option.splits)

end

section \<open>References to needed libraries\<close>

text \<open>The state after a reference has been taken to each library of \<open>ps\<close>.\<close>

definition referenced :: "u32 list \<Rightarrow> world \<Rightarrow> world" where
  "referenced ps w =
     w\<lparr>sos := (\<lambda>p. map_option (\<lambda>s. s\<lparr>si_ref_count := si_ref_count s + of_nat (count_list ps p)\<rparr>) (sos w p))\<rparr>"

lemma keep_ref_count [simp]: "s\<lparr>si_ref_count := si_ref_count s\<rparr> = s"
  by simp

lemma referenced_Nil: "referenced [] w = w"
  by (simp add: referenced_def map_option.id [unfolded id_def])

lemma referenced_Cons: "referenced (p # ps) w = referenced ps (referenced [p] w)"
  by (auto simp: referenced_def fun_eq_iff option.map_comp comp_def add.assoc intro!: option.map_cong)

lemma referenced_sel [simp]:
  "mc (referenced ps w) = mc w" "solist (referenced ps w) = solist w" "gSoInfoFreeList (referenced ps w) = gSoInfoFreeList w"
  "sonext (referenced ps w) = sonext w" "somain (referenced ps w) = somain w" "gLdPreloads (referenced ps w) = gLdPreloads w"
  "gSoInfoPools (referenced ps w) = gSoInfoPools w" "out_log (referenced ps w) = out_log w"
  by (simp_all add: referenced_def)

lemma referenced_sos: "sos w p = Some s \<Longrightarrow>
    sos (referenced ps w) p = Some (s\<lparr>si_ref_count := si_ref_count s + of_nat (count_list ps p)\<rparr>)"
  by (simp add: referenced_def)

lemma referenced_inv [simp]: "so_inv (referenced ps w) LS FL = so_inv w LS FL"
  by (rule so_inv_links) (simp_all add: referenced_def option.map_comp comp_def)

lemma referenced_name [simp]: "si_name (obj (referenced ps w) p) = si_name (obj w p)"
  by (simp add: obj_def referenced_def split: option.split)

lemma referenced_linked [simp]: "is_linked (referenced ps w) p = is_linked w p"
  by (simp add: is_linked_def referenced_def split: option.split)

interpretation referred: scope_more w "referenced ps w" A for ps w A
  by unfold_locales (auto simp: referenced_sos same_tables_def)

text \<open>The entries of \<open>es\<close> that need a library name the loaded libraries \<open>ps\<close>, in their order.\<close>

definition needs :: "world \<Rightarrow> u32 list \<Rightarrow> u32 \<Rightarrow> Elf32_Dyn list \<Rightarrow> u32 list \<Rightarrow> bool" where
  "needs w LS strtab es ps \<longleftrightarrow>
     list_all2 (\<lambda>e p. \<exists>name. str_at (mc w) (strtab + d_val e) name \<and>
       find (\<lambda>x. si_name (obj w x) = basename name) LS = Some p \<and> is_linked w p) (needed_names es) ps"

lemma needs_referenced [simp]: "needs (referenced qs w) LS strtab es ps = needs w LS strtab es ps"
  by (simp add: needs_def)

lemma find_registered_references:
  assumes inv: "so_inv w LS FL" and "find (\<lambda>x. si_name (obj w x) = basename name) LS = Some p" and "is_linked w p"
  shows "find_library os (Suc n) (Some name) w = Some (p, referenced [p] w)" and "p \<noteq> 0"
proof -
  have "p \<in> set LS" using assms(2) by (auto simp: find_Some_iff)
  then have p: "sos w p = Some (obj w p)" "p \<noteq> 0" using so_inv_live [OF inv, of p] by (auto simp: obj_def)
  have "(sos w)(p \<mapsto> (obj w p)\<lparr>si_ref_count := si_ref_count (obj w p) + 1\<rparr>) = sos (referenced [p] w)"
  proof
    fix q
    have "map_option (\<lambda>s. s\<lparr>si_ref_count := si_ref_count s\<rparr>) (sos w q) = sos w q" by (cases "sos w q") simp_all
    then show "((sos w)(p \<mapsto> (obj w p)\<lparr>si_ref_count := si_ref_count (obj w p) + 1\<rparr>)) q = sos (referenced [p] w) q"
      using p by (simp add: referenced_def)
  qed
  then have "put_si p ((obj w p)\<lparr>si_ref_count := si_ref_count (obj w p) + 1\<rparr>) w = referenced [p] w"
    by (simp add: put_si_def) (simp add: referenced_def)
  with find_library_registered_eq [OF inv assms(2), of os n] assms(3)
  show "find_library os (Suc n) (Some name) w = Some (p, referenced [p] w)" by simp
  show "p \<noteq> 0" by (rule p(2))
qed

lemma walk_needed:
  assumes "so_inv w LS FL" and "sos w si = Some s" and "needs w LS (si_strtab s) es ps" and "dyns_at (mc w) a es"
  shows "walk_dyn (\<lambda>st. mc (snd st)) (need_dyn (find_library os (Suc n)) si) a (acc, w) =
    Some (True, acc @ ps, referenced ps w)"
  using assms
proof (induction es arbitrary: a acc ps w s)
  case Nil
  then show ?case by (subst walk_dyn.simps) (auto simp: needs_def needed_names_def referenced_Nil)
next
  case (Cons e es)
  have e: "read_dyn (mc w) a = Some e" "d_tag e \<noteq> DT_NULL" "dyns_at (mc w) (a + sizeof_Dyn) es"
    using Cons.prems(4) by simp_all
  show ?case
  proof (cases "d_tag e = DT_NEEDED")
    case False
    with Cons.IH [OF Cons.prems(1,2) _ e(3), of ps acc] Cons.prems(3) e show ?thesis
      by (subst walk_dyn.simps) (simp add: need_dyn_other needs_def needed_names_def del: find_library.simps)
  next
    case True
    with Cons.prems(3) obtain p qs name where ps: "ps = p # qs"
      and name: "str_at (mc w) (si_strtab s + d_val e) name"
      and p: "find (\<lambda>x. si_name (obj w x) = basename name) LS = Some p" "is_linked w p"
      and rest: "needs w LS (si_strtab s) es qs"
      by (auto simp: needs_def needed_names_def list_all2_Cons1)
    have one: "need_dyn (find_library os (Suc n)) si e (acc, w) = Some (True, acc @ [p], referenced [p] w)"
      using find_registered_references(1) [OF Cons.prems(1) p, of os n] find_registered_references(2) [OF Cons.prems(1) p] Cons.prems(2) True cstr_str_at [OF name]
      by (simp add: need_dyn_def del: find_library.simps)
    have "walk_dyn (\<lambda>st. mc (snd st)) (need_dyn (find_library os (Suc n)) si) (a + sizeof_Dyn) (acc @ [p], referenced [p] w) =
        Some (True, (acc @ [p]) @ qs, referenced qs (referenced [p] w))"
      using Cons.prems(1) rest e(3)
      by (intro Cons.IH [OF _ referenced_sos [OF Cons.prems(2), of "[p]"]]) simp_all
    with one e(1,2) show ?thesis
      by (subst walk_dyn.simps) (simp add: ps referenced_Cons [of p qs] del: find_library.simps)
  qed
qed

text \<open>Linking up to the relocations.\<close>

lemma link_needs:
  assumes s: "sos w si = Some s" "si_flags s = 0"
    and dyn: "phdr_table_get_dynamic_section (mc w) (si_phdr s) (unat (si_phnum s)) (si_load_bias s) = Some (dyn, x)"
    and nz: "dyn \<noteq> 0"
    and ex: "phdr_table_get_arm_exidx (mc w) (si_phdr s) (unat (si_phnum s)) (si_load_bias s) = Some (r, a, c)"
    and es: "dyns_at (mc w) dyn es" "\<forall>e \<in> set es. dyn_accepted (mc w) (si_load_bias s) e"
    and s': "s' = parsed (mc w) (si_load_bias s) es (s\<lparr>si_dynamic := dyn, si_ARM_exidx := a, si_ARM_exidx_count := c\<rparr>)"
    and lk: "linkable s'" and inv: "so_inv w LS FL" and ps: "needs (put_si si s' w) LS (si_strtab s') es ps"
  shows "soinfo_link_image os (find_library os (Suc n)) si breloc w =
    relocate_image os si breloc ps (referenced ps (put_si si s' w))"
proof -
  obtain cnt fg where x: "x = (cnt, fg)" by (cases x)
  have w1: "walk_dyn (\<lambda>_. mc w) (parse_dyn (mc w) (si_load_bias s)) dyn
      (s\<lparr>si_dynamic := dyn, si_ARM_exidx := a, si_ARM_exidx_count := c\<rparr>, 0) =
      Some (True, s', 0 + of_nat (length (needed_names es)))"
    unfolding s' by (simp only: parse_dyn_mem [OF es(1)] run_parse [OF es(2)])
  have "so_inv (put_si si s' w) LS FL = so_inv w LS FL"
    by (rule so_inv_links) (simp_all add: put_si_def s' s(1))
  with inv have "so_inv (put_si si s' w) LS FL" by simp
  from walk_needed [OF this _ ps, of si dyn os n "[]"] es(1)
  have w2: "walk_dyn (\<lambda>st. mc (snd st)) (need_dyn (find_library os (Suc n)) si) dyn ([], put_si si s' w) =
      Some (True, ps, referenced ps (put_si si s' w))"
    by (simp add: put_si_def)
  have fl: "si_flags s' = 0" using s(2) by (simp add: s')
  show ?thesis
    using s dyn nz ex lk fl by (simp add: soinfo_link_image_def x w1 w2 Let_def linkable_def del: find_library.simps)
qed

section \<open>Both relocation tables\<close>

context shows_more
begin

lemma read_phdr_more: "read_phdr m a = Some ph \<Longrightarrow> read_phdr m' a = Some ph"
  unfolding read_phdr_def by (auto elim!: bind_eq_SomeE dest!: load32_more)

lemma phdrs_at_more: "phdrs_at m a ps \<Longrightarrow> phdrs_at m' a ps"
  by (induction ps arbitrary: a) (auto dest: read_phdr_more)

lemma dyns_at_more: "dyns_at m a es \<Longrightarrow> dyns_at m' a es"
  by (induction es arbitrary: a) (auto dest: read_dyn_more)

end

text \<open>A table that the library has or has not, as the memory \<open>h\<close> shows it.\<close>

definition table_at :: "mach \<Rightarrow> u32 \<Rightarrow> u32 \<Rightarrow> Elf32_Rel list \<Rightarrow> bool" where
  "table_at h rel cnt rs \<longleftrightarrow>
     (if rel = 0 then rs = [] else length rs < 4294967296 \<and> cnt = of_nat (length rs) \<and> rels_at h rel rs)"

text \<open>Entries whose values can be computed in \<open>h\<close>, which holds none of their places.\<close>

definition entries_ready :: "mach \<Rightarrow> world \<Rightarrow> u32 \<Rightarrow> soinfo \<Rightarrow> u32 list \<Rightarrow> Elf32_Rel list \<Rightarrow> (Elf32_Rel \<Rightarrow> u32) \<Rightarrow> bool" where
  "entries_ready h w si s needed rs val \<longleftrightarrow>
     (\<forall>r \<in> set rs. writable_block (mc w) (place s r) 4 \<and> (\<forall>x. in_block (place s r) 4 x \<longrightarrow> load8 h x = None) \<and>
        (\<exists>old. load32 (mc w) (place s r) = Some old \<and> reloc_word (w\<lparr>mc := h\<rparr>) si s needed r old = Some (val r)))"

lemma mach_le_outside:
  assumes "mach_le h m" and "\<forall>x. x \<notin> P \<longrightarrow> load8 m' x = load8 m x" and "\<forall>x \<in> P. load8 h x = None"
  shows "mach_le h m'"
  unfolding mach_le_def map_le_def
proof
  fix x assume "x \<in> dom (vbytes h)"
  then obtain b where b: "load8 h x = Some b" by (auto simp: load8_def)
  then have "load8 m x = Some b" "x \<notin> P" using load8_mono [OF _ assms(1)] assms(3) by auto
  with assms(2) b show "vbytes h x = vbytes m' x" by (simp add: load8_def)
qed

lemma table_relocated:
  assumes s: "sos w si = Some s" and le: "mach_le h (mc w)" and tab: "table_at h rel cnt rs"
    and rdy: "entries_ready h w si s needed rs val" and ap: "places_apart s rs"
  shows "\<exists>m'. relocate_table True si rel cnt needed w = Some (True, w\<lparr>mc := m'\<rparr>) \<and>
    (\<forall>r \<in> set rs. load32 m' (place s r) = Some (val r)) \<and>
    (\<forall>x. x \<notin> place_bytes s rs \<longrightarrow> load8 m' x = load8 (mc w) x) \<and> m'\<lparr>vbytes := vbytes (mc w)\<rparr> = mc w \<and> mach_le h m'"
proof (cases "rel = 0")
  case True
  with tab le show ?thesis by (intro exI [of _ "mc w"]) (simp add: table_at_def relocate_table_def)
next
  case False
  with tab have n: "length rs < 4294967296" "cnt = of_nat (length rs)" "rels_at h rel rs" by (simp_all add: table_at_def)
  obtain m' where m': "relocate_loop w si s needed rel (length rs) = Some (0, w\<lparr>mc := m'\<rparr>)"
    "\<forall>r \<in> set rs. load32 m' (place s r) = Some (val r)"
    "\<forall>x. x \<notin> place_bytes s rs \<longrightarrow> load8 m' x = load8 (mc w) x" "m'\<lparr>vbytes := vbytes (mc w)\<rparr> = mc w"
    using table_loop [OF le n(3) _ ap, of si needed val] rdy unfolding entries_ready_def by blast
  have "\<forall>x \<in> place_bytes s rs. load8 h x = None" using rdy by (auto simp: place_bytes_def entries_ready_def)
  with m' s n False mach_le_outside [OF le m'(3)] show ?thesis
    by (intro exI [of _ m']) (simp add: relocate_table_def soinfo_relocate_def)
qed

lemma places_apart_append:
  "places_apart s (rs @ qs) \<longleftrightarrow> places_apart s rs \<and> places_apart s qs \<and> (\<forall>r \<in> set rs. \<forall>q \<in> set qs. apart4 (place s r) (place s q))"
  by (simp add: places_apart_def sorted_wrt_append)

lemma place_bytes_append [simp]: "place_bytes s (rs @ qs) = place_bytes s rs \<union> place_bytes s qs"
  by (auto simp: place_bytes_def)

text \<open>The places of other entries keep their words.\<close>

lemma places_keep:
  assumes "\<forall>x. x \<notin> place_bytes s rs \<longrightarrow> load8 m' x = load8 m x" and "\<forall>r \<in> set rs. apart4 (place s r) (place s q)"
  shows "load32 m' (place s q) = load32 m (place s q)"
proof (rule load32_bytes, intro allI impI)
  fix x assume "in_block (place s q) 4 x"
  then have "x \<notin> place_bytes s rs" using assms(2) apart4_blocks by (auto simp: place_bytes_def)
  with assms(1) show "load8 m' x = load8 m x" by blast
qed

lemma writable_block_vwr:
  assumes "m'\<lparr>vbytes := vbytes m\<rparr> = m" and "\<forall>x. load8 m x \<noteq> None \<longrightarrow> load8 m' x \<noteq> None"
  shows "writable_block m a n \<Longrightarrow> writable_block m' a n"
proof -
  have "vwr m' = vwr m" using arg_cong [OF assms(1), of vwr] by simp
  then show "writable_block m a n \<Longrightarrow> writable_block m' a n"
    using assms(2) by (auto simp: writable_block_def writable_def load8_def)
qed

lemma entries_after:
  assumes rdy: "entries_ready h w si s needed (rs @ qs) val" and ap: "places_apart s (rs @ qs)"
    and fr: "\<forall>x. x \<notin> place_bytes s rs \<longrightarrow> load8 m x = load8 (mc w) x" and eq: "m\<lparr>vbytes := vbytes (mc w)\<rparr> = mc w"
    and vals: "\<forall>r \<in> set rs. load32 m (place s r) = Some (val r)"
  shows "entries_ready h (w\<lparr>mc := m\<rparr>) si s needed qs val"
  unfolding entries_ready_def
proof (intro ballI conjI)
  fix q assume q: "q \<in> set qs"
  note r = rdy [unfolded entries_ready_def, rule_format, of q]
  have apq: "\<forall>r \<in> set rs. apart4 (place s r) (place s q)" using ap q by (simp add: places_apart_append)
  have vwr: "vwr m = vwr (mc w)" using arg_cong [OF eq, of vwr] by simp
  have "writable m x" if x: "in_block (place s q) 4 x" "writable (mc w) x" for x
  proof -
    have "x \<notin> place_bytes s rs" using apq apart4_blocks x(1) by (auto simp: place_bytes_def)
    with fr x(2) vwr show ?thesis by (simp add: writable_def load8_def)
  qed
  then show "writable_block (mc (w\<lparr>mc := m\<rparr>)) (place s q) 4"
    using r q by (simp add: writable_block_def in_block_offset)
  show "\<forall>x. in_block (place s q) 4 x \<longrightarrow> load8 h x = None" using r q by simp
  show "\<exists>old. load32 (mc (w\<lparr>mc := m\<rparr>)) (place s q) = Some old \<and>
      reloc_word ((w\<lparr>mc := m\<rparr>)\<lparr>mc := h\<rparr>) si s needed q old = Some (val q)"
    using r q places_keep [OF fr apq] by simp
qed

lemma entries_ready_append:
  "entries_ready h w si s needed (rs @ qs) val \<Longrightarrow> entries_ready h w si s needed rs val"
  unfolding entries_ready_def set_append by blast

lemma image_relocated:
  assumes s: "sos w si = Some s" "\<not> si_has_text_relocations s" and le: "mach_le h (mc w)"
    and t1: "table_at h (si_plt_rel s) (si_plt_rel_count s) rs" and t2: "table_at h (si_rel s) (si_rel_count s) qs"
    and rdy: "entries_ready h w si s needed (rs @ qs) val" and ap: "places_apart s (rs @ qs)"
    and os: "protects os" and ps: "phdrs_at h (si_phdr s) ps" "length ps = unat (si_phnum s)"
  shows "\<exists>m'. relocate_image os si True needed w =
      Some (True, w\<lparr>sos := (sos w)(si \<mapsto> s\<lparr>si_flags := si_flags s OR FLAG_LINKED\<rparr>), mc := m'\<rparr>) \<and>
    (\<forall>r \<in> set (rs @ qs). load32 m' (place s r) = Some (val r)) \<and>
    (\<forall>x. x \<notin> place_bytes s (rs @ qs) \<longrightarrow> load8 m' x = load8 (mc w) x) \<and> fds m' = fds (mc w) \<and> mach_le h m'"
proof -
  have ap1: "places_apart s rs" and ap2: "places_apart s qs"
    and apq: "\<forall>r \<in> set rs. \<forall>q \<in> set qs. apart4 (place s r) (place s q)" using ap by (simp_all add: places_apart_append)
  obtain m1 where r1: "relocate_table True si (si_plt_rel s) (si_plt_rel_count s) needed w = Some (True, w\<lparr>mc := m1\<rparr>)"
    and v1: "\<forall>r \<in> set rs. load32 m1 (place s r) = Some (val r)"
    and f1: "\<forall>x. x \<notin> place_bytes s rs \<longrightarrow> load8 m1 x = load8 (mc w) x"
    and e1: "m1\<lparr>vbytes := vbytes (mc w)\<rparr> = mc w" and le1: "mach_le h m1"
    using table_relocated [OF s(1) le t1 entries_ready_append [OF rdy] ap1] by blast
  have rdy2: "entries_ready h (w\<lparr>mc := m1\<rparr>) si s needed qs val" by (rule entries_after [OF rdy ap f1 e1 v1])
  have s1: "sos (w\<lparr>mc := m1\<rparr>) si = Some s" "mach_le h (mc (w\<lparr>mc := m1\<rparr>))" using s le1 by simp_all
  from table_relocated [OF s1 t2 rdy2 ap2] obtain m2 where
    r2: "relocate_table True si (si_rel s) (si_rel_count s) needed (w\<lparr>mc := m1\<rparr>) = Some (True, w\<lparr>mc := m2\<rparr>)"
    and v2: "\<forall>q \<in> set qs. load32 m2 (place s q) = Some (val q)"
    and f2: "\<forall>x. x \<notin> place_bytes s qs \<longrightarrow> load8 m2 x = load8 m1 x"
    and e2: "m2\<lparr>vbytes := vbytes m1\<rparr> = m1" and le2: "mach_le h m2" by auto
  have "phdrs_at m2 (si_phdr s) ps" using ps(1) by (rule shows_more.phdrs_at_more [OF shows_more.intro [OF le2]])
  from protect_relro [OF os this] obtain m3 where
    r3: "phdr_table_protect_gnu_relro os (si_phdr s) (unat (si_phnum s)) (si_load_bias s) m2 = Some (0, m3)"
    and m3: "load8 m3 = load8 m2" "fds m3 = fds m2" unfolding ps(2) by blast
  have "vbytes m3 = vbytes m2" using m3(1) by (simp add: load8_def fun_eq_iff)
  then have le3: "mach_le h m3" using le2 by (simp add: mach_le_def)
  have run: "relocate_image os si True needed w =
      Some (True, w\<lparr>sos := (sos w)(si \<mapsto> s\<lparr>si_flags := si_flags s OR FLAG_LINKED\<rparr>), mc := m3\<rparr>)"
    using s r1 r2 r3 by (simp add: relocate_image_def seal_image_def upd_si_def protect_pass_def)
  have "load32 m2 (place s r) = load32 m1 (place s r)" if "r \<in> set rs" for r
    by (rule places_keep [OF f2]) (use apq that apart4_sym in blast)
  with v1 v2 have "\<forall>r \<in> set (rs @ qs). load32 m2 (place s r) = Some (val r)" by auto
  then have vals: "\<forall>r \<in> set (rs @ qs). load32 m3 (place s r) = Some (val r)" by (simp add: load32_def m3(1))
  have fr: "\<forall>x. x \<notin> place_bytes s (rs @ qs) \<longrightarrow> load8 m3 x = load8 (mc w) x" using f1 f2 by (simp add: m3(1))
  have "fds m3 = fds (mc w)" using arg_cong [OF e1, of fds] arg_cong [OF e2, of fds] m3(2) by simp
  with run vals fr le3 show ?thesis by blast
qed

end
