(* ===== verification/Load_Needed.thy ===== *)
theory Load_Needed
  imports Link_Needed
begin

text \<open>
  A library with dependencies and relocations, from its file to a linked entry of the global list.  What its image
  will be is described before it is loaded: the memory of the process with the bytes of the segments added
  (\<open>with_image\<close>), and the values of the relocations computed there with their places hidden.
\<close>

section \<open>The memory with the image\<close>

definition image_byte :: "u8 list \<Rightarrow> u32 \<Rightarrow> u32 \<Rightarrow> u8 option" where
  "image_byte bs bias x =
     (case find (\<lambda>ph. in_block (seg_addr bias ph) (unat (p_memsz ph)) x) (loads (file_phdrs bs)) of
        None \<Rightarrow> None
      | Some ph \<Rightarrow> let i = unat (x - seg_addr bias ph)
                   in Some (if i < unat (p_filesz ph) then bs ! (unat (p_offset ph) + i) else 0))"

definition with_image :: "u8 list \<Rightarrow> u32 \<Rightarrow> mach \<Rightarrow> mach" where
  "with_image bs bias m = m\<lparr>vbytes := vbytes m ++ image_byte bs bias\<rparr>"

lemma load8_with_image:
  "load8 (with_image bs bias m) x = (case image_byte bs bias x of None \<Rightarrow> load8 m x | Some b \<Rightarrow> Some b)"
  by (simp add: load8_def with_image_def map_add_def split: option.split)

lemma image_byte_at:
  assumes "\<forall>ph \<in> set (loads (file_phdrs bs)). seg_image bias bs ph m" and "image_byte bs bias x = Some b"
  shows "load8 m x = Some b"
proof -
  obtain ph where ph: "find (\<lambda>ph. in_block (seg_addr bias ph) (unat (p_memsz ph)) x) (loads (file_phdrs bs)) = Some ph"
    and b: "b = (if unat (x - seg_addr bias ph) < unat (p_filesz ph)
      then bs ! (unat (p_offset ph) + unat (x - seg_addr bias ph)) else 0)"
    using assms(2) by (auto simp: image_byte_def Let_def split: option.splits)
  have "ph \<in> set (loads (file_phdrs bs))" "in_block (seg_addr bias ph) (unat (p_memsz ph)) x"
    using find_member [OF ph] by simp_all
  then have im: "seg_image bias bs ph m" and i: "unat (x - seg_addr bias ph) < unat (p_memsz ph)"
    using assms(1) by (auto simp: in_block_def)
  have "x = seg_addr bias ph + of_nat (unat (x - seg_addr bias ph))" by simp
  with im i b show ?thesis unfolding seg_image_def by (metis linorder_not_less)
qed

lemma with_image_le:
  assumes "\<forall>ph \<in> set (loads (file_phdrs bs)). seg_image bias bs ph m'"
    and "\<forall>x. load8 m x \<noteq> None \<longrightarrow> load8 m' x = load8 m x"
  shows "mach_le (with_image bs bias m) m'"
  unfolding mach_le_def map_le_def
proof
  fix x assume "x \<in> dom (vbytes (with_image bs bias m))"
  then have "load8 (with_image bs bias m) x \<noteq> None" by (auto simp: load8_def)
  then have "load8 m' x = load8 (with_image bs bias m) x"
    using image_byte_at [OF assms(1), of x] assms(2) by (auto simp: load8_with_image split: option.splits)
  then show "vbytes (with_image bs bias m) x = vbytes m' x" by (simp add: load8_def)
qed

text \<open>The \<open>n\<close> bytes at \<open>a\<close> are in a segment.\<close>

definition in_image :: "u8 list \<Rightarrow> u32 \<Rightarrow> u32 \<Rightarrow> nat \<Rightarrow> bool" where
  "in_image bs bias a n \<longleftrightarrow>
     (\<exists>ph \<in> set (loads (file_phdrs bs)). unat (a - seg_addr bias ph) + n \<le> unat (p_memsz ph))"

section \<open>The value of a relocation\<close>

text \<open>The address of the symbol that the libraries \<open>scope\<close> give to a name: nothing when none exports it.\<close>

definition scope_symbol :: "world \<Rightarrow> u32 list \<Rightarrow> string \<Rightarrow> u32 option option" where
  "scope_symbol w scope name =
     do { r \<leftarrow> first_hit (lib_probe w name) scope;
          (case r of None \<Rightarrow> Some None
           | Some (d, p) \<Rightarrow> do { sy \<leftarrow> read_sym (mc w) d; l \<leftarrow> sos w p; Some (Some (st_value sy + si_load_bias l)) }) }"

text \<open>
  The word for an entry whose old word is \<open>old\<close>: the library's own data is read from \<open>h\<close>, the symbol is one of the
  libraries \<open>scope\<close> in the state \<open>w\<close>.
\<close>

definition rel_value :: "world \<Rightarrow> mach \<Rightarrow> soinfo \<Rightarrow> u32 list \<Rightarrow> Elf32_Rel \<Rightarrow> u32 \<Rightarrow> u32 option" where
  "rel_value w h s scope r old =
     (let tp = ELF32_R_TYPE (r_info r); k = ELF32_R_SYM (r_info r)
      in if relative r then Some (old + si_base s)
         else if \<not> word_reloc tp \<or> k = 0 then None
         else do {
           sy \<leftarrow> read_sym h (sym_addr_of s k);
           name \<leftarrow> cstr h (si_strtab s + st_name sy);
           a \<leftarrow> scope_symbol w scope name;
           (case a of Some a \<Rightarrow> Some (reloc_value tp (r_offset r) a old)
            | None \<Rightarrow> if ELF32_ST_BIND (st_info sy) = STB_WEAK \<and> weak_ref_ok tp
                      then Some (reloc_value tp (r_offset r) 0 old) else None) })"

lemma first_hit_probe: "first_hit (lib_probe w name) ps = Some (Some (d, p)) \<Longrightarrow> d \<noteq> 0 \<and> p \<in> set ps"
  by (induction ps) (auto simp: lib_probe_def elim!: bind_eq_SomeE split: option.splits if_splits)

lemma rel_value_reloc_word:
  assumes sc: "scope_more w (w'\<lparr>mc := h\<rparr>) (set (gLdPreloads w @ needed))" and si: "si \<noteq> 0" "sos w' si = Some t"
    and g: "somain w' = 0" "gLdPreloads w' = gLdPreloads w" and t: "same_tables s t" "si_base t = si_base s"
    and v: "rel_value w h s (gLdPreloads w @ needed) r old = Some v"
  shows "reloc_word (w'\<lparr>mc := h\<rparr>) si t needed r old = Some v"
proof (cases "relative r")
  case True
  with v t(2) show ?thesis by (simp add: rel_value_def reloc_word_def)
next
  case False
  let ?tp = "ELF32_R_TYPE (r_info r)" and ?k = "ELF32_R_SYM (r_info r)" and ?w = "w'\<lparr>mc := h\<rparr>"
  obtain sy name a where tp: "word_reloc ?tp" "?k \<noteq> 0" and sy: "read_sym h (sym_addr_of s ?k) = Some sy"
    and nm: "cstr h (si_strtab s + st_name sy) = Some name" and a: "scope_symbol w (gLdPreloads w @ needed) name = Some a"
    and va: "(case a of Some a \<Rightarrow> Some (reloc_value ?tp (r_offset r) a old)
            | None \<Rightarrow> if ELF32_ST_BIND (st_info sy) = STB_WEAK \<and> weak_ref_ok ?tp
                      then Some (reloc_value ?tp (r_offset r) 0 old) else None) = Some v"
    using v False by (auto simp: rel_value_def Let_def simp del: STB_WEAK_def elim!: bind_eq_SomeE split: if_splits)
  obtain q where q: "first_hit (lib_probe w name) (gLdPreloads w @ needed) = Some q"
    and qa: "(case q of None \<Rightarrow> Some None
       | Some (d, p) \<Rightarrow> do { sy \<leftarrow> read_sym (mc w) d; l \<leftarrow> sos w p; Some (Some (st_value sy + si_load_bias l)) }) = Some a"
    using a unfolding scope_symbol_def by (rule bind_eq_SomeE)
  have "first_hit (lib_probe ?w name) (gLdPreloads w @ needed) = Some q"
    by (rule scope_more.first_hit_more [OF sc q]) simp
  moreover have "search_scope ?w si (si_has_DT_SYMBOLIC t) needed = gLdPreloads w @ needed"
    using g by (simp add: search_scope_def)
  ultimately have look: "soinfo_do_lookup ?w si name needed = Some (sym_or_null q)"
    using do_lookup_first_hit [of si ?w t name needed] si by simp
  have tab: "sym_addr_of t ?k = sym_addr_of s ?k" "si_strtab t = si_strtab s"
    using t(1) by (simp_all add: same_tables_def sym_addr_of_def)
  have sm: "shows_more (mc w) h" using scope_more.memory [OF sc] by (simp add: shows_more_def)
  show ?thesis
  proof (cases q)
    case None
    with qa have "a = None" by simp
    with va have "ELF32_ST_BIND (st_info sy) = STB_WEAK" "weak_ref_ok ?tp" "v = reloc_value ?tp (r_offset r) 0 old"
      by (auto split: if_splits)
    with False tp sy nm look None show ?thesis
      by (simp add: reloc_word_def reloc_symbol_def tab)
  next
    case (Some dp)
    obtain d p where dp: "dp = (d, p)" by (cases dp)
    have d: "d \<noteq> 0" "p \<in> set (gLdPreloads w @ needed)" using first_hit_probe [of w name _ d p] q Some dp by blast+
    from qa Some dp obtain dsy and l :: soinfo where dsy: "read_sym (mc w) d = Some dsy" and l: "sos w p = Some l"
      and a': "a = Some (st_value dsy + si_load_bias l)" by (auto elim!: bind_eq_SomeE)
    obtain l' where l': "sos w' p = Some l'" "same_tables l l'" using scope_more.tables [OF sc d(2) l] by auto
    have "read_sym h d = Some dsy" by (rule shows_more.read_sym_more [OF sm dsy])
    moreover have "si_load_bias l' = si_load_bias l" using l'(2) by (simp add: same_tables_def)
    moreover have "v = reloc_value ?tp (r_offset r) (st_value dsy + si_load_bias l) old" using va a' by simp
    ultimately show ?thesis using False tp sy nm look Some dp d(1) l'(1)
      by (simp add: reloc_word_def reloc_symbol_def tab)
  qed
qed

section \<open>The image lies in the block that was granted\<close>

lemma image_inside:
  assumes ef: "elf_file bs" and tab: "phdrs_at m l (file_phdrs bs)"
    and b: "block_granted os (load_max (file_phdrs bs) - load_min (file_phdrs bs)) m1 p m2"
    and ph: "ph \<in> set (loads (file_phdrs bs))" and i: "i < unat (p_memsz ph)"
  shows "in_block p (unat (load_max (file_phdrs bs) - load_min (file_phdrs bs)))
    (seg_addr (p - load_min (file_phdrs bs)) ph + of_nat i)"
proof -
  let ?ps = "file_phdrs bs" and ?bias = "p - load_min (file_phdrs bs)"
  note E = ef [unfolded elf_file_def]
  have ne: "loads ?ps \<noteq> []" using ph by auto
  have fits: "\<forall>ph \<in> set (loads ?ps). fits ph" using E by (auto simp: seg_in_file_def)
  note ext = load_extent [OF tab ne fits]
  have pl: "placed (load_min ?ps) (load_max ?ps) p" using b ext(2-5) by (simp add: placed_def block_granted_def)
  have btw: "seg_between (load_min ?ps) (load_max ?ps) ph" "fits ph" using ext(6) fits ph by (simp_all add: seg_between_def)
  have "seg_ok ?bias bs ph" using image_seg_ok [OF ef tab b] ph by blast
  note n = seg_numbers [OF this]
  have "unat (seg_addr ?bias ph + of_nat i) = unat (seg_addr ?bias ph) + i"
    using i n(2) by (intro unat_add_of_nat) linarith
  then have "seg_addr ?bias ph + of_nat i \<in> seg_foot ?bias ph" using i n(3,9) by (simp add: seg_foot_def)
  from seg_foot_inside [OF pl btw this] ext(3) show ?thesis by simp
qed

lemma image_byte_inside:
  assumes "elf_file bs" and "phdrs_at m l (file_phdrs bs)"
    and "block_granted os (load_max (file_phdrs bs) - load_min (file_phdrs bs)) m1 p m2"
    and "image_byte bs (p - load_min (file_phdrs bs)) x \<noteq> None"
  shows "in_block p (unat (load_max (file_phdrs bs) - load_min (file_phdrs bs))) x"
proof -
  let ?bias = "p - load_min (file_phdrs bs)"
  obtain ph where "find (\<lambda>ph. in_block (seg_addr ?bias ph) (unat (p_memsz ph)) x) (loads (file_phdrs bs)) = Some ph"
    using assms(4) by (auto simp: image_byte_def split: option.splits)
  then have ph: "ph \<in> set (loads (file_phdrs bs))" "in_block (seg_addr ?bias ph) (unat (p_memsz ph)) x"
    by (auto dest: find_member)
  from ph(2) obtain i where "i < unat (p_memsz ph)" "x = seg_addr ?bias ph + of_nat i" by (rule in_blockE)
  with image_inside [OF assms(1-3) ph(1)] show ?thesis by blast
qed

lemma in_image_inside:
  assumes "elf_file bs" and "phdrs_at m l (file_phdrs bs)"
    and "block_granted os (load_max (file_phdrs bs) - load_min (file_phdrs bs)) m1 p m2"
    and "in_image bs (p - load_min (file_phdrs bs)) a n" and "in_block a n x"
  shows "in_block p (unat (load_max (file_phdrs bs) - load_min (file_phdrs bs))) x"
    and "\<exists>ph \<in> set (loads (file_phdrs bs)). in_block (seg_addr (p - load_min (file_phdrs bs)) ph) (unat (p_memsz ph)) x"
proof -
  let ?bias = "p - load_min (file_phdrs bs)"
  obtain ph where ph: "ph \<in> set (loads (file_phdrs bs))" and k: "unat (a - seg_addr ?bias ph) + n \<le> unat (p_memsz ph)"
    using assms(4) by (auto simp: in_image_def)
  obtain i where i: "i < n" "x = a + of_nat i" using assms(5) by (rule in_blockE)
  let ?j = "unat (a - seg_addr ?bias ph) + i"
  have "x = seg_addr ?bias ph + of_nat ?j" by (simp add: i)
  moreover have j: "?j < unat (p_memsz ph)" using k i by linarith
  ultimately show "in_block p (unat (load_max (file_phdrs bs) - load_min (file_phdrs bs))) x"
    using image_inside [OF assms(1-3) ph j] by simp
  have "?j < 4294967296" using j unat_less_4294967296 [of "p_memsz ph"] by linarith
  with j \<open>x = seg_addr ?bias ph + of_nat ?j\<close> have "in_block (seg_addr ?bias ph) (unat (p_memsz ph)) x"
    using in_block_offset [of ?j "unat (p_memsz ph)" "seg_addr ?bias ph"] by simp
  with ph show "\<exists>ph \<in> set (loads (file_phdrs bs)). in_block (seg_addr ?bias ph) (unat (p_memsz ph)) x" by blast
qed

section \<open>Linking the image\<close>

text \<open>The library as the dynamic section sets it up, but for its name, the address of its table and ARM's unwind table.\<close>

definition image_object :: "mach \<Rightarrow> u8 list \<Rightarrow> u32 \<Rightarrow> Elf32_Dyn list \<Rightarrow> soinfo" where
  "image_object m bs p es = parsed m (p - load_min (file_phdrs bs)) es (loaded_object [] bs p 0)"

lemma parsed_le:
  assumes "mach_le m m'" and "\<forall>e \<in> set es. dyn_accepted m base e"
  shows "parsed m' base es s = parsed m base es s"
proof -
  have more: "shows_more m m'" using assms(1) by (rule shows_more.intro)
  have w: "word_at_addr m' (base + d_val e) = word_at_addr m (base + d_val e)"
    "word_at_addr m' (base + d_val e + 4) = word_at_addr m (base + d_val e + 4)"
    if "e \<in> set es" "d_tag e = DT_HASH" for e
    using assms(2) that shows_more.load32_more [OF more]
    by (auto simp: dyn_accepted_def word_at_addr_def split: option.split)
  show ?thesis
  proof (cases "find (\<lambda>e. d_tag e = DT_HASH) (rev es)")
    case None
    then show ?thesis by (simp add: parsed_def dyn_last_def)
  next
    case (Some e)
    from find_member [OF this] have "e \<in> set es" "d_tag e = DT_HASH" by (simp_all del: DT_HASH_def)
    note e = w [OF this]
    show ?thesis using Some by (simp add: parsed_def dyn_last_def e)
  qed
qed

lemma parsed_other:
  "parsed m base es (s\<lparr>si_name := nm, si_phdr := l, si_dynamic := d, si_ARM_exidx := x, si_ARM_exidx_count := c\<rparr>) =
     (parsed m base es s)\<lparr>si_name := nm, si_phdr := l, si_dynamic := d, si_ARM_exidx := x, si_ARM_exidx_count := c\<rparr>"
  by (simp add: parsed_def)

lemma parsed_loaded_object:
  "parsed m (p - load_min (file_phdrs bs)) es
     ((loaded_object nm bs p l)\<lparr>si_dynamic := d, si_ARM_exidx := x, si_ARM_exidx_count := c\<rparr>) =
   (image_object m bs p es)\<lparr>si_name := nm, si_phdr := l, si_dynamic := d, si_ARM_exidx := x, si_ARM_exidx_count := c\<rparr>"
  unfolding image_object_def parsed_other [symmetric] by (simp add: loaded_object_def zero_soinfo_def)

lemma image_object_sel [simp]:
  "si_base (image_object m bs p es) = p" "si_load_bias (image_object m bs p es) = p - load_min (file_phdrs bs)"
  "si_flags (image_object m bs p es) = 0" "si_next (image_object m bs p es) = 0"
  "si_phnum (image_object m bs p es) = ucast (e_phnum (file_header bs))"
  "si_ref_count (image_object m bs p es) = 0" "\<not> si_constructors_called (image_object m bs p es)"
  by (simp_all add: image_object_def) (simp_all add: loaded_object_def zero_soinfo_def parsed_def)

text \<open>
  What a file must say to be linked at \<open>p\<close> in the state \<open>w\<close> with the libraries \<open>LS\<close>: its dynamic section
  \<open>es\<close>, its needed libraries \<open>ps\<close>, which are loaded, its two relocation tables \<open>rs\<close> and \<open>qs\<close> with the
  values \<open>val\<close>.  The section, the tables and the names they refer to are not relocated themselves.
\<close>

definition links_with ::
  "world \<Rightarrow> u32 list \<Rightarrow> u8 list \<Rightarrow> u32 \<Rightarrow> Elf32_Phdr \<Rightarrow> Elf32_Dyn list \<Rightarrow> u32 list \<Rightarrow> Elf32_Rel list \<Rightarrow> Elf32_Rel list \<Rightarrow>
    (Elf32_Rel \<Rightarrow> u32) \<Rightarrow> bool" where
  "links_with w LS bs p q es ps rs qs val \<longleftrightarrow>
     (let bias = p - load_min (file_phdrs bs); E = with_image bs bias (mc w); s = image_object E bs p es;
          h = hide (place_bytes s (rs @ qs)) E
      in find (\<lambda>ph. p_type ph = PT_DYNAMIC) (file_phdrs bs) = Some q \<and> bias + p_vaddr q \<noteq> 0 \<and>
         dyns_at h (bias + p_vaddr q) es \<and> (\<forall>e \<in> set es. dyn_accepted h bias e \<and> d_tag e \<noteq> DT_TEXTREL) \<and> linkable s \<and>
         list_all2 (\<lambda>e x. \<exists>name. str_at h (si_strtab s + d_val e) name \<and>
           find (\<lambda>x. si_name (obj w x) = basename name) LS = Some x \<and> is_linked w x) (needed_names es) ps \<and>
         table_at h (si_plt_rel s) (si_plt_rel_count s) rs \<and> table_at h (si_rel s) (si_rel_count s) qs \<and>
         places_apart s (rs @ qs) \<and>
         (\<forall>ph \<in> set (loads (file_phdrs bs)). table_loaded (e_phoff (file_header bs)) (file_phdrs bs) ph \<longrightarrow>
           phdrs_at h (table_address bias (e_phoff (file_header bs)) ph) (file_phdrs bs)) \<and>
         (\<forall>r \<in> set (rs @ qs). in_image bs bias (place s r) 4 \<and>
           (\<exists>old. load32 E (place s r) = Some old \<and> rel_value w h s (gLdPreloads w @ ps) r old = Some (val r))))"

text \<open>The state after loading and before linking, as far as linking depends on it.\<close>

definition loaded_world :: "world \<Rightarrow> u32 list \<Rightarrow> string \<Rightarrow> u8 list \<Rightarrow> u32 \<Rightarrow> u32 \<Rightarrow> u32 \<Rightarrow> world \<Rightarrow> bool" where
  "loaded_world w LS nm bs p l f w1 \<longleftrightarrow>
     sos w1 f = Some (loaded_object nm bs p l) \<and> image_at bs p l (mc w1) \<and> table_in_image bs p l \<and>
     (\<forall>x \<in> set LS. \<exists>n. sos w1 x = map_option (\<lambda>s. s\<lparr>si_next := n\<rparr>) (sos w x)) \<and>
     (\<forall>x. load8 (mc w) x \<noteq> None \<longrightarrow> load8 (mc w1) x = load8 (mc w) x) \<and>
     (\<forall>x. in_block p (unat (load_max (file_phdrs bs) - load_min (file_phdrs bs))) x \<longrightarrow> writable (mc w1) x) \<and>
     (\<forall>x. load8 (mc w) x \<noteq> None \<longrightarrow> \<not> in_block p (unat (load_max (file_phdrs bs) - load_min (file_phdrs bs))) x) \<and>
     somain w1 = somain w \<and> gLdPreloads w1 = gLdPreloads w \<and> out_log w1 = out_log w \<and> fs (mc w1) = fs (mc w)"

lemma loaded_world_name:
  assumes "loaded_world w LS nm bs p l f w1" and "x \<in> set LS"
  shows "si_name (obj w1 x) = si_name (obj w x)" and "is_linked w1 x = is_linked w x"
proof -
  obtain n where "sos w1 x = map_option (\<lambda>s. s\<lparr>si_next := n\<rparr>) (sos w x)" using assms by (auto simp: loaded_world_def)
  then show "si_name (obj w1 x) = si_name (obj w x)" "is_linked w1 x = is_linked w x"
    by (simp_all add: obj_def is_linked_def split: option.split)
qed

lemma find_append_some: "find P xs = Some x \<Longrightarrow> find P (xs @ ys) = Some x"
  by (induction xs) (auto split: if_splits)

lemma find_cong_some: "find P xs = Some x \<Longrightarrow> (\<And>y. y \<in> set xs \<Longrightarrow> Q y = P y) \<Longrightarrow> find Q xs = Some x"
  by (induction xs) (auto split: if_splits)

lemma table_segment:
  assumes "links_with w LS bs p q es ps rs qs val" and "table_in_image bs p l"
  shows "phdrs_at (hide (place_bytes (image_object (with_image bs (p - load_min (file_phdrs bs)) (mc w)) bs p es) (rs @ qs))
    (with_image bs (p - load_min (file_phdrs bs)) (mc w))) l (file_phdrs bs)"
  using assms unfolding links_with_def table_in_image_def Let_def by blast

lemma hide_above:
  assumes "\<forall>x. load8 m x \<noteq> None \<longrightarrow> load8 e x = load8 m x \<and> x \<notin> P"
  shows "mach_le m (hide P e)"
  unfolding mach_le_def map_le_def
proof
  fix x assume "x \<in> dom (vbytes m)"
  then have "load8 m x \<noteq> None" by (auto simp: load8_def)
  with assms have "load8 (hide P e) x = load8 m x" by (simp add: load8_hide)
  then show "vbytes m x = vbytes (hide P e) x" by (simp add: load8_def)
qed

lemma scope_tables:
  assumes lw: "loaded_world w LS nm bs p l f w1" and f: "f \<notin> set LS" and A: "A \<subseteq> set LS" and le: "mach_le (mc w) h"
  shows "scope_more w ((referenced ps (put_si f s w1))\<lparr>mc := h\<rparr>) A"
proof
  show "mach_le (mc w) (mc ((referenced ps (put_si f s w1))\<lparr>mc := h\<rparr>))" using le by simp
  fix x t assume x: "x \<in> A" and t: "sos w x = Some t"
  with A lw obtain n where "sos w1 x = map_option (\<lambda>s. s\<lparr>si_next := n\<rparr>) (sos w x)" unfolding loaded_world_def by blast
  with t x A f have "sos (put_si f s w1) x = Some (t\<lparr>si_next := n\<rparr>)" by (auto simp: put_si_def)
  from referenced_sos [OF this, of ps] show "\<exists>s'. sos ((referenced ps (put_si f s w1))\<lparr>mc := h\<rparr>) x = Some s' \<and> same_tables t s'"
    by (simp add: same_tables_def)
qed

lemma needs_loaded:
  assumes lw: "loaded_world w LS nm bs p l f w1" and f: "f \<notin> set LS" and le: "mach_le h (mc w1)"
    and n: "list_all2 (\<lambda>e x. \<exists>name. str_at h (strtab + d_val e) name \<and>
      find (\<lambda>x. si_name (obj w x) = basename name) LS = Some x \<and> is_linked w x) (needed_names es) ps"
  shows "needs (put_si f s w1) (LS @ [f]) strtab es ps" and "set ps \<subseteq> set LS"
proof -
  have name: "si_name (obj (put_si f s w1) x) = si_name (obj w x)" "is_linked (put_si f s w1) x = is_linked w x"
    if "x \<in> set LS" for x
    using loaded_world_name [OF lw that] f that by (auto simp: put_si_def obj_def is_linked_def split: option.splits)
  have x: "x \<in> set LS" if "find (\<lambda>x. si_name (obj w x) = nm) LS = Some x" for nm x
    using find_member [OF that] by simp
  have one: "\<exists>name. str_at (mc (put_si f s w1)) (strtab + d_val e) name \<and>
      find (\<lambda>x. si_name (obj (put_si f s w1) x) = basename name) (LS @ [f]) = Some x \<and> is_linked (put_si f s w1) x"
    if a: "\<exists>name. str_at h (strtab + d_val e) name \<and>
      find (\<lambda>x. si_name (obj w x) = basename name) LS = Some x \<and> is_linked w x" for e x
  proof -
    obtain name where nm: "str_at h (strtab + d_val e) name"
      "find (\<lambda>x. si_name (obj w x) = basename name) LS = Some x" "is_linked w x" using a by blast
    have "str_at (mc w1) (strtab + d_val e) name" by (rule shows_more.str_at_more [OF shows_more.intro [OF le] nm(1)])
    moreover have "find (\<lambda>x. si_name (obj (put_si f s w1) x) = basename name) (LS @ [f]) = Some x"
      by (intro find_append_some find_cong_some [OF nm(2)]) (simp add: name)
    ultimately show ?thesis using name(2) [OF x [OF nm(2)]] nm(3) by (auto simp: put_si_def)
  qed
  show "needs (put_si f s w1) (LS @ [f]) strtab es ps"
    unfolding needs_def by (rule list_all2_mono [OF n one])
  show "set ps \<subseteq> set LS"
  proof
    fix y assume "y \<in> set ps"
    then obtain i where "i < length ps" "y = ps ! i" by (auto simp: in_set_conv_nth)
    with list_all2_nthD2 [OF n] x show "y \<in> set LS" by blast
  qed
qed

text \<open>What loading leaves shows the image, and the dynamic section is read from it.\<close>

lemma loaded_shows: "loaded_world w LS nm bs p l f w1 \<Longrightarrow> mach_le (with_image bs (p - load_min (file_phdrs bs)) (mc w)) (mc w1)"
  by (rule with_image_le) (auto simp: loaded_world_def image_at_def)

lemma image_parses:
  fixes w :: world
  defines "bias bs p \<equiv> p - load_min (file_phdrs bs)"
  assumes lw: "loaded_world w LS nm bs p l f w1"
    and le: "mach_le h (with_image bs (bias bs p) (mc w))" and q: "find (\<lambda>ph. p_type ph = PT_DYNAMIC) (file_phdrs bs) = Some q"
    and es: "dyns_at h (bias bs p + p_vaddr q) es" and acch: "\<forall>e \<in> set es. dyn_accepted h (bias bs p) e"
  shows "\<exists>r x c fg. phdr_table_get_dynamic_section (mc w1) l (length (file_phdrs bs)) (bias bs p) = Some (bias bs p + p_vaddr q, fg) \<and>
    phdr_table_get_arm_exidx (mc w1) l (length (file_phdrs bs)) (bias bs p) = Some (r, x, c) \<and>
    dyns_at (mc w1) (bias bs p + p_vaddr q) es \<and> (\<forall>e \<in> set es. dyn_accepted (mc w1) (bias bs p) e) \<and>
    (image_object (with_image bs (bias bs p) (mc w)) bs p es)\<lparr>si_name := nm, si_phdr := l, si_dynamic := bias bs p + p_vaddr q,
      si_ARM_exidx := x, si_ARM_exidx_count := c\<rparr> =
    parsed (mc w1) (bias bs p) es ((loaded_object nm bs p l)\<lparr>si_dynamic := bias bs p + p_vaddr q, si_ARM_exidx := x, si_ARM_exidx_count := c\<rparr>)"
proof -
  let ?ps = "file_phdrs bs"
  let ?bias = "p - load_min ?ps"
  have b: "bias bs p = ?bias" by (simp add: bias_def)
  have Ele: "mach_le (with_image bs ?bias (mc w)) (mc w1)" by (rule loaded_shows [OF lw])
  have hle: "mach_le h (mc w1)" using le Ele by (simp add: mach_le_def b) (blast intro: map_le_trans)
  have tab: "phdrs_at (mc w1) l ?ps" using lw by (simp add: loaded_world_def image_at_def)
  obtain x c where ex: "\<exists>r. phdr_table_get_arm_exidx (mc w1) l (length ?ps) ?bias = Some (r, x, c)"
    using get_arm_exidx_eq [OF tab, of ?bias] by (cases "find (\<lambda>ph. p_type ph = PT_ARM_EXIDX) ?ps") auto
  have dyn: "phdr_table_get_dynamic_section (mc w1) l (length ?ps) ?bias =
      Some (?bias + p_vaddr q, p_memsz q div 8, Some (p_flags q))"
    using get_dynamic_section_eq [OF tab] q by simp
  have es1: "dyns_at (mc w1) (?bias + p_vaddr q) es" using es shows_more.dyns_at_more [OF shows_more.intro [OF hle]] by (simp add: b)
  have acc: "\<forall>e \<in> set es. dyn_accepted m ?bias e" if "mach_le h m" for m
    using acch [unfolded b] shows_more.load32_more [OF shows_more.intro [OF that]] unfolding dyn_accepted_def by blast
  have "image_object (mc w1) bs p es = image_object (with_image bs ?bias (mc w)) bs p es"
    unfolding image_object_def by (rule parsed_le [OF Ele acc]) (use le b in simp)
  then have t: "(image_object (with_image bs ?bias (mc w)) bs p es)\<lparr>si_name := nm, si_phdr := l, si_dynamic := ?bias + p_vaddr q,
      si_ARM_exidx := x, si_ARM_exidx_count := c\<rparr> =
      parsed (mc w1) ?bias es ((loaded_object nm bs p l)\<lparr>si_dynamic := ?bias + p_vaddr q, si_ARM_exidx := x, si_ARM_exidx_count := c\<rparr>)"
    by (simp add: parsed_loaded_object)
  show ?thesis unfolding b using ex dyn es1 acc [OF hle] t by blast
qed

text \<open>\<open>soinfo_link_image\<close> on the loaded image: every relocation has its value, nothing else of the image has changed.\<close>

lemma links_image:
  fixes w w1 :: world
  defines "h bs p es rs qs \<equiv> hide (place_bytes (image_object (with_image bs (p - load_min (file_phdrs bs)) (mc w)) bs p es) (rs @ qs))
    (with_image bs (p - load_min (file_phdrs bs)) (mc w))"
  assumes ef: "elf_file bs" and lw: "loaded_world w LS nm bs p l f w1" and lk: "links_with w LS bs p q es ps rs qs val"
    and b: "block_granted os (load_max (file_phdrs bs) - load_min (file_phdrs bs)) m1 p m2" and os: "protects os"
    and inv: "so_inv w1 (LS @ [f]) FL" and pre: "set (gLdPreloads w) \<subseteq> set LS" and main: "somain w = 0"
  shows "\<exists>w2 x c t. soinfo_link_image os (find_library os (Suc n)) f True w1 = Some (True, w2) \<and>
    t = (image_object (with_image bs (p - load_min (file_phdrs bs)) (mc w)) bs p es)\<lparr>si_name := nm, si_phdr := l,
      si_dynamic := p - load_min (file_phdrs bs) + p_vaddr q, si_ARM_exidx := x, si_ARM_exidx_count := c, si_flags := FLAG_LINKED\<rparr> \<and>
    w2 = (referenced ps w1)\<lparr>sos := (sos (referenced ps w1))(f \<mapsto> t), mc := mc w2\<rparr> \<and>
    (\<forall>r \<in> set (rs @ qs). load32 (mc w2) (place t r) = Some (val r)) \<and> mach_le (h bs p es rs qs) (mc w2) \<and>
    fds (mc w2) = fds (mc w1) \<and> mach_le (mc w) (h bs p es rs qs) \<and>
    (\<forall>x. load8 (mc w1) x \<noteq> None \<longrightarrow> load8 (mc w2) x \<noteq> None)"
proof -
  let ?ps = "file_phdrs bs"
  let ?bias = "p - load_min ?ps"
  let ?E = "with_image bs ?bias (mc w)"
  let ?s0 = "image_object ?E bs p es"
  let ?P = "place_bytes ?s0 (rs @ qs)"
  let ?h = "hide ?P ?E"
  have h: "h bs p es rs qs = ?h" by (simp add: h_def)
  note W = lw [unfolded loaded_world_def] and L = lk [unfolded links_with_def Let_def]
  have im: "image_at bs p l (mc w1)" "table_in_image bs p l" and s: "sos w1 f = Some (loaded_object nm bs p l)" using W by simp_all
  have Ele: "mach_le ?E (mc w1)" by (rule loaded_shows [OF lw])
  have "mach_le ?h ?E" by simp
  with Ele have hle: "mach_le ?h (mc w1)" by (simp add: mach_le_def) (blast intro: map_le_trans)
  have more: "shows_more ?h (mc w1)" using hle by (rule shows_more.intro)
  have dis: "f \<notin> set LS" "f \<noteq> 0" using so_invD(3) [OF inv] so_inv_live [OF inv, of f] by auto
  have tabh: "phdrs_at ?h l ?ps" by (rule table_segment [OF lk im(2)])
  then have tab: "phdrs_at (mc w1) l ?ps" by (rule shows_more.phdrs_at_more [OF more])
  have sl: "si_flags (loaded_object nm bs p l) = 0" "si_load_bias (loaded_object nm bs p l) = ?bias"
    "si_phdr (loaded_object nm bs p l) = l" "unat (si_phnum (loaded_object nm bs p l)) = length ?ps"
    by (simp_all add: loaded_object_def zero_soinfo_def file_phdrs_def)
  have notext: "\<forall>e \<in> set es. d_tag e \<noteq> DT_TEXTREL" using L by blast
  have pq: "find (\<lambda>ph. p_type ph = PT_DYNAMIC) ?ps = Some q" "dyns_at ?h (?bias + p_vaddr q) es" "\<forall>e \<in> set es. dyn_accepted ?h ?bias e"
    using L by blast+
  obtain r x c fg where dyn: "phdr_table_get_dynamic_section (mc w1) l (length ?ps) ?bias = Some (?bias + p_vaddr q, fg)"
    and ex: "phdr_table_get_arm_exidx (mc w1) l (length ?ps) ?bias = Some (r, x, c)"
    and es: "dyns_at (mc w1) (?bias + p_vaddr q) es" and acc: "\<forall>e \<in> set es. dyn_accepted (mc w1) ?bias e"
    and t: "?s0\<lparr>si_name := nm, si_phdr := l, si_dynamic := ?bias + p_vaddr q, si_ARM_exidx := x, si_ARM_exidx_count := c\<rparr> =
      parsed (mc w1) ?bias es ((loaded_object nm bs p l)\<lparr>si_dynamic := ?bias + p_vaddr q, si_ARM_exidx := x, si_ARM_exidx_count := c\<rparr>)"
    using image_parses [OF lw _ pq] by auto
  let ?t = "?s0\<lparr>si_name := nm, si_phdr := l, si_dynamic := ?bias + p_vaddr q, si_ARM_exidx := x, si_ARM_exidx_count := c\<rparr>"
  have nz: "?bias + p_vaddr q \<noteq> 0" using L by blast
  have lt: "linkable ?t" using L by (simp add: linkable_def)
  have str: "si_strtab ?t = si_strtab ?s0" by simp
  have nd: "needs (put_si f ?t w1) (LS @ [f]) (si_strtab ?t) es ps" "set ps \<subseteq> set LS"
    unfolding str by (rule needs_loaded [OF lw dis(1) hle, of "si_strtab ?s0"], use L in blast)+
  have link: "soinfo_link_image os (find_library os (Suc n)) f True w1 =
      relocate_image os f True ps (referenced ps (put_si f ?t w1))"
    by (rule link_needs [OF s sl(1), unfolded sl(2-4), OF dyn nz ex es acc t lt inv nd(1)])
  let ?w3 = "referenced ps (put_si f ?t w1)"
  have cnt: "count_list ps f = 0" using nd(2) dis(1) by (auto simp: count_list_0_iff)
  have s3: "sos ?w3 f = Some ?t" using referenced_sos [of "put_si f ?t w1" f ?t ps] by (simp add: put_si_def cnt)
  have m3: "mc ?w3 = mc w1" by (simp add: put_si_def)
  have above: "mach_le (mc w) ?h"
  proof (rule hide_above, intro allI impI)
    fix a assume a: "load8 (mc w) a \<noteq> None"
    then have na: "\<not> in_block p (unat (load_max ?ps - load_min ?ps)) a" using W by blast
    then have "image_byte bs ?bias a = None" using image_byte_inside [OF ef tab b] by blast
    moreover have "a \<notin> ?P" using na in_image_inside(1) [OF ef tab b] L unfolding place_bytes_def by blast
    ultimately show "load8 ?E a = load8 (mc w) a \<and> a \<notin> ?P" by (simp add: load8_with_image)
  qed
  from scope_tables [OF lw dis(1) _ above] have sc: "scope_more w (?w3\<lparr>mc := ?h\<rparr>) (set (gLdPreloads w @ ps))"
    using pre nd(2) by simp
  have st: "same_tables ?s0 ?t" "si_base ?t = si_base ?s0" "\<And>r. place ?t r = place ?s0 r"
    by (simp_all add: same_tables_def place_def)
  have pb: "place_bytes ?t rs = place_bytes ?s0 rs" "places_apart ?t rs = places_apart ?s0 rs" for rs
    by (simp_all add: place_bytes_def places_apart_def st(3))
  have g3: "somain ?w3 = 0" "gLdPreloads ?w3 = gLdPreloads w" using main W by (simp_all add: put_si_def)
  have rdy: "entries_ready ?h ?w3 f ?t ps (rs @ qs) val"
    unfolding entries_ready_def m3 st(3)
  proof (intro ballI conjI allI impI)
    fix r assume r: "r \<in> set (rs @ qs)"
    then have ii: "in_image bs ?bias (place ?s0 r) 4" using L by blast
    have "writable (mc w1) y" if y: "in_block (place ?s0 r) 4 y" for y
      using in_image_inside(1) [OF ef tab b ii y] W by blast
    then show "writable_block (mc w1) (place ?s0 r) 4" by (simp add: writable_block_def in_block_offset)
    show "load8 ?h y = None" if "in_block (place ?s0 r) 4 y" for y
      using that r by (auto simp: load8_hide place_bytes_def)
    obtain old where o: "load32 ?E (place ?s0 r) = Some old" "rel_value w ?h ?s0 (gLdPreloads w @ ps) r old = Some (val r)"
      using L r by blast
    have "load32 (mc w1) (place ?s0 r) = Some old" by (rule shows_more.load32_more [OF shows_more.intro [OF Ele] o(1)])
    with rel_value_reloc_word [OF sc dis(2) s3 g3 st(1,2) o(2)]
    show "\<exists>old. load32 (mc w1) (place ?s0 r) = Some old \<and> reloc_word (?w3\<lparr>mc := ?h\<rparr>) f ?t ps r old = Some (val r)" by blast
  qed
  have tx: "\<not> si_has_text_relocations ?t"
    using notext by (simp add: image_object_def parsed_def dyn_last_none loaded_object_def zero_soinfo_def)
  have t12: "table_at ?h (si_plt_rel ?t) (si_plt_rel_count ?t) rs" "table_at ?h (si_rel ?t) (si_rel_count ?t) qs"
    using L by simp_all
  have ap: "places_apart ?t (rs @ qs)" using L unfolding pb by blast
  have ph: "phdrs_at ?h (si_phdr ?t) ?ps" "length ?ps = unat (si_phnum ?t)" using tabh by (simp_all add: file_phdrs_def)
  obtain m' where rel: "relocate_image os f True ps ?w3 =
        Some (True, ?w3\<lparr>sos := (sos ?w3)(f \<mapsto> ?t\<lparr>si_flags := si_flags ?t OR FLAG_LINKED\<rparr>), mc := m'\<rparr>)"
    and vals: "\<forall>r \<in> set (rs @ qs). load32 m' (place ?t r) = Some (val r)"
    and fd: "fds m' = fds (mc ?w3)" and le': "mach_le ?h m'" and fr: "\<forall>x. x \<notin> place_bytes ?t (rs @ qs) \<longrightarrow> load8 m' x = load8 (mc w1) x"
    using image_relocated [OF s3 tx _ t12 rdy ap os ph] hle m3 by auto
  have mapped: "load8 m' x \<noteq> None" if "load8 (mc w1) x \<noteq> None" for x
  proof (cases "x \<in> place_bytes ?t (rs @ qs)")
    case True
    then show ?thesis using vals load32_mapped unfolding place_bytes_def by blast
  qed (use that fr in simp)
  let ?w2 = "?w3\<lparr>sos := (sos ?w3)(f \<mapsto> ?t\<lparr>si_flags := FLAG_LINKED\<rparr>), mc := m'\<rparr>"
  have so: "(sos ?w3)(f \<mapsto> u) = (sos (referenced ps w1))(f \<mapsto> u)" for u
    by (simp add: referenced_def put_si_def fun_eq_iff)
  have "?w2 = (referenced ps w1)\<lparr>sos := (sos (referenced ps w1))(f \<mapsto> ?t\<lparr>si_flags := FLAG_LINKED\<rparr>), mc := m'\<rparr>"
    unfolding so by (simp add: referenced_def put_si_def)
  then show ?thesis
    unfolding h using link rel vals fd le' m3 above mapped
    by (intro exI [of _ ?w2] exI [of _ x] exI [of _ c] exI [of _ "?t\<lparr>si_flags := FLAG_LINKED\<rparr>"]) (simp add: place_def)
qed

section \<open>From the file to the list\<close>

text \<open>The memory that relocation leaves alone: all that was mapped before, and the image without the relocated words.\<close>

definition kept_memory :: "world \<Rightarrow> u8 list \<Rightarrow> u32 \<Rightarrow> Elf32_Dyn list \<Rightarrow> Elf32_Rel list \<Rightarrow> mach" where
  "kept_memory w bs p es rels =
     (let E = with_image bs (p - load_min (file_phdrs bs)) (mc w)
      in hide (place_bytes (image_object E bs p es) rels) E)"

lemma loads_world:
  assumes disk: "fs (mc w) name = Some bs" and path: "[] \<in> set (gLdPaths w)" and ef: "elf_file bs"
    and op: "c_open name (mc w) = (fd, m0)"
    and v: "view_granted os fd bs (PAGE_START (e_phoff (file_header bs)))
      (table_len (e_phoff (file_header bs)) (length (file_phdrs bs))) (set_fd fd (Some \<lparr>f_data = bs, f_pos = 52\<rparr>) m0) a m1"
    and b: "block_granted os (load_max (file_phdrs bs) - load_min (file_phdrs bs)) m1 p m2"
    and u: "unmaps_view os a (unat (table_len (e_phoff (file_header bs)) (length (file_phdrs bs))))"
    and inv: "so_inv w LS (f # FL)" and nm: "no_nul (basename name)" "length (basename name) < 128"
  shows "\<exists>w1 l. load_library os name w = Some (f, w1) \<and> so_inv w1 (LS @ [f]) FL \<and>
    loaded_world w LS (basename name) bs p l f w1 \<and> fd_file (mc w1) fd = None"
proof -
  obtain w1 l where ll: "load_library os name w = Some (f, w1)" and inv1: "so_inv w1 (LS @ [f]) FL"
    and s: "sos w1 f = Some (loaded_object (basename name) bs p l)" and im: "image_at bs p l (mc w1)" "table_in_image bs p l"
    and fd: "fd_file (mc w1) fd = None" and same: "\<forall>x. load8 (mc w) x \<noteq> None \<longrightarrow> load8 (mc w1) x = load8 (mc w) x"
    and oth: "\<forall>x. x \<noteq> f \<and> x \<noteq> last LS \<longrightarrow> sos w1 x = sos w x"
      "sos w1 (last LS) = map_option (\<lambda>s. s\<lparr>si_next := f\<rparr>) (sos w (last LS))"
    and wr: "\<forall>x. in_block p (unat (load_max (file_phdrs bs) - load_min (file_phdrs bs))) x \<longrightarrow> writable (mc w1) x"
    and away: "\<forall>x. load8 (mc w) x \<noteq> None \<longrightarrow> \<not> in_block p (unat (load_max (file_phdrs bs) - load_min (file_phdrs bs))) x"
    and rest: "somain w1 = somain w" "gLdPreloads w1 = gLdPreloads w" "out_log w1 = out_log w" "fs (mc w1) = fs (mc w)"
    using load_library_file [OF disk path ef op v b u inv nm] by blast
  have "\<exists>n. sos w1 x = map_option (\<lambda>s. s\<lparr>si_next := n\<rparr>) (sos w x)" if "x \<in> set LS" for x
    by (rule next_kept [OF inv oth that])
  with s im same wr away rest have "loaded_world w LS (basename name) bs p l f w1" by (simp add: loaded_world_def)
  with ll inv1 fd show ?thesis by blast
qed

lemma finds_needed:
  assumes disk: "fs (mc w) name = Some bs" and path: "[] \<in> set (gLdPaths w)" and ef: "elf_file bs"
    and lk: "links_with w LS bs p q es ps rs qs val" and op: "c_open name (mc w) = (fd, m0)"
    and v: "view_granted os fd bs (PAGE_START (e_phoff (file_header bs)))
      (table_len (e_phoff (file_header bs)) (length (file_phdrs bs))) (set_fd fd (Some \<lparr>f_data = bs, f_pos = 52\<rparr>) m0) a m1"
    and b: "block_granted os (load_max (file_phdrs bs) - load_min (file_phdrs bs)) m1 p m2"
    and u: "unmaps_view os a (unat (table_len (e_phoff (file_header bs)) (length (file_phdrs bs))))" and os: "protects os"
    and inv: "so_inv w LS (f # FL)" and nm: "no_nul (basename name)" "length (basename name) < 128"
    and new: "\<forall>x \<in> set LS. si_name (obj w x) \<noteq> basename name"
    and pre: "set (gLdPreloads w) \<subseteq> set LS" and main: "somain w = 0"
  shows "\<exists>w' l x c t. find_library os (Suc (Suc n)) (Some name) w = Some (f, w') \<and> so_inv w' (LS @ [f]) FL \<and> sos w' f = Some t \<and>
    t = (image_object (with_image bs (p - load_min (file_phdrs bs)) (mc w)) bs p es)\<lparr>si_name := basename name, si_phdr := l,
      si_dynamic := p - load_min (file_phdrs bs) + p_vaddr q, si_ARM_exidx := x, si_ARM_exidx_count := c,
      si_flags := FLAG_LINKED, si_ref_count := 1\<rparr> \<and>
    (\<forall>y \<in> set LS. \<exists>k. sos w' y =
      map_option (\<lambda>s. s\<lparr>si_next := k, si_ref_count := si_ref_count s + of_nat (count_list ps y)\<rparr>) (sos w y)) \<and>
    (\<forall>r \<in> set (rs @ qs). load32 (mc w') (place t r) = Some (val r)) \<and> mach_le (kept_memory w bs p es (rs @ qs)) (mc w') \<and>
    fd_file (mc w') fd = None \<and> out_log w' = out_log w \<and> mach_le (mc w) (kept_memory w bs p es (rs @ qs)) \<and>
    (\<forall>x. load8 (mc w) x \<noteq> None \<longrightarrow> \<not> in_block p (unat (load_max (file_phdrs bs) - load_min (file_phdrs bs))) x) \<and>
    (\<forall>x. in_block p (unat (load_max (file_phdrs bs) - load_min (file_phdrs bs))) x \<longrightarrow> load8 (mc w') x \<noteq> None)"
proof -
  let ?I = "image_object (with_image bs (p - load_min (file_phdrs bs)) (mc w)) bs p es"
  have "find (\<lambda>x. basename name = si_name (obj w x)) LS = None" using new by (auto simp: find_None_iff)
  then have none: "find_loaded_library name w = Some 0" using find_loaded_library_eq [OF inv, of name] by (simp add: ptr_of_def)
  obtain w1 l where ll: "load_library os name w = Some (f, w1)" and inv1: "so_inv w1 (LS @ [f]) FL"
    and lw: "loaded_world w LS (basename name) bs p l f w1" and fd: "fd_file (mc w1) fd = None"
    using loads_world [OF disk path ef op v b u inv nm] by blast
  obtain w2 x c t where link: "soinfo_link_image os (find_library os (Suc n)) f True w1 = Some (True, w2)"
    and t: "t = ?I\<lparr>si_name := basename name, si_phdr := l, si_dynamic := p - load_min (file_phdrs bs) + p_vaddr q,
      si_ARM_exidx := x, si_ARM_exidx_count := c, si_flags := FLAG_LINKED\<rparr>"
    and w2: "w2 = (referenced ps w1)\<lparr>sos := (sos (referenced ps w1))(f \<mapsto> t), mc := mc w2\<rparr>"
    and vals: "\<forall>r \<in> set (rs @ qs). load32 (mc w2) (place t r) = Some (val r)"
    and le: "mach_le (kept_memory w bs p es (rs @ qs)) (mc w2)" and fd2: "fds (mc w2) = fds (mc w1)"
    and above: "mach_le (mc w) (kept_memory w bs p es (rs @ qs))"
    and mapped: "\<forall>x. load8 (mc w1) x \<noteq> None \<longrightarrow> load8 (mc w2) x \<noteq> None"
    using links_image [OF ef lw lk b os inv1 pre main, of n] unfolding kept_memory_def Let_def by blast
  let ?t = "t\<lparr>si_ref_count := 1\<rparr>"
  let ?w' = "w2\<lparr>sos := (sos w2)(f \<mapsto> ?t)\<rparr>"
  have f0: "f \<noteq> 0" "f \<notin> set LS" using so_inv_live [OF inv, of f] so_invD(5) [OF inv] by auto
  have so2: "sos w2 = (sos (referenced ps w1))(f \<mapsto> t)" using arg_cong [OF w2, of sos] by simp
  have "upd_si f (\<lambda>s. s\<lparr>si_ref_count := si_ref_count s + 1\<rparr>) w2 = Some ?w'"
    by (simp add: upd_si_def so2 t)
  with none ll f0 link have run: "find_library os (Suc (Suc n)) (Some name) w = Some (f, ?w')"
    unfolding find_library.simps(2) [of os "Suc n"] by (simp add: find_library_internal_def del: find_library.simps)
  have s1: "sos w1 f = Some (loaded_object (basename name) bs p l)" using lw by (simp add: loaded_world_def)
  have eqs: "solist w2 = solist w1" "gSoInfoFreeList w2 = gSoInfoFreeList w1" "sonext w2 = sonext w1" "out_log w2 = out_log w1"
    using arg_cong [OF w2, of solist] arg_cong [OF w2, of gSoInfoFreeList] arg_cong [OF w2, of sonext]
      arg_cong [OF w2, of out_log] by simp_all
  have "so_inv ?w' (LS @ [f]) FL = so_inv w1 (LS @ [f]) FL"
    by (rule so_inv_links)
      (simp_all add: eqs so2, auto simp: s1 t referenced_def option.map_comp comp_def loaded_object_def zero_soinfo_def)
  then have inv': "so_inv ?w' (LS @ [f]) FL" using inv1 by simp
  have refs: "\<exists>k. sos ?w' y = map_option (\<lambda>s. s\<lparr>si_next := k, si_ref_count := si_ref_count s + of_nat (count_list ps y)\<rparr>) (sos w y)"
    if y: "y \<in> set LS" for y
  proof -
    obtain k where "sos w1 y = map_option (\<lambda>s. s\<lparr>si_next := k\<rparr>) (sos w y)" using lw y by (auto simp: loaded_world_def)
    then show ?thesis
      using f0(2) y by (intro exI [of _ k]) (auto simp: so2 referenced_def option.map_comp comp_def)
  qed
  have "fd_file (mc w2) fd = fd_file (mc w1) fd" by (simp add: fd_file_def fd2)
  then have "fd_file (mc ?w') fd = None" using fd by simp
  moreover have "out_log ?w' = out_log w" using eqs(4) lw by (simp add: loaded_world_def)
  moreover have "\<forall>r \<in> set (rs @ qs). load32 (mc ?w') (place ?t r) = Some (val r)" using vals by (simp add: place_def)
  moreover have "load8 (mc ?w') x \<noteq> None" if "in_block p (unat (load_max (file_phdrs bs) - load_min (file_phdrs bs))) x" for x
  proof -
    have "writable (mc w1) x" using lw that unfolding loaded_world_def by blast
    then show ?thesis using mapped by (simp add: writable_def load8_def)
  qed
  ultimately show ?thesis
    using run inv' refs le t above lw unfolding loaded_world_def
    by (intro exI [of _ ?w'] exI [of _ l] exI [of _ x] exI [of _ c] exI [of _ ?t]) simp
qed

end
