(* ===== verification/Load_Linked.thy ===== *)
theory Load_Linked
  imports Load_Needed
begin

text \<open>
  The property of a library with dependencies and relocations, from its file to a linked entry of the global list,
  and a library file \<open>libfull.so\<close> of one page with which it is shown at work.
\<close>

section \<open>Properties\<close>

text \<open>
  C2: \<open>find_library\<close> loads and links a library file with dependencies and relocations.  When the file is well
  formed, its needed libraries are loaded, every symbol that its two relocation tables refer to is
  exported by one of them or weak, and the system grants the mappings, it returns the first free object, now the last of
  the global list, linked and with one reference.  Every place of a relocation holds its value, all other bytes of
  the image are as in the file, no byte that was mapped before has changed, every needed library
  has one reference more for each time it is named, and the file is closed.
\<close>

theorem find_library_links_file:
  assumes "fs (mc w) name = Some bs" and "[] \<in> set (gLdPaths w)" and "elf_file bs"
    and "links_with w LS bs p q es ps rs qs val" and "c_open name (mc w) = (fd, m0)"
    and "view_granted os fd bs (PAGE_START (e_phoff (file_header bs)))
      (table_len (e_phoff (file_header bs)) (length (file_phdrs bs))) (set_fd fd (Some \<lparr>f_data = bs, f_pos = 52\<rparr>) m0) a m1"
    and "block_granted os (load_max (file_phdrs bs) - load_min (file_phdrs bs)) m1 p m2"
    and "unmaps_view os a (unat (table_len (e_phoff (file_header bs)) (length (file_phdrs bs))))" and "protects os"
    and "so_inv w LS (f # FL)" and "no_nul (basename name)" and "length (basename name) < 128"
    and "\<forall>x \<in> set LS. si_name (obj w x) \<noteq> basename name"
    and "set (gLdPreloads w) \<subseteq> set LS" and "somain w = 0"
  shows "\<exists>w'. find_library os (Suc (Suc n)) (Some name) w = Some (f, w') \<and> so_inv w' (LS @ [f]) FL \<and>
    is_linked w' f \<and> si_ref_count (obj w' f) = 1 \<and> si_name (obj w' f) = basename name \<and> si_base (obj w' f) = p \<and>
    (\<forall>r \<in> set (rs @ qs). load32 (mc w') (r_offset r + (p - load_min (file_phdrs bs))) = Some (val r)) \<and>
    mach_le (kept_memory w bs p es (rs @ qs)) (mc w') \<and>
    (\<forall>y \<in> set LS. si_ref_count (obj w' y) = si_ref_count (obj w y) + of_nat (count_list ps y)) \<and>
    fd_file (mc w') fd = None"
proof -
  obtain w' l x c t where "find_library os (Suc (Suc n)) (Some name) w = Some (f, w')" and "so_inv w' (LS @ [f]) FL"
    and s: "sos w' f = Some t"
    and t: "t = (image_object (with_image bs (p - load_min (file_phdrs bs)) (mc w)) bs p es)\<lparr>si_name := basename name,
      si_phdr := l, si_dynamic := p - load_min (file_phdrs bs) + p_vaddr q, si_ARM_exidx := x, si_ARM_exidx_count := c,
      si_flags := FLAG_LINKED, si_ref_count := 1\<rparr>"
    and refs: "\<forall>y \<in> set LS. \<exists>k. sos w' y =
      map_option (\<lambda>s. s\<lparr>si_next := k, si_ref_count := si_ref_count s + of_nat (count_list ps y)\<rparr>) (sos w y)"
    and "\<forall>r \<in> set (rs @ qs). load32 (mc w') (place t r) = Some (val r)"
    and "mach_le (kept_memory w bs p es (rs @ qs)) (mc w')" and "fd_file (mc w') fd = None"
    using finds_needed [OF assms, of n] by blast
  moreover have "si_ref_count (obj w' y) = si_ref_count (obj w y) + of_nat (count_list ps y)" if y: "y \<in> set LS" for y
  proof -
    obtain s where "sos w y = Some s" using so_inv_live [OF assms(10), of y] y by auto
    with refs y show ?thesis by (auto simp: obj_def)
  qed
  ultimately show ?thesis by (intro exI [of _ w']) (simp add: obj_def is_linked_def place_def)
qed

text \<open>
  The file \<open>libfull.so\<close>: one segment; a dynamic section at 120 that needs \<open>libab.so\<close>, with a relative
  relocation for the one entry of its array of constructors, at 296, and a jump slot at 300 for the symbol \<open>ab\<close>.
\<close>

definition full_bytes :: "u8 list" where
  "full_bytes =
     [0x7f, 0x45, 0x4c, 0x46, 1, 1, 1, 0, 0, 0, 0, 0, 0, 0, 0, 0, 3, 0, 40, 0, 1, 0, 0, 0,
      0, 0, 0, 0, 52, 0, 0, 0, 0, 0, 0, 0, 0, 0, 0, 5, 52, 0, 32, 0, 2, 0, 40, 0, 0, 0, 0, 0,
      1, 0, 0, 0, 0, 0, 0, 0, 0, 0, 0, 0, 0, 0, 0, 0, 64, 1, 0, 0, 64, 1, 0, 0, 6, 0, 0, 0, 0, 16, 0, 0,
      2, 0, 0, 0, 120, 0, 0, 0, 120, 0, 0, 0, 120, 0, 0, 0, 104, 0, 0, 0, 104, 0, 0, 0, 6, 0, 0, 0, 4, 0, 0, 0,
      0, 0, 0, 0,
      1, 0, 0, 0, 1, 0, 0, 0,  4, 0, 0, 0, 224, 0, 0, 0,  5, 0, 0, 0, 48, 1, 0, 0,  6, 0, 0, 0, 244, 0, 0, 0,
      17, 0, 0, 0, 20, 1, 0, 0,  18, 0, 0, 0, 8, 0, 0, 0,  23, 0, 0, 0, 28, 1, 0, 0,  2, 0, 0, 0, 8, 0, 0, 0,
      20, 0, 0, 0, 17, 0, 0, 0,  12, 0, 0, 0, 0, 3, 0, 0,  25, 0, 0, 0, 40, 1, 0, 0,  27, 0, 0, 0, 4, 0, 0, 0,
      0, 0, 0, 0, 0, 0, 0, 0,
      1, 0, 0, 0, 2, 0, 0, 0, 0, 0, 0, 0, 0, 0, 0, 0, 0, 0, 0, 0,
      0, 0, 0, 0, 0, 0, 0, 0, 0, 0, 0, 0, 0, 0, 0, 0,  10, 0, 0, 0, 0, 0, 0, 0, 0, 0, 0, 0, 0x12, 0, 0, 0,
      40, 1, 0, 0, 0x17, 0, 0, 0,  44, 1, 0, 0, 0x16, 1, 0, 0,
      0, 0, 0, 0,  0, 5, 0, 0,  0, 0, 0, 0,
      0, 0x6c, 0x69, 0x62, 0x61, 0x62, 0x2e, 0x73, 0x6f, 0, 0x61, 0x62, 0, 0, 0, 0]"

definition full_page :: "u8 list" where
  "full_page = full_bytes @ replicate 3776 0"

definition full_segment :: Elf32_Phdr where
  "full_segment = \<lparr>p_type = 1, p_offset = 0, p_vaddr = 0, p_paddr = 0,
     p_filesz = 320, p_memsz = 320, p_flags = 6, p_align = 4096\<rparr>"

definition full_dynamic :: Elf32_Phdr where
  "full_dynamic = \<lparr>p_type = 2, p_offset = 120, p_vaddr = 120, p_paddr = 120,
     p_filesz = 104, p_memsz = 104, p_flags = 6, p_align = 4\<rparr>"

definition full_dyns :: "Elf32_Dyn list" where
  "full_dyns = [\<lparr>d_tag = 1, d_val = 1\<rparr>, \<lparr>d_tag = 4, d_val = 224\<rparr>, \<lparr>d_tag = 5, d_val = 304\<rparr>, \<lparr>d_tag = 6, d_val = 244\<rparr>,
     \<lparr>d_tag = 17, d_val = 276\<rparr>, \<lparr>d_tag = 18, d_val = 8\<rparr>, \<lparr>d_tag = 23, d_val = 284\<rparr>, \<lparr>d_tag = 2, d_val = 8\<rparr>,
     \<lparr>d_tag = 20, d_val = 17\<rparr>, \<lparr>d_tag = 12, d_val = 0x300\<rparr>, \<lparr>d_tag = 25, d_val = 296\<rparr>, \<lparr>d_tag = 27, d_val = 4\<rparr>]"

definition full_slot :: Elf32_Rel where
  "full_slot = \<lparr>r_offset = 300, r_info = 0x116\<rparr>"

definition full_init :: Elf32_Rel where
  "full_init = \<lparr>r_offset = 296, r_info = 0x17\<rparr>"

lemma length_full_bytes: "length full_bytes = 320"
  by (simp add: full_bytes_def)

lemma length_full_page [simp]: "length full_page = 4096"
  by (simp add: full_page_def length_full_bytes)

lemma full_page_nth: "i < 320 \<Longrightarrow> full_page ! i = full_bytes ! i"
  by (simp add: full_page_def nth_append length_full_bytes)

text \<open>A file of one page with this header and these program headers.\<close>

definition headed :: "u8 list \<Rightarrow> bool" where
  "headed bs \<longleftrightarrow> length bs = 4096 \<and> take 120 bs = take 120 full_bytes"

lemma headed_nth: "headed bs \<Longrightarrow> i < 120 \<Longrightarrow> bs ! i = full_bytes ! i"
  by (metis headed_def nth_take)

lemma headed_magic: "headed bs \<Longrightarrow> take 4 bs = ELFMAG"
proof -
  assume h: "headed bs"
  then have "4 \<le> length bs" by (simp add: headed_def)
  from magic_take [OF this] show ?thesis by (simp add: headed_nth [OF h] full_bytes_def)
qed

lemma headed_header:
  assumes h: "headed bs"
  shows "e_phoff (file_header bs) = 52" "e_phnum (file_header bs) = 2" "VerifyElfHeader (file_header bs)"
proof -
  have l: "length bs = 4096" using h by (simp add: headed_def)
  show "e_phoff (file_header bs) = 52" "e_phnum (file_header bs) = 2" "VerifyElfHeader (file_header bs)"
    unfolding file_header_def
    by (simp_all add: VerifyElfHeader_decode headed_magic [OF h] l)
      (simp_all add: decode_ehdr_def word_at_def half_at_def byte_at_def l headed_nth [OF h] full_bytes_def le32_def le16_def)
qed

lemma headed_phdrs:
  assumes h: "headed bs"
  shows "file_phdrs bs = [full_segment, full_dynamic]" and "loads (file_phdrs bs) = [full_segment]"
proof -
  have l: "length bs = 4096" using h by (simp add: headed_def)
  have "phdr_in bs 52 = full_segment" "phdr_in bs 84 = full_dynamic"
    by (simp_all add: phdr_in_def word_at_def byte_at_def l headed_nth [OF h])
      (simp_all add: full_bytes_def le32_def full_segment_def full_dynamic_def)
  moreover have "unat (2 :: u16) = Suc (Suc 0)" by simp
  ultimately show ps: "file_phdrs bs = [full_segment, full_dynamic]"
    by (simp only: file_phdrs_def headed_header [OF h] phdrs_in.simps) simp
  show "loads (file_phdrs bs) = [full_segment]" unfolding ps by (simp add: loads_def full_segment_def full_dynamic_def)
qed

lemma headed_elf:
  assumes h: "headed bs"
  shows "elf_file bs"
proof -
  note ps = headed_phdrs [OF h]
  have "table_loaded 52 [full_segment, full_dynamic] full_segment"
    using ps(2) unfolding ps(1) by (simp add: table_loaded_def) (simp add: full_segment_def full_dynamic_def)
  moreover have "seg_in_file bs full_segment"
    using h by (simp add: seg_in_file_def fits_def headed_def)
      (simp add: full_segment_def PAGE_OFFSET_def PAGE_MASK_def PFLAGS_TO_PROT_def MAYBE_MAP_FLAG_def)
  moreover have "length bs = 4096" using h by (simp add: headed_def)
  ultimately show ?thesis
    using ps(2) by (simp add: elf_file_def ps(1) headed_header [OF h] foot_disjoint_def)
qed

lemma headed_extent:
  assumes h: "headed bs"
  shows "load_min (file_phdrs bs) = 0" "load_max (file_phdrs bs) = 4096"
  unfolding load_min_def load_max_def headed_phdrs(2) [OF h]
  by (simp_all add: full_segment_def seg_top_def PAGE_END_def PAGE_START_def PAGE_MASK_def)

lemma headed_table:
  assumes h: "headed bs"
  shows "PAGE_START (e_phoff (file_header bs)) = 0"
    "table_len (e_phoff (file_header bs)) (length (file_phdrs bs)) = 4096"
    "unat (table_len (e_phoff (file_header bs)) (length (file_phdrs bs))) = 4096"
    "load_max (file_phdrs bs) - load_min (file_phdrs bs) = 4096"
  by (simp_all add: headed_header [OF h] headed_extent [OF h],
    simp_all add: headed_phdrs [OF h] table_len_def PAGE_START_def PAGE_END_def PAGE_MASK_def)

lemma full_headed: "headed full_page"
  by (simp add: headed_def full_page_def length_full_bytes)

lemmas full_page_header = headed_header [OF full_headed]
  and full_page_phdrs = headed_phdrs(1) [OF full_headed]
  and full_page_loads = headed_phdrs(2) [OF full_headed]
  and full_page_elf = headed_elf [OF full_headed]
  and full_page_extent = headed_extent [OF full_headed]
  and full_page_table = headed_table [OF full_headed]

text \<open>The libraries \<open>libdl.so\<close> and \<open>libab.so\<close>, which are initialised, and \<open>libfull.so\<close> on disk.\<close>

definition full_world :: world where
  "full_world = demo_libs\<lparr>sos := [0x10000 \<mapsto> demo_head\<lparr>si_constructors_called := True, si_ref_count := 0xffffff\<rparr>,
       0x20000 \<mapsto> demo_lib\<lparr>si_constructors_called := True, si_ref_count := 1, si_size := 52, si_dynamic := 0x40000004\<rparr>,
       0x30000 \<mapsto> zero_soinfo],
     mc := (mem_of 0x40000000 demo_tables)\<lparr>fs := [''libfull.so'' \<mapsto> full_page], fds := [None, None, None]\<rparr>,
     gLdPaths := [[]]\<rparr>"

definition full_opened :: mach where
  "full_opened = (mc full_world)\<lparr>fds := [Some \<lparr>f_data = full_page, f_pos = 0\<rparr>, None, None]\<rparr>"

definition full_value :: "Elf32_Rel \<Rightarrow> u32" where
  "full_value r = (if r_offset r = 300 then 0x40000100 else 0x10500)"

definition full_memory :: mach where
  "full_memory = with_image full_page 0x10000 (mc full_world)"

definition full_object :: soinfo where
  "full_object = image_object full_memory full_page 0x10000 full_dyns"

definition full_hidden :: mach where
  "full_hidden = hide (place_bytes full_object [full_slot, full_init]) full_memory"

lemma full_world_sel: "fs (mc full_world) ''libfull.so'' = Some full_page" "[] \<in> set (gLdPaths full_world)"
  "c_open ''libfull.so'' (mc full_world) = (0, full_opened)" "so_inv full_world [0x10000, 0x20000] [0x30000]"
  "\<forall>x \<in> set [0x10000, 0x20000]. si_name (obj full_world x) \<noteq> basename ''libfull.so''"
  "set (gLdPreloads full_world) \<subseteq> set [0x10000, 0x20000]" "somain full_world = 0" "gLdPreloads full_world = []"
  by (simp_all add: full_world_def full_opened_def c_open_def so_inv_def obj_def demo_defs basename_def mem_of_def)

lemma full_name: "no_nul (basename ''libfull.so'')" "length (basename ''libfull.so'') < 128"
  "basename ''libfull.so'' = ''libfull.so''"
  by (simp_all add: basename_def no_nul_def char_byte_def)

lemma full_bias: "0x10000 - load_min (file_phdrs full_page) = 0x10000"
  by (simp add: full_page_extent)

lemma full_memory_load8:
  "unat (x - 0x10000) < 320 \<Longrightarrow> load8 full_memory x = Some (full_bytes ! unat (x - 0x10000))"
  by (simp add: full_memory_def load8_with_image image_byte_def full_page_loads in_block_def seg_addr_def full_segment_def full_page_nth)

lemma full_object_sel:
  "si_load_bias full_object = 0x10000" "si_strtab full_object = 0x10130" "si_symtab full_object = 0x100F4"
  "si_nbucket full_object = 1" "si_plt_rel full_object = 0x1011C" "si_plt_rel_count full_object = 1"
  "si_rel full_object = 0x10114" "si_rel_count full_object = 1" "si_init_array full_object = 0x10128"
  "si_init_array_count full_object = 1" "si_init_func full_object = 0x10300" "si_base full_object = 0x10000"
proof -
  have "word_at_addr full_memory 0x100E0 = 1"
    by (simp add: word_at_addr_def load32_def full_memory_load8) (simp add: full_bytes_def le32_def)
  then show "si_load_bias full_object = 0x10000" "si_strtab full_object = 0x10130" "si_symtab full_object = 0x100F4"
    "si_nbucket full_object = 1" "si_plt_rel full_object = 0x1011C" "si_plt_rel_count full_object = 1"
    "si_rel full_object = 0x10114" "si_rel_count full_object = 1" "si_init_array full_object = 0x10128"
    "si_init_array_count full_object = 1" "si_init_func full_object = 0x10300" "si_base full_object = 0x10000"
    unfolding full_object_def image_object_def
    by (simp_all only: full_bias)
      (simp_all add: parsed_def dyn_last_def full_dyns_def loaded_object_def full_bias)
qed

lemma full_place_bytes: "x \<in> place_bytes full_object [full_slot, full_init] \<Longrightarrow> 296 \<le> unat (x - 0x10000) \<and> unat (x - 0x10000) < 304"
proof -
  assume "x \<in> place_bytes full_object [full_slot, full_init]"
  then have "in_block 0x10128 8 x"
    by (auto simp: full_bias place_bytes_def place_def full_object_sel full_slot_def full_init_def in_block_no_wrap)
  then obtain i where "i < 8" "x = 0x10128 + of_nat i" by (rule in_blockE)
  then have "x - 0x10000 = of_nat (296 + i)" by simp
  moreover have "unat (of_nat (296 + i) :: u32) = 296 + i" using \<open>i < 8\<close> by (intro unat_of_nat_u32) simp
  ultimately show ?thesis using \<open>i < 8\<close> by (simp only:) simp
qed

lemma full_hidden_load8:
  assumes "unat (x - 0x10000) < 296 \<or> 304 \<le> unat (x - 0x10000) \<and> unat (x - 0x10000) < 320"
  shows "load8 full_hidden x = Some (full_bytes ! unat (x - 0x10000))"
  using assms full_place_bytes [of x] full_memory_load8 [of x] by (auto simp: full_hidden_def load8_hide)

lemma full_above: "mach_le (mc full_world) full_hidden"
proof -
  have "load8 full_hidden a = Some b" if b: "load8 (mc full_world) a = Some b" for a b
  proof -
    have "in_block 0x40000000 52 a" using b by (auto simp: full_world_def load8_def mem_of_def length_demo_tables split: if_splits)
    then have "unat a \<ge> 0x40000000" by (simp add: in_block_no_wrap)
    then have "\<not> unat (a - 0x10000) < 320" by (simp add: unat_sub_if_size word_size split: if_splits)
    moreover from this have "image_byte full_page 0x10000 a = None"
      by (simp add: image_byte_def full_page_loads in_block_def seg_addr_def full_segment_def)
    moreover have "a \<notin> place_bytes full_object [full_slot, full_init]" using full_place_bytes [of a] calculation(1) by auto
    ultimately show ?thesis using b by (simp add: full_hidden_def full_memory_def load8_hide load8_with_image)
  qed
  then show ?thesis unfolding mach_le_def map_le_def by (auto simp: load8_def dom_def)
qed

lemma full_scope: "scope_symbol full_world [0x20000] ''ab'' = Some (Some 0x40000100)"
proof -
  have sc: "scope_more demo_libs full_world {0x20000}"
  proof
    show "mach_le (mc demo_libs) (mc full_world)" by (simp add: mach_le_def full_world_def demo_libs_def)
    fix p s assume "p \<in> {0x20000}" "sos demo_libs p = Some s"
    then show "\<exists>s'. sos full_world p = Some s' \<and> same_tables s s'"
      by (simp add: full_world_def same_tables_def demo_lib_is)
  qed
  have "first_hit (lib_probe demo_libs ''ab'') [0x20000] = Some (Some (0x40000020, 0x20000))"
    by (simp add: lib_probe_def demo_lookup_ab)
  from scope_more.first_hit_more [OF sc this] have "first_hit (lib_probe full_world ''ab'') [0x20000] = Some (Some (0x40000020, 0x20000))"
    by simp
  moreover have "read_sym (mc full_world) 0x40000020 = Some demo_sym"
    using shows_more.read_sym_more [of "mc demo_libs" "mc full_world"] scope_more.memory [OF sc] demo_read_sym1
    by (simp add: shows_more_def demo_lib_is(2))
  ultimately show ?thesis
    by (simp add: scope_symbol_def) (simp add: full_world_def demo_defs demo_sym_def)
qed

lemma full_reads:
  "dyns_at full_hidden 0x10078 full_dyns" "str_at full_hidden 0x10131 ''libab.so''" "str_at full_hidden 0x1013A ''ab''"
  "rels_at full_hidden 0x1011C [full_slot]" "rels_at full_hidden 0x10114 [full_init]"
  "phdrs_at full_hidden 0x10034 [full_segment, full_dynamic]"
  "read_sym full_hidden 0x10104 = Some \<lparr>st_name = 10, st_value = 0, st_size = 0, st_info = 0x12, st_other = 0, st_shndx = 0\<rparr>"
  "load32 full_hidden 0x100E0 \<noteq> None" "load32 full_hidden 0x100E4 \<noteq> None"
  by (simp_all add: full_hidden_load8 full_dyns_def full_slot_def full_init_def full_segment_def full_dynamic_def read_dyn_def
      read_rel_def read_phdr_def read_sym_def load32_def load16_def)
    (simp_all add: full_bytes_def le32_def le16_def char_byte_def)

lemma full_places: "place full_object full_slot = 0x1012C" "place full_object full_init = 0x10128"
  by (simp_all add: place_def full_object_sel full_slot_def full_init_def)

lemma full_words: "load32 full_memory 0x1012C = Some 0" "load32 full_memory 0x10128 = Some 0x500"
  by (simp_all add: load32_def full_memory_load8) (simp_all add: full_bytes_def le32_def)

lemma full_in_image: "296 \<le> k \<Longrightarrow> k \<le> 300 \<Longrightarrow> in_image full_page 0x10000 (0x10000 + of_nat k) 4"
proof -
  assume "296 \<le> k" "k \<le> 300"
  moreover have "unat (of_nat k :: u32) = k" using calculation by (intro unat_of_nat_u32) simp
  ultimately show ?thesis by (simp add: in_image_def full_page_loads seg_addr_def full_segment_def)
qed

lemma full_values:
  "rel_value full_world full_hidden full_object [0x20000] full_slot 0 = Some (full_value full_slot)"
  "rel_value full_world full_hidden full_object [0x20000] full_init 0x500 = Some (full_value full_init)"
proof -
  have r: "ELF32_R_SYM 0x116 = 1" "ELF32_R_TYPE 0x116 = 0x16" "ELF32_R_SYM 0x17 = 0" "ELF32_R_TYPE 0x17 = 0x17"
    by (simp_all add: ELF32_R_SYM_def ELF32_R_TYPE_def drop_bit_eq_div)
  show "rel_value full_world full_hidden full_object [0x20000] full_slot 0 = Some (full_value full_slot)"
    by (simp add: rel_value_def relative_def full_slot_def r full_value_def sym_addr_of_def full_object_sel full_reads
        cstr_str_at [OF full_reads(3)] full_scope word_reloc_def reloc_value_def)
  show "rel_value full_world full_hidden full_object [0x20000] full_init 0x500 = Some (full_value full_init)"
    by (simp add: rel_value_def relative_def full_init_def r full_value_def full_object_sel)
qed

lemma full_links:
  "links_with full_world [0x10000, 0x20000] full_page 0x10000 full_dynamic full_dyns [0x20000] [full_slot] [full_init] full_value"
proof -
  have dyn: "find (\<lambda>ph. p_type ph = PT_DYNAMIC) [full_segment, full_dynamic] = Some full_dynamic" "p_vaddr full_dynamic = 120"
    by (simp_all add: full_segment_def full_dynamic_def)
  have acc: "\<forall>e \<in> set full_dyns. dyn_accepted full_hidden 0x10000 e \<and> d_tag e \<noteq> DT_TEXTREL"
    using full_reads(8,9) by (simp add: full_dyns_def dyn_accepted_def)
  have lk: "linkable full_object" by (simp add: linkable_def full_object_sel)
  have names: "needed_names full_dyns = [\<lparr>d_tag = 1, d_val = 1\<rparr>]" by (simp add: needed_names_def full_dyns_def)
  have "si_name (obj full_world 0x10000) = ''libdl.so''" "si_name (obj full_world 0x20000) = ''libab.so''" "is_linked full_world 0x20000"
    by (simp_all add: full_world_def obj_def is_linked_def demo_defs)
  then have nd: "list_all2 (\<lambda>e x. \<exists>name. str_at full_hidden (si_strtab full_object + d_val e) name \<and>
      find (\<lambda>x. si_name (obj full_world x) = basename name) [0x10000, 0x20000] = Some x \<and> is_linked full_world x)
      (needed_names full_dyns) [0x20000]"
    using full_reads(2) by (simp add: names full_object_sel) (intro exI [of _ "''libab.so''"], simp add: basename_def)
  have tabs: "table_at full_hidden (si_plt_rel full_object) (si_plt_rel_count full_object) [full_slot]"
    "table_at full_hidden (si_rel full_object) (si_rel_count full_object) [full_init]"
    using full_reads(4,5) by (simp_all add: table_at_def full_object_sel)
  have ap: "places_apart full_object ([full_slot] @ [full_init])"
    by (simp add: places_apart_def full_places apart4_def)
  have seg: "\<forall>ph \<in> set [full_segment]. table_loaded 52 [full_segment, full_dynamic] ph \<longrightarrow>
      phdrs_at full_hidden (table_address 0x10000 52 ph) [full_segment, full_dynamic]"
  proof -
    have "table_address 0x10000 52 full_segment = 0x10034"
      by (simp add: table_address_def seg_addr_def full_segment_def)
    with full_reads(6) show ?thesis by simp
  qed
  have vals: "\<forall>r \<in> set ([full_slot] @ [full_init]). in_image full_page 0x10000 (place full_object r) 4 \<and>
      (\<exists>old. load32 full_memory (place full_object r) = Some old \<and>
        rel_value full_world full_hidden full_object (gLdPreloads full_world @ [0x20000]) r old = Some (full_value r))"
    using full_values full_in_image [of 300] full_in_image [of 296] by (simp add: full_places full_words full_world_sel)
  have ob: "image_object (with_image full_page 0x10000 (mc full_world)) full_page 0x10000 full_dyns = full_object"
    and hd: "hide (place_bytes full_object ([full_slot] @ [full_init])) (with_image full_page 0x10000 (mc full_world)) = full_hidden"
    by (simp_all only: full_object_def full_memory_def full_hidden_def append.simps)
  show ?thesis
    unfolding links_with_def Let_def full_bias ob hd
    unfolding full_page_phdrs full_page_loads [unfolded full_page_phdrs] full_page_header
      full_memory_def [symmetric]
    using dyn full_reads(1) acc lk nd tabs ap seg vals by simp
qed

lemma full_kept: "kept_memory full_world full_page 0x10000 full_dyns ([full_slot] @ [full_init]) = full_hidden"
  by (simp add: kept_memory_def Let_def full_bias full_hidden_def full_object_def full_memory_def)

text \<open>The state in which the view of the program header table is mapped.\<close>

definition full_read :: mach where
  "full_read = set_fd 0 (Some \<lparr>f_data = full_page, f_pos = 52\<rparr>) full_opened"

definition full_viewed :: mach where
  "full_viewed = full_read\<lparr>vbytes := (\<lambda>x. if in_block 0x1000 4096 x then Some (full_page ! unat (x - 0x1000)) else vbytes full_read x)\<rparr>"

lemma full_grants:
  "view_granted (file_api full_page) 0 full_page 0 4096 full_read 0x1000 full_viewed"
  "\<exists>m2. block_granted (file_api full_page) 4096 full_viewed 0x10000 m2"
proof -
  have none: "load8 full_read x = None" if "in_block 0x1000 4096 x \<or> in_block 0x10000 4096 x" for x
    using that by (auto simp: load8_def full_read_def full_opened_def full_world_def mem_of_def in_block_no_wrap length_demo_tables)
  show "view_granted (file_api full_page) 0 full_page 0 4096 full_read 0x1000 full_viewed"
    unfolding full_viewed_def
    by (rule file_api_view) (simp add: full_read_def set_fd_def fd_file_def full_opened_def, simp_all add: none)
  have "load8 full_viewed x = None" if "in_block 0x10000 4096 x" for x
    using that none [of x] by (simp add: load8_def full_viewed_def in_block_no_wrap)
  moreover have "vwr full_viewed x" for x
    by (simp add: full_viewed_def full_read_def full_opened_def full_world_def mem_of_def)
  ultimately show "\<exists>m2. block_granted (file_api full_page) 4096 full_viewed 0x10000 m2"
    using file_api_block by blast
qed

lemma find_library_links_file_witness:
  "\<exists>w'. find_library (file_api full_page) 2 (Some ''libfull.so'') full_world = Some (0x30000, w') \<and>
     so_inv w' [0x10000, 0x20000, 0x30000] [] \<and> is_linked w' 0x30000 \<and> si_ref_count (obj w' 0x30000) = 1 \<and>
     load32 (mc w') 0x1012C = Some 0x40000100 \<and> load32 (mc w') 0x10128 = Some 0x10500 \<and>
     si_ref_count (obj w' 0x20000) = si_ref_count (obj full_world 0x20000) + 1 \<and> fd_file (mc w') 0 = None"
proof -
  obtain m2 where b: "block_granted (file_api full_page) 4096 full_viewed 0x10000 m2" using full_grants(2) by blast
  from find_library_links_file [where os = "file_api full_page" and n = 0,
      OF full_world_sel(1,2) full_page_elf full_links full_world_sel(3),
      unfolded full_page_table, OF full_grants(1) [unfolded full_read_def] b file_api_works full_world_sel(4) full_name(1,2) full_world_sel(5-7),
      unfolded numeral_2_eq_2 [symmetric]]
  show ?thesis
    by (auto simp: full_bias full_slot_def full_init_def full_value_def full_name simp del: find_library.simps)
qed

end
