(* ===== verification/Dlopen_File.thy ===== *)
theory Dlopen_File
  imports Load_Linked Dlfcn
begin

text \<open>
  \<open>dlopen\<close> of a library on disk from end to end: the protection of the pools, loading, linking against libraries
  that are loaded already, and the constructors, in the order in which they run.
\<close>

section \<open>Constructors of a library whose dependencies have run theirs\<close>

text \<open>The library that the entry \<open>e\<close> of the library \<open>s\<close> needs is registered and its constructors have been called.\<close>

definition need_called :: "world \<Rightarrow> u32 list \<Rightarrow> soinfo \<Rightarrow> Elf32_Dyn \<Rightarrow> bool" where
  "need_called w LS s e \<longleftrightarrow>
     (\<exists>name x. str_at (mc w) (si_strtab s + d_val e) name \<and> find (\<lambda>x. si_name (obj w x) = basename name) LS = Some x \<and>
        si_constructors_called (obj w x))"

lemma constructors_of_new:
  assumes os: "protect_works os" and inv: "so_inv w LS FL" and s: "sos w f = Some s" "\<not> si_constructors_called s"
    and dyn: "si_dynamic s \<noteq> 0" "dyns_at (mc w) (si_dynamic s) es"
    and nd: "\<forall>e \<in> set es. d_tag e = DT_NEEDED \<longrightarrow> need_called w LS s e"
    and gs: "si_init_array s \<noteq> 0 \<Longrightarrow> funs_at w (si_init_array s) gs \<and> si_init_array_count s = of_nat (length gs)"
  shows "\<exists>w'. CallConstructors os (Suc (Suc n)) f w = Some w' \<and>
    logs (put_si f (s\<lparr>si_constructors_called := True\<rparr>) w) w' (call_events ''DT_INIT'' (si_name s) (si_init_func s) @
      (if si_init_array s = 0 then [] else array_events (si_name s) gs))"
proof -
  let ?t = "s\<lparr>si_constructors_called := True\<rparr>"
  let ?w = "put_si f ?t w"
  have m: "upd_si f (\<lambda>s. s\<lparr>si_constructors_called := True\<rparr>) w = Some ?w" using mark_ctor_step [OF s(1)] by blast
  have st: "ctor_step w ?w" using mark_ctor_step [OF s(1)] by blast
  have inv': "so_inv ?w LS FL" by (rule ctor_step_inv [OF st inv])
  have one: "ctor_dyn (CallConstructors os (Suc n)) f e ?w = Some (True, ?w)" if e: "e \<in> set es" for e
  proof (cases "d_tag e = DT_NEEDED")
    case False
    then show ?thesis by (simp add: ctor_dyn_def)
  next
    case True
    with nd e obtain name x where nm: "str_at (mc w) (si_strtab s + d_val e) name"
      and x: "find (\<lambda>x. si_name (obj w x) = basename name) LS = Some x" "si_constructors_called (obj w x)"
      unfolding need_called_def by blast
    have "find (\<lambda>x. basename name = si_name (obj ?w x)) LS = Some x"
      using x(1) by (simp add: ctor_step_obj(1) [OF st] eq_commute [of "basename name"])
    then have p: "find_loaded_library name ?w = Some x" by (simp add: find_loaded_library_eq [OF inv'] ptr_of_def)
    have "x \<in> set LS" using find_member [OF x(1)] by simp
    then have "sos ?w x = Some (obj ?w x)" using so_inv_live [OF inv', of x] by (auto simp: obj_def)
    moreover have "si_constructors_called (obj ?w x)" by (rule ctor_step_obj(6) [OF st x(2)])
    ultimately have "CallConstructors os (Suc n) x ?w = Some ?w" by simp
    with p cstr_str_at [OF nm] True show ?thesis by (simp add: ctor_dyn_def put_si_def del: CallConstructors.simps)
  qed
  have "dyns_at (mc ?w) (si_dynamic s) es" using dyn(2) by (simp add: put_si_def)
  then have walk: "walk_dyn mc (ctor_dyn (CallConstructors os (Suc n)) f) (si_dynamic s) ?w = Some (True, ?w)"
    by (rule walk_dyn_stays) (use one in blast)
  have sw: "sos ?w f = Some ?t" by (simp add: put_si_def)
  have "funs_at ?w a gs = funs_at w a gs" for a by (simp add: funs_at_def put_si_def)
  then obtain w' where "call_init os f ?w = Some w'"
    "logs ?w w' (call_events ''DT_INIT'' (si_name s) (si_init_func s) @
      (if si_init_array s = 0 then [] else array_events (si_name s) gs))"
    using call_init_works [OF os sw, of gs] gs by (auto cong: if_cong)
  with m s dyn(1) walk show ?thesis unfolding CallConstructors.simps(2) [of os "Suc n"] by (simp del: CallConstructors.simps)
qed

section \<open>The words of the image\<close>

text \<open>After linking the word at \<open>a\<close> is \<open>v\<close>: one that relocation leaves alone, or the place of an entry.\<close>

definition final_word ::
  "world \<Rightarrow> u8 list \<Rightarrow> u32 \<Rightarrow> Elf32_Dyn list \<Rightarrow> Elf32_Rel list \<Rightarrow> (Elf32_Rel \<Rightarrow> u32) \<Rightarrow> u32 \<Rightarrow> u32 \<Rightarrow> bool" where
  "final_word w bs p es rels val a v \<longleftrightarrow>
     load32 (kept_memory w bs p es rels) a = Some v \<or>
     (\<exists>r \<in> set rels. r_offset r + (p - load_min (file_phdrs bs)) = a \<and> val r = v)"

text \<open>The entries of the array of constructors, as they are after relocation.\<close>

definition init_entries ::
  "world \<Rightarrow> u8 list \<Rightarrow> u32 \<Rightarrow> Elf32_Dyn list \<Rightarrow> Elf32_Rel list \<Rightarrow> (Elf32_Rel \<Rightarrow> u32) \<Rightarrow> u32 list \<Rightarrow> bool" where
  "init_entries w bs p es rels val gs \<longleftrightarrow>
     (let s = image_object (with_image bs (p - load_min (file_phdrs bs)) (mc w)) bs p es
      in si_init_array s \<noteq> 0 \<longrightarrow> length gs < 4294967296 \<and> si_init_array_count s = of_nat (length gs) \<and>
           (\<forall>i < length gs. final_word w bs p es rels val (si_init_array s + 4 * of_nat i) (gs ! i)))"

lemma final_words:
  assumes "final_word w bs p es rels val a v" and "mach_le (kept_memory w bs p es rels) m"
    and "\<forall>r \<in> set rels. load32 m (r_offset r + (p - load_min (file_phdrs bs))) = Some (val r)"
  shows "load32 m a = Some v"
  using assms shows_more.load32_more [OF shows_more.intro [OF assms(2)]] unfolding final_word_def by blast

definition constructor_events :: "soinfo \<Rightarrow> string \<Rightarrow> u32 list \<Rightarrow> event list" where
  "constructor_events s name gs =
     (if name \<in> set no_constructors then []
      else call_events ''DT_INIT'' name (si_init_func s) @ (if si_init_array s = 0 then [] else array_events name gs))"

section \<open>\<open>dlopen\<close>\<close>

lemma kept_dynamic:
  assumes "links_with w LS bs p q es ps rs qs val"
  shows "dyns_at (kept_memory w bs p es (rs @ qs)) (p - load_min (file_phdrs bs) + p_vaddr q) es"
    and "p - load_min (file_phdrs bs) + p_vaddr q \<noteq> 0"
    and "list_all2 (\<lambda>e x. \<exists>name. str_at (kept_memory w bs p es (rs @ qs))
        (si_strtab (image_object (with_image bs (p - load_min (file_phdrs bs)) (mc w)) bs p es) + d_val e) name \<and>
      find (\<lambda>x. si_name (obj w x) = basename name) LS = Some x \<and> is_linked w x) (needed_names es) ps"
  using assms unfolding links_with_def kept_memory_def Let_def by blast+

lemma find_obj_name:
  assumes "find (\<lambda>x. si_name (obj w x) = nm) LS = Some x" and "\<forall>y \<in> set LS. si_name (obj w' y) = si_name (obj w y)"
  shows "find (\<lambda>x. si_name (obj w' x) = nm) (LS @ ys) = Some x"
  by (intro find_append_some find_cong_some [OF assms(1)]) (simp add: assms(2))

lemma dlopen_needed:
  assumes unl: "set_soinfo_pool_protection os (PROT_READ OR PROT_WRITE) w0 = Some w" "logs w0 w []"
    and disk: "fs (mc w) name = Some bs" and path: "[] \<in> set (gLdPaths w)" and ef: "elf_file bs"
    and lk: "links_with w LS bs p q es ps rs qs val" and op: "c_open name (mc w) = (fd, m0)"
    and v: "view_granted os fd bs (PAGE_START (e_phoff (file_header bs)))
      (table_len (e_phoff (file_header bs)) (length (file_phdrs bs))) (set_fd fd (Some \<lparr>f_data = bs, f_pos = 52\<rparr>) m0) a m1"
    and b: "block_granted os (load_max (file_phdrs bs) - load_min (file_phdrs bs)) m1 p m2"
    and u: "unmaps_view os a (unat (table_len (e_phoff (file_header bs)) (length (file_phdrs bs))))" and os: "protects os"
    and inv: "so_inv w LS (f # FL)" and nm: "no_nul (basename name)" "length (basename name) < 128"
    and new: "\<forall>x \<in> set LS. si_name (obj w x) \<noteq> basename name"
    and pre: "set (gLdPreloads w) \<subseteq> set LS" and main: "somain w = 0"
    and called: "\<forall>x \<in> set ps. si_constructors_called (obj w x)" and gs: "init_entries w bs p es (rs @ qs) val gs"
    and flags: "flags AND NOT (RTLD_NOW OR RTLD_LAZY OR RTLD_LOCAL OR RTLD_GLOBAL) = 0"
  shows "\<exists>w' s. do_dlopen os (Suc (Suc n)) (Some name) flags w0 = Some (f, w') \<and> so_inv w' (LS @ [f]) FL \<and> sos w' f = Some s \<and>
    si_flags s = FLAG_LINKED \<and> si_name s = basename name \<and> si_base s = p \<and> si_ref_count s = 1 \<and>
    si_constructors_called s = (basename name \<notin> set no_constructors) \<and>
    (\<forall>r \<in> set (rs @ qs). load32 (mc w') (r_offset r + (p - load_min (file_phdrs bs))) = Some (val r)) \<and>
    mach_le (kept_memory w bs p es (rs @ qs)) (mc w') \<and>
    (\<forall>y \<in> set LS. si_ref_count (obj w' y) = si_ref_count (obj w y) + of_nat (count_list ps y)) \<and>
    out_log w' = out_log w0 @
      constructor_events (image_object (with_image bs (p - load_min (file_phdrs bs)) (mc w)) bs p es) (basename name) gs \<and>
    (\<exists>l x c. s = (image_object (with_image bs (p - load_min (file_phdrs bs)) (mc w)) bs p es)\<lparr>si_name := basename name, si_phdr := l,
      si_dynamic := p - load_min (file_phdrs bs) + p_vaddr q, si_ARM_exidx := x, si_ARM_exidx_count := c, si_flags := FLAG_LINKED,
      si_ref_count := 1, si_constructors_called := (basename name \<notin> set no_constructors)\<rparr>) \<and>
    (\<forall>y \<in> set LS. \<exists>k. sos w' y =
      map_option (\<lambda>s. s\<lparr>si_next := k, si_ref_count := si_ref_count s + of_nat (count_list ps y)\<rparr>) (sos w y)) \<and>
    mach_le (mc w) (kept_memory w bs p es (rs @ qs)) \<and>
    (\<forall>x. load8 (mc w) x \<noteq> None \<longrightarrow> \<not> in_block p (unat (load_max (file_phdrs bs) - load_min (file_phdrs bs))) x) \<and>
    (\<forall>x. in_block p (unat (load_max (file_phdrs bs) - load_min (file_phdrs bs))) x \<longrightarrow> load8 (mc w') x \<noteq> None)"
proof -
  let ?bias = "p - load_min (file_phdrs bs)" and ?K = "kept_memory w bs p es (rs @ qs)"
  let ?I = "image_object (with_image bs ?bias (mc w)) bs p es"
  have pw: "protect_works os" using os by (simp add: protects_def protect_works_def)
  obtain w1 l x c t where find: "find_library os (Suc (Suc n)) (Some name) w = Some (f, w1)" and inv1: "so_inv w1 (LS @ [f]) FL"
    and s1: "sos w1 f = Some t"
    and t: "t = ?I\<lparr>si_name := basename name, si_phdr := l, si_dynamic := ?bias + p_vaddr q, si_ARM_exidx := x,
      si_ARM_exidx_count := c, si_flags := FLAG_LINKED, si_ref_count := 1\<rparr>"
    and refs: "\<forall>y \<in> set LS. \<exists>k. sos w1 y =
      map_option (\<lambda>s. s\<lparr>si_next := k, si_ref_count := si_ref_count s + of_nat (count_list ps y)\<rparr>) (sos w y)"
    and vals: "\<forall>r \<in> set (rs @ qs). load32 (mc w1) (place t r) = Some (val r)" and le: "mach_le ?K (mc w1)"
    and lg: "out_log w1 = out_log w" and above: "mach_le (mc w) ?K"
    and away: "\<forall>x. load8 (mc w) x \<noteq> None \<longrightarrow> \<not> in_block p (unat (load_max (file_phdrs bs) - load_min (file_phdrs bs))) x"
    and mapped: "\<forall>x. in_block p (unat (load_max (file_phdrs bs) - load_min (file_phdrs bs))) x \<longrightarrow> load8 (mc w1) x \<noteq> None"
    using finds_needed [OF disk path ef lk op v b u os inv nm new pre main, of n] by blast
  have f0: "f \<noteq> 0" "f \<notin> set LS" using so_inv_live [OF inv, of f] so_invD(5) [OF inv] by auto
  have more: "shows_more ?K (mc w1)" using le by (rule shows_more.intro)
  have objs: "si_name (obj w1 y) = si_name (obj w y)" "si_constructors_called (obj w1 y) = si_constructors_called (obj w y)"
    "si_ref_count (obj w1 y) = si_ref_count (obj w y) + of_nat (count_list ps y)" if y: "y \<in> set LS" for y
  proof -
    obtain k and s :: soinfo where "sos w y = Some s"
      "sos w1 y = Some (s\<lparr>si_next := k, si_ref_count := si_ref_count s + of_nat (count_list ps y)\<rparr>)"
      using refs y so_inv_live [OF inv, of y] by fastforce
    then show "si_name (obj w1 y) = si_name (obj w y)" "si_constructors_called (obj w1 y) = si_constructors_called (obj w y)"
      "si_ref_count (obj w1 y) = si_ref_count (obj w y) + of_nat (count_list ps y)" by (simp_all add: obj_def)
  qed
  have vals': "\<forall>r \<in> set (rs @ qs). load32 (mc w1) (r_offset r + ?bias) = Some (val r)"
    using vals by (simp add: place_def t)
  note K = kept_dynamic [OF lk]
  have dyn: "si_dynamic t \<noteq> 0" "dyns_at (mc w1) (si_dynamic t) es"
    using K(2) shows_more.dyns_at_more [OF more K(1)] by (simp_all add: t)
  have nd: "need_called w1 (LS @ [f]) t e" if e: "e \<in> set es" "d_tag e = DT_NEEDED" for e
  proof -
    have "e \<in> set (needed_names es)" using e by (simp add: needed_names_def)
    then obtain i where i: "i < length (needed_names es)" "e = needed_names es ! i" by (auto simp: in_set_conv_nth)
    from list_all2_nthD [OF K(3) i(1)] i obtain name' where nm': "str_at ?K (si_strtab ?I + d_val e) name'"
      "find (\<lambda>x. si_name (obj w x) = basename name') LS = Some (ps ! i)" by auto
    have i2: "ps ! i \<in> set ps" using i list_all2_lengthD [OF K(3)] by simp
    have "str_at (mc w1) (si_strtab t + d_val e) name'" using shows_more.str_at_more [OF more nm'(1)] by (simp add: t)
    moreover have "find (\<lambda>x. si_name (obj w1 x) = basename name') (LS @ [f]) = Some (ps ! i)"
      by (rule find_obj_name [OF nm'(2)]) (simp add: objs)
    moreover have "ps ! i \<in> set LS" using find_member [OF nm'(2)] by simp
    ultimately show ?thesis using objs(2) called i2 unfolding need_called_def by blast
  qed
  have nc: "\<not> si_constructors_called t" by (simp add: t)
  have init: "funs_at w1 (si_init_array t) gs \<and> si_init_array_count t = of_nat (length gs)" if "si_init_array t \<noteq> 0"
    using that gs final_words [OF _ le vals'] by (auto simp: t init_entries_def Let_def funs_at_def)
  obtain w2 where w2: "(if si_name t \<in> set no_constructors then Some w1 else CallConstructors os (Suc (Suc n)) f w1) = Some w2"
    "logs (put_si f (t\<lparr>si_constructors_called := (basename name \<notin> set no_constructors)\<rparr>) w1) w2
      (constructor_events ?I (basename name) gs)"
  proof (cases "basename name \<in> set no_constructors")
    case True
    have "put_si f (t\<lparr>si_constructors_called := False\<rparr>) w1 = w1"
      using s1 nc by (simp add: put_si_def fun_upd_idem)
    with True logs_refl [of w1] that show ?thesis by (simp add: constructor_events_def t)
  next
    case False
    from constructors_of_new [OF pw inv1 s1 nc dyn _ init, of n] nd obtain w2 where
      "CallConstructors os (Suc (Suc n)) f w1 = Some w2"
      "logs (put_si f (t\<lparr>si_constructors_called := True\<rparr>) w1) w2 (call_events ''DT_INIT'' (si_name t) (si_init_func t) @
        (if si_init_array t = 0 then [] else array_events (si_name t) gs))" by blast
    with False that show ?thesis by (simp add: constructor_events_def t del: CallConstructors.simps cong: if_cong)
  qed
  let ?t = "t\<lparr>si_constructors_called := (basename name \<notin> set no_constructors)\<rparr>"
  obtain w3 where w3: "set_soinfo_pool_protection os PROT_READ w2 = Some w3" "logs w2 w3 []"
    using pool_protection_works [OF pw] by blast
  have run: "do_dlopen os (Suc (Suc n)) (Some name) flags w0 = Some (f, w3)"
    using flags unl(1) find f0(1) s1 w2(1) w3(1) unfolding do_dlopen_def
    by (simp del: find_library.simps CallConstructors.simps RTLD_NOW_def RTLD_LAZY_def RTLD_LOCAL_def RTLD_GLOBAL_def no_constructors_def)
  note lg3 = logs_sel [OF logs_trans [OF w2(2) w3(2)]]
  have "so_inv w3 (LS @ [f]) FL = so_inv w1 (LS @ [f]) FL"
    by (rule so_inv_links) (auto simp: lg3 put_si_def s1)
  moreover have "vbytes (mc w3) = vbytes (mc w1)" using lg3(4) by (simp add: put_si_def)
  then have "load32 (mc w3) = load32 (mc w1)" "mach_le ?K (mc w3)" "load8 (mc w3) = load8 (mc w1)"
    using load32_vbytes [of "mc w3" "mc w1"] le by (simp add: fun_eq_iff, simp add: mach_le_def, simp add: load8_def fun_eq_iff)
  moreover have "obj w3 y = obj w1 y" if "y \<in> set LS" for y
    using that f0(2) by (auto simp: obj_def lg3(1) put_si_def)
  moreover have "out_log w3 = out_log w0 @ constructor_events ?I (basename name) gs"
    using lg3(3) lg logs_sel(3) [OF unl(2)] by (simp add: put_si_def)
  moreover have "sos w3 f = Some ?t" by (simp add: lg3(1) put_si_def)
  moreover have "\<forall>y \<in> set LS. \<exists>k. sos w3 y =
      map_option (\<lambda>s. s\<lparr>si_next := k, si_ref_count := si_ref_count s + of_nat (count_list ps y)\<rparr>) (sos w y)"
    using refs f0(2) by (auto simp: lg3(1) put_si_def)
  moreover have "\<exists>l x c. ?t = ?I\<lparr>si_name := basename name, si_phdr := l, si_dynamic := ?bias + p_vaddr q, si_ARM_exidx := x,
      si_ARM_exidx_count := c, si_flags := FLAG_LINKED, si_ref_count := 1,
      si_constructors_called := (basename name \<notin> set no_constructors)\<rparr>" by (auto simp: t)
  ultimately show ?thesis
    using run inv1 vals' objs(3) above away mapped by (intro exI [of _ w3] exI [of _ ?t]) (simp add: t)
qed

section \<open>Properties\<close>

text \<open>
  C1: \<open>s_dlopen\<close> of a library file from end to end.  When the file is well formed, its needed libraries are loaded and
  initialised, its relocations can be resolved in them and the system grants the mappings, \<open>s_dlopen\<close> returns
  the handle of the library, linked at the block that the system gave, last in the global list, with one reference and its
  relocations applied; every needed library has one reference more for each time it is named;
  and the constructors have run, unless the library is one of the five whose constructors are skipped: the function
  of \<open>DT_INIT\<close> first, then the entries of \<open>DT_INIT_ARRAY\<close> in order with their relocated values,
  each once, but for entries that are 0 or -1, and nothing else.
\<close>

theorem dlopen_loads_file:
  assumes "set_soinfo_pool_protection os (PROT_READ OR PROT_WRITE) w0 = Some w"
    and "fs (mc w) name = Some bs" and "[] \<in> set (gLdPaths w)" and "elf_file bs"
    and "links_with w LS bs p q es ps rs qs val" and "c_open name (mc w) = (fd, m0)"
    and "view_granted os fd bs (PAGE_START (e_phoff (file_header bs)))
      (table_len (e_phoff (file_header bs)) (length (file_phdrs bs))) (set_fd fd (Some \<lparr>f_data = bs, f_pos = 52\<rparr>) m0) a m1"
    and "block_granted os (load_max (file_phdrs bs) - load_min (file_phdrs bs)) m1 p m2"
    and "unmaps_view os a (unat (table_len (e_phoff (file_header bs)) (length (file_phdrs bs))))" and "protects os"
    and "so_inv w LS (f # FL)" and "no_nul (basename name)" and "length (basename name) < 128"
    and "\<forall>x \<in> set LS. si_name (obj w x) \<noteq> basename name"
    and "set (gLdPreloads w) \<subseteq> set LS" and "somain w = 0"
    and "\<forall>x \<in> set ps. si_constructors_called (obj w x)" and "init_entries w bs p es (rs @ qs) val gs"
    and "flags AND NOT (RTLD_NOW OR RTLD_LAZY OR RTLD_LOCAL OR RTLD_GLOBAL) = 0"
  shows "\<exists>w' s. s_dlopen os (Suc (Suc n)) (Some name) flags w0 = Some (f, w') \<and> so_inv w' (LS @ [f]) FL \<and> sos w' f = Some s \<and>
    si_flags s = FLAG_LINKED \<and> si_name s = basename name \<and> si_base s = p \<and> si_ref_count s = 1 \<and>
    si_constructors_called s = (basename name \<notin> set no_constructors) \<and>
    (\<forall>r \<in> set (rs @ qs). load32 (mc w') (r_offset r + (p - load_min (file_phdrs bs))) = Some (val r)) \<and>
    mach_le (kept_memory w bs p es (rs @ qs)) (mc w') \<and>
    (\<forall>y \<in> set LS. si_ref_count (obj w' y) = si_ref_count (obj w y) + of_nat (count_list ps y)) \<and>
    out_log w' = out_log w0 @
      constructor_events (image_object (with_image bs (p - load_min (file_phdrs bs)) (mc w)) bs p es) (basename name) gs"
proof -
  have "protect_works os" using assms(10) by (simp add: protects_def protect_works_def)
  from pool_protection_works [OF this, of "PROT_READ OR PROT_WRITE" w0] assms(1) have "logs w0 w []" by auto
  note run = dlopen_needed [OF assms(1) this assms(2-19), of n]
  moreover have "f \<noteq> 0" using so_inv_live [OF assms(11), of f] by auto
  ultimately show ?thesis unfolding s_dlopen_def by (auto simp del: find_library.simps RTLD_NOW_def RTLD_LAZY_def)
qed

lemma full_init_entries: "init_entries full_world full_page 0x10000 full_dyns ([full_slot] @ [full_init]) full_value [0x10500]"
proof -
  have "final_word full_world full_page 0x10000 full_dyns ([full_slot] @ [full_init]) full_value 0x10128 0x10500"
    by (simp add: final_word_def full_bias full_init_def full_value_def)
  then show ?thesis
    unfolding init_entries_def Let_def full_bias full_memory_def [symmetric] full_object_def [symmetric]
    by (simp add: full_object_sel)
qed

lemma full_events: "constructor_events full_object ''libfull.so'' [0x10500] =
    [Calling ''DT_INIT'' 0x10300 ''libfull.so'', Done_calling ''DT_INIT'' 0x10300 ''libfull.so'',
     Calling ''function'' 0x10500 ''libfull.so'', Done_calling ''function'' 0x10500 ''libfull.so'']"
  "''libfull.so'' \<notin> set no_constructors"
  by (simp_all add: constructor_events_def full_object_sel no_constructors_def call_events_def array_events_def)

lemma dlopen_loads_file_witness:
  "\<exists>w' s. s_dlopen (file_api full_page) 2 (Some ''libfull.so'') 0 full_world = Some (0x30000, w') \<and>
     so_inv w' [0x10000, 0x20000, 0x30000] [] \<and> sos w' 0x30000 = Some s \<and> si_flags s = FLAG_LINKED \<and> si_ref_count s = 1 \<and>
     si_constructors_called s \<and> load32 (mc w') 0x1012C = Some 0x40000100 \<and>
     out_log w' = out_log full_world @
       [Calling ''DT_INIT'' 0x10300 ''libfull.so'', Done_calling ''DT_INIT'' 0x10300 ''libfull.so'',
        Calling ''function'' 0x10500 ''libfull.so'', Done_calling ''function'' 0x10500 ''libfull.so'']"
proof -
  obtain m2 where b: "block_granted (file_api full_page) 4096 full_viewed 0x10000 m2" using full_grants(2) by blast
  have un: "set_soinfo_pool_protection (file_api full_page) (PROT_READ OR PROT_WRITE) full_world = Some full_world"
    by (simp add: set_soinfo_pool_protection_def full_world_def demo_libs_def demo_registry_def)
  have called: "\<forall>x \<in> set [0x20000]. si_constructors_called (obj full_world x)"
    by (simp add: full_world_def obj_def)
  from dlopen_loads_file [where os = "file_api full_page" and n = 0 and flags = 0,
      OF un full_world_sel(1,2) full_page_elf full_links full_world_sel(3),
      unfolded full_page_table, OF full_grants(1) [unfolded full_read_def] b file_api_works full_world_sel(4) full_name(1,2)
      full_world_sel(5-7) called full_init_entries,
      unfolded numeral_2_eq_2 [symmetric] full_bias full_memory_def [symmetric] full_object_def [symmetric] full_name(3)]
  show ?thesis by (auto simp: full_slot_def full_value_def full_events)
qed

end
