(* ===== verification/Ledger.thy ===== *)
theory Ledger
  imports Session Link_Needed
begin

text \<open>
  Reference counts.  The ledger is an abstract account of the registered libraries: their handles, names and counts,
  the names of the libraries that each one needs, and the lines that its destructors print.  Opening a library that
  is loaded, and closing one, with everything that unloading it releases in turn, are functions on the ledger; the
  linker's \<open>dlopen\<close> and \<open>dlclose\<close> simulate them.
\<close>

section \<open>The ledger\<close>

record entry =
  en_handle :: u32
  en_name :: string
  en_count :: nat
  en_needs :: "string list"
  en_fini :: "event list"

type_synonym ledger = "entry list"

definition recount :: "u32 \<Rightarrow> nat \<Rightarrow> ledger \<Rightarrow> ledger" where
  "recount h k L = map (\<lambda>e. if en_handle e = h then e\<lparr>en_count := k\<rparr> else e) L"

definition reopen :: "string \<Rightarrow> ledger \<Rightarrow> (u32 \<times> ledger) option" where
  "reopen name L =
     do { e \<leftarrow> find (\<lambda>e. en_name e = name) L;
          (if en_count e + 1 < 4294967296
           then Some (en_handle e, recount (en_handle e) (en_count e + 1) L) else None) }"

fun through :: "('a \<Rightarrow> 's \<Rightarrow> ('e list \<times> 's) option) \<Rightarrow> 'a list \<Rightarrow> 's \<Rightarrow> ('e list \<times> 's) option" where
  "through f [] s = Some ([], s)"
| "through f (x # xs) s = do { (ev, s) \<leftarrow> f x s; (ev', s) \<leftarrow> through f xs s; Some (ev @ ev', s) }"

text \<open>
  Giving back one reference.  At the last one the destructors run, then the needed libraries are released in their
  order, and the entry goes.  There is no result for a count of 0, for the last reference to the first library, for a
  needed library that is not there, and for libraries that need each other: the code wraps, faults or does not end.
\<close>

fun release :: "nat \<Rightarrow> u32 \<Rightarrow> ledger \<Rightarrow> (event list \<times> ledger) option" where
  "release 0 h L = None"
| "release (Suc n) h L =
     do { e \<leftarrow> find (\<lambda>e. en_handle e = h) L;
          (if en_count e = 0 then None
           else if en_count e \<noteq> 1 then Some ([], recount h (en_count e - 1) L)
           else if en_handle (hd L) = h then None
           else do {
             (ev, L) \<leftarrow> through (\<lambda>name L. do { d \<leftarrow> find (\<lambda>d. en_name d = name) L; release n (en_handle d) L }) (en_needs e) L;
             (if h \<in> en_handle ` set L then Some (en_fini e @ ev, filter (\<lambda>e. en_handle e \<noteq> h) L) else None) }) }"

section \<open>What the entries say of the linker's state\<close>

definition block :: "soinfo \<Rightarrow> u32 set" where
  "block s = {x. in_block (si_base s) (unat (si_size s)) x}"

text \<open>The library's tables, as the memory \<open>m\<close> shows them.\<close>

definition tables_in :: "mach \<Rightarrow> soinfo \<Rightarrow> string list \<Rightarrow> event list \<Rightarrow> bool" where
  "tables_in m s names fini \<longleftrightarrow>
     (\<exists>es gs. dyns_at m (si_dynamic s) es \<and>
        list_all2 (\<lambda>e name. \<exists>path. str_at m (si_strtab s + d_val e) path \<and> basename path = name) (needed_names es) names \<and>
        (si_fini_array s \<noteq> 0 \<longrightarrow> length gs < 4294967296 \<and> si_fini_array_count s = of_nat (length gs) \<and>
           (\<forall>i < length gs. load32 m (si_fini_array s + 4 * of_nat i) = Some (gs ! i))) \<and>
        fini = fini_events s gs)"

definition describes :: "world \<Rightarrow> entry \<Rightarrow> bool" where
  "describes w e \<longleftrightarrow>
     (let s = obj w (en_handle e)
      in si_name s = en_name e \<and> unat (si_ref_count s) = en_count e \<and> si_flags s AND FLAG_LINKED \<noteq> 0 \<and> skips_constructors s)"

text \<open>The library can be unloaded: its tables lie in its own block, and unmapping the block leaves the rest alone.\<close>

definition removable :: "win_api \<Rightarrow> world \<Rightarrow> entry \<Rightarrow> bool" where
  "removable os w e \<longleftrightarrow>
     (let s = obj w (en_handle e)
      in tables_in (hide (- block s) (mc w)) s (en_needs e) (en_fini e) \<and> unmaps_view os (si_base s) (unat (si_size s)))"

definition kept_apart :: "world \<Rightarrow> ledger \<Rightarrow> bool" where
  "kept_apart w L \<longleftrightarrow>
     (\<forall>e \<in> set L. \<forall>e' \<in> set L. en_handle e \<noteq> en_handle e' \<longrightarrow>
        block (obj w (en_handle e)) \<inter> block (obj w (en_handle e')) = {})"

definition accounts :: "win_api \<Rightarrow> world \<Rightarrow> ledger \<Rightarrow> bool" where
  "accounts os w L \<longleftrightarrow>
     (\<exists>FL. so_inv w (map en_handle L) FL) \<and> (\<forall>e \<in> set L. describes w e) \<and> kept_apart w L \<and>
     (\<forall>e \<in> set L. en_handle e \<noteq> en_handle (hd L) \<longrightarrow> removable os w e)"

text \<open>What an operation keeps of the libraries that are still there: all but their links and counts, and their blocks.\<close>

definition keeps_rest :: "world \<Rightarrow> world \<Rightarrow> ledger \<Rightarrow> bool" where
  "keeps_rest w w' L \<longleftrightarrow>
     (\<forall>e \<in> set L. (\<exists>k c. sos w' (en_handle e) = map_option (\<lambda>s. s\<lparr>si_next := k, si_ref_count := c\<rparr>) (sos w (en_handle e))) \<and>
        (\<forall>x \<in> block (obj w (en_handle e)). load8 (mc w) x \<noteq> None \<longrightarrow> load8 (mc w') x = load8 (mc w) x))"

definition later :: "ledger \<Rightarrow> ledger \<Rightarrow> bool" where
  "later L L' \<longleftrightarrow> L' \<noteq> [] \<and> en_handle (hd L') = en_handle (hd L) \<and> (\<forall>e' \<in> set L'. \<exists>e \<in> set L. \<exists>k. e' = e\<lparr>en_count := k\<rparr>)"

lemma later_refl: "L \<noteq> [] \<Longrightarrow> later L L"
proof -
  have "\<exists>e' \<in> set L. \<exists>k. e = e'\<lparr>en_count := k\<rparr>" if "e \<in> set L" for e
    using that by (intro bexI [of _ e] exI [of _ "en_count e"]) simp_all
  then show "L \<noteq> [] \<Longrightarrow> later L L" by (simp add: later_def)
qed

lemma later_trans:
  assumes "later L L1" and "later L1 L2"
  shows "later L L2"
proof -
  have "\<exists>e \<in> set L. \<exists>k. e2 = e\<lparr>en_count := k\<rparr>" if e2: "e2 \<in> set L2" for e2
  proof -
    obtain e1 k where "e1 \<in> set L1" "e2 = e1\<lparr>en_count := k\<rparr>" using assms(2) e2 unfolding later_def by blast
    moreover then obtain e k1 where "e \<in> set L" "e1 = e\<lparr>en_count := k1\<rparr>" using assms(1) unfolding later_def by blast
    ultimately show ?thesis by (intro bexI [of _ e] exI [of _ k]) simp_all
  qed
  with assms show ?thesis by (simp add: later_def)
qed

lemma later_handles: "later L L' \<Longrightarrow> en_handle ` set L' \<subseteq> en_handle ` set L"
  unfolding later_def by force

lemma recount_handles [simp]: "map en_handle (recount h k L) = map en_handle L"
  by (simp add: recount_def)

lemma recount_hd: "L \<noteq> [] \<Longrightarrow> en_handle (hd (recount h k L)) = en_handle (hd L)"
  by (cases L) (simp_all add: recount_def)

lemma in_recount: "e' \<in> set (recount h k L) \<Longrightarrow> \<exists>e \<in> set L. e' = (if en_handle e = h then e\<lparr>en_count := k\<rparr> else e)"
  by (induction L) (auto simp: recount_def)

lemma later_recount:
  assumes "L \<noteq> []"
  shows "later L (recount h k L)"
proof -
  have "\<exists>e \<in> set L. \<exists>k'. e' = e\<lparr>en_count := k'\<rparr>" if e': "e' \<in> set (recount h k L)" for e'
  proof -
    obtain e where "e' = (if en_handle e = h then e\<lparr>en_count := k\<rparr> else e)" "e \<in> set L"
      using in_recount [OF e'] by blast
    then show ?thesis by (intro bexI [of _ e] exI [of _ "if en_handle e = h then k else en_count e"]) simp_all
  qed
  moreover have "recount h k L \<noteq> []" using assms by (simp add: recount_def)
  ultimately show ?thesis using assms by (simp add: later_def recount_hd)
qed

lemma later_filter:
  assumes "L \<noteq> []" and "en_handle (hd L) \<noteq> h"
  shows "later L (filter (\<lambda>e. en_handle e \<noteq> h) L)"
proof -
  have "\<exists>e' \<in> set L. \<exists>k. e = e'\<lparr>en_count := k\<rparr>" if "e \<in> set L" for e
    using that by (intro bexI [of _ e] exI [of _ "en_count e"]) simp_all
  with assms show ?thesis by (cases L) (auto simp: later_def)
qed

section \<open>What is kept\<close>

lemma keepsD:
  assumes "keeps_rest w w' L" and "e \<in> set L"
  shows "\<exists>k c. sos w' (en_handle e) = map_option (\<lambda>s. s\<lparr>si_next := k, si_ref_count := c\<rparr>) (sos w (en_handle e))"
    and "\<forall>x \<in> block (obj w (en_handle e)). load8 (mc w) x \<noteq> None \<longrightarrow> load8 (mc w') x = load8 (mc w) x"
  using assms by (auto simp: keeps_rest_def)

lemma keeps_obj:
  assumes "keeps_rest w w' L" and "e \<in> set L" and "sos w (en_handle e) = Some s"
  shows "\<exists>k c. sos w' (en_handle e) = Some (s\<lparr>si_next := k, si_ref_count := c\<rparr>)"
  using keepsD(1) [OF assms(1,2)] assms(3) by auto

lemma keeps_rest_refl [simp]: "keeps_rest w w L"
proof -
  have "\<exists>k c. sos w p = map_option (\<lambda>s. s\<lparr>si_next := k, si_ref_count := c\<rparr>) (sos w p)" for p
  proof (cases "sos w p")
    case (Some s)
    then show ?thesis by (intro exI [of _ "si_next s"] exI [of _ "si_ref_count s"]) simp
  qed simp
  then show ?thesis by (simp add: keeps_rest_def)
qed

lemma keeps_fields:
  assumes "keeps_rest w w' L" and "e \<in> set L"
  shows "obj w' (en_handle e) = (obj w (en_handle e))\<lparr>si_next := si_next (obj w' (en_handle e)),
    si_ref_count := si_ref_count (obj w' (en_handle e))\<rparr>"
  using keepsD(1) [OF assms] by (cases "sos w (en_handle e)") (auto simp: obj_def)

lemma block_cong [simp]: "block (s\<lparr>si_next := k, si_ref_count := c\<rparr>) = block s"
  by (simp add: block_def)

lemma keeps_block: "keeps_rest w w' L \<Longrightarrow> e \<in> set L \<Longrightarrow> block (obj w' (en_handle e)) = block (obj w (en_handle e))"
  by (subst keeps_fields) (simp_all only: block_cong)

lemma keeps_rest_trans:
  assumes "keeps_rest w w1 L1" and "keeps_rest w1 w2 L2" and "en_handle ` set L2 \<subseteq> en_handle ` set L1"
  shows "keeps_rest w w2 L2"
  unfolding keeps_rest_def
proof
  fix e assume e: "e \<in> set L2"
  then obtain e1 where e1: "e1 \<in> set L1" "en_handle e1 = en_handle e" using assms(3) by force
  obtain k c where kc: "sos w1 (en_handle e) = map_option (\<lambda>s. s\<lparr>si_next := k, si_ref_count := c\<rparr>) (sos w (en_handle e))"
    using keepsD(1) [OF assms(1) e1(1)] e1(2) by auto
  obtain k2 c2 where "sos w2 (en_handle e) = map_option (\<lambda>s. s\<lparr>si_next := k2, si_ref_count := c2\<rparr>) (sos w1 (en_handle e))"
    using keepsD(1) [OF assms(2) e] by auto
  with kc have "sos w2 (en_handle e) = map_option (\<lambda>s. s\<lparr>si_next := k2, si_ref_count := c2\<rparr>) (sos w (en_handle e))"
    by (simp add: option.map_comp comp_def)
  moreover have "\<forall>x \<in> block (obj w (en_handle e)). load8 (mc w) x \<noteq> None \<longrightarrow> load8 (mc w2) x = load8 (mc w) x"
    using keepsD(2) [OF assms(1) e1(1)] keepsD(2) [OF assms(2) e] keeps_block [OF assms(1) e1(1)] e1(2) by auto
  ultimately show "(\<exists>k c. sos w2 (en_handle e) = map_option (\<lambda>s. s\<lparr>si_next := k, si_ref_count := c\<rparr>) (sos w (en_handle e))) \<and>
      (\<forall>x \<in> block (obj w (en_handle e)). load8 (mc w) x \<noteq> None \<longrightarrow> load8 (mc w2) x = load8 (mc w) x)" by blast
qed

lemma keeps_own:
  assumes "keeps_rest w w' L" and "e \<in> set L"
  shows "mach_le (hide (- block (obj w (en_handle e))) (mc w)) (hide (- block (obj w (en_handle e))) (mc w'))"
proof -
  have "load8 (hide (- block (obj w (en_handle e))) (mc w')) x = Some b"
    if "load8 (hide (- block (obj w (en_handle e))) (mc w)) x = Some b" for x b
    using keepsD(2) [OF assms] that by (auto simp: load8_hide split: if_splits)
  then show ?thesis by (auto simp: mach_le_def map_le_def load8_def dom_def)
qed

lemma tables_in_more:
  assumes "tables_in m s names fini" and "mach_le m m'"
  shows "tables_in m' (s\<lparr>si_next := k, si_ref_count := c\<rparr>) names fini"
proof -
  have more: "shows_more m m'" using assms(2) by (rule shows_more.intro)
  obtain es gs where t: "dyns_at m (si_dynamic s) es"
    "list_all2 (\<lambda>e name. \<exists>path. str_at m (si_strtab s + d_val e) path \<and> basename path = name) (needed_names es) names"
    "si_fini_array s \<noteq> 0 \<longrightarrow> length gs < 4294967296 \<and> si_fini_array_count s = of_nat (length gs) \<and>
       (\<forall>i < length gs. load32 m (si_fini_array s + 4 * of_nat i) = Some (gs ! i))"
    "fini = fini_events s gs" using assms(1) unfolding tables_in_def by blast
  have "list_all2 (\<lambda>e name. \<exists>path. str_at m' (si_strtab s + d_val e) path \<and> basename path = name) (needed_names es) names"
    by (rule list_all2_mono [OF t(2)]) (use shows_more.str_at_more [OF more] in blast)
  with t shows_more.dyns_at_more [OF more t(1)] shows_more.load32_more [OF more] show ?thesis
    unfolding tables_in_def by (intro exI [of _ es] exI [of _ gs]) (simp add: fini_events_def)
qed

text \<open>What is kept of the libraries is enough for the account of them, once the list and the counts are right.\<close>

lemma entries_keep:
  assumes ac: "accounts os w L" and k: "keeps_rest w w' L'" and lt: "later L L'"
    and cnt: "\<forall>e \<in> set L'. unat (si_ref_count (obj w' (en_handle e))) = en_count e"
  shows "(\<forall>e \<in> set L'. describes w' e) \<and> kept_apart w' L' \<and>
    (\<forall>e \<in> set L'. en_handle e \<noteq> en_handle (hd L') \<longrightarrow> removable os w' e)"
proof -
  have dr: "describes w' e" "en_handle e \<noteq> en_handle (hd L') \<Longrightarrow> removable os w' e" if e: "e \<in> set L'" for e
  proof -
    let ?h = "en_handle e"
    obtain e0 j where e0: "e0 \<in> set L" "e = e0\<lparr>en_count := j\<rparr>" using lt e unfolding later_def by blast
    then have h: "en_handle e0 = ?h" "en_name e0 = en_name e" "en_needs e0 = en_needs e" "en_fini e0 = en_fini e" by simp_all
    have d: "describes w e0" using ac e0(1) by (simp add: accounts_def)
    note f = keeps_fields [OF k e]
    show "describes w' e"
      using d cnt e unfolding describes_def Let_def h by (subst (1 3 4) f) (auto simp: skips_constructors_def)
    assume "?h \<noteq> en_handle (hd L')"
    then have "en_handle e0 \<noteq> en_handle (hd L)" using lt h by (simp add: later_def)
    then have r: "removable os w e0" using ac e0(1) by (simp add: accounts_def)
    have "tables_in (hide (- block (obj w ?h)) (mc w')) (obj w' ?h) (en_needs e) (en_fini e)"
      using r keeps_own [OF k e] unfolding removable_def Let_def h by (subst f) (blast intro: tables_in_more)
    moreover have "unmaps_view os (si_base (obj w' ?h)) (unat (si_size (obj w' ?h)))"
      using r unfolding removable_def Let_def h by (subst (1 2) f) simp
    ultimately show "removable os w' e"
      unfolding removable_def Let_def keeps_block [OF k e] by blast
  qed
  have "kept_apart w' L'"
    unfolding kept_apart_def
  proof (intro ballI impI)
    fix e e' assume e: "e \<in> set L'" "e' \<in> set L'" "en_handle e \<noteq> en_handle e'"
    obtain e0 where "e0 \<in> set L" "en_handle e0 = en_handle e" using later_handles [OF lt] e(1) by force
    moreover obtain e1 where "e1 \<in> set L" "en_handle e1 = en_handle e'" using later_handles [OF lt] e(2) by force
    moreover have "kept_apart w L" using ac by (simp add: accounts_def)
    ultimately have "block (obj w (en_handle e)) \<inter> block (obj w (en_handle e')) = {}"
      using e(3) unfolding kept_apart_def by metis
    then show "block (obj w' (en_handle e)) \<inter> block (obj w' (en_handle e')) = {}"
      by (simp only: keeps_block [OF k e(1)] keeps_block [OF k e(2)])
  qed
  with dr show ?thesis by blast
qed

lemma accounts_keeps:
  assumes "accounts os w L" and "keeps_rest w w' L'" and "later L L'" and "so_inv w' (map en_handle L') FL"
    and "\<forall>e \<in> set L'. unat (si_ref_count (obj w' (en_handle e))) = en_count e"
  shows "accounts os w' L'"
  using entries_keep [OF assms(1-3,5)] assms(4) unfolding accounts_def by blast

section \<open>Entries and objects\<close>

lemma accounts_live:
  assumes "accounts os w L" and "e \<in> set L"
  shows "sos w (en_handle e) = Some (obj w (en_handle e))" and "en_handle e \<noteq> 0"
proof -
  obtain FL where inv: "so_inv w (map en_handle L) FL" using assms(1) by (auto simp: accounts_def)
  have "en_handle e \<in> set (map en_handle L)" using assms(2) by simp
  with so_inv_live [OF inv, of "en_handle e"] show "sos w (en_handle e) = Some (obj w (en_handle e))" "en_handle e \<noteq> 0"
    by (auto simp: obj_def)
qed

lemma accounts_entry:
  assumes "accounts os w L"
  shows "L \<noteq> []" and "distinct (map en_handle L)" and "e \<in> set L \<Longrightarrow> describes w e"
  using assms by (auto simp: accounts_def dest: so_invD(3,6))

lemma find_entry_name:
  assumes ac: "accounts os w L" and d: "find (\<lambda>d. en_name d = name) L = Some d"
  shows "find (\<lambda>x. si_name (obj w x) = name) (map en_handle L) = Some (en_handle d)"
proof -
  have *: "find (\<lambda>x. si_name (obj w x) = name) (map en_handle M) = map_option en_handle (find (\<lambda>d. en_name d = name) M)"
    if "\<forall>e \<in> set M. si_name (obj w (en_handle e)) = en_name e" for M
    using that by (induction M) auto
  have "\<forall>e \<in> set L. si_name (obj w (en_handle e)) = en_name e"
    using accounts_entry(3) [OF ac] by (simp add: describes_def Let_def)
  from * [OF this] show ?thesis by (simp add: d)
qed

lemma accounts_same:
  assumes "accounts os w L" and "sos w' = sos w" and "vbytes (mc w') = vbytes (mc w)"
    and "solist w' = solist w" "gSoInfoFreeList w' = gSoInfoFreeList w" "sonext w' = sonext w"
  shows "accounts os w' L" and "keeps_rest w w' M"
proof -
  have "load8 (mc w') = load8 (mc w)" by (simp add: load8_def assms(3) fun_eq_iff)
  then have k: "keeps_rest w w' M" for M
    using keeps_rest_refl [of w M, unfolded keeps_rest_def] assms(2) by (simp add: keeps_rest_def)
  then show "keeps_rest w w' M" .
  obtain FL where "so_inv w (map en_handle L) FL" using assms(1) by (auto simp: accounts_def)
  moreover have "so_inv w' (map en_handle L) FL = so_inv w (map en_handle L) FL"
    by (rule so_inv_links) (simp_all add: assms)
  moreover have "\<forall>e \<in> set L. unat (si_ref_count (obj w' (en_handle e))) = en_count e"
    using accounts_entry(3) [OF assms(1)] by (simp add: describes_def Let_def obj_def assms(2))
  ultimately show "accounts os w' L"
    using accounts_keeps [OF assms(1) k later_refl [OF accounts_entry(1) [OF assms(1)]]] by blast
qed

lemma accounts_logs: "accounts os w L \<Longrightarrow> logs w w' ev \<Longrightarrow> accounts os w' L \<and> keeps_rest w w' M"
  using accounts_same [of os w L w'] by (simp add: logs_sel)

text \<open>A changed count.\<close>

lemma accounts_recount:
  assumes ac: "accounts os w L" and e: "e \<in> set L" "en_handle e = h"
    and so: "sos w' = (sos w)(h \<mapsto> (obj w h)\<lparr>si_ref_count := c\<rparr>)" and vb: "vbytes (mc w') = vbytes (mc w)"
    and ptrs: "solist w' = solist w" "gSoInfoFreeList w' = gSoInfoFreeList w" "sonext w' = sonext w"
  shows "accounts os w' (recount h (unat c) L) \<and> keeps_rest w w' (recount h (unat c) L)"
proof -
  let ?L = "recount h (unat c) L"
  have s: "sos w h = Some (obj w h)" using accounts_live(1) [OF ac e(1)] e(2) by simp
  have "load8 (mc w') = load8 (mc w)" by (simp add: load8_def vb fun_eq_iff)
  moreover have "\<exists>k d. sos w' x = map_option (\<lambda>s. s\<lparr>si_next := k, si_ref_count := d\<rparr>) (sos w x)" for x
  proof (cases "sos w x")
    case None
    then show ?thesis using s by (auto simp: so)
  next
    case (Some t)
    then show ?thesis using s
      by (intro exI [of _ "si_next t"] exI [of _ "if x = h then c else si_ref_count t"]) (auto simp: so)
  qed
  ultimately have k: "keeps_rest w w' ?L" by (simp add: keeps_rest_def)
  obtain FL where "so_inv w (map en_handle L) FL" using ac by (auto simp: accounts_def)
  moreover have "so_inv w' (map en_handle L) FL = so_inv w (map en_handle L) FL"
    by (rule so_inv_links) (simp_all add: so ptrs s)
  ultimately have inv: "so_inv w' (map en_handle ?L) FL" by simp
  have "unat (si_ref_count (obj w' (en_handle e'))) = en_count e'" if e': "e' \<in> set ?L" for e'
  proof -
    obtain e0 where e0: "e0 \<in> set L" "e' = (if en_handle e0 = h then e0\<lparr>en_count := unat c\<rparr> else e0)"
      using in_recount [OF e'] by blast
    have "unat (si_ref_count (obj w (en_handle e0))) = en_count e0"
      using accounts_entry(3) [OF ac e0(1)] by (simp add: describes_def Let_def)
    with e0(2) show ?thesis by (auto simp: obj_def so)
  qed
  then have "accounts os w' ?L"
    using accounts_keeps [OF ac k later_recount [OF accounts_entry(1) [OF ac]] inv] by blast
  with k show ?thesis by blast
qed

section \<open>Unloading\<close>

lemma free_keeps:
  assumes "soinfo_free h w = Some w'" and "x \<noteq> h"
  shows "\<exists>k. sos w' x = map_option (\<lambda>s. s\<lparr>si_next := k\<rparr>) (sos w x)"
proof -
  have same: "\<exists>k. sos w x = map_option (\<lambda>s. s\<lparr>si_next := k\<rparr>) (sos w x)"
  proof (cases "sos w x")
    case (Some s)
    then show ?thesis by (intro exI [of _ "si_next s"]) simp
  qed simp
  from assms(1) show ?thesis
  proof (cases rule: soinfo_free_cases)
    case (unlink prev s t u)
    with assms(2) same show ?thesis by (cases "x = prev") auto
  qed (use same in simp)
qed

text \<open>The end of an unloading: the block is unmapped, the object leaves the list and its count is 0.\<close>

lemma unload_end:
  assumes ac: "accounts os w L" and h: "h \<in> en_handle ` set L" "en_handle (hd L) \<noteq> h"
    and w1: "w1 = w\<lparr>mc := snd (s_munmap os (si_base (obj w h)) (si_size (obj w h)) (mc w))\<rparr>"
  shows "\<exists>w2 w3. soinfo_free h w1 = Some w2 \<and> upd_si h (\<lambda>s. s\<lparr>si_ref_count := 0\<rparr>) w2 = Some w3 \<and>
    accounts os w3 (filter (\<lambda>e. en_handle e \<noteq> h) L) \<and> keeps_rest w w3 (filter (\<lambda>e. en_handle e \<noteq> h) L) \<and> out_log w3 = out_log w"
proof -
  let ?L = "filter (\<lambda>e. en_handle e \<noteq> h) L"
  obtain e0 where e0: "e0 \<in> set L" "en_handle e0 = h" using h(1) by blast
  obtain FL where inv: "so_inv w (map en_handle L) FL" using ac by (auto simp: accounts_def)
  note di = accounts_entry(2) [OF ac]
  obtain as bs where ab: "map en_handle L = as @ h # bs" using h(1) split_list [of h "map en_handle L"] by auto
  have as: "as \<noteq> []"
  proof
    assume "as = []"
    with ab have "hd (map en_handle L) = h" by simp
    with h(2) accounts_entry(1) [OF ac] show False by (simp add: hd_map)
  qed
  have nin: "h \<notin> set as" "h \<notin> set bs" using di ab by auto
  have Lf: "map en_handle ?L = as @ bs"
  proof -
    have "map en_handle ?L = filter (\<lambda>x. x \<noteq> h) (map en_handle L)" by (simp add: filter_map comp_def)
    also have "\<dots> = filter (\<lambda>x. x \<noteq> h) as @ filter (\<lambda>x. x \<noteq> h) bs" by (simp add: ab)
    also have "\<dots> = as @ bs"
    proof -
      have "filter (\<lambda>x. x \<noteq> h) as = as" "filter (\<lambda>x. x \<noteq> h) bs = bs"
        by (rule filter_True, use nin in blast)+
      then show ?thesis by (simp only:)
    qed
    finally show ?thesis .
  qed
  have "so_inv w1 (as @ h # bs) FL" using inv ab by (simp add: so_inv_def w1)
  then obtain w2 where w2: "soinfo_free h w1 = Some w2" "so_inv w2 (as @ bs) (h # FL)" "mc w2 = mc w1"
    using soinfo_free_present as by blast
  obtain t where t: "sos w2 h = Some t" using so_inv_live [OF w2(2), of h] by auto
  let ?w3 = "put_si h (t\<lparr>si_ref_count := 0\<rparr>) w2"
  have u: "upd_si h (\<lambda>s. s\<lparr>si_ref_count := 0\<rparr>) w2 = Some ?w3" using t by (simp add: upd_si_def put_si_def)
  have inv3: "so_inv ?w3 (map en_handle ?L) (h # FL)"
    using w2(2) t so_inv_links [of ?w3 w2] by (simp add: put_si_def Lf)
  have so3: "\<exists>k. sos ?w3 x = map_option (\<lambda>s. s\<lparr>si_next := k\<rparr>) (sos w x)" if "x \<noteq> h" for x
    using free_keeps [OF w2(1) that] that by (simp add: put_si_def w1)
  have mem: "load8 (mc ?w3) x = load8 (mc w) x" if e: "e \<in> set ?L" "x \<in> block (obj w (en_handle e))" for e x
  proof -
    have "kept_apart w L" "removable os w e0" using ac e0 h(2) by (auto simp: accounts_def)
    then have "x \<notin> block (obj w h)" and um: "unmaps_view os (si_base (obj w h)) (unat (si_size (obj w h)))"
      using e e0 unfolding kept_apart_def removable_def Let_def by auto
    then have "\<not> in_block (si_base (obj w h)) (unat (si_size (obj w h))) x" by (simp add: block_def)
    then have "load8 (mc w1) x = load8 (mc w) x"
      using um by (simp add: w1 s_munmap_def unmaps_view_def same_outside_def split_def Let_def)
    then show ?thesis by (simp add: put_si_def w2(3))
  qed
  have "\<exists>k c. sos ?w3 (en_handle e) = map_option (\<lambda>s. s\<lparr>si_next := k, si_ref_count := c\<rparr>) (sos w (en_handle e))" if e: "e \<in> set ?L" for e
  proof -
    obtain k where "sos ?w3 (en_handle e) = map_option (\<lambda>s. s\<lparr>si_next := k\<rparr>) (sos w (en_handle e))" using so3 e by auto
    moreover have "sos w (en_handle e) = Some (obj w (en_handle e))" using accounts_live(1) [OF ac] e by simp
    ultimately show ?thesis by (intro exI [of _ k] exI [of _ "si_ref_count (obj w (en_handle e))"]) simp
  qed
  with mem have k: "keeps_rest w ?w3 ?L" by (simp add: keeps_rest_def)
  have "unat (si_ref_count (obj ?w3 (en_handle e))) = en_count e" if e: "e \<in> set ?L" for e
  proof -
    obtain k where "sos ?w3 (en_handle e) = map_option (\<lambda>s. s\<lparr>si_next := k\<rparr>) (sos w (en_handle e))" using so3 e by auto
    moreover obtain s where "sos w (en_handle e) = Some s" using accounts_live(1) [OF ac] e by auto
    moreover have "unat (si_ref_count (obj w (en_handle e))) = en_count e"
      using accounts_entry(3) [OF ac] e by (simp add: describes_def Let_def)
    ultimately show ?thesis by (simp add: obj_def)
  qed
  then have "accounts os ?w3 ?L"
    using accounts_keeps [OF ac k later_filter [OF accounts_entry(1) [OF ac] h(2)] inv3] by blast
  moreover have "out_log ?w3 = out_log w" using soinfo_free_log [OF w2(1)] by (simp add: put_si_def w1)
  ultimately show ?thesis using w2(1) u k by blast
qed

section \<open>Releasing\<close>

definition release_needs :: "nat \<Rightarrow> string list \<Rightarrow> ledger \<Rightarrow> (event list \<times> ledger) option" where
  "release_needs n names L = through (\<lambda>name L. do { d \<leftarrow> find (\<lambda>d. en_name d = name) L; release n (en_handle d) L }) names L"

lemma release_needs_Nil [simp]: "release_needs n [] L = Some ([], L)"
  by (simp add: release_needs_def)

lemma release_needs_Cons:
  assumes "release_needs n (name # names) L = Some (ev, L')"
  obtains d ev1 L1 ev2 where "find (\<lambda>d. en_name d = name) L = Some d" "release n (en_handle d) L = Some (ev1, L1)"
    "release_needs n names L1 = Some (ev2, L')" "ev = ev1 @ ev2"
  using assms by (auto simp: release_needs_def elim!: bind_eq_SomeE)

lemma release_cases:
  assumes "release (Suc n) h L = Some (ev, L')"
  obtains (down) e where "find (\<lambda>e. en_handle e = h) L = Some e" "en_count e > 1" "ev = []" "L' = recount h (en_count e - 1) L"
  | (last) e ev1 L1 where "find (\<lambda>e. en_handle e = h) L = Some e" "en_count e = 1" "en_handle (hd L) \<noteq> h"
      "release_needs n (en_needs e) L = Some (ev1, L1)" "h \<in> en_handle ` set L1" "ev = en_fini e @ ev1"
      "L' = filter (\<lambda>e. en_handle e \<noteq> h) L1"
  using assms by (auto simp: release_needs_def elim!: bind_eq_SomeE split: if_splits)

lemma needs_later:
  assumes "\<And>g M ev M'. release n g M = Some (ev, M') \<Longrightarrow> M \<noteq> [] \<Longrightarrow> later M M'"
  shows "release_needs n names L = Some (ev, L') \<Longrightarrow> L \<noteq> [] \<Longrightarrow> later L L'"
proof (induction names arbitrary: L ev)
  case Nil
  then show ?case using later_refl by simp
next
  case (Cons name names)
  from Cons.prems(1) obtain d :: entry and ev1 L1 ev2 where r: "release n (en_handle d) L = Some (ev1, L1)" "release_needs n names L1 = Some (ev2, L')"
    by (rule release_needs_Cons) blast
  from assms [OF r(1) Cons.prems(2)] have l: "later L L1" .
  then have "L1 \<noteq> []" by (simp add: later_def)
  from later_trans [OF l Cons.IH [OF r(2) this]] show ?case .
qed

lemma release_later: "release n h L = Some (ev, L') \<Longrightarrow> L \<noteq> [] \<Longrightarrow> later L L'"
proof (induction n arbitrary: h L ev L')
  case (Suc n)
  from Suc.prems(1) show ?case
  proof (cases rule: release_cases)
    case (down e)
    with later_recount [OF Suc.prems(2)] show ?thesis by simp
  next
    case (last e ev1 L1)
    have l: "later L L1" by (rule needs_later [OF Suc.IH last(4) Suc.prems(2)])
    then have "L1 \<noteq> []" "en_handle (hd L1) \<noteq> h" using last(3) by (simp_all add: later_def)
    from later_trans [OF l later_filter [OF this]] last(7) show ?thesis by simp
  qed
qed simp

text \<open>The walk that releases the needed libraries, when releasing one of them is simulated.\<close>

lemma unload_walk:
  assumes step: "\<And>g M ev M' v. accounts os v M \<Longrightarrow> release n g M = Some (ev, M') \<Longrightarrow>
      \<exists>v'. soinfo_unload os n g v = Some v' \<and> accounts os v' M' \<and> keeps_rest v v' M' \<and> out_log v' = out_log v @ ev"
    and ac: "accounts os w L"
    and run: "release_needs n names L = Some (ev, L')"
    and there: "h \<in> en_handle ` set L'" and tab: "si_strtab (obj w h) = strtab"
    and mem: "dyns_at m a es" "mach_le m (mc w)" "\<forall>x. load8 m x \<noteq> None \<longrightarrow> x \<in> block (obj w h)"
    and nm: "list_all2 (\<lambda>e name. \<exists>path. str_at m (strtab + d_val e) path \<and> basename path = name) (needed_names es) names"
  shows "\<exists>w'. walk_dyn mc (unload_dyn (soinfo_unload os n) h) a w = Some (True, w') \<and> accounts os w' L' \<and> keeps_rest w w' L' \<and>
    out_log w' = out_log w @ ev"
  using ac run tab mem nm
proof (induction es arbitrary: a w L names ev)
  case Nil
  then have r: "names = []" "ev = []" "L' = L" by (simp_all add: needed_names_def)
  have "dyns_at (mc w) a []" by (rule shows_more.dyns_at_more [OF shows_more.intro [OF Nil.prems(5)] Nil.prems(4)])
  then have "walk_dyn mc (unload_dyn (soinfo_unload os n) h) a w = Some (True, w)"
    by (rule walk_dyn_stays) simp
  with Nil.prems(1) show ?case by (simp add: r)
next
  case (Cons e es)
  note more = shows_more.intro [OF Cons.prems(5)]
  have e: "read_dyn (mc w) a = Some e" "d_tag e \<noteq> DT_NULL" "dyns_at m (a + sizeof_Dyn) es"
    using shows_more.dyns_at_more [OF more Cons.prems(4)] Cons.prems(4) by simp_all
  show ?case
  proof (cases "d_tag e = DT_NEEDED")
    case False
    with Cons.IH [OF Cons.prems(1-3) e(3) Cons.prems(5,6)] Cons.prems(7) e(1,2) show ?thesis
      by (subst walk_dyn.simps) (simp add: unload_dyn_other needed_names_def del: soinfo_unload.simps)
  next
    case True
    with Cons.prems(7) obtain path nms where nms: "names = basename path # nms" and p: "str_at m (strtab + d_val e) path"
      and rest: "list_all2 (\<lambda>e name. \<exists>path. str_at m (strtab + d_val e) path \<and> basename path = name) (needed_names es) nms"
      by (auto simp: needed_names_def list_all2_Cons1)
    from Cons.prems(2) [unfolded nms] obtain d ev1 L1 ev2 where d: "find (\<lambda>d. en_name d = basename path) L = Some d"
      and r1: "release n (en_handle d) L = Some (ev1, L1)" and r2: "release_needs n nms L1 = Some (ev2, L')" and ev: "ev = ev1 @ ev2"
      by (rule release_needs_Cons)
    obtain w1 where w1: "soinfo_unload os n (en_handle d) w = Some w1" "accounts os w1 L1" "keeps_rest w w1 L1"
      "out_log w1 = out_log w @ ev1" using step [OF Cons.prems(1) r1] by blast
    have lt1: "later L L1" by (rule release_later [OF r1 accounts_entry(1) [OF Cons.prems(1)]])
    have lt: "later L1 L'" by (rule needs_later [OF release_later r2 accounts_entry(1) [OF w1(2)]])
    have "h \<in> en_handle ` set L1" by (rule subsetD [OF later_handles [OF lt] there])
    then obtain e1 where "h = en_handle e1" "e1 \<in> set L1" by (rule imageE)
    then have e1: "e1 \<in> set L1" "en_handle e1 = h" by simp_all
    have m1: "mach_le m (mc w1)"
    proof -
      have "load8 (mc w1) x = Some b" if b: "load8 m x = Some b" for x b
        using load8_mono [OF b Cons.prems(5)] keepsD(2) [OF w1(3) e1(1)] Cons.prems(6) b e1(2) by auto
      then show ?thesis by (auto simp: mach_le_def map_le_def load8_def dom_def)
    qed
    have eq: "obj w1 h = (obj w h)\<lparr>si_next := si_next (obj w1 h), si_ref_count := si_ref_count (obj w1 h)\<rparr>"
      using keeps_fields [OF w1(3) e1(1)] e1(2) by simp
    have s1: "si_strtab (obj w1 h) = strtab" "block (obj w1 h) = block (obj w h)"
      using arg_cong [OF eq, of si_strtab] arg_cong [OF eq, of block] Cons.prems(3) by simp_all
    obtain w' where w': "walk_dyn mc (unload_dyn (soinfo_unload os n) h) (a + sizeof_Dyn) w1 = Some (True, w')"
      "accounts os w' L'" "keeps_rest w1 w' L'" "out_log w' = out_log w1 @ ev2"
      using Cons.IH [OF w1(2) r2 s1(1) e(3) m1 _ rest] Cons.prems(6) s1(2) by metis
    obtain FL where inv: "so_inv w (map en_handle L) FL" using Cons.prems(1) by (auto simp: accounts_def)
    have "find_loaded_library path w = Some (en_handle d)"
      using find_loaded_library_eq [OF inv, of path] find_entry_name [OF Cons.prems(1) d]
      by (simp add: ptr_of_def eq_commute [of "basename path"])
    moreover have "cstr (mc w) (strtab + d_val e) = Some path"
      by (rule cstr_str_at [OF shows_more.str_at_more [OF more p]])
    moreover have "h \<in> en_handle ` set L" using subsetD [OF later_handles [OF lt1]] e1 by blast
    then have "sos w h = Some (obj w h)" using accounts_live(1) [OF Cons.prems(1)] by auto
    ultimately have "unload_dyn (soinfo_unload os n) h e w = Some (True, w1)"
      using w1(1) True Cons.prems(3) by (simp add: unload_dyn_def del: soinfo_unload.simps)
    with e(1,2) w' w1(4) ev keeps_rest_trans [OF w1(3) w'(3) later_handles [OF lt]]
    show ?thesis by (subst walk_dyn.simps) (simp del: soinfo_unload.simps)
  qed
qed

lemma destructors_run:
  assumes os: "protect_works os" and s: "sos w h = Some s" and gs: "si_fini_array s \<noteq> 0 \<longrightarrow> length gs < 4294967296 \<and>
      si_fini_array_count s = of_nat (length gs) \<and> (\<forall>i < length gs. load32 (mc w) (si_fini_array s + 4 * of_nat i) = Some (gs ! i))"
  shows "\<exists>w'. (if si_name s \<in> set no_destructors then Some w else CallDestructors os h w) = Some w' \<and> logs w w' (fini_events s gs)"
proof (cases "si_name s \<in> set no_destructors")
  case True
  then show ?thesis using logs_refl by (auto simp: fini_events_def)
next
  case False
  with CallDestructors_works [OF os s, of gs] gs show ?thesis by (simp add: funs_at_def fini_events_def)
qed

lemma accounts_find:
  assumes "accounts os w L" and "find (\<lambda>e. en_handle e = h) L = Some e"
  shows "e \<in> set L" and "en_handle e = h" and "\<exists>s. sos w h = Some s \<and> obj w h = s" and "unat (si_ref_count (obj w h)) = en_count e"
proof -
  show e: "e \<in> set L" "en_handle e = h" using find_member [OF assms(2)] by simp_all
  with accounts_live(1) [OF assms(1) e(1)] accounts_entry(3) [OF assms(1) e(1)]
  show "\<exists>s. sos w h = Some s \<and> obj w h = s" "unat (si_ref_count (obj w h)) = en_count e"
    by (auto simp: describes_def Let_def)
qed

lemma unload_releases:
  assumes os: "protect_works os"
  shows "accounts os w L \<Longrightarrow> release n h L = Some (ev, L') \<Longrightarrow>
    \<exists>w'. soinfo_unload os n h w = Some w' \<and> accounts os w' L' \<and> keeps_rest w w' L' \<and> out_log w' = out_log w @ ev"
proof (induction n arbitrary: w h L ev L')
  case (Suc n)
  from Suc.prems(2) show ?case
  proof (cases rule: release_cases)
    case (down e)
    note f = accounts_find [OF Suc.prems(1) down(1)]
    obtain s where s: "sos w h = Some s" "obj w h = s" using f(3) by blast
    let ?w = "put_si h (s\<lparr>si_ref_count := si_ref_count s - 1\<rparr>) w"
    have "si_ref_count s \<noteq> 0" "si_ref_count s \<noteq> 1" using f(4) down(2) s(2) by auto
    then have u: "unat (si_ref_count s - 1) = en_count e - 1" and run: "soinfo_unload os (Suc n) h w = Some ?w"
      using f(4) s by (simp_all add: unat_minus_one upd_si_def put_si_def)
    have "accounts os ?w (recount h (unat (si_ref_count s - 1)) L) \<and> keeps_rest w ?w (recount h (unat (si_ref_count s - 1)) L)"
      by (rule accounts_recount [OF Suc.prems(1) f(1,2)]) (simp_all add: put_si_def s(2))
    then show ?thesis unfolding u using down(3,4) run by (intro exI [of _ ?w]) (simp add: put_si_def del: soinfo_unload.simps)
  next
    case (last e ev1 L1)
    note f = accounts_find [OF Suc.prems(1) last(1)]
    obtain s where s: "sos w h = Some s" "obj w h = s" using f(3) by blast
    have r1: "si_ref_count s = 1" using f(4) s(2) last(2) by (metis unat_1 word_unat_eq_iff)
    let ?m = "hide (- block s) (mc w)"
    have "removable os w e" using Suc.prems(1) f(1,2) last(3) by (auto simp: accounts_def)
    then have "tables_in ?m s (en_needs e) (en_fini e)" unfolding removable_def Let_def f(2) s(2) by blast
    then obtain es gs where es: "dyns_at ?m (si_dynamic s) es"
      "list_all2 (\<lambda>e name. \<exists>path. str_at ?m (si_strtab s + d_val e) path \<and> basename path = name) (needed_names es) (en_needs e)"
      and gs: "si_fini_array s \<noteq> 0 \<longrightarrow> length gs < 4294967296 \<and> si_fini_array_count s = of_nat (length gs) \<and>
        (\<forall>i < length gs. load32 ?m (si_fini_array s + 4 * of_nat i) = Some (gs ! i))"
      and fini: "en_fini e = fini_events s gs" unfolding tables_in_def by blast
    have "si_fini_array s \<noteq> 0 \<longrightarrow> length gs < 4294967296 \<and> si_fini_array_count s = of_nat (length gs) \<and>
        (\<forall>i < length gs. load32 (mc w) (si_fini_array s + 4 * of_nat i) = Some (gs ! i))"
      using gs shows_more.load32_more [OF shows_more.intro [OF hide_le]] by blast
    from destructors_run [OF os s(1) this] obtain w1
      where w1: "(if si_name s \<in> set no_destructors then Some w else CallDestructors os h w) = Some w1"
        and l: "logs w w1 (fini_events s gs)" by blast
    have ac1: "accounts os w1 L" "keeps_rest w w1 L1" using accounts_logs [OF Suc.prems(1) l] by blast+
    have o1: "obj w1 h = s" by (simp add: obj_logs [OF l] s(2))
    have m1: "mach_le ?m (mc w1)" using hide_le by (simp add: mach_le_def logs_sel(4) [OF l])
    have own: "\<forall>x. load8 ?m x \<noteq> None \<longrightarrow> x \<in> block (obj w1 h)" by (simp add: load8_hide o1)
    have st: "si_strtab (obj w1 h) = si_strtab s" by (simp add: o1)
    have "\<exists>w2. walk_dyn mc (unload_dyn (soinfo_unload os n) h) (si_dynamic s) w1 = Some (True, w2) \<and> accounts os w2 L1 \<and>
        keeps_rest w1 w2 L1 \<and> out_log w2 = out_log w1 @ ev1"
    proof (rule unload_walk [OF _ ac1(1) last(4,5) st es(1) m1 own es(2)])
      fix g M ev M' v assume "accounts os v M" "release n g M = Some (ev, M')"
      from Suc.IH [OF this] show "\<exists>v'. soinfo_unload os n g v = Some v' \<and> accounts os v' M' \<and> keeps_rest v v' M' \<and>
        out_log v' = out_log v @ ev" .
    qed
    then obtain w2 where w2: "walk_dyn mc (unload_dyn (soinfo_unload os n) h) (si_dynamic s) w1 = Some (True, w2)"
        "accounts os w2 L1" "keeps_rest w1 w2 L1" "out_log w2 = out_log w1 @ ev1" by blast
    have lt: "later L L1" by (rule needs_later [OF release_later last(4) accounts_entry(1) [OF Suc.prems(1)]])
    then have hd1: "en_handle (hd L1) \<noteq> h" using last(3) by (simp add: later_def)
    have s2: "sos w2 h = Some (obj w2 h)" using accounts_live(1) [OF w2(2)] last(5) by auto
    obtain w3 w4 where w3: "soinfo_free h (w2\<lparr>mc := snd (s_munmap os (si_base (obj w2 h)) (si_size (obj w2 h)) (mc w2))\<rparr>) = Some w3"
      "upd_si h (\<lambda>s. s\<lparr>si_ref_count := 0\<rparr>) w3 = Some w4" "accounts os w4 L'" "keeps_rest w2 w4 L'" "out_log w4 = out_log w2"
      using unload_end [OF w2(2) last(5) hd1 refl] last(7) by blast
    have "soinfo_unload os (Suc n) h w = Some w4"
      using s(1) r1 w1 w2(1) s2 w3(1,2) by (simp add: Let_def)
    moreover have "keeps_rest w w4 L'"
      by (rule keeps_rest_trans [OF keeps_rest_trans [OF ac1(2) w2(3)] w3(4)]) (auto simp: last(7))
    moreover have "out_log w4 = out_log w @ ev"
      using w3(5) w2(4) logs_sel(3) [OF l] last(6) fini by simp
    ultimately show ?thesis using w3(3) by blast
  qed
qed simp

section \<open>The calls\<close>

lemma close_releases:
  assumes os: "protect_works os" and ac: "accounts os w L" and r: "release n h L = Some (ev, L')"
  shows "\<exists>w'. s_dlclose os n h w = Some (0, w') \<and> accounts os w' L' \<and> out_log w' = out_log w @ ev"
proof -
  obtain w1 where w1: "set_soinfo_pool_protection os (PROT_READ OR PROT_WRITE) w = Some w1" "logs w w1 []"
    using pool_protection_works [OF os] by blast
  have "accounts os w1 L" using accounts_logs [OF ac w1(2)] by blast
  from unload_releases [OF os this r] obtain w2 where
    w2: "soinfo_unload os n h w1 = Some w2" "accounts os w2 L'" "out_log w2 = out_log w1 @ ev" by blast
  obtain w3 where w3: "set_soinfo_pool_protection os PROT_READ w2 = Some w3" "logs w2 w3 []"
    using pool_protection_works [OF os] by blast
  have "accounts os w3 L'" using accounts_logs [OF w2(2) w3(2)] by blast
  moreover have "out_log w3 = out_log w @ ev" using logs_sel(3) [OF w1(2)] logs_sel(3) [OF w3(2)] w2(3) by simp
  ultimately show ?thesis
    using w1(1) w2(1) w3(1) by (simp add: s_dlclose_def do_dlclose_def del: soinfo_unload.simps)
qed

lemma open_reopens:
  assumes os: "protect_works os" and ac: "accounts os w L" and r: "reopen (basename name) L = Some (h, L')"
    and fl: "flags AND NOT 3 = 0"
  shows "\<exists>w'. s_dlopen os (Suc n) (Some name) flags w = Some (h, w') \<and> accounts os w' L' \<and> out_log w' = out_log w"
proof -
  obtain e where e: "find (\<lambda>e. en_name e = basename name) L = Some e" and h: "h = en_handle e"
    and c: "en_count e + 1 < 4294967296" and L': "L' = recount h (en_count e + 1) L"
    using r by (auto simp: reopen_def elim!: bind_eq_SomeE split: if_splits)
  have m: "e \<in> set L" using find_member [OF e] by simp
  note d = accounts_entry(3) [OF ac m, unfolded describes_def Let_def]
  obtain FL where inv: "so_inv w (map en_handle L) FL" using ac by (auto simp: accounts_def)
  have f: "find (\<lambda>p. si_name (obj w p) = basename name) (map en_handle L) = Some h"
    using find_entry_name [OF ac e] h by simp
  have "is_linked w h" "skips_constructors (obj w h)"
    using d accounts_live(1) [OF ac m] by (simp_all add: is_linked_def h)
  from dlopen_registered [OF os inv f this fl, of n] obtain w' where
    run: "do_dlopen os (Suc n) (Some name) flags w = Some (h, w')"
    and so: "sos w' = (sos w)(h \<mapsto> (obj w h)\<lparr>si_ref_count := si_ref_count (obj w h) + 1\<rparr>)"
    and rest: "solist w' = solist w" "out_log w' = out_log w" "vbytes (mc w') = vbytes (mc w)" "sonext w' = sonext w"
      "gSoInfoFreeList w' = gSoInfoFreeList w" by blast
  have "unat (si_ref_count (obj w h) + 1) = en_count e + 1"
    using d c h unat_add_of_nat [of "si_ref_count (obj w h)" 1] by simp
  with accounts_recount [OF ac m h [symmetric] so rest(3,1,5,4)] L' have "accounts os w' L'" by simp
  moreover have "s_dlopen os (Suc n) (Some name) flags w = Some (h, w')" using run by (simp add: s_dlopen_iff)
  ultimately show ?thesis using rest(2) by blast
qed

section \<open>Sequences of calls\<close>

text \<open>The calls that the ledger answers, with the lines of the destructors that run.\<close>

inductive ledger_run :: "ledger \<Rightarrow> call list \<Rightarrow> event list \<Rightarrow> ledger \<Rightarrow> bool" for L where
  settled: "ledger_run L [] [] L"
| reopened: "ledger_run L cs ev L1 \<Longrightarrow> reopen (basename name) L1 = Some (h, L2) \<Longrightarrow> flags AND NOT 3 = 0 \<Longrightarrow>
    ledger_run L (cs @ [Opened (Some name) flags h]) ev L2"
| released: "ledger_run L cs ev L1 \<Longrightarrow> release n h L1 = Some (ev', L2) \<Longrightarrow> ledger_run L (cs @ [Closed h]) (ev @ ev') L2"

text \<open>What a client of the two calls may rely on: they do what the ledger says, and they can be chained.\<close>

locale counted_libraries =
  fixes stands :: "'w \<Rightarrow> ledger \<Rightarrow> bool" and made :: "'w \<Rightarrow> call list \<Rightarrow> 'w \<Rightarrow> bool" and lines :: "'w \<Rightarrow> event list"
  assumes none_made: "made w [] w"
    and opens: "made w cs w1 \<Longrightarrow> stands w1 L \<Longrightarrow> reopen (basename name) L = Some (h, L') \<Longrightarrow> flags AND NOT 3 = 0 \<Longrightarrow>
      \<exists>w2. made w (cs @ [Opened (Some name) flags h]) w2 \<and> stands w2 L' \<and> lines w2 = lines w1"
    and closes: "made w cs w1 \<Longrightarrow> stands w1 L \<Longrightarrow> release n h L = Some (ev, L') \<Longrightarrow>
      \<exists>w2. made w (cs @ [Closed h]) w2 \<and> stands w2 L' \<and> lines w2 = lines w1 @ ev"
begin

lemma follows:
  assumes "ledger_run L cs ev L'" and "stands w L"
  shows "\<exists>w'. made w cs w' \<and> stands w' L' \<and> lines w' = lines w @ ev"
  using assms(1)
proof induction
  case settled
  show ?case by (rule exI [of _ w]) (simp add: none_made assms(2))
next
  case (reopened cs ev L1 name h L2 flags)
  then obtain w1 where "made w cs w1" "stands w1 L1" "lines w1 = lines w @ ev" by blast
  with opens [OF this(1,2) reopened.hyps(2,3)] show ?case by auto
next
  case (released cs ev L1 n h ev' L2)
  then obtain w1 where "made w cs w1" "stands w1 L1" "lines w1 = lines w @ ev" by blast
  with closes [OF this(1,2) released.hyps(2)] show ?case by (metis append_assoc)
qed

end

interpretation counting: counted_libraries "\<lambda>w L. protect_works os \<and> accounts os w L" "session os" out_log for os
proof unfold_locales
  fix w show "session os w [] w" by (rule session.start)
next
  fix w cs w1 L name h L' and flags :: u32
  assume s: "session os w cs w1" and a: "protect_works os \<and> accounts os w1 L"
    and r: "reopen (basename name) L = Some (h, L')" "flags AND NOT 3 = 0"
  obtain w2 where "s_dlopen os (Suc 0) (Some name) flags w1 = Some (h, w2)" "accounts os w2 L'" "out_log w2 = out_log w1"
    using open_reopens [OF _ _ r, of os w1 0] a by blast
  with a session.further [OF s call_step.opens] show "\<exists>w2. session os w (cs @ [Opened (Some name) flags h]) w2 \<and>
      (protect_works os \<and> accounts os w2 L') \<and> out_log w2 = out_log w1" by blast
next
  fix w cs w1 L n h ev L'
  assume s: "session os w cs w1" and a: "protect_works os \<and> accounts os w1 L" and r: "release n h L = Some (ev, L')"
  obtain w2 where "s_dlclose os n h w1 = Some (0, w2)" "accounts os w2 L'" "out_log w2 = out_log w1 @ ev"
    using close_releases [OF _ _ r] a by blast
  with a session.further [OF s call_step.closes] show "\<exists>w2. session os w (cs @ [Closed h]) w2 \<and>
      (protect_works os \<and> accounts os w2 L') \<and> out_log w2 = out_log w1 @ ev" by blast
qed

section \<open>Properties\<close>

text \<open>
  C6: The reference counts of the linker implement the ledger.  For every sequence of openings and closings of loaded
  libraries that the ledger answers, there is a session of \<open>s_dlopen\<close> and \<open>s_dlclose\<close> with the same calls and the same
  handles.  It ends in a state that the resulting ledger accounts for, and prints the lines of the destructors that
  the ledger says: those of a library at its last reference, before those of the libraries that it needed.
\<close>

theorem session_follows_ledger:
  assumes "protect_works os" and "accounts os w L" and "ledger_run L cs ev L'"
  shows "\<exists>w'. session os w cs w' \<and> accounts os w' L' \<and> out_log w' = out_log w @ ev"
  using counting.follows [OF assms(3), of os w] assms(1,2) by blast

text \<open>The library \<open>app\<close>, which needs \<open>dep\<close>, each with one reference.\<close>

definition pair_bytes :: "u8 list" where
  "pair_bytes =
     [1, 0, 0, 0, 0x10, 0, 0, 0, 0, 0, 0, 0, 0, 0, 0, 0,  0x64, 0x65, 0x70, 0, 0, 0, 0, 0, 0, 0, 0, 0, 0, 0, 0, 0,
      0, 0, 0, 0, 0, 0, 0, 0, 0, 0, 0, 0, 0, 0, 0, 0]"

definition pair_lib :: "string \<Rightarrow> u32 \<Rightarrow> u32 \<Rightarrow> u32 \<Rightarrow> u32 \<Rightarrow> soinfo" where
  "pair_lib name base siz fini nxt =
     zero_soinfo\<lparr>si_name := name, si_base := base, si_size := siz, si_load_bias := base, si_dynamic := base, si_strtab := base,
       si_fini_func := fini, si_flags := 1, si_ref_count := 1, si_constructors_called := True, si_next := nxt\<rparr>"

definition pair_world :: world where
  "pair_world = demo_registry\<lparr>mc := mem_of 0x2000 pair_bytes,
     sos := [0x10000 \<mapsto> (pair_lib ''libdl.so'' 0 0 0 0x20000)\<lparr>si_ref_count := 0xffffff\<rparr>,
             0x20000 \<mapsto> pair_lib ''app'' 0x2000 32 0x300 0x30000, 0x30000 \<mapsto> pair_lib ''dep'' 0x2020 16 0x400 0],
     sonext := 0x30000, gSoInfoFreeList := 0\<rparr>"

definition dl_entry :: entry where
  "dl_entry = \<lparr>en_handle = 0x10000, en_name = ''libdl.so'', en_count = 0xffffff, en_needs = [], en_fini = []\<rparr>"

definition app_entry :: entry where
  "app_entry = \<lparr>en_handle = 0x20000, en_name = ''app'', en_count = 1, en_needs = [''dep''],
     en_fini = [Calling ''DT_FINI'' 0x300 ''app'', Done_calling ''DT_FINI'' 0x300 ''app'']\<rparr>"

definition dep_entry :: entry where
  "dep_entry = \<lparr>en_handle = 0x30000, en_name = ''dep'', en_count = 1, en_needs = [],
     en_fini = [Calling ''DT_FINI'' 0x400 ''dep'', Done_calling ''DT_FINI'' 0x400 ''dep'']\<rparr>"

lemma pair_objs: "obj pair_world 0x10000 = (pair_lib ''libdl.so'' 0 0 0 0x20000)\<lparr>si_ref_count := 0xffffff\<rparr>"
  "obj pair_world 0x20000 = pair_lib ''app'' 0x2000 32 0x300 0x30000" "obj pair_world 0x30000 = pair_lib ''dep'' 0x2020 16 0x400 0"
  by (simp_all add: pair_world_def obj_def)

lemma pair_lib_sel [simp]:
  "si_name (pair_lib nm b n f x) = nm" "si_base (pair_lib nm b n f x) = b" "si_size (pair_lib nm b n f x) = n"
  "si_dynamic (pair_lib nm b n f x) = b" "si_strtab (pair_lib nm b n f x) = b" "si_fini_func (pair_lib nm b n f x) = f"
  "si_fini_array (pair_lib nm b n f x) = 0" "si_flags (pair_lib nm b n f x) = 1" "si_ref_count (pair_lib nm b n f x) = 1"
  "si_next (pair_lib nm b n f x) = x" "si_constructors_called (pair_lib nm b n f x)"
  by (simp_all add: pair_lib_def zero_soinfo_def)

lemma length_pair_bytes: "length pair_bytes = 48"
  by (simp add: pair_bytes_def)

lemma pair_load8:
  "load8 (mc pair_world) x = (if unat (x - 0x2000) < 48 then Some (pair_bytes ! unat (x - 0x2000)) else None)"
  by (simp add: pair_world_def load8_def mem_of_def in_block_def length_pair_bytes)

lemma pair_tables:
  "tables_in (hide (- block (pair_lib ''app'' 0x2000 32 0x300 0x30000)) (mc pair_world)) (pair_lib ''app'' 0x2000 32 0x300 0x30000)
     (en_needs app_entry) (en_fini app_entry)"
  "tables_in (hide (- block (pair_lib ''dep'' 0x2020 16 0x400 0)) (mc pair_world)) (pair_lib ''dep'' 0x2020 16 0x400 0)
     (en_needs dep_entry) (en_fini dep_entry)"
proof -
  have app: "dyns_at (hide (- {x. in_block 0x2000 32 x}) (mc pair_world)) 0x2000 [\<lparr>d_tag = 1, d_val = 0x10\<rparr>]"
    "str_at (hide (- {x. in_block 0x2000 32 x}) (mc pair_world)) 0x2010 ''dep''"
    "dyns_at (hide (- {x. in_block 0x2020 16 x}) (mc pair_world)) 0x2020 []"
    by (simp_all add: read_dyn_def load32_def load8_hide pair_load8 in_block_def) (simp_all add: pair_bytes_def le32_def char_byte_def)
  have "list_all2 (\<lambda>e name. \<exists>path. str_at (hide (- {x. in_block 0x2000 32 x}) (mc pair_world)) (0x2000 + d_val e) path \<and>
      basename path = name) (needed_names [\<lparr>d_tag = 1, d_val = 0x10\<rparr>]) [''dep'']"
    using app(2) by (simp add: needed_names_def) (intro exI [of _ "''dep''"], simp add: basename_def)
  with app show "tables_in (hide (- block (pair_lib ''app'' 0x2000 32 0x300 0x30000)) (mc pair_world))
      (pair_lib ''app'' 0x2000 32 0x300 0x30000) (en_needs app_entry) (en_fini app_entry)"
    unfolding tables_in_def block_def
    by (intro exI [of _ "[\<lparr>d_tag = 1, d_val = 0x10\<rparr>]"] exI [of _ "[]"])
      (simp add: app_entry_def fini_events_def no_destructors_def call_events_def del: dyns_at.simps)
  show "tables_in (hide (- block (pair_lib ''dep'' 0x2020 16 0x400 0)) (mc pair_world)) (pair_lib ''dep'' 0x2020 16 0x400 0)
     (en_needs dep_entry) (en_fini dep_entry)"
    using app(3) unfolding tables_in_def block_def
    by (intro exI [of _ "[]"])
      (simp add: dep_entry_def fini_events_def no_destructors_def call_events_def needed_names_def del: dyns_at.simps)
qed

lemma demo_unmaps: "unmaps_view demo_api a n"
  by (simp add: unmaps_view_def demo_api_def same_outside_def)

lemma pair_accounts: "accounts demo_api pair_world [dl_entry, app_entry, dep_entry]"
proof -
  have "so_inv pair_world [0x10000, 0x20000, 0x30000] []"
    by (simp add: so_inv_def pair_world_def demo_registry_def)
  then have "so_inv pair_world (map en_handle [dl_entry, app_entry, dep_entry]) []"
    by (simp add: dl_entry_def app_entry_def dep_entry_def)
  moreover have "\<forall>e \<in> set [dl_entry, app_entry, dep_entry]. describes pair_world e"
    by (simp add: describes_def dl_entry_def app_entry_def dep_entry_def pair_objs skips_constructors_def)
  moreover have "block (pair_lib ''app'' 0x2000 32 0x300 0x30000) \<inter> block (pair_lib ''dep'' 0x2020 16 0x400 0) = {}"
    by (auto simp: block_def in_block_no_wrap)
  then have "kept_apart pair_world [dl_entry, app_entry, dep_entry]"
    by (simp add: kept_apart_def dl_entry_def app_entry_def dep_entry_def pair_objs Int_commute)
      (simp add: block_def in_block_def)
  moreover have "removable demo_api pair_world app_entry" "removable demo_api pair_world dep_entry"
    using pair_tables by (simp_all add: removable_def demo_unmaps) (simp_all add: app_entry_def dep_entry_def pair_objs)
  ultimately show ?thesis unfolding accounts_def by (auto simp: dl_entry_def)
qed

lemma session_follows_ledger_witness:
  "\<exists>w'. session demo_api pair_world [Opened (Some ''app'') 0 0x20000, Closed 0x20000, Closed 0x20000] w' \<and>
     accounts demo_api w' [dl_entry] \<and> out_log w' = en_fini app_entry @ en_fini dep_entry"
proof -
  let ?L = "[dl_entry, app_entry, dep_entry]"
  have two: "release 2 = release (Suc (Suc 0))" by (simp add: numeral_2_eq_2)
  have run: "reopen (basename ''app'') ?L = Some (0x20000, [dl_entry, app_entry\<lparr>en_count := 2\<rparr>, dep_entry])"
    "release 1 0x20000 [dl_entry, app_entry\<lparr>en_count := 2\<rparr>, dep_entry] = Some ([], ?L)"
    "release 2 0x20000 ?L = Some (en_fini app_entry @ en_fini dep_entry, [dl_entry])"
    by (simp_all add: basename_def reopen_def recount_def dl_entry_def app_entry_def dep_entry_def two)
  have "ledger_run ?L ((([] @ [Opened (Some ''app'') 0 0x20000]) @ [Closed 0x20000]) @ [Closed 0x20000])
      (([] @ []) @ en_fini app_entry @ en_fini dep_entry) [dl_entry]"
    by (rule ledger_run.released [OF ledger_run.released [OF ledger_run.reopened [OF ledger_run.settled run(1)] run(2)] run(3)]) simp
  from session_follows_ledger [OF demo_protect_works pair_accounts this] show ?thesis
    by (simp add: pair_world_def demo_registry_def)
qed

end
