(* ===== verification/Refcounts.thy ===== *)
theory Refcounts
  imports Ledger "HOL-Library.Multiset"
begin

text \<open>
  When giving back a reference works.  A ledger is balanced when every library's count covers the references that are
  held to it: one for each time that a registered library needs it, and those of the program.  Giving back a
  reference that is held then has a result, and leaves a balanced ledger: no count is exhausted, no needed library is
  missing, however far the unloading reaches.
\<close>

section \<open>Balanced ledgers\<close>

text \<open>The references of the libraries in the ledger, but for the libraries \<open>D\<close> that are being unloaded.\<close>

definition refs :: "u32 set \<Rightarrow> ledger \<Rightarrow> string multiset" where
  "refs D L = (\<Sum>e \<leftarrow> L. if en_handle e \<in> D then {#} else mset (en_needs e))"

lemma refs_simps [simp]: "refs D [] = {#}"
  "refs D (e # L) = (if en_handle e \<in> D then {#} else mset (en_needs e)) + refs D L"
  "refs D (L @ M) = refs D L + refs D M"
  by (simp_all add: refs_def)

lemma in_refs: "x \<in># refs D L \<longleftrightarrow> (\<exists>e \<in> set L. en_handle e \<notin> D \<and> x \<in> set (en_needs e))"
  by (induction L) auto

lemma refs_recount [simp]: "refs D (recount h k L) = refs D L"
  by (induction L) (auto simp: recount_def)

lemma refs_filter: "refs D (filter (\<lambda>e. en_handle e \<noteq> h) L) = refs (insert h D) L"
  by (induction L) auto

lemma refs_absent: "h \<notin> en_handle ` set L \<Longrightarrow> refs (insert h D) L = refs D L"
  by (induction L) auto

lemma refs_dying:
  assumes "distinct (map en_handle L)" and "d \<in> set L" and "en_handle d \<notin> D"
  shows "refs D L = refs (insert (en_handle d) D) L + mset (en_needs d)"
proof -
  obtain as bs where L: "L = as @ d # bs" using split_list [OF assms(2)] by blast
  with assms(1) have "en_handle d \<notin> en_handle ` set as" "en_handle d \<notin> en_handle ` set bs" by auto
  with L assms(3) show ?thesis by (simp add: refs_absent)
qed

text \<open>
  \<open>X\<close> are the references that the program holds, and those of the libraries \<open>D\<close> that are still to be given back; the
  linker holds one to the first library.  The rank shows that no libraries need each other.
\<close>

definition balanced :: "(string \<Rightarrow> nat) \<Rightarrow> u32 set \<Rightarrow> string multiset \<Rightarrow> ledger \<Rightarrow> bool" where
  "balanced r D X L \<longleftrightarrow>
     L \<noteq> [] \<and> distinct (map en_handle L) \<and> distinct (map en_name L) \<and>
     (\<forall>d \<in> set L. count (refs D L + X) (en_name d) + (if en_handle d = en_handle (hd L) then 1 else 0) \<le> en_count d) \<and>
     set_mset (refs D L + X) \<subseteq> en_name ` set L \<and>
     (\<forall>e \<in> set L. \<forall>name \<in> set (en_needs e). r name < r (en_name e))"

lemma balancedD:
  assumes "balanced r D X L"
  shows "L \<noteq> []" "distinct (map en_handle L)" "distinct (map en_name L)"
    "d \<in> set L \<Longrightarrow> count (refs D L + X) (en_name d) + (if en_handle d = en_handle (hd L) then 1 else 0) \<le> en_count d"
    "x \<in># refs D L + X \<Longrightarrow> x \<in> en_name ` set L"
    "e \<in> set L \<Longrightarrow> name \<in> set (en_needs e) \<Longrightarrow> r name < r (en_name e)"
  using assms by (auto simp: balanced_def)

lemma find_by: "distinct (map f L) \<Longrightarrow> d \<in> set L \<Longrightarrow> find (\<lambda>e. f e = f d) L = Some d"
  by (induction L) auto

lemma balanced_down:
  assumes b: "balanced r D (add_mset (en_name d) X) L" and d: "d \<in> set L"
  shows "balanced r D X (recount (en_handle d) (en_count d - 1) L)"
proof -
  let ?L = "recount (en_handle d) (en_count d - 1) L"
  note B = balancedD [OF b]
  have same: "map en_handle ?L = map en_handle L" "map en_name ?L = map en_name L" "map en_needs ?L = map en_needs L"
    by (simp_all add: recount_def)
  have names: "en_name ` set ?L = en_name ` set L" using same(2) by (metis set_map)
  have hd: "en_handle (hd ?L) = en_handle (hd L)" by (rule recount_hd [OF B(1)])
  have "count (refs D ?L + X) (en_name e) + (if en_handle e = en_handle (hd ?L) then 1 else 0) \<le> en_count e" if e: "e \<in> set ?L" for e
  proof -
    obtain e0 where e0: "e0 \<in> set L" "e = (if en_handle e0 = en_handle d then e0\<lparr>en_count := en_count d - 1\<rparr> else e0)"
      using in_recount [OF e] by blast
    show ?thesis
    proof (cases "en_handle e0 = en_handle d")
      case True
      then have "e0 = d" using B(2) e0(1) d by (auto simp: distinct_map inj_on_def)
      with B(4) [OF d] e0(2) show ?thesis by (auto simp: recount_hd [OF B(1)])
    next
      case False
      then have "e0 \<noteq> d" by auto
      then have "en_name e0 \<noteq> en_name d" using B(3) e0(1) d by (auto simp: distinct_map inj_on_def)
      with B(4) [OF e0(1)] e0(2) False show ?thesis by (simp add: recount_hd [OF B(1)])
    qed
  qed
  moreover have "set_mset (refs D ?L + X) \<subseteq> en_name ` set ?L" using B(5) names by auto
  moreover have "r name < r (en_name e)" if e: "e \<in> set ?L" "name \<in> set (en_needs e)" for e name
    using in_recount [OF e(1)] e(2) B(6) by (auto split: if_splits)
  moreover have "?L \<noteq> []" using B(1) by (simp add: recount_def)
  moreover have "distinct (map en_handle ?L)" "distinct (map en_name ?L)" using B(2,3) same by simp_all
  ultimately show ?thesis unfolding balanced_def by blast
qed

lemma balanced_dying:
  assumes b: "balanced r D (add_mset (en_name d) X) L" and d: "d \<in> set L" "en_handle d \<notin> D"
  shows "balanced r (insert (en_handle d) D) (mset (en_needs d) + X) L"
proof -
  note B = balancedD [OF b]
  have eq: "refs D L + X = refs (insert (en_handle d) D) L + (mset (en_needs d) + X)"
    using refs_dying [OF B(2) d] by simp
  have "count (refs D L + X) (en_name e) + (if en_handle e = en_handle (hd L) then 1 else 0) \<le> en_count e" if "e \<in> set L" for e
    using B(4) [OF that] by (cases "en_name e = en_name d") auto
  moreover have "set_mset (refs D L + X) \<subseteq> en_name ` set L" using B(5) by auto
  ultimately show ?thesis using B(1,2,3,6) unfolding balanced_def eq by blast
qed

lemma balanced_gone:
  assumes b: "balanced r (insert h D) X L" and d: "d \<in> set L" "en_handle d = h" and hd: "en_handle (hd L) \<noteq> h"
    and free: "en_name d \<notin># refs (insert h D) L + X"
  shows "balanced r D X (filter (\<lambda>e. en_handle e \<noteq> h) L)"
proof -
  let ?L = "filter (\<lambda>e. en_handle e \<noteq> h) L"
  note B = balancedD [OF b]
  have ne: "?L \<noteq> []" "en_handle (hd ?L) = en_handle (hd L)" using later_filter [OF B(1) hd] by (simp_all add: later_def)
  have "x \<in> en_name ` set ?L" if x: "x \<in># refs D ?L + X" for x
  proof -
    have x': "x \<in># refs (insert h D) L + X" using x by (simp add: refs_filter)
    then obtain e where e: "e \<in> set L" "en_name e = x" using B(5) by auto
    then have "e \<noteq> d" using x' free by auto
    then have "en_handle e \<noteq> h" using B(2) e(1) d by (auto simp: distinct_map inj_on_def)
    with e show ?thesis by auto
  qed
  moreover have "distinct (map en_handle ?L)" "distinct (map en_name ?L)" using B(2,3) by (simp_all add: distinct_map_filter)
  ultimately show ?thesis
    using ne B(4,6) unfolding balanced_def by (auto simp: refs_filter)
qed

section \<open>Giving back a reference\<close>

text \<open>The needed libraries of a library that is unloaded, when giving back each of their references works.\<close>

lemma needs_given_back:
  assumes step: "\<And>D X L d. balanced r D (add_mset (en_name d) X) L \<Longrightarrow> d \<in> set L \<Longrightarrow> r (en_name d) < n \<Longrightarrow>
      \<forall>e \<in> set L. en_handle e \<in> D \<longrightarrow> r (en_name d) < r (en_name e) \<Longrightarrow>
      \<exists>ev L'. release n (en_handle d) L = Some (ev, L') \<and> balanced r D X L' \<and> D \<inter> en_handle ` set L \<subseteq> en_handle ` set L'"
  shows "balanced r D (mset names + X) L \<Longrightarrow> \<forall>name \<in> set names. r name < n \<Longrightarrow>
    \<forall>e \<in> set L. en_handle e \<in> D \<longrightarrow> (\<forall>name \<in> set names. r name < r (en_name e)) \<Longrightarrow>
    \<exists>ev L'. release_needs n names L = Some (ev, L') \<and> balanced r D X L' \<and> D \<inter> en_handle ` set L \<subseteq> en_handle ` set L'"
proof (induction names arbitrary: L)
  case Nil
  then show ?case by simp
next
  case (Cons name names)
  note B = balancedD [OF Cons.prems(1)]
  have "name \<in> en_name ` set L" using B(5) by simp
  then obtain d where d: "d \<in> set L" "en_name d = name" by blast
  have "balanced r D (add_mset (en_name d) (mset names + X)) L" using Cons.prems(1) d(2) by simp
  from step [OF this d(1)] Cons.prems(2,3) d(2) obtain ev1 L1 where
    r1: "release n (en_handle d) L = Some (ev1, L1)" and b1: "balanced r D (mset names + X) L1"
    and k1: "D \<inter> en_handle ` set L \<subseteq> en_handle ` set L1" by auto
  have lt: "later L L1" by (rule release_later [OF r1 B(1)])
  have "\<forall>e \<in> set L1. en_handle e \<in> D \<longrightarrow> (\<forall>name \<in> set names. r name < r (en_name e))"
  proof (intro ballI impI)
    fix e nm assume e: "e \<in> set L1" "en_handle e \<in> D" and nm: "nm \<in> set names"
    obtain e0 k where "e0 \<in> set L" "e = e0\<lparr>en_count := k\<rparr>" using lt e(1) unfolding later_def by blast
    with Cons.prems(3) e(2) nm show "r nm < r (en_name e)" by auto
  qed
  from Cons.IH [OF b1 _ this] Cons.prems(2) obtain ev2 L2 where
    r2: "release_needs n names L1 = Some (ev2, L2)" "balanced r D X L2" "D \<inter> en_handle ` set L1 \<subseteq> en_handle ` set L2" by auto
  have "find (\<lambda>d. en_name d = name) L = Some d" using find_by [OF B(3) d(1)] d(2) by simp
  with r1 r2 have "release_needs n (name # names) L = Some (ev1 @ ev2, L2)" by (simp add: release_needs_def)
  moreover have "D \<inter> en_handle ` set L \<subseteq> en_handle ` set L2"
    by (rule order_trans [OF Int_greatest [OF Int_lower1 k1] r2(3)])
  ultimately show ?case using r2(2) by (intro exI [of _ "ev1 @ ev2"] exI [of _ L2]) simp
qed

lemma held_reference:
  "balanced r D (add_mset (en_name d) X) L \<Longrightarrow> d \<in> set L \<Longrightarrow> r (en_name d) < n \<Longrightarrow>
    \<forall>e \<in> set L. en_handle e \<in> D \<longrightarrow> r (en_name d) < r (en_name e) \<Longrightarrow>
    \<exists>ev L'. release n (en_handle d) L = Some (ev, L') \<and> balanced r D X L' \<and> D \<inter> en_handle ` set L \<subseteq> en_handle ` set L'"
proof (induction n arbitrary: D X L d)
  case (Suc n)
  let ?h = "en_handle d"
  note B = balancedD [OF Suc.prems(1)]
  note bound = B(4) [OF Suc.prems(2)]
  have f: "find (\<lambda>e. en_handle e = ?h) L = Some d" by (rule find_by [OF B(2) Suc.prems(2)])
  have hD: "?h \<notin> D" using Suc.prems(2,4) by auto
  show ?case
  proof (cases "en_count d = 1")
    case False
    then have "release (Suc n) ?h L = Some ([], recount ?h (en_count d - 1) L)" using f bound by simp
    moreover have "en_handle ` set (recount ?h (en_count d - 1) L) = en_handle ` set L"
      using recount_handles [of ?h "en_count d - 1" L] by (metis set_map)
    ultimately show ?thesis using balanced_down [OF Suc.prems(1,2)] by blast
  next
    case True
    have hd: "en_handle (hd L) \<noteq> ?h" and free: "en_name d \<notin># refs D L + X"
      using bound True by (auto split: if_splits simp: not_in_iff)
    have "\<forall>name \<in> set (en_needs d). r name < n"
      using B(6) [OF Suc.prems(2)] Suc.prems(3) by fastforce
    moreover have "\<forall>e \<in> set L. en_handle e \<in> insert ?h D \<longrightarrow> (\<forall>name \<in> set (en_needs d). r name < r (en_name e))"
    proof (intro ballI impI)
      fix e name assume e: "e \<in> set L" "en_handle e \<in> insert ?h D" and nm: "name \<in> set (en_needs d)"
      have "r name < r (en_name d)" by (rule B(6) [OF Suc.prems(2) nm])
      moreover have "e = d \<or> r (en_name d) < r (en_name e)"
        using e Suc.prems(2,4) B(2) by (auto simp: distinct_map inj_on_def)
      ultimately show "r name < r (en_name e)" by auto
    qed
    ultimately obtain ev L1 where rn: "release_needs n (en_needs d) L = Some (ev, L1)" and b1: "balanced r (insert ?h D) X L1"
      and k1: "insert ?h D \<inter> en_handle ` set L \<subseteq> en_handle ` set L1"
      using needs_given_back [OF Suc.IH balanced_dying [OF Suc.prems(1,2) hD]] by blast
    have lt: "later L L1" by (rule needs_later [OF release_later rn B(1)])
    have h1: "?h \<in> en_handle ` set L1" using k1 Suc.prems(2) by auto
    have hd1: "en_handle (hd L1) \<noteq> ?h" using lt hd by (simp add: later_def)
    obtain d1 where d1: "d1 \<in> set L1" "en_handle d1 = ?h" using h1 by force
    obtain d0 k where d0: "d0 \<in> set L" "d1 = d0\<lparr>en_count := k\<rparr>" using lt d1(1) unfolding later_def by blast
    then have "d0 = d" using B(2) d1(2) Suc.prems(2) by (auto simp: distinct_map inj_on_def)
    then have n1: "en_name d1 = en_name d" using d0(2) by simp
    have "en_name d1 \<notin># refs (insert ?h D) L1 + X"
    proof
      assume "en_name d1 \<in># refs (insert ?h D) L1 + X"
      with free n1 obtain e1 where e1: "e1 \<in> set L1" "en_handle e1 \<notin> D" "en_name d \<in> set (en_needs e1)"
        by (auto simp: in_refs)
      obtain e0 j where "e0 \<in> set L" "e1 = e0\<lparr>en_count := j\<rparr>" using lt e1(1) unfolding later_def by blast
      with e1 free show False by (auto simp: in_refs)
    qed
    from balanced_gone [OF b1 d1 hd1 this] have b': "balanced r D X (filter (\<lambda>e. en_handle e \<noteq> ?h) L1)" .
    have "release (Suc n) ?h L = Some (en_fini d @ ev, filter (\<lambda>e. en_handle e \<noteq> ?h) L1)"
      using f True hd rn h1 by (simp add: release_needs_def)
    moreover have "D \<inter> en_handle ` set L \<subseteq> en_handle ` set (filter (\<lambda>e. en_handle e \<noteq> ?h) L1)"
      using k1 hD by force
    ultimately show ?thesis using b' by blast
  qed
qed simp

text \<open>Taking a reference to a library keeps the balance.\<close>

lemma balanced_up:
  assumes b: "balanced r {} X L" and d: "d \<in> set L"
  shows "balanced r {} (add_mset (en_name d) X) (recount (en_handle d) (en_count d + 1) L)"
proof -
  let ?L = "recount (en_handle d) (en_count d + 1) L"
  note B = balancedD [OF b]
  have names: "map en_name ?L = map en_name L" by (simp add: recount_def)
  then have names': "en_name ` set ?L = en_name ` set L" by (metis set_map)
  have "count (refs {} ?L + add_mset (en_name d) X) (en_name e) + (if en_handle e = en_handle (hd ?L) then 1 else 0) \<le> en_count e"
    if e: "e \<in> set ?L" for e
  proof -
    obtain e0 where e0: "e0 \<in> set L" "e = (if en_handle e0 = en_handle d then e0\<lparr>en_count := en_count d + 1\<rparr> else e0)"
      using in_recount [OF e] by blast
    show ?thesis
    proof (cases "e0 = d")
      case True
      with B(4) [OF d] e0(2) show ?thesis by (simp add: recount_hd [OF B(1), of "en_handle d" "Suc (en_count d)"])
    next
      case False
      then have "en_name e0 \<noteq> en_name d" "en_handle e0 \<noteq> en_handle d"
        using B(2,3) e0(1) d by (auto simp: distinct_map inj_on_def)
      with B(4) [OF e0(1)] e0(2) show ?thesis by (simp add: recount_hd [OF B(1), of "en_handle d" "Suc (en_count d)"])
    qed
  qed
  moreover have "set_mset (refs {} ?L + add_mset (en_name d) X) \<subseteq> en_name ` set ?L"
    unfolding names' using B(5) d by auto
  moreover have "r name < r (en_name e)" if e: "e \<in> set ?L" "name \<in> set (en_needs e)" for e name
    using in_recount [OF e(1)] e(2) B(6) by (auto split: if_splits)
  moreover have "?L \<noteq> []" using B(1) by (simp add: recount_def)
  moreover have "distinct (map en_handle ?L)" "distinct (map en_name ?L)" using B(2,3) names by simp_all
  ultimately show ?thesis unfolding balanced_def by blast
qed

section \<open>Properties\<close>

text \<open>
  Opening a library that is loaded takes a reference: \<open>s_dlopen\<close> returns its handle, and the new ledger is
  balanced with one more reference that the program holds.
\<close>

theorem open_takes_reference:
  assumes "protect_works os" and "accounts os w L" and "balanced r {} X L" and "e \<in> set L"
    and "basename name = en_name e" and "en_count e + 1 < 4294967296" and "flags AND NOT 3 = 0"
  shows "\<exists>w' L'. s_dlopen os (Suc n) (Some name) flags w = Some (en_handle e, w') \<and> accounts os w' L' \<and>
    balanced r {} (add_mset (en_name e) X) L' \<and> out_log w' = out_log w"
proof -
  have "reopen (basename name) L = Some (en_handle e, recount (en_handle e) (en_count e + 1) L)"
    using find_by [OF balancedD(3) [OF assms(3)] assms(4)] assms(5,6) by (simp add: reopen_def)
  from open_reopens [OF assms(1,2) this assms(7), of n] balanced_up [OF assms(3,4)] show ?thesis by blast
qed

text \<open>
  C7: A reference that is held can be given back.  When the counts cover the references of the libraries to each other and
  those of the program, closing a library that the program holds returns 0: no count is exhausted on the
  way, no needed library is missing, nothing faults, however many libraries are unloaded in turn.
  The new ledger is balanced again with the remaining references, so that every library that
  is still held or needed is still registered.  A depth above the rank of the library is enough.
\<close>

theorem held_reference_can_be_closed:
  assumes "protect_works os" and "accounts os w L" and "balanced r {} (add_mset (en_name e) X) L" and "e \<in> set L"
    and "r (en_name e) < n"
  shows "\<exists>w' L' ev. s_dlclose os n (en_handle e) w = Some (0, w') \<and> release n (en_handle e) L = Some (ev, L') \<and>
    accounts os w' L' \<and> balanced r {} X L' \<and> out_log w' = out_log w @ ev"
proof -
  obtain ev L' where r: "release n (en_handle e) L = Some (ev, L')" "balanced r {} X L'"
    using held_reference [OF assms(3-5)] by auto
  from close_releases [OF assms(1,2) r(1)] r show ?thesis by blast
qed

definition pair_rank :: "string \<Rightarrow> nat" where
  "pair_rank name = (if name = ''app'' then 1 else 0)"

lemma pair_balanced: "balanced pair_rank {} {#''app''#} [dl_entry, app_entry, dep_entry]"
  by (simp add: balanced_def dl_entry_def app_entry_def dep_entry_def pair_rank_def)

lemma open_takes_reference_witness:
  "\<exists>w' L'. s_dlopen demo_api 1 (Some ''app'') 0 pair_world = Some (0x20000, w') \<and> accounts demo_api w' L' \<and>
     balanced pair_rank {} {#''app'', ''app''#} L'"
  using open_takes_reference [OF demo_protect_works pair_accounts pair_balanced, of app_entry "''app''" 0 0]
  by (auto simp: app_entry_def basename_def)

lemma held_reference_can_be_closed_witness:
  "\<exists>w' L' ev. s_dlclose demo_api 2 0x20000 pair_world = Some (0, w') \<and> accounts demo_api w' L' \<and> balanced pair_rank {} {#} L' \<and>
     out_log w' = ev"
proof -
  have "balanced pair_rank {} (add_mset (en_name app_entry) {#}) [dl_entry, app_entry, dep_entry]"
    using pair_balanced by (simp add: app_entry_def)
  from held_reference_can_be_closed [OF demo_protect_works pair_accounts this, of 2]
  show ?thesis by (auto simp: app_entry_def pair_rank_def)
qed

end
