(* ===== verification/Dlopen_Ledger.thy ===== *)
theory Dlopen_Ledger
  imports Dlopen_File Refcounts
begin

text \<open>
  Loading and the ledger: a library that \<open>dlopen\<close> loads from a file is entered in the ledger with the references that it
  takes, so that what has been opened can be closed.
\<close>

section \<open>The ledger with a new library\<close>

definition raise_counts :: "u32 list \<Rightarrow> ledger \<Rightarrow> ledger" where
  "raise_counts ps L = map (\<lambda>e. e\<lparr>en_count := en_count e + count_list ps (en_handle e)\<rparr>) L"

definition new_entry :: "u32 \<Rightarrow> string \<Rightarrow> string list \<Rightarrow> event list \<Rightarrow> entry" where
  "new_entry h name names fini = \<lparr>en_handle = h, en_name = name, en_count = 1, en_needs = names, en_fini = fini\<rparr>"

lemma new_entry_sel [simp]:
  "en_handle (new_entry h nm names fini) = h" "en_name (new_entry h nm names fini) = nm" "en_count (new_entry h nm names fini) = 1"
  "en_needs (new_entry h nm names fini) = names" "en_fini (new_entry h nm names fini) = fini"
  by (simp_all add: new_entry_def)

lemma raise_maps [simp]:
  "map en_handle (raise_counts ps L) = map en_handle L" "map en_name (raise_counts ps L) = map en_name L"
  by (simp_all add: raise_counts_def)

lemma in_raise: "e \<in> set (raise_counts ps L) \<Longrightarrow> \<exists>e0 \<in> set L. e = e0\<lparr>en_count := en_count e0 + count_list ps (en_handle e0)\<rparr>"
  by (induction L) (auto simp: raise_counts_def)

lemma raise_hd: "L \<noteq> [] \<Longrightarrow> raise_counts ps L \<noteq> [] \<and> en_handle (hd (raise_counts ps L)) = en_handle (hd L)"
  by (cases L) (simp_all add: raise_counts_def)

lemma later_raise: "L \<noteq> [] \<Longrightarrow> later L (raise_counts ps L)"
  using raise_hd [of L ps] in_raise [of _ ps L] unfolding later_def by blast

lemma refs_raise [simp]: "refs D (raise_counts ps L) = refs D L"
  by (induction L) (auto simp: raise_counts_def)

lemma count_named:
  assumes "inj_on N (insert h (set ps))"
  shows "count (mset (map N ps)) (N h) = count_list ps h"
  using assms by (induction ps) (auto simp: inj_on_def)

lemma balanced_new:
  assumes b: "balanced r {} X L" and nm: "nm \<notin> en_name ` set L" and f: "f \<notin> en_handle ` set L"
    and ps: "set ps \<subseteq> en_handle ` set L" and N: "\<forall>e \<in> set L. N (en_handle e) = en_name e"
  shows "\<exists>r'. balanced r' {} (add_mset nm X) (raise_counts ps L @ [new_entry f nm (map N ps) fini])"
proof -
  let ?L = "raise_counts ps L @ [new_entry f nm (map N ps) fini]"
  let ?R = "refs {} L + X"
  let ?r = "r(nm := Suc (sum_list (map r (map N ps))))"
  note B = balancedD [OF b]
  have inj: "inj_on N (en_handle ` set L)"
    using N B(3) by (auto simp: inj_on_def distinct_map)
  have names: "set (map N ps) \<subseteq> en_name ` set L" using ps N by force
  have absent: "nm \<notin># ?R" "nm \<notin> set (map N ps)" using B(5) nm names by auto
  have R: "refs {} ?L + add_mset nm X = add_mset nm (?R + mset (map N ps))" by simp
  have hd: "en_handle (hd ?L) = en_handle (hd L)" using raise_hd [OF B(1), of ps] by simp
  have "count (refs {} ?L + add_mset nm X) (en_name e) + (if en_handle e = en_handle (hd ?L) then 1 else 0) \<le> en_count e"
    if e: "e \<in> set ?L" for e
  proof (cases "e = new_entry f nm (map N ps) fini")
    case True
    moreover have "en_handle (hd L) \<noteq> f" using f B(1) by (metis hd_in_set imageI)
    moreover have "count (add_mset nm (?R + mset (map N ps))) nm = 1"
      using absent by (simp add: not_in_iff [symmetric] count_eq_zero_iff)
    ultimately show ?thesis unfolding R hd by simp
  next
    case False
    with e have "e \<in> set (raise_counts ps L)" by auto
    then obtain e0 where e0: "e0 \<in> set L" "e = e0\<lparr>en_count := en_count e0 + count_list ps (en_handle e0)\<rparr>"
      using in_raise by blast
    have "insert (en_handle e0) (set ps) \<subseteq> en_handle ` set L" using e0(1) ps by auto
    then have "count (mset (map N ps)) (N (en_handle e0)) = count_list ps (en_handle e0)"
      by (intro count_named inj_on_subset [OF inj])
    then have "count (mset (map N ps)) (en_name e0) = count_list ps (en_handle e0)" using N e0(1) by simp
    moreover have "en_name e0 \<noteq> nm" using nm e0(1) by auto
    ultimately show ?thesis unfolding R hd using B(4) [OF e0(1)] e0(2) by simp
  qed
  moreover have "set_mset (refs {} ?L + add_mset nm X) \<subseteq> en_name ` set ?L"
  proof -
    have "en_name ` set ?L = insert nm (en_name ` set L)" using raise_maps(2) [of ps L] by (metis list.set_map set_append
      list.map(2) map_append new_entry_sel(2) list.set(1,2) Un_insert_right Un_empty_right list.map(1))
    with R B(5) names show ?thesis by auto
  qed
  moreover have "?r name < ?r (en_name e)" if e: "e \<in> set ?L" "name \<in> set (en_needs e)" for e name
  proof (cases "e = new_entry f nm (map N ps) fini")
    case True
    with e(2) absent(2) have "name \<noteq> nm" "r name \<in> set (map r (map N ps))" by auto
    with True member_le_sum_list [OF this(2)] show ?thesis by auto
  next
    case False
    with e have "e \<in> set (raise_counts ps L)" by auto
    then obtain e0 where e0: "e0 \<in> set L" "en_name e = en_name e0" "en_needs e = en_needs e0" using in_raise by fastforce
    have "name \<in># refs {} L" using e0 e(2) by (auto simp: in_refs)
    then have "name \<noteq> nm" using absent(1) by auto
    moreover have "en_name e0 \<noteq> nm" using nm e0(1) by auto
    ultimately show ?thesis using B(6) [OF e0(1)] e0 e(2) by simp
  qed
  moreover have "?L \<noteq> []" by simp
  moreover have "distinct (map en_handle ?L)" "distinct (map en_name ?L)" using B(2,3) f nm by simp_all
  ultimately show ?thesis unfolding balanced_def by blast
qed

section \<open>The tables of the new library\<close>

text \<open>
  A memory in which the image is as linking leaves it; and the requirement that in every such memory the library's
  tables can be read, from its own block alone.
\<close>

definition shows_final ::
  "world \<Rightarrow> u8 list \<Rightarrow> u32 \<Rightarrow> Elf32_Dyn list \<Rightarrow> Elf32_Rel list \<Rightarrow> (Elf32_Rel \<Rightarrow> u32) \<Rightarrow> mach \<Rightarrow> bool" where
  "shows_final w bs p es rels val m \<longleftrightarrow>
     mach_le (kept_memory w bs p es rels) m \<and>
     (\<forall>r \<in> set rels. load32 m (r_offset r + (p - load_min (file_phdrs bs))) = Some (val r))"

definition final_object :: "world \<Rightarrow> u8 list \<Rightarrow> u32 \<Rightarrow> Elf32_Phdr \<Rightarrow> Elf32_Dyn list \<Rightarrow> string \<Rightarrow> soinfo" where
  "final_object w bs p q es name =
     (image_object (with_image bs (p - load_min (file_phdrs bs)) (mc w)) bs p es)\<lparr>si_name := name,
        si_dynamic := p - load_min (file_phdrs bs) + p_vaddr q\<rparr>"

definition tables_inside ::
  "world \<Rightarrow> u8 list \<Rightarrow> u32 \<Rightarrow> Elf32_Phdr \<Rightarrow> Elf32_Dyn list \<Rightarrow> Elf32_Rel list \<Rightarrow> (Elf32_Rel \<Rightarrow> u32) \<Rightarrow> string \<Rightarrow> string list \<Rightarrow>
    event list \<Rightarrow> bool" where
  "tables_inside w bs p q es rels val name names fini \<longleftrightarrow>
     (let s = final_object w bs p q es name
      in \<forall>m. shows_final w bs p es rels val m \<longrightarrow> tables_in (hide (- block s) m) s names fini)"

lemma tables_in_fields:
  assumes "si_dynamic s' = si_dynamic s" "si_strtab s' = si_strtab s" "si_fini_array s' = si_fini_array s"
    "si_fini_array_count s' = si_fini_array_count s" "si_fini_func s' = si_fini_func s" "si_name s' = si_name s"
  shows "tables_in m s' names fini = tables_in m s names fini"
  unfolding tables_in_def fini_events_def assms ..

lemma image_object_size [simp]:
  "si_size (image_object m bs p es) = load_max (file_phdrs bs) - load_min (file_phdrs bs)"
  by (simp add: image_object_def parsed_def loaded_object_def)

lemma final_block:
  "block (final_object w bs p q es name) = {x. in_block p (unat (load_max (file_phdrs bs) - load_min (file_phdrs bs))) x}"
  by (simp add: block_def final_object_def)

text \<open>The libraries of the ledger, with their counts raised and their blocks as they were.\<close>

lemma entries_raised:
  assumes ac: "accounts os w L"
    and olds: "\<forall>y \<in> set (map en_handle L). \<exists>k. sos w' y =
      map_option (\<lambda>s. s\<lparr>si_next := k, si_ref_count := si_ref_count s + of_nat (count_list ps y)\<rparr>) (sos w y)"
    and le: "\<forall>x. load8 (mc w) x \<noteq> None \<longrightarrow> load8 (mc w') x = load8 (mc w) x"
    and cnt: "\<forall>e \<in> set L. en_count e + count_list ps (en_handle e) < 4294967296"
  shows "keeps_rest w w' (raise_counts ps L)"
    and "\<forall>e \<in> set (raise_counts ps L). unat (si_ref_count (obj w' (en_handle e))) = en_count e"
proof -
  let ?R = "raise_counts ps L"
  show "keeps_rest w w' ?R"
    unfolding keeps_rest_def
  proof (intro ballI conjI impI)
    fix e assume "e \<in> set ?R"
    then have h: "en_handle e \<in> set (map en_handle L)" using in_raise by fastforce
    then obtain k where kk: "sos w' (en_handle e) =
        map_option (\<lambda>s. s\<lparr>si_next := k, si_ref_count := si_ref_count s + of_nat (count_list ps (en_handle e))\<rparr>) (sos w (en_handle e))"
      using olds by blast
    then show "\<exists>k c. sos w' (en_handle e) = map_option (\<lambda>s. s\<lparr>si_next := k, si_ref_count := c\<rparr>) (sos w (en_handle e))"
      by (cases "sos w (en_handle e)") auto
    fix x assume "load8 (mc w) x \<noteq> None"
    then show "load8 (mc w') x = load8 (mc w) x" using le by blast
  qed
  have "unat (si_ref_count (obj w' (en_handle e))) = en_count e" if e: "e \<in> set ?R" for e
  proof -
    obtain e0 where e0: "e0 \<in> set L" "e = e0\<lparr>en_count := en_count e0 + count_list ps (en_handle e0)\<rparr>" using in_raise [OF e] by blast
    obtain t where t: "sos w (en_handle e0) = Some t" using accounts_live(1) [OF ac e0(1)] by blast
    moreover have "unat (si_ref_count t) = en_count e0"
      using accounts_entry(3) [OF ac e0(1)] t by (simp add: describes_def Let_def obj_def)
    moreover have "unat (si_ref_count t + of_nat (count_list ps (en_handle e0))) = unat (si_ref_count t) + count_list ps (en_handle e0)"
      using cnt e0(1) calculation(2) by (intro unat_add_of_nat) simp
    ultimately show ?thesis using olds e0 by (auto simp: obj_def)
  qed
  then show "\<forall>e \<in> set ?R. unat (si_ref_count (obj w' (en_handle e))) = en_count e" by blast
qed

lemma library_entered:
  assumes ac: "accounts os w L" and inv: "so_inv w' (map en_handle L @ [f]) FL"
    and s: "s = (final_object w bs p q es nm)\<lparr>si_phdr := l, si_ARM_exidx := x, si_ARM_exidx_count := c, si_flags := FLAG_LINKED,
      si_ref_count := 1, si_constructors_called := (nm \<notin> set no_constructors)\<rparr>" and sf: "sos w' f = Some s"
    and olds: "\<forall>y \<in> set (map en_handle L). \<exists>k. sos w' y =
      map_option (\<lambda>s. s\<lparr>si_next := k, si_ref_count := si_ref_count s + of_nat (count_list ps y)\<rparr>) (sos w y)"
    and above: "mach_le (mc w) (kept_memory w bs p es rels)" and fin: "shows_final w bs p es rels val (mc w')"
    and away: "\<forall>x. load8 (mc w) x \<noteq> None \<longrightarrow> \<not> in_block p (unat (load_max (file_phdrs bs) - load_min (file_phdrs bs))) x"
    and mapped: "\<forall>e \<in> set L. \<forall>x \<in> block (obj w (en_handle e)). load8 (mc w) x \<noteq> None"
    and cnt: "\<forall>e \<in> set L. en_count e + count_list ps (en_handle e) < 4294967296"
    and tab: "tables_inside w bs p q es rels val nm names fini"
    and um: "unmaps_view os p (unat (load_max (file_phdrs bs) - load_min (file_phdrs bs)))"
  shows "accounts os w' (raise_counts ps L @ [new_entry f nm names fini])"
proof -
  let ?R = "raise_counts ps L" and ?e = "new_entry f nm names fini"
  let ?B = "{x. in_block p (unat (load_max (file_phdrs bs) - load_min (file_phdrs bs))) x}"
  note ne = accounts_entry(1) [OF ac]
  have hd: "?R \<noteq> []" "en_handle (hd ?R) = en_handle (hd L)" using raise_hd [OF ne] by simp_all
  have obf: "obj w' f = s" by (simp add: obj_def sf)
  have bf: "block s = ?B" unfolding s using final_block [of w bs p q es nm] by (simp add: block_def)
  have le: "mach_le (mc w) (mc w')" using above fin by (auto simp: shows_final_def mach_le_def intro: map_le_trans)
  have same: "\<forall>x. load8 (mc w) x \<noteq> None \<longrightarrow> load8 (mc w') x = load8 (mc w) x"
    using load8_mono [OF _ le] by fastforce
  note k = entries_raised(1) [OF ac olds same cnt]
  from entries_raised(2) [OF ac olds same cnt]
  entries_keep [OF ac k later_raise [OF ne]] have old: "\<forall>e \<in> set ?R. describes w' e" "kept_apart w' ?R"
    "\<forall>e \<in> set ?R. en_handle e \<noteq> en_handle (hd ?R) \<longrightarrow> removable os w' e" by blast+
  have dn: "describes w' ?e"
    by (simp add: describes_def Let_def obf s skips_constructors_def final_object_def)
  have "tables_in (hide (- ?B) (mc w')) (final_object w bs p q es nm) names fini"
    using tab fin unfolding tables_inside_def Let_def final_block by blast
  then have "tables_in (hide (- ?B) (mc w')) s names fini"
    by (subst tables_in_fields [of s "final_object w bs p q es nm"]) (simp_all add: s)
  moreover have "si_base s = p" "si_size s = load_max (file_phdrs bs) - load_min (file_phdrs bs)"
    by (simp_all add: s final_object_def)
  ultimately have rn: "removable os w' ?e" using um by (simp add: removable_def Let_def obf bf)
  have ap: "block (obj w' (en_handle e)) \<inter> ?B = {}" if e: "e \<in> set ?R" for e
  proof -
    obtain e0 where e0: "e0 \<in> set L" "en_handle e0 = en_handle e" using in_raise [OF e] by auto
    have "block (obj w' (en_handle e)) = block (obj w (en_handle e0))" using keeps_block [OF k e] e0(2) by simp
    then show ?thesis using mapped e0(1) away by blast
  qed
  have "kept_apart w' (?R @ [?e])"
    using old(2) ap by (auto simp: kept_apart_def obf bf)
  moreover have "map en_handle (?R @ [?e]) = map en_handle L @ [f]" by simp
  moreover have "hd (?R @ [?e]) = hd ?R" using hd(1) by simp
  ultimately show ?thesis using inv old(1,3) dn rn unfolding accounts_def by auto
qed

section \<open>Properties\<close>

text \<open>
  C8: What \<open>s_dlopen\<close> loads from a file can be closed again.  A well-formed file whose needed libraries are loaded and
  initialised is entered in the ledger: the new state is accounted for by the ledger with the counts of the needed
  libraries raised and an entry for the new library, with one reference.  If the ledger was balanced, it is
  balanced again, with one more reference that the program holds; so the conditions under
  which closing works hold for the new library and for all others.
\<close>

theorem dlopen_enters_ledger:
  assumes "set_soinfo_pool_protection os (PROT_READ OR PROT_WRITE) w0 = Some w"
    and "fs (mc w) name = Some bs" and "[] \<in> set (gLdPaths w)" and "elf_file bs"
    and "links_with w (map en_handle L) bs p q es ps rs qs val" and "c_open name (mc w) = (fd, m0)"
    and "view_granted os fd bs (PAGE_START (e_phoff (file_header bs)))
      (table_len (e_phoff (file_header bs)) (length (file_phdrs bs))) (set_fd fd (Some \<lparr>f_data = bs, f_pos = 52\<rparr>) m0) a m1"
    and "block_granted os (load_max (file_phdrs bs) - load_min (file_phdrs bs)) m1 p m2"
    and "unmaps_view os a (unat (table_len (e_phoff (file_header bs)) (length (file_phdrs bs))))" and "protects os"
    and "so_inv w (map en_handle L) (f # FL)" and "no_nul (basename name)" and "length (basename name) < 128"
    and "\<forall>x \<in> set (map en_handle L). si_name (obj w x) \<noteq> basename name"
    and "set (gLdPreloads w) \<subseteq> set (map en_handle L)" and "somain w = 0"
    and "\<forall>x \<in> set ps. si_constructors_called (obj w x)" and "init_entries w bs p es (rs @ qs) val gs"
    and "flags AND NOT (RTLD_NOW OR RTLD_LAZY OR RTLD_LOCAL OR RTLD_GLOBAL) = 0"
    and "accounts os w0 L" and "balanced r {} X L"
    and "\<forall>e \<in> set L. \<forall>x \<in> block (obj w (en_handle e)). load8 (mc w) x \<noteq> None"
    and "\<forall>e \<in> set L. en_count e + count_list ps (en_handle e) < 4294967296"
    and "tables_inside w bs p q es (rs @ qs) val (basename name) (map (\<lambda>x. si_name (obj w x)) ps) fini"
    and "unmaps_view os p (unat (load_max (file_phdrs bs) - load_min (file_phdrs bs)))"
  shows "\<exists>w' r'. s_dlopen os (Suc (Suc n)) (Some name) flags w0 = Some (f, w') \<and>
    accounts os w' (raise_counts ps L @ [new_entry f (basename name) (map (\<lambda>x. si_name (obj w x)) ps) fini]) \<and>
    balanced r' {} (add_mset (basename name) X)
      (raise_counts ps L @ [new_entry f (basename name) (map (\<lambda>x. si_name (obj w x)) ps) fini])"
proof -
  have "protect_works os" using assms(10) by (simp add: protects_def protect_works_def)
  from pool_protection_works [OF this, of "PROT_READ OR PROT_WRITE" w0] assms(1) have lg: "logs w0 w []" by auto
  have ac: "accounts os w L" using accounts_logs [OF assms(20) lg] by blast
  obtain w' s l x c where run: "do_dlopen os (Suc (Suc n)) (Some name) flags w0 = Some (f, w')"
    and inv: "so_inv w' (map en_handle L @ [f]) FL" and sf: "sos w' f = Some s"
    and vals: "\<forall>r \<in> set (rs @ qs). load32 (mc w') (r_offset r + (p - load_min (file_phdrs bs))) = Some (val r)"
    and le: "mach_le (kept_memory w bs p es (rs @ qs)) (mc w')"
    and s: "s = (image_object (with_image bs (p - load_min (file_phdrs bs)) (mc w)) bs p es)\<lparr>si_name := basename name, si_phdr := l,
      si_dynamic := p - load_min (file_phdrs bs) + p_vaddr q, si_ARM_exidx := x, si_ARM_exidx_count := c, si_flags := FLAG_LINKED,
      si_ref_count := 1, si_constructors_called := (basename name \<notin> set no_constructors)\<rparr>"
    and olds: "\<forall>y \<in> set (map en_handle L). \<exists>k. sos w' y =
      map_option (\<lambda>s. s\<lparr>si_next := k, si_ref_count := si_ref_count s + of_nat (count_list ps y)\<rparr>) (sos w y)"
    and above: "mach_le (mc w) (kept_memory w bs p es (rs @ qs))"
    and away: "\<forall>x. load8 (mc w) x \<noteq> None \<longrightarrow> \<not> in_block p (unat (load_max (file_phdrs bs) - load_min (file_phdrs bs))) x"
    using dlopen_needed [OF assms(1) lg assms(2-19), of n] by blast
  have fin: "shows_final w bs p es (rs @ qs) val (mc w')" using le vals by (simp add: shows_final_def)
  have s': "s = (final_object w bs p q es (basename name))\<lparr>si_phdr := l, si_ARM_exidx := x, si_ARM_exidx_count := c,
      si_flags := FLAG_LINKED, si_ref_count := 1, si_constructors_called := (basename name \<notin> set no_constructors)\<rparr>"
    by (simp add: s final_object_def)
  note entered = library_entered [OF ac inv s' sf olds above fin away assms(22-25)]
  have f: "f \<noteq> 0" "f \<notin> en_handle ` set L" using so_inv_live [OF assms(11), of f] so_invD(5) [OF assms(11)] by auto
  have N: "\<forall>e \<in> set L. si_name (obj w (en_handle e)) = en_name e"
    using accounts_entry(3) [OF ac] by (simp add: describes_def Let_def)
  have nm: "basename name \<notin> en_name ` set L" using assms(14) N by force
  have "set ps \<subseteq> en_handle ` set L"
  proof
    fix y assume "y \<in> set ps"
    then obtain i where "i < length ps" "y = ps ! i" by (auto simp: in_set_conv_nth)
    with list_all2_nthD2 [OF kept_dynamic(3) [OF assms(5)]] obtain nm where
      "find (\<lambda>x. si_name (obj w x) = nm) (map en_handle L) = Some y" by blast
    from find_member [OF this] show "y \<in> en_handle ` set L" by simp
  qed
  from balanced_new [OF assms(21) nm f(2) this N, of fini] entered
  show ?thesis using run f(1) by (auto simp: s_dlopen_iff simp del: find_library.simps)
qed

text \<open>The ledger of \<open>libdl.so\<close> and \<open>libab.so\<close>, before \<open>libfull.so\<close> is opened.\<close>

definition ab_entry :: entry where
  "ab_entry = \<lparr>en_handle = 0x20000, en_name = ''libab.so'', en_count = 1, en_needs = [], en_fini = []\<rparr>"

lemma full_objs: "obj full_world 0x10000 = demo_head\<lparr>si_constructors_called := True, si_ref_count := 0xffffff\<rparr>"
  "obj full_world 0x20000 = demo_lib\<lparr>si_constructors_called := True, si_ref_count := 1, si_size := 52, si_dynamic := 0x40000004\<rparr>"
  by (simp_all add: full_world_def obj_def)

lemma full_load8: "load8 (mc full_world) x =
    (if unat (x - 0x40000000) < 52 then Some (demo_tables ! unat (x - 0x40000000)) else None)"
  by (simp add: full_world_def load8_def mem_of_def in_block_def length_demo_tables)

lemma full_blocks: "block (obj full_world 0x10000) = {}" "block (obj full_world 0x20000) = {x. in_block 0x40000000 52 x}"
  by (simp_all add: full_objs block_def in_block_def) (simp_all add: demo_defs)

lemma full_accounts: "accounts (file_api full_page) full_world [dl_entry, ab_entry]"
proof -
  have "tables_in (hide (- {x. in_block 0x40000000 52 x}) (mc full_world)) (obj full_world 0x20000) [] []"
  proof -
    have "dyns_at (hide (- {x. in_block 0x40000000 52 x}) (mc full_world)) 0x40000004 []"
      by (simp add: read_dyn_def load32_def load8_hide full_load8 in_block_def) (simp add: demo_tables_def le32_def)
    then show ?thesis unfolding tables_in_def
      by (intro exI [of _ "[]"]) (simp add: full_objs needed_names_def fini_events_def call_events_def del: dyns_at.simps,
        simp add: demo_defs)
  qed
  then have "removable (file_api full_page) full_world ab_entry"
    by (simp add: removable_def Let_def file_api_works) (simp add: ab_entry_def full_blocks)
  moreover have "describes full_world dl_entry" "describes full_world ab_entry"
    by (simp_all add: describes_def dl_entry_def ab_entry_def full_objs skips_constructors_def) (simp_all add: demo_defs)
  moreover have "kept_apart full_world [dl_entry, ab_entry]"
    by (simp add: kept_apart_def dl_entry_def ab_entry_def full_blocks)
  moreover have "so_inv full_world (map en_handle [dl_entry, ab_entry]) [0x30000]"
    using full_world_sel(4) by (simp add: dl_entry_def ab_entry_def)
  ultimately show ?thesis unfolding accounts_def by (auto simp: dl_entry_def)
qed

lemma full_balanced: "balanced (\<lambda>_. 0) {} {#''libab.so''#} [dl_entry, ab_entry]"
  by (simp add: balanced_def dl_entry_def ab_entry_def)

lemma full_tables_inside:
  "tables_inside full_world full_page 0x10000 full_dynamic full_dyns ([full_slot] @ [full_init]) full_value ''libfull.so'' [''libab.so''] []"
proof -
  let ?B = "{x. in_block 0x10000 4096 x}"
  have l: "load8 (hide (- ?B) full_hidden) x = Some (full_bytes ! unat (x - 0x10000))"
    if "unat (x - 0x10000) < 296 \<or> 304 \<le> unat (x - 0x10000) \<and> unat (x - 0x10000) < 320" for x
    using full_hidden_load8 [OF that] that by (auto simp: load8_hide in_block_def)
  have d: "dyns_at (hide (- ?B) full_hidden) 0x10078 full_dyns" "str_at (hide (- ?B) full_hidden) 0x10131 ''libab.so''"
    by (simp_all add: l full_dyns_def read_dyn_def load32_def) (simp_all add: full_bytes_def le32_def char_byte_def)
  have s: "si_strtab (final_object full_world full_page 0x10000 full_dynamic full_dyns ''libfull.so'') = 0x10130"
    "si_dynamic (final_object full_world full_page 0x10000 full_dynamic full_dyns ''libfull.so'') = 0x10078"
    "si_fini_array (final_object full_world full_page 0x10000 full_dynamic full_dyns ''libfull.so'') = 0"
    "si_fini_func (final_object full_world full_page 0x10000 full_dynamic full_dyns ''libfull.so'') = 0"
    unfolding final_object_def full_bias full_memory_def [symmetric] full_object_def [symmetric]
    by (simp_all add: full_object_sel) (simp_all add: full_dynamic_def full_object_def image_object_def parsed_def full_dyns_def
      dyn_last_def loaded_object_def zero_soinfo_def)
  have n: "needed_names full_dyns = [\<lparr>d_tag = 1, d_val = 1\<rparr>]" by (simp add: needed_names_def full_dyns_def)
  have "tables_in (hide (- ?B) m) (final_object full_world full_page 0x10000 full_dynamic full_dyns ''libfull.so'') [''libab.so''] []"
    if m: "mach_le full_hidden m" for m
  proof -
    have "load8 (hide (- ?B) m) x = Some b" if "load8 (hide (- ?B) full_hidden) x = Some b" for x b
      using that load8_mono [OF _ m] by (auto simp: load8_hide split: if_splits)
    then have "mach_le (hide (- ?B) full_hidden) (hide (- ?B) m)" by (auto simp: mach_le_def map_le_def load8_def dom_def)
    note more = shows_more.intro [OF this]
    have "str_at (hide (- ?B) m) 0x10131 ''libab.so''" by (rule shows_more.str_at_more [OF more d(2)])
    then have "list_all2 (\<lambda>e name. \<exists>path. str_at (hide (- ?B) m) (0x10130 + d_val e) path \<and> basename path = name)
        (needed_names full_dyns) [''libab.so'']"
      unfolding n by simp (intro exI [of _ "''libab.so''"], simp add: basename_def)
    with shows_more.dyns_at_more [OF more d(1)] show ?thesis
      unfolding tables_in_def s by (intro exI [of _ full_dyns] exI [of _ "[]"]) (simp add: fini_events_def s call_events_def)
  qed
  then show ?thesis
    unfolding tables_inside_def Let_def final_block shows_final_def full_kept full_page_table by simp
qed

lemma dlopen_enters_ledger_witness:
  "\<exists>w' r'. s_dlopen (file_api full_page) 2 (Some ''libfull.so'') 0 full_world = Some (0x30000, w') \<and>
     accounts (file_api full_page) w'
       [dl_entry, ab_entry\<lparr>en_count := 2\<rparr>, new_entry 0x30000 ''libfull.so'' [''libab.so''] []] \<and>
     balanced r' {} {#''libab.so'', ''libfull.so''#}
       [dl_entry, ab_entry\<lparr>en_count := 2\<rparr>, new_entry 0x30000 ''libfull.so'' [''libab.so''] []]"
proof -
  let ?L = "[dl_entry, ab_entry]"
  have h: "[0x10000, 0x20000] = map en_handle ?L" by (simp add: dl_entry_def ab_entry_def)
  obtain m2 where b: "block_granted (file_api full_page) 4096 full_viewed 0x10000 m2" using full_grants(2) by blast
  have un: "set_soinfo_pool_protection (file_api full_page) (PROT_READ OR PROT_WRITE) full_world = Some full_world"
    by (simp add: set_soinfo_pool_protection_def full_world_def demo_libs_def demo_registry_def)
  have called: "\<forall>x \<in> set [0x20000]. si_constructors_called (obj full_world x)"
    by (simp add: full_objs)
  have mapped: "\<forall>e \<in> set ?L. \<forall>x \<in> block (obj full_world (en_handle e)). load8 (mc full_world) x \<noteq> None"
    by (simp add: dl_entry_def ab_entry_def full_blocks full_load8 in_block_def)
  have cnt: "\<forall>e \<in> set ?L. en_count e + count_list [0x20000] (en_handle e) < 4294967296"
    by (simp add: dl_entry_def ab_entry_def)
  have ins: "tables_inside full_world full_page 0x10000 full_dynamic full_dyns ([full_slot] @ [full_init]) full_value
      (basename ''libfull.so'') (map (\<lambda>x. si_name (obj full_world x)) [0x20000]) []"
    using full_tables_inside by (simp add: full_name full_objs) (simp add: demo_defs)
  have raised: "raise_counts [0x20000] ?L = [dl_entry, ab_entry\<lparr>en_count := 2\<rparr>]"
    by (simp add: raise_counts_def dl_entry_def ab_entry_def)
  have names: "map (\<lambda>x. si_name (obj full_world x)) [0x20000] = [''libab.so'']" by (simp add: full_objs) (simp add: demo_defs)
  from dlopen_enters_ledger [where os = "file_api full_page" and n = 0 and flags = 0 and L = ?L,
      OF un full_world_sel(1,2) full_page_elf full_links [unfolded h] full_world_sel(3),
      unfolded full_page_table, OF full_grants(1) [unfolded full_read_def] b file_api_works full_world_sel(4) [unfolded h] full_name(1,2)
      full_world_sel(5,6) [unfolded h] full_world_sel(7) called full_init_entries _ full_accounts full_balanced mapped cnt ins
      file_api_works(1), unfolded raised names numeral_2_eq_2 [symmetric] full_name(3)]
  show ?thesis by (simp add: add_mset_commute)
qed

end
