(* ===== verification/Link_Fails.thy ===== *)
theory Link_Fails
  imports Load_Linked Dlopen_Ledger
begin

text \<open>
  A library whose needed libraries cannot all be had: one of them is neither loaded nor on disk, or it is being loaded
  itself (a library that needs itself, or a cycle of dependencies).  The library is loaded, taken out of the list
  again and its image unmapped; but the references to the needed libraries before the missing one stay.
\<close>

section \<open>The needed library that is missing\<close>

definition out_of_reach :: "world \<Rightarrow> u32 list \<Rightarrow> string \<Rightarrow> string \<Rightarrow> bool" where
  "out_of_reach w LS own name \<longleftrightarrow>
     (case find (\<lambda>x. si_name (obj w x) = basename name) LS of
        Some x \<Rightarrow> \<not> is_linked w x
      | None \<Rightarrow> basename name = own \<or> fs (mc w) name = None)"

lemma unreachable_fails:
  assumes inv: "so_inv w (LS @ [f]) FL" and own: "si_name (obj w f) = own" "\<not> is_linked w f"
    and out: "out_of_reach w LS own name"
  shows "find_library os (Suc n) (Some name) w = Some (0, w)"
proof (cases "find (\<lambda>x. si_name (obj w x) = basename name) LS")
  case (Some x)
  with out have "\<not> is_linked w x" by (simp add: out_of_reach_def)
  with find_library_registered_eq [OF inv find_append_some [OF Some], of os n] show ?thesis by simp
next
  case None
  show ?thesis
  proof (cases "own = basename name")
    case True
    then have "find (\<lambda>x. si_name (obj w x) = basename name) (LS @ [f]) = Some f"
      using None own(1) by (induction LS) (auto split: if_splits)
    with find_library_registered_eq [OF inv this, of os n] own(2) show ?thesis by simp
  next
    case False
    with out None have "fs (mc w) name = None" by (simp add: out_of_reach_def eq_commute)
    moreover have "\<forall>x \<in> set (LS @ [f]). si_name (obj w x) \<noteq> basename name"
      using None own(1) False by (auto simp: find_None_iff)
    ultimately show ?thesis using find_library_missing_eq [OF inv] by blast
  qed
qed

lemma out_of_reach_cong:
  assumes "\<forall>x \<in> set LS. si_name (obj w' x) = si_name (obj w x) \<and> is_linked w' x = is_linked w x" and "fs (mc w') = fs (mc w)"
  shows "out_of_reach w' LS own name = out_of_reach w LS own name"
proof -
  have f: "find (\<lambda>x. si_name (obj w' x) = basename name) LS = find (\<lambda>x. si_name (obj w x) = basename name) LS"
    by (rule find_cong) (use assms(1) in simp_all)
  show ?thesis
    unfolding out_of_reach_def f
    using assms find_member [of "\<lambda>x. si_name (obj w x) = basename name" LS] by (auto split: option.split)
qed

section \<open>The walk over the needed libraries\<close>

lemma needed_names_idem: "needed_names es = us @ vs \<Longrightarrow> needed_names us = us"
proof -
  assume "needed_names es = us @ vs"
  then have "set us \<subseteq> set (needed_names es)" by simp
  then have "\<forall>e \<in> set us. d_tag e = DT_NEEDED" by (auto simp: needed_names_def)
  then show ?thesis unfolding needed_names_def by (rule filter_True)
qed

lemma walk_stops:
  assumes "so_inv w LS FL" and "sos w si = Some s" and "needed_names es = us @ e # vs" and "needs w LS (si_strtab s) us ps"
    and "str_at (mc w) (si_strtab s + d_val e) name"
    and "find_library os (Suc n) (Some name) (referenced ps w) = Some (0, referenced ps w)" and "dyns_at (mc w) a es"
  shows "walk_dyn (\<lambda>st. mc (snd st)) (need_dyn (find_library os (Suc n)) si) a (acc, w) =
    Some (False, acc @ ps, referenced ps w)"
  using assms
proof (induction es arbitrary: a acc us ps w s)
  case Nil
  then show ?case by (simp add: needed_names_def)
next
  case (Cons d es)
  have d: "read_dyn (mc w) a = Some d" "d_tag d \<noteq> DT_NULL" "dyns_at (mc w) (a + sizeof_Dyn) es"
    using Cons.prems(7) by simp_all
  show ?case
  proof (cases "d_tag d = DT_NEEDED")
    case False
    then have "needed_names es = us @ e # vs" using Cons.prems(3) by (simp add: needed_names_def)
    with Cons.IH [OF Cons.prems(1,2) _ Cons.prems(4-6) d(3)] d False show ?thesis
      by (subst walk_dyn.simps) (simp add: need_dyn_other del: find_library.simps)
  next
    case True
    then have split: "d # needed_names es = us @ e # vs" using Cons.prems(3) by (simp add: needed_names_def)
    show ?thesis
    proof (cases us)
      case Nil
      then have ps: "ps = []" and e: "e = d" using Cons.prems(4) split by (simp_all add: needs_def needed_names_def)
      have "need_dyn (find_library os (Suc n)) si d (acc, w) = Some (False, acc, w)"
        using Cons.prems(2,6) True cstr_str_at [OF Cons.prems(5)] e
        by (simp add: need_dyn_def ps referenced_Nil del: find_library.simps)
      with d(1,2) show ?thesis by (subst walk_dyn.simps) (simp add: ps referenced_Nil del: find_library.simps)
    next
      case (Cons u us')
      then have u: "u = d" and rest: "needed_names es = us' @ e # vs" using split by simp_all
      obtain p qs nm where ps: "ps = p # qs" and nm: "str_at (mc w) (si_strtab s + d_val d) nm"
        and p: "find (\<lambda>x. si_name (obj w x) = basename nm) LS = Some p" "is_linked w p"
        and nd: "needs w LS (si_strtab s) us' qs"
        using Cons.prems(4) True unfolding Cons u by (auto simp: needs_def needed_names_def list_all2_Cons1)
      have one: "need_dyn (find_library os (Suc n)) si d (acc, w) = Some (True, acc @ [p], referenced [p] w)"
        using find_registered_references(1) [OF Cons.prems(1) p, of os n] find_registered_references(2) [OF Cons.prems(1) p]
          Cons.prems(2) True cstr_str_at [OF nm]
        by (simp add: need_dyn_def del: find_library.simps)
      have "walk_dyn (\<lambda>st. mc (snd st)) (need_dyn (find_library os (Suc n)) si) (a + sizeof_Dyn) (acc @ [p], referenced [p] w) =
          Some (False, (acc @ [p]) @ qs, referenced qs (referenced [p] w))"
        using Cons.prems(1,5,6) nd rest d(3)
        by (intro Cons.IH [OF _ referenced_sos [OF Cons.prems(2), of "[p]"]]) (simp_all add: ps referenced_Cons [of p qs])
      with one d(1,2) show ?thesis
        by (subst walk_dyn.simps) (simp add: ps referenced_Cons [of p qs] del: find_library.simps)
    qed
  qed
qed

section \<open>The library is taken out again\<close>

lemma link_stops:
  assumes s: "sos w si = Some s" "si_flags s = 0"
    and dyn: "phdr_table_get_dynamic_section (mc w) (si_phdr s) (unat (si_phnum s)) (si_load_bias s) = Some (dyn, x)"
    and nz: "dyn \<noteq> 0"
    and ex: "phdr_table_get_arm_exidx (mc w) (si_phdr s) (unat (si_phnum s)) (si_load_bias s) = Some (r, a, c)"
    and es: "dyns_at (mc w) dyn es" "\<forall>e \<in> set es. dyn_accepted (mc w) (si_load_bias s) e"
    and s': "s' = parsed (mc w) (si_load_bias s) es (s\<lparr>si_dynamic := dyn, si_ARM_exidx := a, si_ARM_exidx_count := c\<rparr>)"
    and lk: "linkable s'" and inv: "so_inv w LS FL" and us: "needed_names es = us @ e # vs"
    and ps: "needs (put_si si s' w) LS (si_strtab s') us ps" and nm: "str_at (mc w) (si_strtab s' + d_val e) name"
    and no: "find_library os (Suc n) (Some name) (referenced ps (put_si si s' w)) = Some (0, referenced ps (put_si si s' w))"
  shows "soinfo_link_image os (find_library os (Suc n)) si breloc w = Some (False, referenced ps (put_si si s' w))"
proof -
  obtain cnt fg where x: "x = (cnt, fg)" by (cases x)
  have w1: "walk_dyn (\<lambda>_. mc w) (parse_dyn (mc w) (si_load_bias s)) dyn
      (s\<lparr>si_dynamic := dyn, si_ARM_exidx := a, si_ARM_exidx_count := c\<rparr>, 0) =
      Some (True, s', 0 + of_nat (length (needed_names es)))"
    unfolding s' by (simp only: parse_dyn_mem [OF es(1)] run_parse [OF es(2)])
  have "so_inv (put_si si s' w) LS FL = so_inv w LS FL"
    by (rule so_inv_links) (simp_all add: put_si_def s' s(1))
  with inv have "so_inv (put_si si s' w) LS FL" by simp
  from walk_stops [OF this _ us ps _ no, of si dyn "[]"] es(1) nm
  have w2: "walk_dyn (\<lambda>st. mc (snd st)) (need_dyn (find_library os (Suc n)) si) dyn ([], put_si si s' w) =
      Some (False, ps, referenced ps (put_si si s' w))"
    by (simp add: put_si_def)
  have fl: "si_flags s' = 0" using s(2) by (simp add: s')
  show ?thesis
    using s dyn nz ex lk fl by (simp add: soinfo_link_image_def x w1 w2 Let_def linkable_def del: find_library.simps)
qed

text \<open>
  What a file must say for this: \<open>links_with\<close> without relocations, where the needed libraries \<open>ps\<close> of the first
  entries are loaded and the next one is out of reach.
\<close>

definition lacks_library ::
  "world \<Rightarrow> u32 list \<Rightarrow> u8 list \<Rightarrow> u32 \<Rightarrow> Elf32_Phdr \<Rightarrow> Elf32_Dyn list \<Rightarrow> string \<Rightarrow> u32 list \<Rightarrow> string \<Rightarrow> bool" where
  "lacks_library w LS bs p q es own ps name \<longleftrightarrow>
     (let bias = p - load_min (file_phdrs bs); E = with_image bs bias (mc w); s = image_object E bs p es
      in find (\<lambda>ph. p_type ph = PT_DYNAMIC) (file_phdrs bs) = Some q \<and> bias + p_vaddr q \<noteq> 0 \<and>
         dyns_at E (bias + p_vaddr q) es \<and> (\<forall>e \<in> set es. dyn_accepted E bias e) \<and> linkable s \<and>
         out_of_reach w LS own name \<and>
         (case drop (length ps) (needed_names es) of [] \<Rightarrow> False | e # _ \<Rightarrow> str_at E (si_strtab s + d_val e) name) \<and>
         list_all2 (\<lambda>e x. \<exists>name. str_at E (si_strtab s + d_val e) name \<and>
           find (\<lambda>x. si_name (obj w x) = basename name) LS = Some x \<and> is_linked w x) (take (length ps) (needed_names es)) ps)"

lemma needs_take: "needs w LS strtab (take n (needed_names es)) ps =
    list_all2 (\<lambda>e p. \<exists>name. str_at (mc w) (strtab + d_val e) name \<and>
       find (\<lambda>x. si_name (obj w x) = basename name) LS = Some p \<and> is_linked w p) (take n (needed_names es)) ps"
  using needed_names_idem [of es "take n (needed_names es)" "drop n (needed_names es)"] by (simp add: needs_def)

lemma munmap_memory: "snd (s_munmap os a n m) = snd (UnmapViewOfFile os a m)"
  by (simp add: s_munmap_def Let_def split: prod.split)

lemma find_stops:
  fixes w :: world
  assumes disk: "fs (mc w) name = Some bs" and path: "[] \<in> set (gLdPaths w)" and ef: "elf_file bs"
    and lk: "lacks_library w LS bs p q es (basename name) ps missing" and op: "c_open name (mc w) = (fd, m0)"
    and v: "view_granted os fd bs (PAGE_START (e_phoff (file_header bs)))
      (table_len (e_phoff (file_header bs)) (length (file_phdrs bs))) (set_fd fd (Some \<lparr>f_data = bs, f_pos = 52\<rparr>) m0) a m1"
    and b: "block_granted os (load_max (file_phdrs bs) - load_min (file_phdrs bs)) m1 p m2"
    and u: "unmaps_view os a (unat (table_len (e_phoff (file_header bs)) (length (file_phdrs bs))))"
    and um: "unmaps_view os p (unat (load_max (file_phdrs bs) - load_min (file_phdrs bs)))"
    and inv: "so_inv w LS (f # FL)" and nm: "no_nul (basename name)" "length (basename name) < 128"
    and new: "\<forall>x \<in> set LS. si_name (obj w x) \<noteq> basename name"
  shows "\<exists>w'. find_library os (Suc (Suc n)) (Some name) w = Some (0, w') \<and> so_inv w' LS (f # FL) \<and>
    (\<forall>y \<in> set LS. \<exists>k. sos w' y =
      map_option (\<lambda>s. s\<lparr>si_next := k, si_ref_count := si_ref_count s + of_nat (count_list ps y)\<rparr>) (sos w y)) \<and>
    (\<forall>x. load8 (mc w) x \<noteq> None \<longrightarrow> load8 (mc w') x = load8 (mc w) x) \<and>
    fd_file (mc w') fd = None \<and> fs (mc w') = fs (mc w) \<and> out_log w' = out_log w"
proof -
  let ?ps = "file_phdrs bs"
  let ?bias = "p - load_min ?ps" and ?n = "unat (load_max ?ps - load_min ?ps)"
  let ?E = "with_image bs ?bias (mc w)"
  let ?s0 = "image_object ?E bs p es"
  note L = lk [unfolded lacks_library_def Let_def]
  have "find (\<lambda>x. basename name = si_name (obj w x)) LS = None" using new by (auto simp: find_None_iff)
  then have none: "find_loaded_library name w = Some 0" using find_loaded_library_eq [OF inv, of name] by (simp add: ptr_of_def)
  obtain w1 l where ll: "load_library os name w = Some (f, w1)" and inv1: "so_inv w1 (LS @ [f]) FL"
    and lw: "loaded_world w LS (basename name) bs p l f w1" and fd: "fd_file (mc w1) fd = None"
    using loads_world [OF disk path ef op v b u inv nm] by blast
  note W = lw [unfolded loaded_world_def]
  have dis: "f \<notin> set LS" "f \<noteq> 0" using so_invD(3) [OF inv1] so_inv_live [OF inv1, of f] by auto
  have Ele: "mach_le ?E (mc w1)" by (rule loaded_shows [OF lw])
  have pq: "find (\<lambda>ph. p_type ph = PT_DYNAMIC) ?ps = Some q" "dyns_at ?E (?bias + p_vaddr q) es"
    "\<forall>e \<in> set es. dyn_accepted ?E ?bias e" using L by blast+
  obtain r x c fg where dyn: "phdr_table_get_dynamic_section (mc w1) l (length ?ps) ?bias = Some (?bias + p_vaddr q, fg)"
    and ex: "phdr_table_get_arm_exidx (mc w1) l (length ?ps) ?bias = Some (r, x, c)"
    and es: "dyns_at (mc w1) (?bias + p_vaddr q) es" and acc: "\<forall>e \<in> set es. dyn_accepted (mc w1) ?bias e"
    and t: "?s0\<lparr>si_name := basename name, si_phdr := l, si_dynamic := ?bias + p_vaddr q, si_ARM_exidx := x, si_ARM_exidx_count := c\<rparr> =
      parsed (mc w1) ?bias es ((loaded_object (basename name) bs p l)\<lparr>si_dynamic := ?bias + p_vaddr q, si_ARM_exidx := x, si_ARM_exidx_count := c\<rparr>)"
    using image_parses [OF lw _ pq] by auto
  let ?t = "?s0\<lparr>si_name := basename name, si_phdr := l, si_dynamic := ?bias + p_vaddr q, si_ARM_exidx := x, si_ARM_exidx_count := c\<rparr>"
  let ?w3 = "referenced ps (put_si f ?t w1)"
  have sl: "si_flags (loaded_object (basename name) bs p l) = 0" "si_load_bias (loaded_object (basename name) bs p l) = ?bias"
    "si_phdr (loaded_object (basename name) bs p l) = l" "unat (si_phnum (loaded_object (basename name) bs p l)) = length ?ps"
    by (simp_all add: loaded_object_def zero_soinfo_def file_phdrs_def)
  have s1: "sos w1 f = Some (loaded_object (basename name) bs p l)" using W by simp
  have str: "si_strtab ?t = si_strtab ?s0" by simp
  obtain e vs where ev: "drop (length ps) (needed_names es) = e # vs" and enm: "str_at ?E (si_strtab ?s0 + d_val e) missing"
    using L by (auto split: list.splits)
  let ?us = "take (length ps) (needed_names es)"
  have us: "needed_names es = ?us @ e # vs" using ev append_take_drop_id [of "length ps" "needed_names es"] by simp
  note id = needed_names_idem [OF us]
  have nd: "needs (put_si f ?t w1) (LS @ [f]) (si_strtab ?t) ?us ps" "set ps \<subseteq> set LS"
    unfolding str by (rule needs_loaded [OF lw dis(1) Ele, where es = ?us and strtab = "si_strtab ?s0"], use L id in simp)+
  have cnt: "count_list ps f = 0" using nd(2) dis(1) by (auto simp: count_list_0_iff)
  have s3: "sos ?w3 f = Some ?t" using referenced_sos [of "put_si f ?t w1" f ?t ps] by (simp add: put_si_def cnt)
  have "so_inv (put_si f ?t w1) (LS @ [f]) FL = so_inv w1 (LS @ [f]) FL"
    by (rule so_inv_links) (simp_all add: put_si_def s1 loaded_object_def zero_soinfo_def)
  with inv1 have inv3: "so_inv ?w3 (LS @ [f]) FL" by simp
  have "\<forall>y \<in> set LS. si_name (obj ?w3 y) = si_name (obj w y) \<and> is_linked ?w3 y = is_linked w y"
  proof
    fix y assume y: "y \<in> set LS"
    then have "y \<noteq> f" using dis(1) by auto
    then have "si_name (obj (put_si f ?t w1) y) = si_name (obj w1 y)" "is_linked (put_si f ?t w1) y = is_linked w1 y"
      by (simp_all add: put_si_def obj_def is_linked_def)
    with loaded_world_name [OF lw y] show "si_name (obj ?w3 y) = si_name (obj w y) \<and> is_linked ?w3 y = is_linked w y" by simp
  qed
  moreover have "fs (mc ?w3) = fs (mc w)" using W by (simp add: put_si_def)
  ultimately have out: "out_of_reach ?w3 LS (basename name) missing" using out_of_reach_cong L by blast
  have no: "find_library os (Suc n) (Some missing) ?w3 = Some (0, ?w3)"
    by (rule unreachable_fails [OF inv3 _ _ out]) (simp_all add: obj_def s3 is_linked_def)
  have nz: "?bias + p_vaddr q \<noteq> 0" and lt: "linkable ?t" using L by (simp_all add: linkable_def)
  have enm1: "str_at (mc w1) (si_strtab ?t + d_val e) missing"
    unfolding str by (rule shows_more.str_at_more [OF shows_more.intro [OF Ele] enm])
  have link: "soinfo_link_image os (find_library os (Suc n)) f True w1 = Some (False, ?w3)"
    by (rule link_stops [OF s1 sl(1), unfolded sl(2-4), OF dyn nz ex es acc t lt inv1 us nd(1) enm1 no])
  have ts: "si_base ?t = p" "si_size ?t = load_max ?ps - load_min ?ps" by simp_all
  let ?w4 = "?w3\<lparr>mc := snd (UnmapViewOfFile os p (mc ?w3))\<rparr>"
  have "so_inv ?w4 (LS @ f # []) FL" using inv3 by (simp add: so_inv_def)
  moreover have "LS \<noteq> []" using so_invD(6) [OF inv] by simp
  ultimately obtain w' where w': "soinfo_free f ?w4 = Some w'" "so_inv w' LS (f # FL)" "mc w' = mc ?w4"
    using soinfo_free_present [of ?w4 LS f "[]" FL] by auto
  have run: "find_library os (Suc (Suc n)) (Some name) w = Some (0, w')"
    unfolding find_library.simps(2) [of os "Suc n"]
    using none ll dis(2) link w'(1)
    by (simp add: find_library_internal_def s3 ts munmap_memory Let_def del: find_library.simps)
  have refs: "\<exists>k. sos w' y = map_option (\<lambda>s. s\<lparr>si_next := k, si_ref_count := si_ref_count s + of_nat (count_list ps y)\<rparr>) (sos w y)"
    if y: "y \<in> set LS" for y
  proof -
    have "y \<noteq> f" using y dis(1) by auto
    then obtain k where "sos w' y = map_option (\<lambda>s. s\<lparr>si_next := k\<rparr>) (sos ?w4 y)" using free_keeps [OF w'(1)] by blast
    moreover obtain j where "sos w1 y = map_option (\<lambda>s. s\<lparr>si_next := j\<rparr>) (sos w y)" using W y by blast
    ultimately show ?thesis using \<open>y \<noteq> f\<close>
      by (intro exI [of _ k]) (cases "sos w y", simp_all add: referenced_def put_si_def)
  qed
  have so: "same_outside (mc w1) (mc w') p ?n"
    using um w'(3) by (simp add: unmaps_view_def put_si_def)
  then have "fs (mc w') = fs (mc w)" "fd_file (mc w') fd = None"
    using W same_outside_fd [OF so, of fd] fd by (simp_all add: same_outside_def)
  moreover have "load8 (mc w') x = load8 (mc w) x" if "load8 (mc w) x \<noteq> None" for x
    using that W so unfolding same_outside_def by auto
  moreover have "out_log w' = out_log w" using soinfo_free_log [OF w'(1)] W by (simp add: put_si_def)
  ultimately show ?thesis using run w'(2) refs by blast
qed

section \<open>The references that stay\<close>

lemma balanced_raised:
  assumes b: "balanced r {} X L" and ps: "set ps \<subseteq> en_handle ` set L" and N: "\<forall>e \<in> set L. N (en_handle e) = en_name e"
  shows "balanced r {} (X + mset (map N ps)) (raise_counts ps L)"
proof -
  let ?L = "raise_counts ps L"
  note B = balancedD [OF b]
  have inj: "inj_on N (en_handle ` set L)" using N B(3) by (auto simp: inj_on_def distinct_map)
  have names: "set (map N ps) \<subseteq> en_name ` set L" using ps N by force
  have hd: "en_handle (hd ?L) = en_handle (hd L)" "?L \<noteq> []" using raise_hd [OF B(1), of ps] by simp_all
  have "count (refs {} ?L + (X + mset (map N ps))) (en_name e) + (if en_handle e = en_handle (hd ?L) then 1 else 0) \<le> en_count e"
    if e: "e \<in> set ?L" for e
  proof -
    obtain e0 where e0: "e0 \<in> set L" "e = e0\<lparr>en_count := en_count e0 + count_list ps (en_handle e0)\<rparr>" using in_raise [OF e] by blast
    have "insert (en_handle e0) (set ps) \<subseteq> en_handle ` set L" using e0(1) ps by auto
    then have "count (mset (map N ps)) (N (en_handle e0)) = count_list ps (en_handle e0)"
      by (intro count_named inj_on_subset [OF inj])
    then have "count (mset (map N ps)) (en_name e0) = count_list ps (en_handle e0)" using N e0(1) by simp
    then show ?thesis unfolding hd using B(4) [OF e0(1)] e0(2) by simp
  qed
  moreover have "en_name ` set ?L = en_name ` set L" using raise_maps(2) [of ps L] by (metis set_map)
  moreover have "set_mset (refs {} ?L + (X + mset (map N ps))) \<subseteq> en_name ` set L" using B(5) names by auto
  moreover have "r name < r (en_name e)" if e: "e \<in> set ?L" "name \<in> set (en_needs e)" for e name
  proof -
    obtain e0 where "e0 \<in> set L" "en_name e = en_name e0" "en_needs e = en_needs e0" using in_raise [OF e(1)] by fastforce
    with B(6) e(2) show ?thesis by simp
  qed
  moreover have "distinct (map en_handle ?L)" "distinct (map en_name ?L)" using B(2,3) by simp_all
  ultimately show ?thesis using hd(2) unfolding balanced_def by simp
qed

section \<open>Properties\<close>

text \<open>
  C9: What is left of a \<open>dlopen\<close> that fails because a needed library cannot be had: it is neither loaded nor on disk, or
  it is still being loaded (the library needs itself).  \<open>s_dlopen\<close> returns 0, runs no constructor, and the
  registered libraries are those from before; but every library that was found before the missing one keeps the
  reference that it was given, as if the program held it, so that the program's own references no longer unload it.
\<close>

theorem dlopen_missing_needed:
  assumes "set_soinfo_pool_protection os (PROT_READ OR PROT_WRITE) w0 = Some w" and "protect_works os"
    and "fs (mc w) name = Some bs" and "[] \<in> set (gLdPaths w)" and "elf_file bs"
    and "lacks_library w (map en_handle L) bs p q es (basename name) ps missing" and "c_open name (mc w) = (fd, m0)"
    and "view_granted os fd bs (PAGE_START (e_phoff (file_header bs)))
      (table_len (e_phoff (file_header bs)) (length (file_phdrs bs))) (set_fd fd (Some \<lparr>f_data = bs, f_pos = 52\<rparr>) m0) a m1"
    and "block_granted os (load_max (file_phdrs bs) - load_min (file_phdrs bs)) m1 p m2"
    and "unmaps_view os a (unat (table_len (e_phoff (file_header bs)) (length (file_phdrs bs))))"
    and "unmaps_view os p (unat (load_max (file_phdrs bs) - load_min (file_phdrs bs)))"
    and "so_inv w (map en_handle L) (f # FL)" and "no_nul (basename name)" and "length (basename name) < 128"
    and "\<forall>x \<in> set (map en_handle L). si_name (obj w x) \<noteq> basename name"
    and "flags AND NOT (RTLD_NOW OR RTLD_LAZY OR RTLD_LOCAL OR RTLD_GLOBAL) = 0"
    and "accounts os w0 L" and "balanced r {} X L"
    and "\<forall>e \<in> set L. en_count e + count_list ps (en_handle e) < 4294967296"
  shows "\<exists>w'. s_dlopen os (Suc (Suc n)) (Some name) flags w0 = Some (0, w') \<and> accounts os w' (raise_counts ps L) \<and>
    balanced r {} (X + mset (map (\<lambda>x. si_name (obj w x)) ps)) (raise_counts ps L) \<and> out_log w' = out_log w0"
proof -
  from pool_protection_works [OF assms(2), of "PROT_READ OR PROT_WRITE" w0] assms(1) have lg: "logs w0 w []" by auto
  have ac: "accounts os w L" using accounts_logs [OF assms(17) lg] by blast
  obtain w1 where run: "find_library os (Suc (Suc n)) (Some name) w = Some (0, w1)"
    and inv: "so_inv w1 (map en_handle L) (f # FL)"
    and olds: "\<forall>y \<in> set (map en_handle L). \<exists>k. sos w1 y =
      map_option (\<lambda>s. s\<lparr>si_next := k, si_ref_count := si_ref_count s + of_nat (count_list ps y)\<rparr>) (sos w y)"
    and same: "\<forall>x. load8 (mc w) x \<noteq> None \<longrightarrow> load8 (mc w1) x = load8 (mc w) x" and out: "out_log w1 = out_log w"
    using find_stops [OF assms(3-15), of n] by blast
  have "accounts os w1 (raise_counts ps L)"
    using accounts_keeps [OF ac entries_raised(1) [OF ac olds same assms(19)] later_raise [OF accounts_entry(1) [OF ac]]]
      entries_raised(2) [OF ac olds same assms(19)] inv by simp
  moreover obtain w2 where w2: "set_soinfo_pool_protection os PROT_READ w1 = Some w2" "logs w1 w2 []"
    using pool_protection_works [OF assms(2)] by blast
  ultimately have ac2: "accounts os w2 (raise_counts ps L)" using accounts_logs by blast
  have N: "\<forall>e \<in> set L. si_name (obj w (en_handle e)) = en_name e"
    using accounts_entry(3) [OF ac] by (simp add: describes_def Let_def)
  have "set ps \<subseteq> en_handle ` set L"
  proof
    fix y assume "y \<in> set ps"
    then obtain i where i: "i < length ps" "y = ps ! i" by (auto simp: in_set_conv_nth)
    from assms(6) have "list_all2 (\<lambda>e x. \<exists>nm. find (\<lambda>x. si_name (obj w x) = nm) (map en_handle L) = Some x)
        (take (length ps) (needed_names es)) ps"
      unfolding lacks_library_def Let_def by (elim conjE list_all2_mono) blast
    from list_all2_nthD2 [OF this i(1)] i(2) obtain nm where "find (\<lambda>x. si_name (obj w x) = nm) (map en_handle L) = Some y" by blast
    from find_member [OF this] show "y \<in> en_handle ` set L" by simp
  qed
  note bal = balanced_raised [OF assms(18) this N]
  have "out_log w2 = out_log w0" using logs_sel [OF w2(2)] logs_sel [OF lg] out by simp
  moreover have "s_dlopen os (Suc (Suc n)) (Some name) flags w0 = Some (0, w2)"
    using assms(1,16) run w2(1) by (simp add: s_dlopen_iff do_dlopen_def del: find_library.simps)
  ultimately show ?thesis using ac2 bal by blast
qed

text \<open>
  The file \<open>libfull.so\<close> with a second needed library, \<open>ab\<close>, in place of its initialisation function: \<open>libab.so\<close> is loaded,
  \<open>ab\<close> does not exist.
\<close>

definition lack_bytes :: "u8 list" where
  "lack_bytes = take 192 full_bytes @ [1, 0, 0, 0, 10, 0, 0, 0] @ drop 200 full_bytes"

definition lack_page :: "u8 list" where
  "lack_page = lack_bytes @ replicate 3776 0"

definition lack_dyns :: "Elf32_Dyn list" where
  "lack_dyns = full_dyns[9 := \<lparr>d_tag = 1, d_val = 10\<rparr>]"

definition lack_world :: world where
  "lack_world = full_world\<lparr>mc := (mc full_world)\<lparr>fs := [''libfull.so'' \<mapsto> lack_page]\<rparr>\<rparr>"

definition lack_opened :: mach where
  "lack_opened = (mc lack_world)\<lparr>fds := [Some \<lparr>f_data = lack_page, f_pos = 0\<rparr>, None, None]\<rparr>"

definition lack_memory :: mach where
  "lack_memory = with_image lack_page 0x10000 (mc lack_world)"

definition lack_object :: soinfo where
  "lack_object = image_object lack_memory lack_page 0x10000 lack_dyns"

lemma length_lack_bytes: "length lack_bytes = 320"
  by (simp add: lack_bytes_def length_full_bytes)

lemma lack_headed: "headed lack_page"
  by (simp add: headed_def lack_page_def length_lack_bytes) (simp add: lack_bytes_def length_full_bytes)

lemma lack_bias: "0x10000 - load_min (file_phdrs lack_page) = 0x10000"
  by (simp add: headed_extent [OF lack_headed])

lemma lack_page_nth: "i < 320 \<Longrightarrow> lack_page ! i = lack_bytes ! i"
  by (simp add: lack_page_def nth_append length_lack_bytes)

lemma lack_memory_load8:
  "unat (x - 0x10000) < 320 \<Longrightarrow> load8 lack_memory x = Some (lack_bytes ! unat (x - 0x10000))"
  by (simp add: lack_memory_def load8_with_image image_byte_def headed_phdrs(2) [OF lack_headed] in_block_def seg_addr_def
      full_segment_def lack_page_nth)

lemma lack_reads:
  "dyns_at lack_memory 0x10078 lack_dyns" "str_at lack_memory 0x10131 ''libab.so''" "str_at lack_memory 0x1013A ''ab''"
  "load32 lack_memory 0x100E0 = Some 1" "load32 lack_memory 0x100E4 \<noteq> None"
  by (simp_all add: lack_memory_load8 lack_dyns_def full_dyns_def read_dyn_def load32_def)
    (simp_all add: lack_bytes_def full_bytes_def le32_def char_byte_def)

lemma lack_object_sel: "si_strtab lack_object = 0x10130" "linkable lack_object"
proof -
  have "word_at_addr lack_memory 0x100E0 = 1" using lack_reads(4) by (simp add: word_at_addr_def)
  then have "si_strtab lack_object = 0x10130" "si_nbucket lack_object = 1" "si_symtab lack_object = 0x100F4"
    unfolding lack_object_def image_object_def
    by (simp_all only: lack_bias) (simp_all add: parsed_def dyn_last_def lack_dyns_def full_dyns_def loaded_object_def lack_bias)
  then show "si_strtab lack_object = 0x10130" "linkable lack_object" by (simp_all add: linkable_def)
qed

lemma lack_objs: "obj lack_world x = obj full_world x" "sos lack_world = sos full_world"
  by (simp_all add: lack_world_def obj_def)

lemma lack_world_sel: "fs (mc lack_world) ''libfull.so'' = Some lack_page" "[] \<in> set (gLdPaths lack_world)"
  "c_open ''libfull.so'' (mc lack_world) = (0, lack_opened)" "so_inv lack_world (map en_handle [dl_entry, ab_entry]) [0x30000]"
  "\<forall>x \<in> set (map en_handle [dl_entry, ab_entry]). si_name (obj lack_world x) \<noteq> basename ''libfull.so''"
  using full_world_sel(2,4,5)
  by (simp_all add: lack_world_def lack_opened_def c_open_def so_inv_def obj_def dl_entry_def ab_entry_def)
    (simp add: full_world_def)

lemma lack_accounts: "accounts (file_api lack_page) lack_world [dl_entry, ab_entry]"
proof -
  have "accounts (file_api full_page) lack_world [dl_entry, ab_entry]"
    by (rule accounts_same [OF full_accounts]) (simp_all add: lack_world_def)
  then show ?thesis by (simp add: accounts_def removable_def Let_def file_api_works)
qed

lemma lack_lacks:
  "lacks_library lack_world (map en_handle [dl_entry, ab_entry]) lack_page 0x10000 full_dynamic lack_dyns ''libfull.so'' [0x20000] ''ab''"
proof -
  have h: "map en_handle [dl_entry, ab_entry] = [0x10000, 0x20000]" by (simp add: dl_entry_def ab_entry_def)
  have nm: "si_name (obj lack_world 0x10000) = ''libdl.so''" "si_name (obj lack_world 0x20000) = ''libab.so''"
    unfolding lack_objs full_objs by (simp_all add: demo_defs)
  have lk: "is_linked lack_world 0x20000" unfolding is_linked_def lack_objs by (simp add: full_world_def demo_defs)
  have out: "out_of_reach lack_world [0x10000, 0x20000] ''libfull.so'' ''ab''"
    by (simp add: out_of_reach_def nm basename_def) (simp add: lack_world_def)
  have dyn: "find (\<lambda>ph. p_type ph = PT_DYNAMIC) [full_segment, full_dynamic] = Some full_dynamic" "p_vaddr full_dynamic = 120"
    by (simp_all add: full_segment_def full_dynamic_def)
  have acc: "\<forall>e \<in> set lack_dyns. dyn_accepted lack_memory 0x10000 e"
    using lack_reads(4,5) by (simp add: lack_dyns_def full_dyns_def dyn_accepted_def)
  have names: "needed_names lack_dyns = [\<lparr>d_tag = 1, d_val = 1\<rparr>, \<lparr>d_tag = 1, d_val = 10\<rparr>]"
    by (simp add: needed_names_def lack_dyns_def full_dyns_def)
  have one: "\<exists>name. str_at lack_memory 0x10131 name \<and>
      find (\<lambda>x. si_name (obj lack_world x) = basename name) [0x10000, 0x20000] = Some 0x20000 \<and> is_linked lack_world 0x20000"
    using lack_reads(2) by (intro exI [of _ "''libab.so''"]) (simp add: nm lk basename_def)
  show ?thesis
    unfolding lacks_library_def Let_def lack_bias h
    unfolding lack_memory_def [symmetric] lack_object_def [symmetric] headed_phdrs(1) [OF lack_headed]
    using dyn lack_reads(1,3) acc lack_object_sel out one by (simp add: names)
qed

lemma page_grants:
  assumes "fd_file m fd \<noteq> None" and "\<And>x. in_block 0x1000 4096 x \<or> in_block 0x10000 4096 x \<Longrightarrow> load8 m x = None"
    and "\<And>x. vwr m x" and "length bs = 4096"
  shows "\<exists>m1 m2. view_granted (file_api bs) fd bs 0 4096 m 0x1000 m1 \<and> block_granted (file_api bs) 4096 m1 0x10000 m2"
proof -
  let ?m1 = "m\<lparr>vbytes := (\<lambda>x. if in_block 0x1000 4096 x then Some (bs ! unat (x - 0x1000)) else vbytes m x)\<rparr>"
  have v: "view_granted (file_api bs) fd bs 0 4096 m 0x1000 ?m1" by (rule file_api_view) (use assms in simp_all)
  have "load8 ?m1 x = None" if "in_block 0x10000 4096 x" for x
    using that assms(2) [of x] by (simp add: load8_def in_block_no_wrap)
  with v file_api_block [of ?m1 bs] assms(3) show ?thesis by fastforce
qed

lemma dlopen_missing_needed_witness:
  "\<exists>w'. s_dlopen (file_api lack_page) 2 (Some ''libfull.so'') 0 lack_world = Some (0, w') \<and>
     accounts (file_api lack_page) w' [dl_entry, ab_entry\<lparr>en_count := 2\<rparr>] \<and>
     balanced (\<lambda>_. 0) {} {#''libab.so'', ''libab.so''#} [dl_entry, ab_entry\<lparr>en_count := 2\<rparr>] \<and> out_log w' = out_log lack_world"
proof -
  let ?L = "[dl_entry, ab_entry]" and ?m = "set_fd 0 (Some \<lparr>f_data = lack_page, f_pos = 52\<rparr>) lack_opened"
  have "length lack_page = 4096" using lack_headed by (simp add: headed_def)
  moreover have "fd_file ?m 0 \<noteq> None" by (simp add: set_fd_def fd_file_def lack_opened_def)
  moreover have "load8 ?m x = None" if "in_block 0x1000 4096 x \<or> in_block 0x10000 4096 x" for x
    using that by (auto simp: load8_def lack_opened_def lack_world_def full_world_def mem_of_def in_block_no_wrap length_demo_tables)
  moreover have "vwr ?m x" for x by (simp add: lack_opened_def lack_world_def full_world_def mem_of_def)
  ultimately obtain m1 m2 where v: "view_granted (file_api lack_page) 0 lack_page 0 4096 ?m 0x1000 m1"
    and b: "block_granted (file_api lack_page) 4096 m1 0x10000 m2" using page_grants [of ?m 0 lack_page] by blast
  have un: "set_soinfo_pool_protection (file_api lack_page) (PROT_READ OR PROT_WRITE) lack_world = Some lack_world"
    by (simp add: set_soinfo_pool_protection_def lack_world_def full_world_def demo_libs_def demo_registry_def)
  have pr: "protect_works (file_api lack_page)" using file_api_works(2) by (simp add: protects_def protect_works_def)
  have cnt: "\<forall>e \<in> set ?L. en_count e + count_list [0x20000] (en_handle e) < 4294967296"
    by (simp add: dl_entry_def ab_entry_def)
  have raised: "raise_counts [0x20000] ?L = [dl_entry, ab_entry\<lparr>en_count := 2\<rparr>]"
    by (simp add: raise_counts_def dl_entry_def ab_entry_def)
  have names: "map (\<lambda>x. si_name (obj lack_world x)) [0x20000] = [''libab.so'']" by (simp add: lack_objs full_objs) (simp add: demo_defs)
  have lk: "lacks_library lack_world (map en_handle ?L) lack_page 0x10000 full_dynamic lack_dyns (basename ''libfull.so'') [0x20000] ''ab''"
    using lack_lacks by (simp only: full_name(3))
  from dlopen_missing_needed [where os = "file_api lack_page" and n = 0 and flags = 0 and L = ?L,
      OF un pr lack_world_sel(1,2) headed_elf [OF lack_headed] lk lack_world_sel(3),
      unfolded headed_table [OF lack_headed], OF v b file_api_works(1) file_api_works(1) lack_world_sel(4) full_name(1,2)
      lack_world_sel(5) _ lack_accounts full_balanced cnt, unfolded raised names numeral_2_eq_2 [symmetric]]
  show ?thesis by simp
qed

end
