(* ===== verification/Load_Nested.thy ===== *)
theory Load_Nested
  imports Load_Linked
begin

text \<open>
  Loading a library together with the libraries that it needs.  When the second walk over the dynamic section calls
  \<open>find_library\<close>, this may load a file in its turn.  The rule here composes such calls: whatever way the needed
  libraries are found, when each call leaves the library that is being linked undisturbed, the library is linked
  against them; and the whole call is again one that leaves the others undisturbed, so that the rule applies to a
  library that needs this one.
\<close>

section \<open>Calls for the needed libraries\<close>

text \<open>What a call leaves of a library: all but its link and its count; and all memory that is mapped.\<close>

definition undisturbed :: "u32 \<Rightarrow> world \<Rightarrow> world \<Rightarrow> bool" where
  "undisturbed si w w' \<longleftrightarrow>
     mach_le (mc w) (mc w') \<and> (\<exists>k c. sos w' si = map_option (\<lambda>s. s\<lparr>si_next := k, si_ref_count := c\<rparr>) (sos w si))"

lemma undisturbed_trans:
  assumes "undisturbed si w w1" and "undisturbed si w1 w2"
  shows "undisturbed si w w2"
proof -
  obtain k c j d where "sos w1 si = map_option (\<lambda>s. s\<lparr>si_next := k, si_ref_count := c\<rparr>) (sos w si)"
    "sos w2 si = map_option (\<lambda>s. s\<lparr>si_next := j, si_ref_count := d\<rparr>) (sos w1 si)"
    using assms by (auto simp: undisturbed_def)
  then have "sos w2 si = map_option (\<lambda>s. s\<lparr>si_next := j, si_ref_count := d\<rparr>) (sos w si)"
    by (cases "sos w si") simp_all
  moreover have "mach_le (mc w) (mc w2)" using assms by (auto simp: undisturbed_def mach_le_def intro: map_le_trans)
  ultimately show ?thesis by (auto simp: undisturbed_def)
qed

lemma undisturbed_obj:
  assumes "undisturbed si w w'" and "sos w si = Some s"
  shows "\<exists>k c. sos w' si = Some (s\<lparr>si_next := k, si_ref_count := c\<rparr>)"
  using assms by (auto simp: undisturbed_def)

lemma undisturbed_refl: "undisturbed si w w"
proof -
  have "\<exists>k c. sos w si = map_option (\<lambda>s. s\<lparr>si_next := k, si_ref_count := c\<rparr>) (sos w si)"
  proof (cases "sos w si")
    case (Some s)
    then show ?thesis by (intro exI [of _ "si_next s"] exI [of _ "si_ref_count s"]) simp
  qed simp
  then show ?thesis by (simp add: undisturbed_def)
qed

text \<open>The calls of \<open>find_library\<close> for the names, one after the other, from \<open>w\<close>: all succeed, with the libraries \<open>ps\<close>.\<close>

fun found :: "win_api \<Rightarrow> nat \<Rightarrow> u32 \<Rightarrow> string list \<Rightarrow> world \<Rightarrow> u32 list \<Rightarrow> world \<Rightarrow> bool" where
  "found os n si [] w ps w' \<longleftrightarrow> ps = [] \<and> w' = w"
| "found os n si (name # names) w ps w' \<longleftrightarrow>
     (case (ps, find_library os n (Some name) w) of
        (p # qs, Some (x, w1)) \<Rightarrow> x = p \<and> p \<noteq> 0 \<and> undisturbed si w w1 \<and> found os n si names w1 qs w'
      | _ \<Rightarrow> False)"

lemma found_undisturbed: "found os n si names w ps w' \<Longrightarrow> undisturbed si w w'"
proof (induction names arbitrary: w ps)
  case Nil
  then show ?case by (simp add: undisturbed_refl)
next
  case (Cons name names)
  then show ?case by (auto split: list.splits option.splits intro: undisturbed_trans)
qed

lemma walk_found:
  assumes "sos w si = Some s" and "found os n si names w ps w'" and "dyns_at h a es" and "mach_le h (mc w)"
    and "list_all2 (\<lambda>e name. str_at h (si_strtab s + d_val e) name) (needed_names es) names"
  shows "walk_dyn (\<lambda>st. mc (snd st)) (need_dyn (find_library os n) si) a (acc, w) = Some (True, acc @ ps, w')"
  using assms
proof (induction es arbitrary: a acc names ps w s)
  case Nil
  then have "\<exists>v. read_dyn (mc w) a = Some \<lparr>d_tag = DT_NULL, d_val = v\<rparr>"
    using shows_more.read_dyn_more [OF shows_more.intro [OF Nil.prems(4)]] by fastforce
  with Nil.prems(2,5) show ?case by (subst walk_dyn.simps) (auto simp: needed_names_def)
next
  case (Cons e es)
  have e: "read_dyn (mc w) a = Some e" "d_tag e \<noteq> DT_NULL" "dyns_at h (a + sizeof_Dyn) es"
    using Cons.prems(3) shows_more.read_dyn_more [OF shows_more.intro [OF Cons.prems(4)]] by (simp_all del: DT_NULL_def)
  show ?case
  proof (cases "d_tag e = DT_NEEDED")
    case False
    with Cons.prems(5) have "list_all2 (\<lambda>e name. str_at h (si_strtab s + d_val e) name) (needed_names es) names"
      by (simp add: needed_names_def)
    from Cons.IH [OF Cons.prems(1,2) e(3) Cons.prems(4) this] e False show ?thesis
      by (subst walk_dyn.simps) (simp add: need_dyn_other del: find_library.simps)
  next
    case True
    with Cons.prems(5) obtain name rest where nm: "names = name # rest" "str_at h (si_strtab s + d_val e) name"
      and r: "list_all2 (\<lambda>e name. str_at h (si_strtab s + d_val e) name) (needed_names es) rest"
      by (auto simp: needed_names_def list_all2_Cons1)
    obtain p qs w1 where ps: "ps = p # qs" and f: "find_library os n (Some name) w = Some (p, w1)" "p \<noteq> 0"
      and u: "undisturbed si w w1" and fr: "found os n si rest w1 qs w'"
      using Cons.prems(2) unfolding nm(1) by (auto split: list.splits option.splits)
    have "str_at (mc w) (si_strtab s + d_val e) name"
      by (rule shows_more.str_at_more [OF shows_more.intro [OF Cons.prems(4)] nm(2)])
    then have one: "need_dyn (find_library os n) si e (acc, w) = Some (True, acc @ [p], w1)"
      using Cons.prems(1) True f cstr_str_at by (simp add: need_dyn_def del: find_library.simps)
    obtain k c where s1: "sos w1 si = Some (s\<lparr>si_next := k, si_ref_count := c\<rparr>)"
      using undisturbed_obj [OF u Cons.prems(1)] by blast
    have "mach_le h (mc w1)" using Cons.prems(4) u by (auto simp: undisturbed_def mach_le_def intro: map_le_trans)
    from Cons.IH [OF s1 fr e(3) this, of "acc @ [p]"] r one e(1,2) show ?thesis
      by (subst walk_dyn.simps) (simp add: ps del: find_library.simps)
  qed
qed

section \<open>The state between the walks\<close>

text \<open>The state in which the second walk starts: the fields of the dynamic section are set.\<close>

definition before_needs :: "world \<Rightarrow> u32 \<Rightarrow> u32 \<Rightarrow> Elf32_Dyn list \<Rightarrow> world" where
  "before_needs w si dyn es =
     (let s = obj w si;
          (x, c) = (case phdr_table_get_arm_exidx (mc w) (si_phdr s) (unat (si_phnum s)) (si_load_bias s) of
                      Some (_, x, c) \<Rightarrow> (x, c) | None \<Rightarrow> (0, 0))
      in put_si si (parsed (mc w) (si_load_bias s) es (s\<lparr>si_dynamic := dyn, si_ARM_exidx := x, si_ARM_exidx_count := c\<rparr>)) w)"

lemma link_found:
  assumes s: "sos w si = Some s" "si_flags s = 0"
    and dyn: "phdr_table_get_dynamic_section (mc w) (si_phdr s) (unat (si_phnum s)) (si_load_bias s) = Some (dyn, x)"
    and nz: "dyn \<noteq> 0"
    and ex: "phdr_table_get_arm_exidx (mc w) (si_phdr s) (unat (si_phnum s)) (si_load_bias s) = Some (r, a, c)"
    and es: "dyns_at (mc w) dyn es" "\<forall>e \<in> set es. dyn_accepted (mc w) (si_load_bias s) e"
    and s': "s' = parsed (mc w) (si_load_bias s) es (s\<lparr>si_dynamic := dyn, si_ARM_exidx := a, si_ARM_exidx_count := c\<rparr>)"
    and lk: "linkable s'" and nm: "list_all2 (\<lambda>e name. str_at (mc w) (si_strtab s' + d_val e) name) (needed_names es) names"
    and f: "found os n si names (put_si si s' w) ps w'"
  shows "soinfo_link_image os (find_library os n) si breloc w = relocate_image os si breloc ps w'"
    and "before_needs w si dyn es = put_si si s' w"
proof -
  obtain cnt fg where x: "x = (cnt, fg)" by (cases x)
  have w1: "walk_dyn (\<lambda>_. mc w) (parse_dyn (mc w) (si_load_bias s)) dyn
      (s\<lparr>si_dynamic := dyn, si_ARM_exidx := a, si_ARM_exidx_count := c\<rparr>, 0) =
      Some (True, s', 0 + of_nat (length (needed_names es)))"
    unfolding s' by (simp only: parse_dyn_mem [OF es(1)] run_parse [OF es(2)])
  have w2: "walk_dyn (\<lambda>st. mc (snd st)) (need_dyn (find_library os n) si) dyn ([], put_si si s' w) = Some (True, ps, w')"
    using walk_found [of "put_si si s' w" si s' os n names ps w' "mc w" dyn es "[]"] f es(1) nm by (simp add: put_si_def)
  have fl: "si_flags s' = 0" using s(2) by (simp add: s')
  show "soinfo_link_image os (find_library os n) si breloc w = relocate_image os si breloc ps w'"
    using s dyn nz ex lk fl by (simp add: soinfo_link_image_def x w1 w2 Let_def linkable_def del: find_library.simps)
  show "before_needs w si dyn es = put_si si s' w"
    using s(1) ex by (simp add: before_needs_def obj_def s')
qed

section \<open>The whole call\<close>

text \<open>What the file must say, but for its relocations; \<open>names\<close> are the libraries that it needs.\<close>

definition needs_by_name :: "world \<Rightarrow> u8 list \<Rightarrow> u32 \<Rightarrow> Elf32_Phdr \<Rightarrow> Elf32_Dyn list \<Rightarrow> string list \<Rightarrow> bool" where
  "needs_by_name w bs p q es names \<longleftrightarrow>
     (let bias = p - load_min (file_phdrs bs); E = with_image bs bias (mc w); s = image_object E bs p es
      in find (\<lambda>ph. p_type ph = PT_DYNAMIC) (file_phdrs bs) = Some q \<and> bias + p_vaddr q \<noteq> 0 \<and>
         dyns_at E (bias + p_vaddr q) es \<and> (\<forall>e \<in> set es. dyn_accepted E bias e \<and> d_tag e \<noteq> DT_TEXTREL) \<and> linkable s \<and>
         list_all2 (\<lambda>e name. str_at E (si_strtab s + d_val e) name) (needed_names es) names)"

text \<open>What its relocations must be, in the state in which the needed libraries \<open>ps\<close> have been found.\<close>

definition relocatable ::
  "world \<Rightarrow> u8 list \<Rightarrow> u32 \<Rightarrow> u32 \<Rightarrow> u32 list \<Rightarrow> Elf32_Rel list \<Rightarrow> Elf32_Rel list \<Rightarrow> (Elf32_Rel \<Rightarrow> u32) \<Rightarrow> bool" where
  "relocatable w bs p si ps rs qs val \<longleftrightarrow>
     (let s = obj w si; h = hide (place_bytes s (rs @ qs)) (mc w)
      in table_at h (si_plt_rel s) (si_plt_rel_count s) rs \<and> table_at h (si_rel s) (si_rel_count s) qs \<and>
         places_apart s (rs @ qs) \<and> entries_ready h w si s ps (rs @ qs) val \<and> phdrs_at h (si_phdr s) (file_phdrs bs) \<and>
         (\<forall>r \<in> set (rs @ qs). in_image bs (p - load_min (file_phdrs bs)) (place s r) 4))"

lemma finds_nested:
  fixes w w1 w3 :: world
  assumes disk: "fs (mc w) name = Some bs" and path: "[] \<in> set (gLdPaths w)" and ef: "elf_file bs"
    and lk: "needs_by_name w bs p q es names" and op: "c_open name (mc w) = (fd, m0)"
    and v: "view_granted os fd bs (PAGE_START (e_phoff (file_header bs)))
      (table_len (e_phoff (file_header bs)) (length (file_phdrs bs))) (set_fd fd (Some \<lparr>f_data = bs, f_pos = 52\<rparr>) m0) a m1"
    and b: "block_granted os (load_max (file_phdrs bs) - load_min (file_phdrs bs)) m1 p m2"
    and u: "unmaps_view os a (unat (table_len (e_phoff (file_header bs)) (length (file_phdrs bs))))" and os: "protects os"
    and inv: "so_inv w LS (f # FL)" and nm: "no_nul (basename name)" "length (basename name) < 128"
    and new: "\<forall>x \<in> set LS. si_name (obj w x) \<noteq> basename name" and ll: "load_library os name w = Some (f, w1)"
    and fnd: "found os (Suc n) f names (before_needs w1 f (p - load_min (file_phdrs bs) + p_vaddr q) es) ps w3"
    and rel: "relocatable w3 bs p f ps rs qs val"
  shows "\<exists>m s. find_library os (Suc (Suc n)) (Some name) w = Some (f, w3\<lparr>sos := (sos w3)(f \<mapsto> s), mc := m\<rparr>) \<and>
    s = (obj w3 f)\<lparr>si_flags := FLAG_LINKED, si_ref_count := si_ref_count (obj w3 f) + 1\<rparr> \<and>
    (\<forall>r \<in> set (rs @ qs). load32 m (place s r) = Some (val r)) \<and>
    (\<forall>x. x \<notin> place_bytes s (rs @ qs) \<longrightarrow> load8 m x = load8 (mc w3) x) \<and> mach_le (mc w) m \<and> mach_le (mc w) (mc w3) \<and>
    (\<forall>x \<in> set LS. undisturbed x (before_needs w1 f (p - load_min (file_phdrs bs) + p_vaddr q) es) w3 \<longrightarrow>
       undisturbed x w (w3\<lparr>sos := (sos w3)(f \<mapsto> s), mc := m\<rparr>))"
proof -
  let ?ps = "file_phdrs bs"
  let ?bias = "p - load_min ?ps" and ?n = "unat (load_max ?ps - load_min ?ps)"
  let ?E = "with_image bs ?bias (mc w)"
  let ?s0 = "image_object ?E bs p es"
  note L = lk [unfolded needs_by_name_def Let_def]
  have "find (\<lambda>x. basename name = si_name (obj w x)) LS = None" using new by (auto simp: find_None_iff)
  then have none: "find_loaded_library name w = Some 0" using find_loaded_library_eq [OF inv, of name] by (simp add: ptr_of_def)
  obtain l where inv1: "so_inv w1 (LS @ [f]) FL" and lw: "loaded_world w LS (basename name) bs p l f w1"
    using loads_world [OF disk path ef op v b u inv nm] ll by auto
  note W = lw [unfolded loaded_world_def]
  have dis: "f \<notin> set LS" "f \<noteq> 0" using so_invD(3) [OF inv1] so_inv_live [OF inv1, of f] by auto
  have Ele: "mach_le ?E (mc w1)" by (rule loaded_shows [OF lw])
  have pq: "find (\<lambda>ph. p_type ph = PT_DYNAMIC) ?ps = Some q" "dyns_at ?E (?bias + p_vaddr q) es"
    "\<forall>e \<in> set es. dyn_accepted ?E ?bias e" and notext: "\<forall>e \<in> set es. d_tag e \<noteq> DT_TEXTREL" using L by blast+
  obtain r x c fg where dyn: "phdr_table_get_dynamic_section (mc w1) l (length ?ps) ?bias = Some (?bias + p_vaddr q, fg)"
    and ex: "phdr_table_get_arm_exidx (mc w1) l (length ?ps) ?bias = Some (r, x, c)"
    and es: "dyns_at (mc w1) (?bias + p_vaddr q) es" and acc: "\<forall>e \<in> set es. dyn_accepted (mc w1) ?bias e"
    and t: "?s0\<lparr>si_name := basename name, si_phdr := l, si_dynamic := ?bias + p_vaddr q, si_ARM_exidx := x, si_ARM_exidx_count := c\<rparr> =
      parsed (mc w1) ?bias es ((loaded_object (basename name) bs p l)\<lparr>si_dynamic := ?bias + p_vaddr q, si_ARM_exidx := x, si_ARM_exidx_count := c\<rparr>)"
    using image_parses [OF lw _ pq] by auto
  let ?t = "?s0\<lparr>si_name := basename name, si_phdr := l, si_dynamic := ?bias + p_vaddr q, si_ARM_exidx := x, si_ARM_exidx_count := c\<rparr>"
  have sl: "si_flags (loaded_object (basename name) bs p l) = 0" "si_load_bias (loaded_object (basename name) bs p l) = ?bias"
    "si_phdr (loaded_object (basename name) bs p l) = l" "unat (si_phnum (loaded_object (basename name) bs p l)) = length ?ps"
    by (simp_all add: loaded_object_def zero_soinfo_def file_phdrs_def)
  have s1: "sos w1 f = Some (loaded_object (basename name) bs p l)" using W by simp
  have str: "si_strtab ?t = si_strtab ?s0" by simp
  have nz: "?bias + p_vaddr q \<noteq> 0" and lt: "linkable ?t" using L by (simp_all add: linkable_def)
  have "list_all2 (\<lambda>e name. str_at ?E (si_strtab ?s0 + d_val e) name) (needed_names es) names" using L by blast
  then have nms: "list_all2 (\<lambda>e name. str_at (mc w1) (si_strtab ?t + d_val e) name) (needed_names es) names"
    unfolding str by (rule list_all2_mono) (rule shows_more.str_at_more [OF shows_more.intro [OF Ele]])
  have bn: "before_needs w1 f (?bias + p_vaddr q) es = put_si f ?t w1"
    using s1 ex t sl by (simp add: before_needs_def obj_def)
  note fnd' = fnd [unfolded bn]
  have link: "soinfo_link_image os (find_library os (Suc n)) f True w1 = relocate_image os f True ps w3"
    by (rule link_found(1) [OF s1 sl(1), unfolded sl(2-4), OF dyn nz ex es acc t lt nms fnd'])
  obtain k j where s3: "sos w3 f = Some (?t\<lparr>si_next := k, si_ref_count := j\<rparr>)"
    using undisturbed_obj [OF found_undisturbed [OF fnd'], of ?t] by (auto simp: put_si_def)
  let ?s3 = "?t\<lparr>si_next := k, si_ref_count := j\<rparr>"
  have o3: "obj w3 f = ?s3" by (simp add: obj_def s3)
  have le3: "mach_le (mc w1) (mc w3)" using found_undisturbed [OF fnd'] by (simp add: undisturbed_def put_si_def)
  note R = rel [unfolded relocatable_def Let_def o3]
  have tx: "\<not> si_has_text_relocations ?s3"
    using notext by (simp add: image_object_def parsed_def dyn_last_none loaded_object_def zero_soinfo_def)
  have fl: "si_flags ?s3 = 0" by simp
  have len: "length ?ps = unat (si_phnum ?s3)" by (simp add: file_phdrs_def)
  obtain m where run: "relocate_image os f True ps w3 =
        Some (True, w3\<lparr>sos := (sos w3)(f \<mapsto> ?s3\<lparr>si_flags := si_flags ?s3 OR FLAG_LINKED\<rparr>), mc := m\<rparr>)"
    and vals: "\<forall>r \<in> set (rs @ qs). load32 m (place ?s3 r) = Some (val r)"
    and fr: "\<forall>x. x \<notin> place_bytes ?s3 (rs @ qs) \<longrightarrow> load8 m x = load8 (mc w3) x"
    using image_relocated [OF s3 tx hide_le _ _ _ _ os _ len] R by blast
  let ?s = "?s3\<lparr>si_flags := FLAG_LINKED, si_ref_count := j + 1\<rparr>"
  let ?w' = "w3\<lparr>sos := (sos w3)(f \<mapsto> ?s), mc := m\<rparr>"
  have run': "find_library os (Suc (Suc n)) (Some name) w = Some (f, ?w')"
    unfolding find_library.simps(2) [of os "Suc n"]
    using none ll dis(2) link run fl
    by (simp add: find_library_internal_def upd_si_def del: find_library.simps)
  have pl: "place ?s = place ?s3" by (simp add: place_def fun_eq_iff)
  then have pb: "place_bytes ?s rs = place_bytes ?s3 rs" for rs by (simp add: place_bytes_def)
  have wle3: "mach_le (mc w) (mc w3)"
  proof -
    have "mach_le (mc w) (mc w1)"
      unfolding mach_le_def map_le_def using W by (auto simp: load8_def dom_def)
    with le3 show ?thesis by (auto simp: mach_le_def intro: map_le_trans)
  qed
  have tab: "phdrs_at (mc w1) l ?ps" using W by (simp add: image_at_def)
  have wle: "mach_le (mc w) m"
  proof (rule mach_le_outside [OF wle3 fr], intro ballI)
    fix y assume "y \<in> place_bytes ?s3 (rs @ qs)"
    then obtain r where r: "r \<in> set (rs @ qs)" "in_block (place ?s3 r) 4 y" by (auto simp: place_bytes_def)
    then have "in_block p ?n y" using in_image_inside(1) [OF ef tab b _ r(2)] R by blast
    then show "load8 (mc w) y = None" using W by blast
  qed
  have un: "undisturbed y w ?w'" if y: "y \<in> set LS" and uy: "undisturbed y (put_si f ?t w1) w3" for y
  proof -
    have ne: "y \<noteq> f" using y dis(1) by auto
    obtain k1 where a: "sos w1 y = map_option (\<lambda>s. s\<lparr>si_next := k1\<rparr>) (sos w y)" using W y by blast
    obtain k2 c2 where "sos w3 y = map_option (\<lambda>s. s\<lparr>si_next := k2, si_ref_count := c2\<rparr>) (sos w1 y)"
      using uy ne by (auto simp: undisturbed_def put_si_def)
    then have "sos ?w' y = map_option (\<lambda>s. s\<lparr>si_next := k2, si_ref_count := c2\<rparr>) (sos w y)"
      using a ne by (cases "sos w y") simp_all
    with wle show ?thesis by (auto simp: undisturbed_def)
  qed
  have s: "?s = (obj w3 f)\<lparr>si_flags := FLAG_LINKED, si_ref_count := si_ref_count (obj w3 f) + 1\<rparr>" by (simp add: o3)
  have vals': "\<forall>r \<in> set (rs @ qs). load32 m (place ?s r) = Some (val r)" using vals by (simp only: pl)
  have fr': "\<forall>x. x \<notin> place_bytes ?s (rs @ qs) \<longrightarrow> load8 m x = load8 (mc w3) x" using fr by (simp only: pb)
  show ?thesis unfolding bn using run' s vals' fr' wle wle3 un by blast
qed

lemma before_needs_keeps:
  fixes w :: world
  assumes s: "sos w si = Some s"
  shows "mc (before_needs w si dyn es) = mc w" "gLdPaths (before_needs w si dyn es) = gLdPaths w"
    "x \<noteq> si \<Longrightarrow> sos (before_needs w si dyn es) x = sos w x" "so_inv (before_needs w si dyn es) LS FL = so_inv w LS FL"
    "\<exists>x c. sos (before_needs w si dyn es) si =
      Some (parsed (mc w) (si_load_bias s) es (s\<lparr>si_dynamic := dyn, si_ARM_exidx := x, si_ARM_exidx_count := c\<rparr>))"
proof -
  obtain x c where xc: "(case phdr_table_get_arm_exidx (mc w) (si_phdr s) (unat (si_phnum s)) (si_load_bias s) of
      Some (_, x, c) \<Rightarrow> (x, c) | None \<Rightarrow> (0, 0)) = (x, c)" by (cases "case phdr_table_get_arm_exidx (mc w) (si_phdr s) (unat (si_phnum s)) (si_load_bias s) of
      Some (_, x, c) \<Rightarrow> (x, c) | None \<Rightarrow> (0, 0)")
  let ?t = "parsed (mc w) (si_load_bias s) es (s\<lparr>si_dynamic := dyn, si_ARM_exidx := x, si_ARM_exidx_count := c\<rparr>)"
  have b: "before_needs w si dyn es = put_si si ?t w" using xc by (simp add: before_needs_def obj_def s)
  show "mc (before_needs w si dyn es) = mc w" "gLdPaths (before_needs w si dyn es) = gLdPaths w"
    "x \<noteq> si \<Longrightarrow> sos (before_needs w si dyn es) x = sos w x" for x by (simp_all add: b put_si_def)
  show "so_inv (before_needs w si dyn es) LS FL = so_inv w LS FL"
    by (rule so_inv_links) (simp_all add: b put_si_def s)
  show "\<exists>x c. sos (before_needs w si dyn es) si =
      Some (parsed (mc w) (si_load_bias s) es (s\<lparr>si_dynamic := dyn, si_ARM_exidx := x, si_ARM_exidx_count := c\<rparr>))"
    by (auto simp: b put_si_def)
qed

section \<open>Properties\<close>

text \<open>
  C3: \<open>find_library\<close> loads a library together with the libraries that it needs.  It loads the file, calls itself for
  the needed names in their order, and, when each of these calls finds its library (by loading it, or in the list) and leaves
  the new library undisturbed, applies the relocations in the state that they leave: every place holds the value
  computed there, nothing else of that state changes but the flag and the count of the new library.  All that was
  mapped before is still mapped with the same contents, and a library that the calls leave undisturbed is undisturbed by the
  whole call, so that the rule applies again where the new library is itself needed by one that is being linked.
\<close>

theorem find_library_nested:
  assumes "fs (mc w) name = Some bs" and "[] \<in> set (gLdPaths w)" and "elf_file bs"
    and "needs_by_name w bs p q es names" and "c_open name (mc w) = (fd, m0)"
    and "view_granted os fd bs (PAGE_START (e_phoff (file_header bs)))
      (table_len (e_phoff (file_header bs)) (length (file_phdrs bs))) (set_fd fd (Some \<lparr>f_data = bs, f_pos = 52\<rparr>) m0) a m1"
    and "block_granted os (load_max (file_phdrs bs) - load_min (file_phdrs bs)) m1 p m2"
    and "unmaps_view os a (unat (table_len (e_phoff (file_header bs)) (length (file_phdrs bs))))" and "protects os"
    and "so_inv w LS (f # FL)" and "no_nul (basename name)" and "length (basename name) < 128"
    and "\<forall>x \<in> set LS. si_name (obj w x) \<noteq> basename name" and "load_library os name w = Some (f, w1)"
    and "found os (Suc n) f names (before_needs w1 f (p - load_min (file_phdrs bs) + p_vaddr q) es) ps w3"
    and "relocatable w3 bs p f ps rs qs val"
  shows "\<exists>m s. find_library os (Suc (Suc n)) (Some name) w = Some (f, w3\<lparr>sos := (sos w3)(f \<mapsto> s), mc := m\<rparr>) \<and>
    s = (obj w3 f)\<lparr>si_flags := FLAG_LINKED, si_ref_count := si_ref_count (obj w3 f) + 1\<rparr> \<and>
    (\<forall>r \<in> set (rs @ qs). load32 m (place s r) = Some (val r)) \<and>
    (\<forall>x. x \<notin> place_bytes s (rs @ qs) \<longrightarrow> load8 m x = load8 (mc w3) x) \<and> mach_le (mc w) m \<and>
    (\<forall>x \<in> set LS. undisturbed x (before_needs w1 f (p - load_min (file_phdrs bs) + p_vaddr q) es) w3 \<longrightarrow>
       undisturbed x w (w3\<lparr>sos := (sos w3)(f \<mapsto> s), mc := m\<rparr>))"
  using finds_nested [OF assms] by blast

text \<open>The file \<open>libfull.so\<close> without relocations, which needs the library \<open>ab\<close>; both are on disk, \<open>ab\<close> with the contents of \<open>liba.so\<close>.\<close>

definition nest_bytes :: "u8 list" where
  "nest_bytes = take 124 full_bytes @ [10] @ take 27 (drop 125 full_bytes) @ [21] @ take 15 (drop 153 full_bytes) @ [21] @
     drop 169 full_bytes"

definition nest_page :: "u8 list" where
  "nest_page = nest_bytes @ replicate 3776 0"

definition nest_dyns :: "Elf32_Dyn list" where
  "nest_dyns = full_dyns[0 := \<lparr>d_tag = 1, d_val = 10\<rparr>, 4 := \<lparr>d_tag = 21, d_val = 276\<rparr>, 6 := \<lparr>d_tag = 21, d_val = 284\<rparr>]"

definition nest_world :: world where
  "nest_world = full_world\<lparr>sos := (sos full_world)(0x30000 \<mapsto> zero_soinfo\<lparr>si_next := 0x40000\<rparr>, 0x40000 \<mapsto> zero_soinfo),
     mc := (mc full_world)\<lparr>fs := [''libfull.so'' \<mapsto> nest_page, ''ab'' \<mapsto> leaf_page]\<rparr>\<rparr>"

definition nest_opened :: mach where
  "nest_opened = (mc nest_world)\<lparr>fds := [Some \<lparr>f_data = nest_page, f_pos = 0\<rparr>, None, None]\<rparr>"

definition nest_memory :: mach where
  "nest_memory = with_image nest_page 0x10000 (mc nest_world)"

definition nest_object :: soinfo where
  "nest_object = image_object nest_memory nest_page 0x10000 nest_dyns"

text \<open>A system that puts the second library beside the first.\<close>

definition shows_at :: "u32 \<Rightarrow> (nat \<Rightarrow> u8) \<Rightarrow> mach \<Rightarrow> mach" where
  "shows_at a g m = m\<lparr>vbytes := (\<lambda>x. if in_block a 4096 x then Some (g (unat (x - a))) else vbytes m x),
     vwr := (\<lambda>x. in_block a 4096 x \<or> vwr m x)\<rparr>"

definition nest_api :: win_api where
  "nest_api = demo_api\<lparr>
     MapViewOfFile := (\<lambda>h acc hi lo l m. if load8 m 0x10000 = None then (0x1000, shows_at 0x1000 (\<lambda>i. nest_page ! i) m)
       else (0x2000, shows_at 0x2000 (\<lambda>i. leaf_page ! i) m)),
     VirtualAlloc := (\<lambda>a l t p m. if load8 m 0x10000 = None then (0x10000, shows_at 0x10000 (\<lambda>_. 0) m)
       else (0x20000, shows_at 0x20000 (\<lambda>_. 0) m))\<rparr>"

lemma load8_shows_at: "load8 (shows_at a g m) x = (if in_block a 4096 x then Some (g (unat (x - a))) else load8 m x)"
  by (simp add: shows_at_def load8_def)

lemma nest_view:
  assumes "fd_file m fd \<noteq> None" and "\<And>x. in_block a 4096 x \<Longrightarrow> load8 m x = None" and "length bs = 4096"
    and "(a, bs) = (if load8 m 0x10000 = None then (0x1000, nest_page) else (0x2000, leaf_page))"
  shows "view_granted nest_api fd bs 0 4096 m a (shows_at a (\<lambda>i. bs ! i) m)"
proof -
  have "same_outside m (shows_at a (\<lambda>i. bs ! i) m) a 4096" by (simp add: same_outside_def shows_at_def load8_def)
  moreover have "load8 (shows_at a (\<lambda>i. bs ! i) m) (a + of_nat i) = Some (bs ! i)" if "i < 4096" for i
    using that by (simp add: load8_shows_at in_block_offset unat_of_nat_u32)
  moreover have map: "MapViewOfFile nest_api h acc hi lo l m = (a, shows_at a (\<lambda>i. bs ! i) m)" for h acc hi lo l
    using assms(4) by (cases "load8 m 0x10000 = None") (simp_all add: nest_api_def)
  moreover have "a \<noteq> 0" "4096 dvd unat a" "unat a + 4096 \<le> 4294967296" using assms(4) by (simp_all split: if_splits)
  moreover have api: "get_osfhandle nest_api fd m = 0x80" "CreateFileMappingA nest_api h k hi lo m = (0x40, m)"
    "CloseHandle nest_api h m' = m'" for h k hi lo m'
    using assms(1) by (simp_all add: nest_api_def demo_api_def)
  ultimately show ?thesis
    using assms(2,3) by (simp add: view_granted_def fresh_block_def)
qed

lemma nest_block:
  assumes "\<And>x. in_block p 4096 x \<Longrightarrow> load8 m x = None" and "p = (if load8 m 0x10000 = None then 0x10000 else 0x20000)"
  shows "block_granted nest_api 4096 m p (shows_at p (\<lambda>_. 0) m)"
proof -
  have "same_outside m (shows_at p (\<lambda>_. 0) m) p 4096" by (simp add: same_outside_def shows_at_def load8_def)
  moreover have "load8 (shows_at p (\<lambda>_. 0) m) x = Some 0 \<and> vwr (shows_at p (\<lambda>_. 0) m) x" if "in_block p 4096 x" for x
    using that by (simp add: load8_shows_at) (simp add: shows_at_def)
  moreover have "VirtualAlloc nest_api 0 4096 t k m = (p, shows_at p (\<lambda>_. 0) m)" for t k
    using assms(2) by (simp add: nest_api_def)
  moreover have "p \<noteq> 0" "4096 dvd unat p" "unat p + 4096 + 4096 \<le> 4294967296" using assms(2) by (simp_all split: if_splits)
  ultimately show ?thesis using assms(1) by (simp add: block_granted_def fresh_block_def)
qed

lemma nest_api_works: "unmaps_view nest_api a n" "protects nest_api"
  by (simp_all add: unmaps_view_def protects_def nest_api_def demo_api_def same_outside_def)

lemma length_nest_bytes: "length nest_bytes = 320"
  by (simp add: nest_bytes_def length_full_bytes)

lemma nest_headed: "headed nest_page"
  by (simp add: headed_def nest_page_def length_nest_bytes) (simp add: nest_bytes_def length_full_bytes)

lemma nest_page_nth: "i < 320 \<Longrightarrow> nest_page ! i = nest_bytes ! i"
  by (simp add: nest_page_def nth_append length_nest_bytes)

lemma nest_bias: "0x10000 - load_min (file_phdrs nest_page) = 0x10000"
  by (simp add: headed_extent [OF nest_headed])

lemma nest_memory_load8:
  "unat (x - 0x10000) < 320 \<Longrightarrow> load8 nest_memory x = Some (nest_bytes ! unat (x - 0x10000))"
  by (simp add: nest_memory_def load8_with_image image_byte_def headed_phdrs(2) [OF nest_headed] in_block_def seg_addr_def
      full_segment_def nest_page_nth)

lemma nest_reads:
  "dyns_at nest_memory 0x10078 nest_dyns" "str_at nest_memory 0x1013A ''ab''"
  "load32 nest_memory 0x100E0 = Some 1" "load32 nest_memory 0x100E4 \<noteq> None"
  by (simp_all add: nest_memory_load8 nest_dyns_def full_dyns_def read_dyn_def load32_def)
    (simp_all add: nest_bytes_def full_bytes_def le32_def char_byte_def)

lemma nest_object_sel: "si_strtab nest_object = 0x10130" "linkable nest_object"
proof -
  have "word_at_addr nest_memory 0x100E0 = 1" using nest_reads(3) by (simp add: word_at_addr_def)
  then have "si_strtab nest_object = 0x10130" "si_nbucket nest_object = 1" "si_symtab nest_object = 0x100F4"
    unfolding nest_object_def image_object_def
    by (simp_all only: nest_bias) (simp_all add: parsed_def dyn_last_def nest_dyns_def full_dyns_def loaded_object_def nest_bias)
  then show "si_strtab nest_object = 0x10130" "linkable nest_object" by (simp_all add: linkable_def)
qed

lemma nest_needs: "needs_by_name nest_world nest_page 0x10000 full_dynamic nest_dyns [''ab'']"
proof -
  have dyn: "find (\<lambda>ph. p_type ph = PT_DYNAMIC) [full_segment, full_dynamic] = Some full_dynamic" "p_vaddr full_dynamic = 120"
    by (simp_all add: full_segment_def full_dynamic_def)
  have acc: "\<forall>e \<in> set nest_dyns. dyn_accepted nest_memory 0x10000 e \<and> d_tag e \<noteq> DT_TEXTREL"
    using nest_reads(3,4) by (simp add: nest_dyns_def full_dyns_def dyn_accepted_def)
  have names: "needed_names nest_dyns = [\<lparr>d_tag = 1, d_val = 10\<rparr>]"
    by (simp add: needed_names_def nest_dyns_def full_dyns_def)
  show ?thesis
    unfolding needs_by_name_def Let_def nest_bias
    unfolding nest_memory_def [symmetric] nest_object_def [symmetric] headed_phdrs(1) [OF nest_headed]
    using dyn nest_reads(1,2) acc nest_object_sel by (simp add: names)
qed

lemma nest_world_sel: "fs (mc nest_world) = [''libfull.so'' \<mapsto> nest_page, ''ab'' \<mapsto> leaf_page]" "gLdPaths nest_world = [[]]"
  "c_open ''libfull.so'' (mc nest_world) = (0, nest_opened)" "so_inv nest_world [0x10000, 0x20000] (0x30000 # [0x40000])"
  "si_name (obj nest_world 0x10000) = ''libdl.so''" "si_name (obj nest_world 0x20000) = ''libab.so''"
  "load8 (mc nest_world) x = load8 (mc full_world) x"
  by (simp_all add: nest_world_def nest_opened_def c_open_def so_inv_def obj_def load8_def)
    (simp_all add: full_world_def demo_defs)

text \<open>The state in which \<open>libfull.so\<close> is loaded and \<open>ab\<close> is looked for.\<close>

lemma nest_loaded:
  "\<exists>m1 m2 w1. view_granted nest_api 0 nest_page 0 4096 (set_fd 0 (Some \<lparr>f_data = nest_page, f_pos = 52\<rparr>) nest_opened) 0x1000 m1 \<and>
     block_granted nest_api 4096 m1 0x10000 m2 \<and> load_library nest_api ''libfull.so'' nest_world = Some (0x30000, w1) \<and>
     so_inv w1 [0x10000, 0x20000, 0x30000] [0x40000] \<and> gLdPaths w1 = [[]] \<and> fs (mc w1) ''ab'' = Some leaf_page \<and>
     (\<forall>x \<in> {0x10000, 0x20000}. si_name (obj w1 x) = si_name (obj nest_world x)) \<and>
     (\<exists>l. sos w1 0x30000 = Some (loaded_object ''libfull.so'' nest_page 0x10000 l) \<and> phdrs_at (mc w1) l (file_phdrs nest_page)) \<and>
     load8 (mc w1) 0x10000 \<noteq> None \<and> (\<forall>x. in_block 0x2000 4096 x \<or> in_block 0x20000 4096 x \<longrightarrow> load8 (mc w1) x = None)"
proof -
  let ?m = "set_fd 0 (Some \<lparr>f_data = nest_page, f_pos = 52\<rparr>) nest_opened"
  have none: "load8 (mc nest_world) x = None"
    if "in_block 0x1000 4096 x \<or> in_block 0x10000 4096 x \<or> in_block 0x2000 4096 x \<or> in_block 0x20000 4096 x" for x
    using that unfolding nest_world_sel(7) by (auto simp: full_world_def load8_def mem_of_def in_block_no_wrap length_demo_tables)
  have m: "load8 ?m x = load8 (mc nest_world) x" for x by (simp add: load8_def nest_opened_def)
  have l: "length nest_page = 4096" using nest_headed by (simp add: headed_def)
  have n1: "load8 ?m 0x10000 = None" unfolding m by (rule none) (simp add: in_block_def)
  have v: "view_granted nest_api 0 nest_page 0 4096 ?m 0x1000 (shows_at 0x1000 (\<lambda>i. nest_page ! i) ?m)"
  proof (rule nest_view [OF _ _ l])
    show "fd_file ?m 0 \<noteq> None" by (simp add: set_fd_def fd_file_def nest_opened_def)
    show "load8 ?m x = None" if "in_block 0x1000 4096 x" for x unfolding m by (rule none) (use that in simp)
    show "(0x1000 :: u32, nest_page) = (if load8 ?m 0x10000 = None then (0x1000, nest_page) else (0x2000, leaf_page))"
      using n1 by simp
  qed
  have b: "block_granted nest_api 4096 (shows_at 0x1000 (\<lambda>i. nest_page ! i) ?m) 0x10000
      (shows_at 0x10000 (\<lambda>_. 0) (shows_at 0x1000 (\<lambda>i. nest_page ! i) ?m))"
  proof (rule nest_block)
    show e: "load8 (shows_at 0x1000 (\<lambda>i. nest_page ! i) ?m) x = None" if "in_block 0x10000 4096 x" for x
      unfolding load8_shows_at m using that none [of x] by (simp add: in_block_no_wrap)
    show "(0x10000 :: u32) = (if load8 (shows_at 0x1000 (\<lambda>i. nest_page ! i) ?m) 0x10000 = None then 0x10000 else 0x20000)"
      by (subst e) (simp_all add: in_block_def)
  qed
  have disk: "fs (mc nest_world) ''libfull.so'' = Some nest_page" "[] \<in> set (gLdPaths nest_world)"
    by (simp_all add: nest_world_sel)
  have page: "unat (4096 :: u32) = 4096" by simp
  obtain w1 l where ll: "load_library nest_api ''libfull.so'' nest_world = Some (0x30000, w1)"
    and inv: "so_inv w1 ([0x10000, 0x20000] @ [0x30000]) [0x40000]"
    and s: "sos w1 0x30000 = Some (loaded_object ''libfull.so'' nest_page 0x10000 l)" and im: "image_at nest_page 0x10000 l (mc w1)"
    and oth: "\<forall>x. x \<noteq> 0x30000 \<and> x \<noteq> last [0x10000, 0x20000] \<longrightarrow> sos w1 x = sos nest_world x"
      "sos w1 (last [0x10000, 0x20000]) = map_option (\<lambda>s. s\<lparr>si_next := 0x30000\<rparr>) (sos nest_world (last [0x10000, 0x20000]))"
    and fs: "fs (mc w1) = fs (mc nest_world)" and pt: "gLdPaths w1 = gLdPaths nest_world"
    and out: "\<forall>x. \<not> in_block 0x10000 4096 x \<longrightarrow> \<not> in_block 0x1000 4096 x \<longrightarrow> load8 (mc w1) x = load8 (mc nest_world) x"
    using load_library_file [OF disk headed_elf [OF nest_headed] nest_world_sel(3), unfolded headed_table [OF nest_headed],
      OF v b nest_api_works(1) nest_world_sel(4) full_name(1,2), unfolded full_name(3) page] by blast
  have seg: "seg_image 0x10000 nest_page full_segment (mc w1)"
    using im by (simp add: image_at_def headed_phdrs [OF nest_headed] nest_bias [unfolded headed_phdrs(1) [OF nest_headed]]
      headed_phdrs(2) [OF nest_headed, unfolded headed_phdrs(1) [OF nest_headed]])
  have "load8 (mc w1) 0x10000 \<noteq> None"
    using seg by (auto simp: seg_image_def seg_addr_def full_segment_def dest: spec [of _ 0])
  moreover have "load8 (mc w1) x = None" if "in_block 0x2000 4096 x \<or> in_block 0x20000 4096 x" for x
    using that out none [of x] by (auto simp: in_block_no_wrap)
  moreover have "si_name (obj w1 x) = si_name (obj nest_world x)" if "x \<in> {0x10000, 0x20000}" for x
    using oth that by (auto simp: obj_def split: option.split)
  ultimately show ?thesis
    using v b ll inv s im fs pt by (simp add: nest_world_sel image_at_def) blast
qed

text \<open>The call for \<open>ab\<close>, from any such state, loads the second file beside the first.\<close>

lemma nest_found:
  fixes w :: world
  assumes inv: "so_inv w [0x10000, 0x20000, 0x30000] [0x40000]" and pt: "gLdPaths w = [[]]"
    and fs: "fs (mc w) ''ab'' = Some leaf_page" and nm: "\<forall>x \<in> set [0x10000, 0x20000, 0x30000]. si_name (obj w x) \<noteq> ''ab''"
    and first: "load8 (mc w) 0x10000 \<noteq> None"
    and free: "\<And>x. in_block 0x2000 4096 x \<or> in_block 0x20000 4096 x \<Longrightarrow> load8 (mc w) x = None"
  shows "\<exists>w'. found nest_api 1 0x30000 [''ab''] w [0x40000] w'"
proof -
  obtain fd m0 where op: "c_open ''ab'' (mc w) = (fd, m0)" by (cases "c_open ''ab'' (mc w)")
  have fd: "fd_file m0 fd \<noteq> None" using c_open_fd [OF fs op] by simp
  let ?m = "set_fd fd (Some \<lparr>f_data = leaf_page, f_pos = 52\<rparr>) m0"
  let ?v = "shows_at 0x2000 (\<lambda>i. leaf_page ! i) ?m"
  have m: "load8 ?m x = load8 (mc w) x" for x using load8_c_open [OF op] by simp
  have v: "view_granted nest_api fd leaf_page 0 4096 ?m 0x2000 ?v"
  proof (rule nest_view [OF _ _ length_leaf_page])
    show "fd_file ?m fd \<noteq> None" by (simp add: fd_file_set_fd [OF fd])
    show "load8 ?m x = None" if "in_block 0x2000 4096 x" for x unfolding m using free [of x] that by simp
    show "(0x2000 :: u32, leaf_page) = (if load8 ?m 0x10000 = None then (0x1000, nest_page) else (0x2000, leaf_page))"
      unfolding m using first by simp
  qed
  have b: "block_granted nest_api 4096 ?v 0x20000 (shows_at 0x20000 (\<lambda>_. 0) ?v)"
  proof (rule nest_block)
    show "load8 ?v x = None" if "in_block 0x20000 4096 x" for x
      unfolding load8_shows_at m using that free [of x] by (simp add: in_block_no_wrap)
    show "(0x20000 :: u32) = (if load8 ?v 0x10000 = None then 0x10000 else 0x20000)"
      unfolding load8_shows_at m using first by simp
  qed
  have name: "no_nul (basename ''ab'')" "length (basename ''ab'') < 128" "basename ''ab'' = ''ab''"
    by (simp_all add: basename_def no_nul_def char_byte_def)
  have "[] \<in> set (gLdPaths w)" by (simp add: pt)
  from find_loads_file [where os = nest_api and n = 0, OF fs this leaf_page_elf leaf_page_leaf op,
      unfolded leaf_page_table leaf_page_size, OF v b nest_api_works inv name(1,2)] nm
  obtain w' where run: "find_library nest_api (Suc 0) (Some ''ab'') w = Some (0x40000, w')"
    and mem: "\<forall>x. load8 (mc w) x \<noteq> None \<longrightarrow> load8 (mc w') x = load8 (mc w) x"
    and oth: "\<forall>x \<in> set [0x10000, 0x20000, 0x30000]. \<exists>k. sos w' x = map_option (\<lambda>s. s\<lparr>si_next := k\<rparr>) (sos w x)"
    unfolding name(3) by blast
  obtain s where s: "sos w 0x30000 = Some s" using so_inv_live [OF inv, of "0x30000"] by auto
  from oth obtain k where "sos w' 0x30000 = map_option (\<lambda>s. s\<lparr>si_next := k\<rparr>) (sos w 0x30000)" by auto
  then have "sos w' 0x30000 = map_option (\<lambda>t. t\<lparr>si_next := k, si_ref_count := si_ref_count s\<rparr>) (sos w 0x30000)" by (simp add: s)
  moreover have "mach_le (mc w) (mc w')" unfolding mach_le_def map_le_def using mem by (auto simp: load8_def dom_def)
  ultimately have "undisturbed 0x30000 w w'" unfolding undisturbed_def by blast
  with run show ?thesis by (simp del: find_library.simps)
qed

lemma nest_relocatable:
  fixes w w' :: world
  assumes s: "sos w 0x30000 = Some (loaded_object n bs 0x10000 l)" and ph: "phdrs_at (mc w) l (file_phdrs nest_page)"
    and f: "found os k 0x30000 names (before_needs w 0x30000 d nest_dyns) ps w'"
  shows "relocatable w' nest_page 0x10000 0x30000 ps [] [] val"
proof -
  let ?w = "before_needs w 0x30000 d nest_dyns"
  obtain x c where t: "sos ?w 0x30000 = Some (parsed (mc w) (si_load_bias (loaded_object n bs 0x10000 l)) nest_dyns
      ((loaded_object n bs 0x10000 l)\<lparr>si_dynamic := d, si_ARM_exidx := x, si_ARM_exidx_count := c\<rparr>))" (is "_ = Some ?t")
    using before_needs_keeps(5) [OF s] by blast
  have u: "undisturbed 0x30000 ?w w'" by (rule found_undisturbed [OF f])
  obtain j r where o: "obj w' 0x30000 = ?t\<lparr>si_next := j, si_ref_count := r\<rparr>"
    using undisturbed_obj [OF u t] by (auto simp: obj_def)
  have "si_plt_rel ?t = 0" "si_rel ?t = 0"
    by (simp_all add: parsed_def dyn_last_def nest_dyns_def full_dyns_def loaded_object_def zero_soinfo_def)
  moreover have "mach_le (mc w) (mc w')" using u by (simp add: undisturbed_def before_needs_keeps(1) [OF s])
  then have "phdrs_at (mc w') l (file_phdrs nest_page)"
    by (rule shows_more.phdrs_at_more [OF shows_more.intro ph])
  moreover have "si_phdr ?t = l" by (simp add: loaded_object_def parsed_def)
  moreover have "hide {} (mc w') = mc w'" by (simp add: hide_def restrict_map_def)
  ultimately show ?thesis
    by (simp add: relocatable_def Let_def o table_at_def places_apart_def entries_ready_def place_bytes_def)
qed

text \<open>Everything that the calls for \<open>libfull.so\<close> meet.\<close>

lemma nest_ready:
  "\<exists>m1 m2 w1 w3. view_granted nest_api 0 nest_page 0 4096 (set_fd 0 (Some \<lparr>f_data = nest_page, f_pos = 52\<rparr>) nest_opened) 0x1000 m1 \<and>
     block_granted nest_api 4096 m1 0x10000 m2 \<and> load_library nest_api ''libfull.so'' nest_world = Some (0x30000, w1) \<and>
     found nest_api 1 0x30000 [''ab''] (before_needs w1 0x30000 0x10078 nest_dyns) [0x40000] w3 \<and>
     relocatable w3 nest_page 0x10000 0x30000 [0x40000] [] [] (\<lambda>_. 0)"
proof -
  obtain m1 m2 w1 l
    where v: "view_granted nest_api 0 nest_page 0 4096 (set_fd 0 (Some \<lparr>f_data = nest_page, f_pos = 52\<rparr>) nest_opened) 0x1000 m1"
    and b: "block_granted nest_api 4096 m1 0x10000 m2"
    and ll: "load_library nest_api ''libfull.so'' nest_world = Some (0x30000, w1)"
    and inv: "so_inv w1 [0x10000, 0x20000, 0x30000] [0x40000]" and pt: "gLdPaths w1 = [[]]" "fs (mc w1) ''ab'' = Some leaf_page"
    and nm: "\<forall>x \<in> {0x10000, 0x20000}. si_name (obj w1 x) = si_name (obj nest_world x)"
    and s: "sos w1 0x30000 = Some (loaded_object ''libfull.so'' nest_page 0x10000 l)" and ph: "phdrs_at (mc w1) l (file_phdrs nest_page)"
    and mem: "load8 (mc w1) 0x10000 \<noteq> None" "\<forall>x. in_block 0x2000 4096 x \<or> in_block 0x20000 4096 x \<longrightarrow> load8 (mc w1) x = None"
    using nest_loaded by blast
  let ?w = "before_needs w1 0x30000 0x10078 nest_dyns"
  note k = before_needs_keeps [OF s]
  have "si_name (obj ?w 0x30000) = ''libfull.so''" using k(5) [of "0x10078" nest_dyns] by (auto simp: obj_def parsed_def loaded_object_def)
  moreover have "obj ?w 0x10000 = obj w1 0x10000" "obj ?w 0x20000 = obj w1 0x20000" by (simp_all add: obj_def k(3))
  ultimately have nm2: "\<forall>x \<in> set [0x10000, 0x20000, 0x30000]. si_name (obj ?w x) \<noteq> ''ab''"
    using nm by (simp add: nest_world_sel)
  have inv2: "so_inv ?w [0x10000, 0x20000, 0x30000] [0x40000]" using inv k(4) by simp
  have "\<exists>w'. found nest_api 1 0x30000 [''ab''] ?w [0x40000] w'"
    by (rule nest_found [OF inv2 _ _ nm2]) (use pt mem in \<open>auto simp: k(1,2)\<close>)
  then obtain w3 where f: "found nest_api 1 0x30000 [''ab''] ?w [0x40000] w3" by blast
  with v b ll nest_relocatable [OF s ph f] show ?thesis by blast
qed

lemma nest_disk: "fs (mc nest_world) ''libfull.so'' = Some nest_page" "[] \<in> set (gLdPaths nest_world)"
  "\<forall>x \<in> set [0x10000, 0x20000]. si_name (obj nest_world x) \<noteq> basename ''libfull.so''"
  "0x10000 - load_min (file_phdrs nest_page) + p_vaddr full_dynamic = 0x10078"
  unfolding nest_bias by (simp_all add: nest_world_sel full_name(3) full_dynamic_def)

lemma find_library_nested_witness:
  "\<exists>w'. find_library nest_api 2 (Some ''libfull.so'') nest_world = Some (0x30000, w') \<and> is_linked w' 0x30000 \<and>
     (\<forall>x. load8 (mc nest_world) x \<noteq> None \<longrightarrow> load8 (mc w') x = load8 (mc nest_world) x)"
proof -
  obtain m1 m2 w1 w3
    where v: "view_granted nest_api 0 nest_page 0 4096 (set_fd 0 (Some \<lparr>f_data = nest_page, f_pos = 52\<rparr>) nest_opened) 0x1000 m1"
    and b: "block_granted nest_api 4096 m1 0x10000 m2"
    and ll: "load_library nest_api ''libfull.so'' nest_world = Some (0x30000, w1)"
    and f: "found nest_api 1 0x30000 [''ab''] (before_needs w1 0x30000 0x10078 nest_dyns) [0x40000] w3"
    and rel: "relocatable w3 nest_page 0x10000 0x30000 [0x40000] [] [] (\<lambda>_. 0)"
    using nest_ready by blast
  from find_library_nested [where n = 0, OF nest_disk(1,2) headed_elf [OF nest_headed] nest_needs nest_world_sel(3),
      unfolded headed_table [OF nest_headed] One_nat_def [symmetric] nest_disk(4),
      OF v b nest_api_works nest_world_sel(4) full_name(1,2) nest_disk(3) ll f rel]
  obtain m t where run: "find_library nest_api (Suc 1) (Some ''libfull.so'') nest_world = Some (0x30000, w3\<lparr>sos := (sos w3)(0x30000 \<mapsto> t), mc := m\<rparr>)"
    and t: "t = (obj w3 0x30000)\<lparr>si_flags := FLAG_LINKED, si_ref_count := si_ref_count (obj w3 0x30000) + 1\<rparr>"
    and le: "mach_le (mc nest_world) m" by blast
  let ?w' = "w3\<lparr>sos := (sos w3)(0x30000 \<mapsto> t), mc := m\<rparr>"
  have "is_linked ?w' 0x30000" by (simp add: is_linked_def t)
  moreover have "\<forall>x. load8 (mc nest_world) x \<noteq> None \<longrightarrow> load8 (mc ?w') x = load8 (mc nest_world) x"
    using le unfolding mach_le_def map_le_def by (auto simp: load8_def dom_def)
  moreover have "Suc 1 = 2" by simp
  ultimately show ?thesis using run by metis
qed

end
