(* ===== verification/Reloc_Types.thy ===== *)
theory Reloc_Types
  imports Reloc_Table
begin

text \<open>
  The relocation types of elf.h, and which of them the linker applies.  A table in read-only memory that contains an
  entry of any other type is never relocated successfully, whatever its other entries do.
\<close>

section \<open>The types of ARM\<close>

definition arm_reloc_types :: "(string \<times> u32) list" where
  "arm_reloc_types =
    [(''R_ARM_NONE'', 0), (''R_ARM_PC24'', 1), (''R_ARM_ABS32'', 2), (''R_ARM_REL32'', 3), (''R_ARM_PC13'', 4),
     (''R_ARM_ABS16'', 5), (''R_ARM_ABS12'', 6), (''R_ARM_THM_ABS5'', 7), (''R_ARM_ABS8'', 8),
     (''R_ARM_SBREL32'', 9), (''R_ARM_THM_PC22'', 10), (''R_ARM_THM_PC8'', 11), (''R_ARM_AMP_VCALL9'', 12),
     (''R_ARM_SWI24'', 13), (''R_ARM_THM_SWI8'', 14), (''R_ARM_XPC25'', 15), (''R_ARM_THM_XPC22'', 16),
     (''R_ARM_TLS_DTPMOD32'', 17), (''R_ARM_TLS_DTPOFF32'', 18), (''R_ARM_TLS_TPOFF32'', 19), (''R_ARM_COPY'', 20),
     (''R_ARM_GLOB_DAT'', 21), (''R_ARM_JUMP_SLOT'', 22), (''R_ARM_RELATIVE'', 23), (''R_ARM_GOTOFF'', 24),
     (''R_ARM_GOTPC'', 25), (''R_ARM_BASE_PREL'', 25), (''R_ARM_GOT32'', 26), (''R_ARM_PLT32'', 27),
     (''R_ARM_CALL'', 28), (''R_ARM_JUMP24'', 29), (''R_ARM_ALU_PCREL_7_0'', 32), (''R_ARM_ALU_PCREL_15_8'', 33),
     (''R_ARM_ALU_PCREL_23_15'', 34), (''R_ARM_ALU_SBREL_11_0'', 35), (''R_ARM_ALU_SBREL_19_12'', 36),
     (''R_ARM_ALU_SBREL_27_20'', 37), (''R_ARM_PREL31'', 42), (''R_ARM_GOT_PREL'', 96), (''R_ARM_GNU_VTENTRY'', 100),
     (''R_ARM_GNU_VTINHERIT'', 101), (''R_ARM_THM_PC11'', 102), (''R_ARM_THM_PC9'', 103), (''R_ARM_TLS_GD32'', 104),
     (''R_ARM_TLS_LDM32'', 105), (''R_ARM_TLS_LDO32'', 106), (''R_ARM_TLS_IE32'', 107), (''R_ARM_TLS_LE32'', 108),
     (''R_ARM_TLS_LDO12'', 109), (''R_ARM_TLS_LE12'', 110), (''R_ARM_TLS_IE12GP'', 111), (''R_ARM_RXPC25'', 249),
     (''R_ARM_RSBREL32'', 250), (''R_ARM_THM_RPC22'', 251), (''R_ARM_RREL32'', 252), (''R_ARM_RABS32'', 253),
     (''R_ARM_RPC24'', 254), (''R_ARM_RBASE'', 255), (''R_ARM_THM_CALL'', 10)]"

definition accepted_types :: "string list" where
  "accepted_types =
    [''R_ARM_NONE'', ''R_ARM_ABS32'', ''R_ARM_REL32'', ''R_ARM_GLOB_DAT'', ''R_ARM_JUMP_SLOT'', ''R_ARM_RELATIVE'']"

definition accepted_type :: "u32 \<Rightarrow> bool" where
  "accepted_type tp \<longleftrightarrow> tp \<in> set (map snd (filter (\<lambda>e. fst e \<in> set accepted_types) arm_reloc_types))"

lemma accepted_type_eq:
  "accepted_type tp \<longleftrightarrow>
     tp \<in> {R_ARM_NONE, R_ARM_ABS32, R_ARM_REL32, R_ARM_GLOB_DAT, R_ARM_JUMP_SLOT, R_ARM_RELATIVE}"
  by (simp add: accepted_type_def accepted_types_def arm_reloc_types_def)

section \<open>Tables that cannot change\<close>

definition read_only :: "mach \<Rightarrow> u32 \<Rightarrow> nat \<Rightarrow> bool" where
  "read_only m a n \<longleftrightarrow> (\<forall>i < n. \<not> writable m (a + of_nat i))"

lemma read_only_tail: "read_only m a (8 + n) \<Longrightarrow> read_only m (a + 8) n"
  unfolding read_only_def
proof (intro allI impI)
  fix i assume "\<forall>j < 8 + n. \<not> writable m (a + of_nat j)" and "i < n"
  then have "\<not> writable m (a + of_nat (8 + i))" by (metis add_less_cancel_left)
  then show "\<not> writable m (a + 8 + of_nat i)" by (simp add: ac_simps)
qed

lemma read_only_step: "mem_step m m' \<Longrightarrow> read_only m' a n = read_only m a n"
  by (simp add: read_only_def mem_step_writable)

lemma read_only_load32:
  assumes "mem_step m m'" and "read_only m a 4"
  shows "load32 m' a = load32 m a"
proof -
  have "load8 m' (a + of_nat i) = load8 m (a + of_nat i)" if "i < 4" for i
    using assms that unfolding mem_step_def read_only_def load8_def by metis
  from this [of 0] this [of 1] this [of 2] this [of 3] show ?thesis by (simp add: load32_def)
qed

lemma read_only_rels:
  "rels_at m a rs \<Longrightarrow> read_only m a (8 * length rs) \<Longrightarrow> mem_step m m' \<Longrightarrow> rels_at m' a rs"
proof (induction rs arbitrary: a)
  case (Cons r rs)
  have ro: "read_only m a (8 + 8 * length rs)" using Cons.prems(2) by simp
  have "read_only m a 4" "read_only m (a + 4) 4"
    using ro read_only_def [of m a] by (auto simp: read_only_def) (metis (no_types, opaque_lifting) add_less_mono1 of_nat_add of_nat_numeral group_cancel.add1 numeral_Bit0 add.commute trans_less_add1)
  then have "read_rel m' a = read_rel m a" by (simp add: read_rel_def read_only_load32 [OF Cons.prems(3)])
  with Cons.IH [OF _ read_only_tail [OF ro] Cons.prems(3)] Cons.prems(1) show ?case by simp
qed simp

section \<open>An entry of another type ends the relocation\<close>

lemma foreign_fails:
  assumes "\<not> accepted_type (ELF32_R_TYPE (r_info r))" and "si_flags s AND FLAG_EXE = 0"
  shows "relocate_one w si s needed r =
    (if ELF32_R_SYM (r_info r) = 0 then Some (False, w)
     else map_option (\<lambda>_. (False, w)) (reloc_symbol w si s needed (ELF32_R_TYPE (r_info r)) (ELF32_R_SYM (r_info r))))"
proof -
  let ?t = "ELF32_R_TYPE (r_info r)"
  have ty: "?t \<noteq> R_ARM_NONE" "?t \<noteq> R_ARM_ABS32" "?t \<noteq> R_ARM_REL32" "?t \<noteq> R_ARM_GLOB_DAT" "?t \<noteq> R_ARM_JUMP_SLOT" "?t \<noteq> R_ARM_RELATIVE"
    using assms(1) by (simp_all only: accepted_type_eq) blast+
  then have "reloc_apply w s needed r a y = Some (False, w)" for a y
    unfolding reloc_apply_def Let_def reloc_copy_def using assms(2) by (simp only: if_False if_True) auto
  then show ?thesis
    unfolding relocate_one_def Let_def using ty(1)
    by (cases "reloc_symbol w si s needed ?t (ELF32_R_SYM (r_info r))") (auto simp del: R_ARM_NONE_def split: option.split)
qed

lemma foreign_result:
  assumes "relocate_one w si s needed r = Some (ok, w')" and "\<not> accepted_type (ELF32_R_TYPE (r_info r))"
    and "si_flags s AND FLAG_EXE = 0"
  shows "\<not> ok"
  using assms(1) unfolding foreign_fails [OF assms(2,3)] by (auto split: if_splits)

lemma foreign_never_succeeds:
  assumes "rels_at (mc w) a rs" and "read_only (mc w) a (8 * length rs)" and "r \<in> set rs"
    and "\<not> accepted_type (ELF32_R_TYPE (r_info r))" and "si_flags s AND FLAG_EXE = 0"
  shows "relocate_loop w si s needed a (length rs) \<noteq> Some (0, w')"
  using assms(1-3)
proof (induction rs arbitrary: w a)
  case (Cons q rs)
  have rd: "read_rel (mc w) a = Some q" using Cons.prems(1) by simp
  show ?case
  proof (cases "relocate_one w si s needed q")
    case None
    then show ?thesis by (simp add: rd)
  next
    case (Some p)
    obtain ok w1 where p: "p = (ok, w1)" by (cases p)
    show ?thesis
    proof (cases ok)
      case False
      then show ?thesis using Some p by (simp add: rd)
    next
      case True
      from foreign_result [OF Some [unfolded p] _ assms(5)] True have "accepted_type (ELF32_R_TYPE (r_info q))" by blast
      with Cons.prems(3) assms(4) have r: "r \<in> set rs" by auto
      from relocate_one_only_memory [OF Some [unfolded p]] have st: "mem_step (mc w) (mc w1)"
        by (auto simp: only_memory_def)
      have ro: "read_only (mc w) (a + 8) (8 * length rs)" using read_only_tail Cons.prems(2) by simp
      have "rels_at (mc w1) (a + sizeof_Rel) rs"
        using read_only_rels [OF _ ro st] Cons.prems(1) by simp
      from Cons.IH [OF this _ r] ro read_only_step [OF st] Some p True show ?thesis by (simp add: rd)
    qed
  qed
qed simp

lemma relocate_loop_stops:
  "rels_at (mc w) a (rs @ r # ts) \<Longrightarrow> read_only (mc w) a (8 * length (rs @ r # ts)) \<Longrightarrow>
    relocate_loop w si s needed a (length rs) = Some (0, w1) \<Longrightarrow> relocate_one w1 si s needed r = Some (False, w1) \<Longrightarrow>
    relocate_loop w si s needed a (length (rs @ r # ts)) = Some (-1, w1)"
proof (induction rs arbitrary: w a)
  case (Cons q rs)
  have rd: "read_rel (mc w) a = Some q" using Cons.prems(1) by simp
  obtain w2 where one: "relocate_one w si s needed q = Some (True, w2)"
    and rest: "relocate_loop w2 si s needed (a + sizeof_Rel) (length rs) = Some (0, w1)"
    using Cons.prems(3) by (auto simp: rd Option.bind_eq_Some_conv split: if_splits)
  have st: "mem_step (mc w) (mc w2)" using relocate_one_only_memory [OF one] by (auto simp: only_memory_def)
  have ro: "read_only (mc w) (a + 8) (8 * length (rs @ r # ts))" using read_only_tail Cons.prems(2) by simp
  have "rels_at (mc w2) (a + sizeof_Rel) (rs @ r # ts)" using read_only_rels [OF _ ro st] Cons.prems(1) by simp
  from Cons.IH [OF this _ rest Cons.prems(4)] ro read_only_step [OF st] one show ?case by (simp add: rd)
qed simp

section \<open>What a table may change\<close>

text \<open>One entry writes the word at its place or nothing, and a refused entry nothing at all.\<close>

definition touches :: "u32 set \<Rightarrow> world \<Rightarrow> world \<Rightarrow> bool" where
  "touches P w w' \<longleftrightarrow> (\<exists>b. w' = w\<lparr>mc := (mc w)\<lparr>vbytes := b\<rparr>\<rparr> \<and> (\<forall>x. x \<notin> P \<longrightarrow> b x = vbytes (mc w) x))"

lemma touches_refl: "touches P w w"
  by (auto simp: touches_def intro!: exI [of _ "vbytes (mc w)"])

lemma touches_trans:
  assumes "touches P w w1" and "touches Q w1 w2" and "P \<union> Q \<subseteq> S"
  shows "touches S w w2"
proof -
  obtain b c where b: "w1 = w\<lparr>mc := (mc w)\<lparr>vbytes := b\<rparr>\<rparr>" "\<forall>x. x \<notin> P \<longrightarrow> b x = vbytes (mc w) x"
    and c: "w2 = w1\<lparr>mc := (mc w1)\<lparr>vbytes := c\<rparr>\<rparr>" "\<forall>x. x \<notin> Q \<longrightarrow> c x = vbytes (mc w1) x"
    using assms(1,2) unfolding touches_def by blast
  have "c x = vbytes (mc w) x" if "x \<notin> S" for x
  proof -
    have "x \<notin> P" "x \<notin> Q" using assms(3) that by blast+
    with b c show ?thesis by simp
  qed
  with b(1) c(1) show ?thesis unfolding touches_def by (intro exI [of _ c]) simp
qed

lemma touches_load8: "touches P w w' \<Longrightarrow> x \<notin> P \<Longrightarrow> load8 (mc w') x = load8 (mc w) x"
  by (auto simp: touches_def load8_def)

lemma on_mem_touches:
  assumes "on_mem w r = Some (ok, w')" and "\<And>m. r = Some m \<Longrightarrow> \<exists>v. m = put_bytes a (bytes32 v) (mc w)"
  shows "ok \<and> touches {x. in_block a 4 x} w w'"
proof -
  obtain v where "w' = w\<lparr>mc := put_bytes a (bytes32 v) (mc w)\<rparr>" "ok"
    using assms by (auto simp: on_mem_def Option.bind_eq_Some_conv)
  then show ?thesis
    unfolding touches_def
    by (intro conjI exI [of _ "vbytes (put_bytes a (bytes32 v) (mc w))"]) (simp_all add: put_bytes_def)
qed

lemma apply_touches:
  assumes "reloc_apply w s needed r a y = Some (ok, w')" and "si_flags s AND FLAG_EXE = 0"
  shows "ok \<and> touches {x. in_block (place s r) 4 x} w w' \<or> \<not> ok \<and> w' = w"
proof -
  have st: "\<exists>u. m = put_bytes (place s r) (bytes32 u) (mc w)" if "store32 (mc w) (place s r) v = Some m" for v m
    using that by (auto simp: store32_eq split: if_splits)
  have ad: "\<exists>u. m = put_bytes (place s r) (bytes32 u) (mc w)" if "add_word (mc w) (place s r) v = Some m" for v m
    using that st by (auto simp: add_word_def Option.bind_eq_Some_conv)
  have "(\<exists>v. on_mem w (store32 (mc w) (place s r) v) = Some (ok, w')) \<or>
      (\<exists>v. on_mem w (add_word (mc w) (place s r) v) = Some (ok, w')) \<or> \<not> ok \<and> w' = w"
    using assms unfolding reloc_apply_def reloc_copy_def Let_def place_def [symmetric]
    by (auto split: if_splits)
  then show ?thesis using on_mem_touches st ad by blast
qed

lemma one_touches:
  assumes "relocate_one w si s needed r = Some (ok, w')" and "si_flags s AND FLAG_EXE = 0"
  shows "touches {x. in_block (place s r) 4 x} w w'" and "\<not> ok \<Longrightarrow> w' = w"
proof -
  have "w' = w \<or> (\<exists>a y. reloc_apply w s needed r a y = Some (ok, w'))"
    using assms(1) unfolding relocate_one_def Let_def
    by (auto simp: Option.bind_eq_Some_conv split: if_splits option.splits)
  then show "touches {x. in_block (place s r) 4 x} w w'" "\<not> ok \<Longrightarrow> w' = w"
    using apply_touches [OF _ assms(2)] touches_refl by blast+
qed

text \<open>The table is read as it was before the call when its bytes lie outside the places.\<close>

lemma rels_untouched:
  "rels_at m a rs \<Longrightarrow> (\<And>i. i < 8 * length rs \<Longrightarrow> load8 m' (a + of_nat i) = load8 m (a + of_nat i)) \<Longrightarrow> rels_at m' a rs"
proof (induction rs arbitrary: a)
  case (Cons r rs)
  have "load8 m' (a + of_nat i) = load8 m (a + of_nat i)" if "i < 8" for i using Cons.prems(2) that by simp
  from this [of 0] this [of 1] this [of 2] this [of 3] this [of 4] this [of 5] this [of 6] this [of 7]
  have "read_rel m' a = read_rel m a" by (simp add: read_rel_def load32_def ac_simps)
  moreover have "load8 m' (a + 8 + of_nat i) = load8 m (a + 8 + of_nat i)" if "i < 8 * length rs" for i
    using Cons.prems(2) [of "8 + i"] that by (simp add: ac_simps)
  ultimately show ?case using Cons.IH [of "a + 8"] Cons.prems(1) by simp
qed simp

lemma loop_touches:
  assumes "rels_at (mc w) a rs" and "\<forall>i < 8 * length rs. a + of_nat i \<notin> place_bytes s rs" and "si_flags s AND FLAG_EXE = 0"
    and "relocate_loop w si s needed a (length rs) = Some (res, w')"
  shows "\<exists>k \<le> length rs. touches (place_bytes s (take k rs)) w w' \<and>
    (if k = length rs then res = 0 else res = -1 \<and> relocate_one w' si s needed (rs ! k) = Some (False, w'))"
  using assms(1,2,4)
proof (induction rs arbitrary: a w)
  case Nil
  then show ?case using touches_refl by simp
next
  case (Cons r rs)
  obtain ok w1 where one: "relocate_one w si s needed r = Some (ok, w1)"
    and rest: "(if ok then relocate_loop w1 si s needed (a + sizeof_Rel) (length rs) else Some (-1, w1)) = Some (res, w')"
    using Cons.prems(1,3) by (auto simp: Option.bind_eq_Some_conv)
  note t = one_touches [OF one assms(3)]
  have pb: "place_bytes s (r # qs) = {x. in_block (place s r) 4 x} \<union> place_bytes s qs" for qs
    by (simp add: place_bytes_def)
  show ?case
  proof (cases ok)
    case False
    with t(2) rest one have "w' = w" "res = -1" "relocate_one w' si s needed r = Some (False, w')" by auto
    with touches_refl show ?thesis by (intro exI [of _ 0]) simp
  next
    case True
    have out: "a + of_nat i \<notin> {x. in_block (place s r) 4 x}" if "i < 8 * length (r # rs)" for i
      using Cons.prems(2) that unfolding pb by blast
    have sh: "a + sizeof_Rel + of_nat i = a + of_nat (8 + i)" for i by (simp add: add.assoc)
    have "rels_at (mc w1) (a + sizeof_Rel) rs"
    proof (rule rels_untouched [of "mc w"])
      show "rels_at (mc w) (a + sizeof_Rel) rs" using Cons.prems(1) by simp
      show "load8 (mc w1) (a + sizeof_Rel + of_nat i) = load8 (mc w) (a + sizeof_Rel + of_nat i)" if "i < 8 * length rs" for i
        unfolding sh by (rule touches_load8 [OF t(1) out]) (use that in simp)
    qed
    moreover have "a + sizeof_Rel + of_nat i \<notin> place_bytes s rs" if "i < 8 * length rs" for i
    proof -
      have "8 + i < 8 * length (r # rs)" using that by simp
      then have "a + of_nat (8 + i) \<notin> place_bytes s (r # rs)" using Cons.prems(2) by blast
      then show ?thesis unfolding sh pb by blast
    qed
    ultimately obtain k where k: "k \<le> length rs" "touches (place_bytes s (take k rs)) w1 w'"
      "if k = length rs then res = 0 else res = -1 \<and> relocate_one w' si s needed (rs ! k) = Some (False, w')"
      using Cons.IH [of w1 "a + sizeof_Rel"] rest True by (auto simp del: relocate_loop.simps)
    with touches_trans [OF t(1) k(2)] show ?thesis by (intro exI [of _ "Suc k"]) (simp add: pb)
  qed
qed

section \<open>Properties\<close>

text \<open>
  C16: Only six of the relocation types of elf.h are applied to a library (\<open>accepted_types\<close>; \<open>R_ARM_COPY\<close> is refused to
  anything but an executable).  A table in read-only memory with an entry of another type is never relocated
  successfully; when the entries before it are relocated, and its symbol, if it names one, can be looked
  up, \<open>soinfo_relocate\<close> returns -1 there, with the effects of the entries before it.
\<close>

theorem foreign_type_rejected:
  assumes "sos w si = Some s" and "si_flags s AND FLAG_EXE = 0" and "length (rs @ r # ts) < 4294967296"
    and "rels_at (mc w) rel (rs @ r # ts)" and "read_only (mc w) rel (8 * length (rs @ r # ts))"
    and "\<not> accepted_type (ELF32_R_TYPE (r_info r))"
  shows "soinfo_relocate w si rel (of_nat (length (rs @ r # ts))) needed \<noteq> Some (0, w') \<and>
    (relocate_loop w si s needed rel (length rs) = Some (0, w1) \<and>
     (ELF32_R_SYM (r_info r) = 0 \<or> reloc_symbol w1 si s needed (ELF32_R_TYPE (r_info r)) (ELF32_R_SYM (r_info r)) \<noteq> None) \<longrightarrow>
     soinfo_relocate w si rel (of_nat (length (rs @ r # ts))) needed = Some (-1, w1))"
proof -
  have run: "soinfo_relocate w si rel (of_nat (length (rs @ r # ts))) needed =
      relocate_loop w si s needed rel (length (rs @ r # ts))"
    using assms(1,3) by (simp add: soinfo_relocate_def unat_of_nat_u32 del: relocate_loop.simps length_append)
  have "relocate_one w1 si s needed r = Some (False, w1)"
    if "ELF32_R_SYM (r_info r) = 0 \<or> reloc_symbol w1 si s needed (ELF32_R_TYPE (r_info r)) (ELF32_R_SYM (r_info r)) \<noteq> None"
    using foreign_fails [OF assms(6,2), of w1 si needed] that by auto
  with foreign_never_succeeds [OF assms(4,5) _ assms(6,2), of si needed w'] relocate_loop_stops [OF assms(4,5), of si s needed w1]
  show ?thesis unfolding run by auto
qed

text \<open>A table of a relative entry and one of type \<open>R_ARM_PC24\<close>, in read-only memory.\<close>

definition foreign_bytes :: "u8 list" where
  "foreign_bytes = [0x10, 0, 0, 0, 0x17, 0, 0, 0,  0x14, 0, 0, 0, 1, 0, 0, 0,  5, 0, 0, 0]"

definition foreign_world :: world where
  "foreign_world = demo_registry\<lparr>mc := (mem_of 0x2000 foreign_bytes)\<lparr>vwr := in_block 0x2010 4\<rparr>,
     sos := [0x20000 \<mapsto> demo_so ''librel.so'' 0x2000 0x1000 0]\<rparr>"

lemma foreign_load8:
  "load8 (mc foreign_world) a = (if unat (a - 0x2000) < 20 then Some (foreign_bytes ! unat (a - 0x2000)) else None)"
  by (simp add: foreign_world_def load8_def mem_of_def in_block_def foreign_bytes_def)

lemma foreign_rels:
  "rels_at (mc foreign_world) 0x2000 ([\<lparr>r_offset = 0x10, r_info = 0x17\<rparr>] @ \<lparr>r_offset = 0x14, r_info = 1\<rparr> # [])"
  by (simp add: read_rel_def load32_def foreign_load8) (simp add: foreign_bytes_def le32_def)

lemma foreign_read_only: "read_only (mc foreign_world) 0x2000 16"
proof -
  have "\<not> in_block (0x2010 :: u32) 4 (0x2000 + of_nat i)" if "i < 16" for i
  proof -
    have "(0x2000 + of_nat i) - (0x2010 :: u32) = of_nat i - 16" by simp
    also have "\<dots> = of_nat (4294967296 - 16 + i)" by simp
    finally show ?thesis using that by (simp add: in_block_def unat_of_nat_u32 del: of_nat_add)
  qed
  then show ?thesis by (simp add: read_only_def writable_def foreign_world_def)
qed

lemma foreign_first:
  "\<exists>w1. relocate_loop foreign_world 0x20000 (demo_so ''librel.so'' 0x2000 0x1000 0) [] 0x2000 1 = Some (0, w1) \<and>
     load32 (mc w1) 0x2010 = Some 0x2005"
proof -
  let ?s = "demo_so ''librel.so'' 0x2000 0x1000 0" and ?r = "\<lparr>r_offset = 0x10, r_info = 0x17\<rparr> :: Elf32_Rel"
  have pl: "place ?s ?r = 0x2010" "si_base ?s = 0x2000" by (simp_all add: place_def demo_so_def)
  have "load32 (mc foreign_world) 0x2010 = Some 5"
    by (simp add: load32_def foreign_load8) (simp add: foreign_bytes_def le32_def)
  moreover have wr: "writable_block (mc foreign_world) 0x2010 4"
    unfolding writable_block_def
  proof (intro allI impI)
    fix i :: nat assume i: "i < 4"
    have "(0x2010 + of_nat i) - (0x2000 :: u32) = of_nat (16 + i)" by simp
    with i show "writable (mc foreign_world) (0x2010 + of_nat i)"
      by (simp add: writable_def foreign_world_def mem_of_def in_block_def foreign_bytes_def unat_of_nat_u32 del: of_nat_add)
  qed
  ultimately have "add_word (mc foreign_world) 0x2010 0x2000 = Some (put_bytes 0x2010 (bytes32 0x2005) (mc foreign_world))"
    using add_word_eq by simp
  moreover have "relative ?r" by (simp add: relative_def ELF32_R_TYPE_def ELF32_R_SYM_def)
  ultimately have "relocate_one foreign_world 0x20000 ?s [] ?r =
      Some (True, foreign_world\<lparr>mc := put_bytes 0x2010 (bytes32 0x2005) (mc foreign_world)\<rparr>)"
    using pl by (simp add: relocate_one_relative on_mem_def)
  moreover have "load32 (put_bytes 0x2010 (bytes32 0x2005) (mc foreign_world)) 0x2010 = Some 0x2005"
    using load32_store32 [of "mc foreign_world" "0x2010" "0x2005"] wr by (simp add: store32_eq)
  ultimately show ?thesis using foreign_rels by simp
qed

lemma foreign_type_rejected_witness:
  "\<exists>w1. soinfo_relocate foreign_world 0x20000 0x2000 2 [] = Some (-1, w1) \<and> load32 (mc w1) 0x2010 = Some 0x2005"
proof -
  let ?s = "demo_so ''librel.so'' 0x2000 0x1000 0"
  obtain w1 where w1: "relocate_loop foreign_world 0x20000 ?s [] 0x2000 1 = Some (0, w1)" "load32 (mc w1) 0x2010 = Some 0x2005"
    using foreign_first by blast
  have s: "sos foreign_world 0x20000 = Some ?s" "si_flags ?s AND FLAG_EXE = 0"
    by (simp_all add: foreign_world_def demo_so_def zero_soinfo_def)
  have "\<not> accepted_type (ELF32_R_TYPE 1)" "ELF32_R_SYM 1 = 0"
    by (simp_all add: accepted_type_eq ELF32_R_TYPE_def ELF32_R_SYM_def)
  with foreign_type_rejected [OF s _ foreign_rels, where needed = "[]" and ?w1.0 = w1]
    foreign_read_only w1
  show ?thesis by auto
qed

text \<open>
  C29: What a table may write, and where it stops.  Whatever the entries of a library's table are, \<open>soinfo_relocate\<close>
  returns 0 after all of them, or -1 at the first entry that is refused, in the state that the entries before it leave;
  and it has changed nothing but the four bytes at the places (offset plus load bias) of the entries before it.  The table
  must lie outside the places; an executable, whose copy relocations write more than a word, is left out.
\<close>

theorem relocate_frame:
  assumes "sos w si = Some s" and "si_flags s AND FLAG_EXE = 0" and "length rs < 4294967296"
    and "rels_at (mc w) rel rs" and "\<forall>i < 8 * length rs. rel + of_nat i \<notin> place_bytes s rs"
    and "soinfo_relocate w si rel (of_nat (length rs)) needed = Some (res, w')"
  shows "\<exists>k \<le> length rs. touches (place_bytes s (take k rs)) w w' \<and>
    (if k = length rs then res = 0 else res = -1 \<and> relocate_one w' si s needed (rs ! k) = Some (False, w'))"
proof -
  have "relocate_loop w si s needed rel (length rs) = Some (res, w')"
    using assms(1,3,6) by (simp add: soinfo_relocate_def unat_of_nat_u32 del: relocate_loop.simps)
  from loop_touches [OF assms(4,5,2) this] show ?thesis .
qed

lemma foreign_run:
  "\<exists>w1. soinfo_relocate foreign_world 0x20000 0x2000 2 [] = Some (-1, w1) \<and> load32 (mc w1) 0x2010 = Some 0x2005"
proof -
  let ?s = "demo_so ''librel.so'' 0x2000 0x1000 0" and ?r = "\<lparr>r_offset = 0x14, r_info = 1\<rparr> :: Elf32_Rel"
  obtain w1 where w1: "relocate_loop foreign_world 0x20000 ?s [] 0x2000 1 = Some (0, w1)" "load32 (mc w1) 0x2010 = Some 0x2005"
    using foreign_first by blast
  have "\<not> accepted_type (ELF32_R_TYPE (r_info ?r))" "ELF32_R_SYM (r_info ?r) = 0" "si_flags ?s AND FLAG_EXE = 0"
    by (simp_all add: accepted_type_eq ELF32_R_TYPE_def ELF32_R_SYM_def demo_so_def zero_soinfo_def)
  then have "relocate_one w1 0x20000 ?s [] ?r = Some (False, w1)" using foreign_fails [of ?r ?s w1] by simp
  from relocate_loop_stops [OF foreign_rels _ _ this] foreign_read_only w1
  have "relocate_loop foreign_world 0x20000 ?s [] 0x2000 2 = Some (-1, w1)" by (simp add: numeral_2_eq_2 del: relocate_loop.simps)
  moreover have "sos foreign_world 0x20000 = Some ?s" by (simp add: foreign_world_def)
  ultimately show ?thesis using w1(2) by (simp add: soinfo_relocate_def del: relocate_loop.simps)
qed

lemma relocate_frame_witness:
  "\<exists>w1. soinfo_relocate foreign_world 0x20000 0x2000 2 [] = Some (-1, w1) \<and> load32 (mc w1) 0x2010 = Some 0x2005 \<and>
     touches {x. in_block 0x2010 4 x} foreign_world w1"
proof -
  let ?s = "demo_so ''librel.so'' 0x2000 0x1000 0"
  let ?rs = "[\<lparr>r_offset = 0x10, r_info = 0x17\<rparr>, \<lparr>r_offset = 0x14, r_info = 1\<rparr>] :: Elf32_Rel list"
  obtain w1 where w1: "soinfo_relocate foreign_world 0x20000 0x2000 2 [] = Some (-1, w1)" "load32 (mc w1) 0x2010 = Some 0x2005"
    using foreign_run by blast
  have s: "sos foreign_world 0x20000 = Some ?s" "si_flags ?s AND FLAG_EXE = 0"
    by (simp_all add: foreign_world_def demo_so_def zero_soinfo_def)
  have pl: "place ?s \<lparr>r_offset = 0x10, r_info = 0x17\<rparr> = 0x2010" "place ?s \<lparr>r_offset = 0x14, r_info = 1\<rparr> = 0x2014"
    by (simp_all add: place_def demo_so_def)
  have apart: "\<forall>i < 8 * length ?rs. 0x2000 + of_nat i \<notin> place_bytes ?s ?rs"
  proof (intro allI impI)
    fix i assume "i < 8 * length ?rs"
    then have u: "unat (0x2000 + of_nat i :: u32) = 0x2000 + i" by (intro unat_of_nat_u32 [of "0x2000 + i", simplified]) simp
    with \<open>i < 8 * length ?rs\<close> show "0x2000 + of_nat i \<notin> place_bytes ?s ?rs" by (simp add: place_bytes_def in_block_no_wrap u pl)
  qed
  have "rels_at (mc foreign_world) 0x2000 ?rs" using foreign_rels by simp
  from relocate_frame [OF s _ this apart, of "[]" "-1" w1] w1(1) obtain k
    where k: "k \<le> Suc (Suc 0)" "k \<noteq> Suc (Suc 0)" "touches (place_bytes ?s (take k ?rs)) foreign_world w1" by (auto split: if_splits)
  then have "k = 0 \<or> k = 1" by linarith
  then have "place_bytes ?s (take k ?rs) \<subseteq> {x. in_block 0x2010 4 x}" by (auto simp: place_bytes_def pl)
  with touches_trans [OF k(3) touches_refl [of "{}"]] w1 show ?thesis by auto
qed

end
