(* ===== verification/Emulate_File.thy ===== *)
theory Emulate_File
  imports Dlopen_File Emulator
begin

text \<open>
  From the file to the engine: \<open>load_android_so\<close> loads a library file with the linker, and the setup of
  \<open>start_vm\<close> copies the library's block into the engine, which then shows the relocated image at the same addresses.
\<close>

section \<open>The library's block\<close>

lemma load_bytes_mapped:
  "(\<And>i. i < n \<Longrightarrow> load8 m (a + of_nat i) \<noteq> None) \<Longrightarrow> \<exists>bs. load_bytes m a n = Some bs"
proof (induction n arbitrary: a)
  case (Suc n)
  have "load8 m (a + 1 + of_nat i) \<noteq> None" if "i < n" for i using Suc.prems [of "Suc i"] that by (simp add: ac_simps)
  from Suc.IH [OF this] Suc.prems [of 0] show ?case by auto
qed simp

lemma ucast_offset:
  fixes p :: u32
  assumes "unat p + i < 4294967296"
  shows "(ucast (p + of_nat i) :: u64) = ucast p + of_nat i"
proof -
  have "(ucast (p + of_nat i) :: u64) = of_nat (unat (p + of_nat i))" by (rule of_nat_unat [symmetric])
  also have "\<dots> = of_nat (unat p) + of_nat i" using assms by (simp add: unat_add_of_nat)
  also have "of_nat (unat p) = (ucast p :: u64)" by (rule of_nat_unat)
  finally show ?thesis .
qed

text \<open>The addresses of the engine that the linker's addresses stand for, as a memory.\<close>

definition engine_view :: "(u64 \<Rightarrow> u8 option) \<Rightarrow> mach \<Rightarrow> mach" where
  "engine_view ram m = m\<lparr>vbytes := (\<lambda>x. ram (ucast x))\<rparr>"

lemma load8_engine_view: "load8 (engine_view ram m) x = ram (ucast x)"
  by (simp add: engine_view_def load8_def)

lemma setup_shows_block:
  assumes laws: "unicorn_laws uc ram reg" and all: "\<forall>x. in_block (si_base s) (unat (si_size s)) x \<longrightarrow> load8 m x \<noteq> None"
    and sz: "unat (si_size s) \<le> 0x4000000" and top: "unat (si_base s) + unat (si_size s) \<le> 4294967296"
    and mp: "fst (uc_mem_map uc (ucast (si_base s)) 0x4000000 UC_PROT_ALL e) = UC_ERR_OK"
  shows "\<exists>e'. vm_setup uc g_sp m s fn e = Some e' \<and>
    (\<forall>x. in_block (si_base s) (unat (si_size s)) x \<longrightarrow> load8 (engine_view (ram e') m) x = load8 m x)"
proof -
  have "load8 m (si_base s + of_nat i) \<noteq> None" if "i < unat (si_size s)" for i
  proof -
    have "i < 4294967296" using that sz by simp
    with all that show ?thesis by (simp add: in_block_offset)
  qed
  then obtain img where img: "load_bytes m (si_base s) (unat (si_size s)) = Some img" using load_bytes_mapped by blast
  obtain e' where e': "vm_setup uc g_sp m s fn e = Some e'"
    and r: "\<forall>i < unat (si_size s). ram e' (ucast (si_base s) + of_nat i) = Some (img ! i)"
    using vm_setup_copies [OF laws img sz mp] by blast
  have "load8 (engine_view (ram e') m) x = load8 m x" if x: "in_block (si_base s) (unat (si_size s)) x" for x
  proof -
    obtain i where i: "i < unat (si_size s)" "x = si_base s + of_nat i" using x by (rule in_blockE)
    then have "(ucast x :: u64) = ucast (si_base s) + of_nat i" using top by (simp add: ucast_offset)
    with r i load_bytes_nth [OF img] show ?thesis by (simp add: load8_engine_view)
  qed
  with e' show ?thesis by blast
qed

lemma links_inside:
  assumes "links_with w LS bs p q es ps rs qs val" and ef: "elf_file bs"
    and b: "block_granted os (load_max (file_phdrs bs) - load_min (file_phdrs bs)) m1 p m2"
  shows "r \<in> set (rs @ qs) \<Longrightarrow> in_block (r_offset r + (p - load_min (file_phdrs bs))) 4 x \<Longrightarrow>
      in_block p (unat (load_max (file_phdrs bs) - load_min (file_phdrs bs))) x"
    and "image_byte bs (p - load_min (file_phdrs bs)) x \<noteq> None \<Longrightarrow>
      in_block p (unat (load_max (file_phdrs bs) - load_min (file_phdrs bs))) x"
proof -
  let ?E = "with_image bs (p - load_min (file_phdrs bs)) (mc w)"
  note L = assms(1) [unfolded links_with_def Let_def]
  obtain ph where "ph \<in> set (loads (file_phdrs bs))" "table_loaded (e_phoff (file_header bs)) (file_phdrs bs) ph"
    using ef unfolding elf_file_def by blast
  then obtain h l where tab: "phdrs_at h l (file_phdrs bs)" using L by blast
  have pl: "place (image_object ?E bs p es) r = r_offset r + (p - load_min (file_phdrs bs))" for r
    by (simp add: place_def)
  show "in_block p (unat (load_max (file_phdrs bs) - load_min (file_phdrs bs))) x"
    if "r \<in> set (rs @ qs)" "in_block (r_offset r + (p - load_min (file_phdrs bs))) 4 x"
  proof -
    have "in_image bs (p - load_min (file_phdrs bs)) (place (image_object ?E bs p es) r) 4" using L that(1) by blast
    from in_image_inside(1) [OF ef tab b this] that(2) show ?thesis by (simp add: pl)
  qed
  show "in_block p (unat (load_max (file_phdrs bs) - load_min (file_phdrs bs))) x"
    if "image_byte bs (p - load_min (file_phdrs bs)) x \<noteq> None" by (rule image_byte_inside [OF ef tab b that])
qed

section \<open>Properties\<close>

text \<open>
  C4: From the file to the engine.  When \<open>load_android_so\<close> loads a library file (under the conditions of
  \<open>dlopen_loads_file\<close>) of at most 64 MB, and the engine can map memory at the library's base, then after the setup
  of \<open>start_vm\<close> the engine shows the relocated image at the addresses that the linker gave it: every place of
  a relocation holds its value, and every other byte of a segment is the byte of the file, or 0 after the file's part.
\<close>

theorem engine_holds_file:
  assumes "set_soinfo_pool_protection os (PROT_READ OR PROT_WRITE) w0 = Some w"
    and "fs (mc w) name = Some bs" and "[] \<in> set (gLdPaths w)" and "elf_file bs"
    and "links_with w LS bs p q es ps rs qs val" and "c_open name (mc w) = (fd, m0)"
    and "view_granted os fd bs (PAGE_START (e_phoff (file_header bs)))
      (table_len (e_phoff (file_header bs)) (length (file_phdrs bs))) (set_fd fd (Some \<lparr>f_data = bs, f_pos = 52\<rparr>) m0) a m1"
    and "block_granted os (load_max (file_phdrs bs) - load_min (file_phdrs bs)) m1 p m2"
    and "unmaps_view os a (unat (table_len (e_phoff (file_header bs)) (length (file_phdrs bs))))" and "protects os"
    and "so_inv w LS (f # FL)" and "no_nul (basename name)" and "length (basename name) < 128"
    and "\<forall>x \<in> set LS. si_name (obj w x) \<noteq> basename name"
    and "set (gLdPreloads w) \<subseteq> set LS" and "somain w = 0"
    and "\<forall>x \<in> set ps. si_constructors_called (obj w x)" and "init_entries w bs p es (rs @ qs) val gs"
    and "unicorn_laws uc ram reg" and "unat (load_max (file_phdrs bs) - load_min (file_phdrs bs)) \<le> 0x4000000"
    and "uc_open uc UC_ARCH_ARM UC_MODE_THUMB = (UC_ERR_OK, e)"
    and "fst (uc_mem_map uc (ucast p) 0x4000000 UC_PROT_ALL e) = UC_ERR_OK"
  shows "\<exists>w' s e'. load_android_so os (Suc (Suc n)) name w0 = Some (f, w') \<and> sos w' f = Some s \<and> si_base s = p \<and>
    vm_setup uc g_sp (mc w') s fn e = Some e' \<and>
    (\<forall>r \<in> set (rs @ qs). load32 (engine_view (ram e') (mc w')) (r_offset r + (p - load_min (file_phdrs bs))) = Some (val r)) \<and>
    (\<forall>x b. image_byte bs (p - load_min (file_phdrs bs)) x = Some b \<and>
       (\<forall>r \<in> set (rs @ qs). \<not> in_block (r_offset r + (p - load_min (file_phdrs bs))) 4 x) \<longrightarrow>
       load8 (engine_view (ram e') (mc w')) x = Some b)"
proof -
  let ?bias = "p - load_min (file_phdrs bs)" and ?n = "unat (load_max (file_phdrs bs) - load_min (file_phdrs bs))"
  have "protect_works os" using assms(10) by (simp add: protects_def protect_works_def)
  from pool_protection_works [OF this, of "PROT_READ OR PROT_WRITE" w0] assms(1) have "logs w0 w []" by auto
  note run = dlopen_needed [OF assms(1) this assms(2-18), of 0 n]
  have "(0 :: u32) AND NOT (RTLD_NOW OR RTLD_LAZY OR RTLD_LOCAL OR RTLD_GLOBAL) = 0" by simp
  from run [OF this] obtain w' s where run: "do_dlopen os (Suc (Suc n)) (Some name) 0 w0 = Some (f, w')" and s: "sos w' f = Some s" "si_base s = p"
    and vals: "\<forall>r \<in> set (rs @ qs). load32 (mc w') (r_offset r + ?bias) = Some (val r)"
    and le: "mach_le (kept_memory w bs p es (rs @ qs)) (mc w')"
    and obj: "\<exists>l x c. s = (image_object (with_image bs ?bias (mc w)) bs p es)\<lparr>si_name := basename name, si_phdr := l,
      si_dynamic := ?bias + p_vaddr q, si_ARM_exidx := x, si_ARM_exidx_count := c, si_flags := FLAG_LINKED,
      si_ref_count := 1, si_constructors_called := (basename name \<notin> set no_constructors)\<rparr>"
    and mapped: "\<forall>x. in_block p ?n x \<longrightarrow> load8 (mc w') x \<noteq> None"
    by blast
  have f0: "f \<noteq> 0" using so_inv_live [OF assms(11), of f] by auto
  have la: "load_android_so os (Suc (Suc n)) name w0 = Some (f, w')"
    using run f0 by (simp add: load_android_so_def s_dlopen_def)
  have size: "unat (si_size s) = ?n" using obj by (auto simp: image_object_def parsed_def loaded_object_def)
  have top: "unat p + ?n \<le> 4294967296" using assms(8) by (simp add: block_granted_def)
  from setup_shows_block [OF assms(19), of s "mc w'", unfolded s(2) size, OF mapped assms(20) top assms(22)]
  obtain e' where e': "vm_setup uc g_sp (mc w') s fn e = Some e'"
    and view: "\<forall>x. in_block p ?n x \<longrightarrow> load8 (engine_view (ram e') (mc w')) x = load8 (mc w') x" by blast
  note inside = links_inside [OF assms(5,4,8)]
  have "load32 (engine_view (ram e') (mc w')) (r_offset r + ?bias) = Some (val r)" if r: "r \<in> set (rs @ qs)" for r
    using load32_bytes [of "r_offset r + ?bias" "engine_view (ram e') (mc w')" "mc w'"] inside(1) [OF r] view vals r by simp
  moreover have "load8 (engine_view (ram e') (mc w')) x = Some b"
    if x: "image_byte bs ?bias x = Some b" and nr: "\<forall>r \<in> set (rs @ qs). \<not> in_block (r_offset r + ?bias) 4 x" for x b
  proof -
    have "x \<notin> place_bytes (image_object (with_image bs ?bias (mc w)) bs p es) (rs @ qs)"
      using nr by (auto simp: place_bytes_def place_def)
    then have "load8 (kept_memory w bs p es (rs @ qs)) x = Some b"
      using x by (simp add: kept_memory_def Let_def load8_hide load8_with_image)
    with le have "load8 (mc w') x = Some b" by (rule load8_mono [rotated])
    moreover have "in_block p ?n x" using inside(2) x by simp
    ultimately show ?thesis using view by simp
  qed
  ultimately show ?thesis using la s e' by blast
qed

lemma engine_holds_file_witness:
  "\<exists>w' s e'. load_android_so (file_api full_page) 2 ''libfull.so'' full_world = Some (0x30000, w') \<and> sos w' 0x30000 = Some s \<and>
     vm_setup demo_unicorn 0x7000 (mc w') s 0 (\<lambda>_. None, \<lambda>_. 0) = Some e' \<and>
     load32 (engine_view (fst e') (mc w')) 0x1012C = Some 0x40000100 \<and> fst e' 0x10001 = Some 0x45"
proof -
  obtain m2 where b: "block_granted (file_api full_page) 4096 full_viewed 0x10000 m2" using full_grants(2) by blast
  have un: "set_soinfo_pool_protection (file_api full_page) (PROT_READ OR PROT_WRITE) full_world = Some full_world"
    by (simp add: set_soinfo_pool_protection_def full_world_def demo_libs_def demo_registry_def)
  have called: "\<forall>x \<in> set [0x20000]. si_constructors_called (obj full_world x)"
    by (simp add: full_world_def obj_def)
  have open': "uc_open demo_unicorn UC_ARCH_ARM UC_MODE_THUMB = (UC_ERR_OK, (\<lambda>_. None, \<lambda>_. 0))" by (simp add: demo_unicorn_def)
  have map': "fst (uc_mem_map demo_unicorn (ucast (0x10000 :: u32)) 0x4000000 UC_PROT_ALL (\<lambda>_. None, \<lambda>_. 0)) = UC_ERR_OK"
    by (simp add: demo_unicorn_def)
  have size: "unat (4096 :: u32) \<le> 0x4000000" by simp
  from engine_holds_file [where os = "file_api full_page" and n = 0 and g_sp = "0x7000" and fn = 0,
      OF un full_world_sel(1,2) full_page_elf full_links full_world_sel(3),
      unfolded full_page_table, OF full_grants(1) [unfolded full_read_def] b file_api_works full_world_sel(4) full_name(1,2)
      full_world_sel(5-7) called full_init_entries demo_unicorn_laws size open' map',
      unfolded numeral_2_eq_2 [symmetric] full_bias]
  obtain w' s e' where r: "load_android_so (file_api full_page) 2 ''libfull.so'' full_world = Some (0x30000, w')"
    "sos w' 0x30000 = Some s" "vm_setup demo_unicorn 0x7000 (mc w') s 0 (\<lambda>_. None, \<lambda>_. 0) = Some e'"
    and vals: "\<forall>r \<in> set ([full_slot] @ [full_init]). load32 (engine_view (fst e') (mc w')) (r_offset r + 0x10000) = Some (full_value r)"
    and img: "\<forall>x b. image_byte full_page 0x10000 x = Some b \<and>
      (\<forall>r \<in> set ([full_slot] @ [full_init]). \<not> in_block (r_offset r + 0x10000) 4 x) \<longrightarrow>
      load8 (engine_view (fst e') (mc w')) x = Some b" by blast
  have "image_byte full_page 0x10000 0x10001 = Some 0x45"
    by (simp add: image_byte_def full_page_loads in_block_def seg_addr_def full_segment_def full_page_nth) (simp add: full_bytes_def)
  moreover have "\<forall>r \<in> set ([full_slot] @ [full_init]). \<not> in_block (r_offset r + 0x10000) 4 0x10001"
    by (simp add: full_slot_def full_init_def in_block_def)
  ultimately have "load8 (engine_view (fst e') (mc w')) 0x10001 = Some 0x45" using img by blast
  then have "fst e' 0x10001 = Some 0x45" by (simp add: load8_engine_view)
  moreover have "load32 (engine_view (fst e') (mc w')) 0x1012C = Some 0x40000100"
    using vals by (simp add: full_slot_def full_value_def)
  ultimately show ?thesis using r by blast
qed

end
