(* ===== verification/Constructors.thy ===== *)
theory Constructors
  imports Frame
begin

text \<open>
  \<open>soinfo::CallConstructors\<close> of emulator/linker.cpp on libraries that may need each other: it returns, it
  runs everything a library needs before the library, and it leaves the rest of the linker's state
  alone.
\<close>

section \<open>What the calls of functions change\<close>

text \<open>
  The pages that overlap the \<open>n\<close> bytes at \<open>a\<close>.  \<open>VirtualProtect\<close> changes the protection of these
  pages only, and nothing else; as with \<open>protect_works\<close>, the runs described are those in which
  no change is refused.
\<close>

definition on_pages :: "u32 \<Rightarrow> nat \<Rightarrow> u32 \<Rightarrow> bool" where
  "on_pages a n x \<longleftrightarrow> (\<exists>i<n. PAGE_START x = PAGE_START (a + of_nat i))"

definition protects_pages :: "win_api \<Rightarrow> bool" where
  "protects_pages os \<longleftrightarrow>
     (\<forall>a l p m. \<exists>vw. VirtualProtect os a l p m = (True, m\<lparr>vwr := vw\<rparr>) \<and>
        (\<forall>x. \<not> on_pages a (unat l) x \<longrightarrow> vw x = vwr m x))"

lemma protects_pages_works: "protects_pages os \<Longrightarrow> protect_works os"
  unfolding protects_pages_def protect_works_def
  by (intro allI) (metis fst_conv snd_conv mach.select_convs(1) mach.surjective mach.update_convs(2))

text \<open>
  Libraries become marked, lines are added, pages of the pools change their protection, and
  everything else in the linker's state and in the machine is as before.
\<close>

definition calls_only :: "world \<Rightarrow> world \<Rightarrow> bool" where
  "calls_only w w' \<longleftrightarrow>
     (\<exists>so vw ev. w' = w\<lparr>sos := so, mc := (mc w)\<lparr>vwr := vw\<rparr>, out_log := out_log w @ ev\<rparr> \<and>
        (\<forall>q. so q = sos w q \<or> so q = map_option (\<lambda>s. s\<lparr>si_constructors_called := True\<rparr>) (sos w q)) \<and>
        (\<forall>x. (\<forall>pool \<in> set (gSoInfoPools w). \<not> on_pages pool (unat sizeof_pool) x) \<longrightarrow> vw x = vwr (mc w) x))"

lemma calls_only_refl: "calls_only w w"
  unfolding calls_only_def by (intro exI [of _ "sos w"] exI [of _ "vwr (mc w)"] exI [of _ "[]"]) simp

lemma calls_only_trans:
  assumes a: "calls_only w1 w2" and b: "calls_only w2 w3"
  shows "calls_only w1 w3"
proof -
  let ?mk = "map_option (\<lambda>s. s\<lparr>si_constructors_called := True\<rparr>)"
  obtain so vw ev where w2: "w2 = w1\<lparr>sos := so, mc := (mc w1)\<lparr>vwr := vw\<rparr>, out_log := out_log w1 @ ev\<rparr>"
    and so: "so q = sos w1 q \<or> so q = ?mk (sos w1 q)"
    and vw: "(\<forall>pool \<in> set (gSoInfoPools w1). \<not> on_pages pool (unat sizeof_pool) x) \<Longrightarrow> vw x = vwr (mc w1) x" for q x
    using a unfolding calls_only_def by blast
  obtain so' vw' ev' where w3: "w3 = w2\<lparr>sos := so', mc := (mc w2)\<lparr>vwr := vw'\<rparr>, out_log := out_log w2 @ ev'\<rparr>"
    and so': "so' q = sos w2 q \<or> so' q = ?mk (sos w2 q)"
    and vw': "(\<forall>pool \<in> set (gSoInfoPools w2). \<not> on_pages pool (unat sizeof_pool) x) \<Longrightarrow> vw' x = vwr (mc w2) x" for q x
    using b unfolding calls_only_def by blast
  have "so' q = sos w1 q \<or> so' q = ?mk (sos w1 q)" for q
    using so [of q] so' [of q] by (cases "sos w1 q") (auto simp: w2)
  moreover have "vw' x = vwr (mc w1) x"
    if "\<forall>pool \<in> set (gSoInfoPools w1). \<not> on_pages pool (unat sizeof_pool) x" for x
    using vw [of x] vw' [of x] that by (simp add: w2)
  ultimately show ?thesis
    unfolding calls_only_def by (intro exI [of _ so'] exI [of _ vw'] exI [of _ "ev @ ev'"]) (simp add: w2 w3)
qed

lemma pools_on_pages:
  assumes os: "protects_pages os" and run: "protect_pools os prot ps m = Some m'"
  shows "\<exists>vw. m' = m\<lparr>vwr := vw\<rparr> \<and> (\<forall>x. (\<forall>pool \<in> set ps. \<not> on_pages pool (unat sizeof_pool) x) \<longrightarrow> vw x = vwr m x)"
  using run
proof (induction ps arbitrary: m)
  case Nil
  then show ?case by (intro exI [of _ "vwr m"]) simp
next
  case (Cons p ps)
  obtain vw where v: "VirtualProtect os p sizeof_pool (map_mmap_prot_page prot) m = (True, m\<lparr>vwr := vw\<rparr>)"
    and vw: "\<forall>x. \<not> on_pages p (unat sizeof_pool) x \<longrightarrow> vw x = vwr m x"
    using os unfolding protects_pages_def by blast
  from v Cons.prems have "protect_pools os prot ps (m\<lparr>vwr := vw\<rparr>) = Some m'" by (simp add: s_mprotect_def)
  from Cons.IH [OF this] obtain vw' where "m' = m\<lparr>vwr := vw'\<rparr>"
    and "\<forall>x. (\<forall>pool \<in> set ps. \<not> on_pages pool (unat sizeof_pool) x) \<longrightarrow> vw' x = vw x" by auto
  with vw show ?case by (intro exI [of _ vw']) auto
qed

lemma protection_calls_only:
  assumes "protects_pages os" and "set_soinfo_pool_protection os prot w = Some w'"
  shows "calls_only w w'"
proof -
  obtain m where m: "protect_pools os prot (gSoInfoPools w) (mc w) = Some m" "w' = w\<lparr>mc := m\<rparr>"
    using assms(2) by (auto simp: set_soinfo_pool_protection_def Option.bind_eq_Some_conv)
  obtain vw where vw: "m = (mc w)\<lparr>vwr := vw\<rparr>"
    "\<forall>x. (\<forall>pool \<in> set (gSoInfoPools w). \<not> on_pages pool (unat sizeof_pool) x) \<longrightarrow> vw x = vwr (mc w) x"
    using pools_on_pages [OF assms(1) m(1)] by blast
  have "w' = w\<lparr>sos := sos w, mc := (mc w)\<lparr>vwr := vw\<rparr>, out_log := out_log w @ []\<rparr>"
    by (simp add: m(2) vw(1))
  with vw(2) show ?thesis
    unfolding calls_only_def by (intro exI [of _ "sos w"] exI [of _ vw] exI [of _ "[]"]) simp
qed

lemma lines_calls_only: "calls_only w (w\<lparr>out_log := out_log w @ l\<rparr>)"
  unfolding calls_only_def by (intro exI [of _ "sos w"] exI [of _ "vwr (mc w)"] exI [of _ l]) simp

lemma mark_calls_only:
  "sos w p = Some s \<Longrightarrow> calls_only w (w\<lparr>sos := (sos w)(p \<mapsto> s\<lparr>si_constructors_called := True\<rparr>)\<rparr>)"
  unfolding calls_only_def
  by (intro exI [of _ "(sos w)(p \<mapsto> s\<lparr>si_constructors_called := True\<rparr>)"] exI [of _ "vwr (mc w)"] exI [of _ "[]"]) simp

interpretation exact: call_frame os "\<lambda>w w'. protects_pages os \<longrightarrow> calls_only w w'" for os
  by unfold_locales
    (blast intro: calls_only_refl calls_only_trans protection_calls_only lines_calls_only mark_calls_only)+

section \<open>Constructors of libraries that need each other\<close>

text \<open>
  The registry is complete for its constructors: what each library needs is registered, its dynamic
  section is readable, and so is its array of initialisation functions.
\<close>

definition needs_ok :: "world \<Rightarrow> u32 list \<Rightarrow> soinfo \<Rightarrow> Elf32_Dyn \<Rightarrow> bool" where
  "needs_ok w LS s e \<longleftrightarrow>
     (d_tag e = DT_NEEDED \<longrightarrow>
        (\<exists>name. str_at (mc w) (si_strtab s + d_val e) name \<and> (\<exists>q \<in> set LS. si_name (obj w q) = basename name)))"

definition ctors_ready :: "world \<Rightarrow> u32 list \<Rightarrow> u32 list \<Rightarrow> bool" where
  "ctors_ready w LS FL \<longleftrightarrow> so_inv w LS FL \<and>
     (\<forall>p \<in> set LS.
        (si_dynamic (obj w p) = 0 \<or>
         (\<exists>es. dyns_at (mc w) (si_dynamic (obj w p)) es \<and> (\<forall>e \<in> set es. needs_ok w LS (obj w p) e))) \<and>
        (si_init_array (obj w p) = 0 \<or>
         (\<exists>gs. funs_at w (si_init_array (obj w p)) gs \<and> si_init_array_count (obj w p) = of_nat (length gs))))"

lemma needs_ok_step: "ctor_step w w' \<Longrightarrow> needs_ok w' LS (obj w' p) e = needs_ok w LS (obj w p) e"
proof -
  assume st: "ctor_step w w'"
  then have "vbytes (mc w') = vbytes (mc w)" by (simp add: ctor_step_def)
  note v = str_at_vbytes [OF this]
  show ?thesis unfolding needs_ok_def ctor_step_obj(1-3) [OF st] v ..
qed

lemma ctors_ready_step:
  assumes st: "ctor_step w w'" and r: "ctors_ready w LS FL"
  shows "ctors_ready w' LS FL"
proof -
  have v: "vbytes (mc w') = vbytes (mc w)" using st by (simp add: ctor_step_def)
  show ?thesis
    using r ctor_step_inv [OF st, of LS FL]
    unfolding ctors_ready_def ctor_step_obj(1-5) [OF st] needs_ok_step [OF st] dyns_at_vbytes [OF v]
        funs_at_vbytes [OF v] by blast
qed

definition uncalled :: "world \<Rightarrow> u32 list \<Rightarrow> nat" where
  "uncalled w LS = card {p \<in> set LS. \<not> si_constructors_called (obj w p)}"

lemma uncalled_step: "ctor_step w w' \<Longrightarrow> uncalled w' LS \<le> uncalled w LS"
  using ctor_step_obj(6) by (auto simp: uncalled_def intro!: card_mono)

lemma uncalled_mark:
  assumes "p \<in> set LS" and "sos w p = Some s" and "\<not> si_constructors_called s"
  shows "uncalled (put_si p (s\<lparr>si_constructors_called := True\<rparr>) w) LS < uncalled w LS"
  unfolding uncalled_def
proof (rule psubset_card_mono)
  show "{q \<in> set LS. \<not> si_constructors_called (obj (put_si p (s\<lparr>si_constructors_called := True\<rparr>) w) q)} \<subset>
      {q \<in> set LS. \<not> si_constructors_called (obj w q)}" (is "?A \<subset> ?B")
  proof
    show "?A \<subseteq> ?B" using assms(2) by (auto simp: obj_def put_si_def split: if_splits)
    have "p \<in> ?B" and "p \<notin> ?A" using assms by (auto simp: obj_def put_si_def)
    then show "?A \<noteq> ?B" by blast
  qed
qed simp

text \<open>
  What the code's search of the list finds for an entry of a dynamic section, and for a library: \<open>q\<close> is
  the first registered library that has the name which \<open>p\<close> needs.
\<close>

definition names_lib :: "world \<Rightarrow> u32 list \<Rightarrow> soinfo \<Rightarrow> Elf32_Dyn \<Rightarrow> u32 \<Rightarrow> bool" where
  "names_lib w LS s e q \<longleftrightarrow> d_tag e = DT_NEEDED \<and>
     (\<exists>name. str_at (mc w) (si_strtab s + d_val e) name \<and> find (\<lambda>x. basename name = si_name (obj w x)) LS = Some q)"

definition needs_lib :: "world \<Rightarrow> u32 list \<Rightarrow> u32 \<Rightarrow> u32 \<Rightarrow> bool" where
  "needs_lib w LS p q \<longleftrightarrow> si_dynamic (obj w p) \<noteq> 0 \<and>
     (\<exists>es e. dyns_at (mc w) (si_dynamic (obj w p)) es \<and> e \<in> set es \<and> names_lib w LS (obj w p) e q)"

lemma names_lib_step: "ctor_step w w' \<Longrightarrow> names_lib w' LS (obj w' p) e q = names_lib w LS (obj w p) e q"
proof -
  assume st: "ctor_step w w'"
  then have "vbytes (mc w') = vbytes (mc w)" by (simp add: ctor_step_def)
  note v = str_at_vbytes [OF this]
  show ?thesis unfolding names_lib_def ctor_step_obj(1,3) [OF st] v ..
qed

lemma needs_lib_step: "ctor_step w w' \<Longrightarrow> needs_lib w' LS p q = needs_lib w LS p q"
proof -
  assume st: "ctor_step w w'"
  then have "vbytes (mc w') = vbytes (mc w)" by (simp add: ctor_step_def)
  note v = dyns_at_vbytes [OF this]
  show ?thesis unfolding needs_lib_def names_lib_step [OF st] ctor_step_obj(2) [OF st] v ..
qed

lemma dyns_at_unique: "dyns_at m a es \<Longrightarrow> dyns_at m a es' \<Longrightarrow> es' = es"
proof (induction es arbitrary: a es')
  case Nil
  then show ?case by (cases es') auto
next
  case (Cons e es)
  then show ?case by (cases es') auto
qed

text \<open>Every library that has become marked has all it needs marked.\<close>

definition closed_marks :: "world \<Rightarrow> world \<Rightarrow> u32 list \<Rightarrow> bool" where
  "closed_marks w w' LS \<longleftrightarrow>
     (\<forall>r. si_constructors_called (obj w' r) \<longrightarrow> \<not> si_constructors_called (obj w r) \<longrightarrow>
        (\<forall>q. needs_lib w LS r q \<longrightarrow> si_constructors_called (obj w' q)))"

lemma closed_marks_logs: "logs w w' ev \<Longrightarrow> closed_marks w w' LS"
  by (simp add: closed_marks_def obj_def logs_sel)

lemma closed_marks_trans:
  assumes "ctor_step w w1" and "ctor_step w1 w2" and "closed_marks w w1 LS" and "closed_marks w1 w2 LS"
  shows "closed_marks w w2 LS"
  using assms(3,4) ctor_step_obj(6) [OF assms(2)] unfolding closed_marks_def needs_lib_step [OF assms(1)] by blast

lemma ctor_walk:
  assumes es: "dyns_at (mc w) a es" "\<forall>e \<in> set es. needs_ok w LS (obj w p) e"
    and r: "ctors_ready w LS FL" and p: "p \<in> set LS" and n: "uncalled w LS < n"
    and rec: "\<And>w q. ctors_ready w LS FL \<Longrightarrow> q \<in> set LS \<Longrightarrow> uncalled w LS < n \<Longrightarrow>
       \<exists>w'. rc q w = Some w' \<and> ctor_step w w' \<and> closed_marks w w' LS \<and> si_constructors_called (obj w' q)"
  shows "\<exists>w'. walk_dyn mc (ctor_dyn rc p) a w = Some (True, w') \<and> ctor_step w w' \<and> closed_marks w w' LS \<and>
    (\<forall>e \<in> set es. \<forall>q. names_lib w LS (obj w p) e q \<longrightarrow> si_constructors_called (obj w' q))"
  using es r n
proof (induction es arbitrary: a w)
  case Nil
  then show ?case using ctor_step_refl closed_marks_logs [OF logs_refl] by (subst walk_dyn.simps) auto
next
  case (Cons e es)
  have "\<exists>w1. ctor_dyn rc p e w = Some (True, w1) \<and> ctor_step w w1 \<and> closed_marks w w1 LS \<and>
      (\<forall>q. names_lib w LS (obj w p) e q \<longrightarrow> si_constructors_called (obj w1 q))"
  proof (cases "d_tag e = DT_NEEDED")
    case False
    then show ?thesis
      using ctor_step_refl closed_marks_logs [OF logs_refl] by (auto simp: ctor_dyn_def names_lib_def)
  next
    case True
    with Cons.prems(2) obtain name q where nm: "str_at (mc w) (si_strtab (obj w p) + d_val e) name"
      and q: "q \<in> set LS" "si_name (obj w q) = basename name"
      by (auto simp: needs_ok_def)
    have inv: "so_inv w LS FL" using Cons.prems(3) by (simp add: ctors_ready_def)
    then have s: "sos w p = Some (obj w p)" using so_inv_live [OF inv, of p] p by (auto simp: obj_def)
    obtain q' where q': "find (\<lambda>p. basename name = si_name (obj w p)) LS = Some q'" "q' \<in> set LS"
      using q by (cases "find (\<lambda>p. basename name = si_name (obj w p)) LS")
        (auto simp: find_None_iff find_Some_iff)
    then have f: "find_loaded_library name w = Some q'"
      using find_loaded_library_eq [OF inv, of name] by (simp add: ptr_of_def)
    from rec [OF Cons.prems(3) \<open>q' \<in> set LS\<close> Cons.prems(4)] obtain w1 where w1: "rc q' w = Some w1"
      "ctor_step w w1" "closed_marks w w1 LS" "si_constructors_called (obj w1 q')" by blast
    have "x = q'" if "names_lib w LS (obj w p) e x" for x
      using that q'(1) cstr_str_at [OF nm] by (auto simp: names_lib_def dest!: cstr_str_at)
    with True s f cstr_str_at [OF nm] w1 show ?thesis by (auto simp: ctor_dyn_def)
  qed
  then obtain w1 where w1: "ctor_dyn rc p e w = Some (True, w1)" and st: "ctor_step w w1"
    and cl: "closed_marks w w1 LS" and e: "\<forall>q. names_lib w LS (obj w p) e q \<longrightarrow> si_constructors_called (obj w1 q)"
    by blast
  have v: "vbytes (mc w1) = vbytes (mc w)" using st by (simp add: ctor_step_def)
  have "dyns_at (mc w1) (a + sizeof_Dyn) es" using Cons.prems(1) by (simp add: dyns_at_vbytes [OF v])
  moreover have "\<forall>e \<in> set es. needs_ok w1 LS (obj w1 p) e" using Cons.prems(2) by (simp add: needs_ok_step [OF st])
  moreover have "uncalled w1 LS < n" using uncalled_step [OF st, of LS] Cons.prems(4) by linarith
  ultimately obtain w2 where w2: "walk_dyn mc (ctor_dyn rc p) (a + sizeof_Dyn) w1 = Some (True, w2)"
    "ctor_step w1 w2" "closed_marks w1 w2 LS"
    "\<forall>e \<in> set es. \<forall>q. names_lib w1 LS (obj w1 p) e q \<longrightarrow> si_constructors_called (obj w2 q)"
    using Cons.IH ctors_ready_step [OF st Cons.prems(3)] by blast
  have es: "\<forall>e \<in> set es. \<forall>q. names_lib w LS (obj w p) e q \<longrightarrow> si_constructors_called (obj w2 q)"
    using w2(4) unfolding names_lib_step [OF st] .
  have "walk_dyn mc (ctor_dyn rc p) a w = Some (True, w2)"
    using w1 w2(1) Cons.prems(1) by (subst walk_dyn.simps) simp
  moreover have "si_constructors_called (obj w2 q)" if "names_lib w LS (obj w p) e q" for q
    using e ctor_step_obj(6) [OF w2(2)] that by blast
  ultimately show ?case
    using es ctor_step_trans [OF st w2(2)] closed_marks_trans [OF st w2(2) cl w2(3)] by auto
qed

lemma constructors_return:
  assumes os: "protect_works os"
  shows "ctors_ready w LS FL \<Longrightarrow> p \<in> set LS \<Longrightarrow> uncalled w LS < n \<Longrightarrow>
    \<exists>w'. CallConstructors os n p w = Some w' \<and> ctor_step w w' \<and> closed_marks w w' LS \<and>
      si_constructors_called (obj w' p)"
proof (induction n arbitrary: w p)
  case 0
  then show ?case by simp
next
  case (Suc n)
  let ?s = "obj w p"
  have s: "sos w p = Some ?s"
    using so_inv_live [of w LS FL p] Suc.prems by (auto simp: ctors_ready_def obj_def)
  show ?case
  proof (cases "si_constructors_called ?s")
    case True
    with s show ?thesis using ctor_step_refl closed_marks_logs [OF logs_refl] by simp
  next
    case False
    let ?w = "put_si p (?s\<lparr>si_constructors_called := True\<rparr>) w"
    have m: "upd_si p (\<lambda>s. s\<lparr>si_constructors_called := True\<rparr>) w = Some ?w" "ctor_step w ?w"
      using mark_ctor_step [OF s] by simp_all
    have r: "ctors_ready ?w LS FL" using ctors_ready_step [OF m(2) Suc.prems(1)] .
    have u: "uncalled ?w LS < n" using uncalled_mark [OF Suc.prems(2) s False] Suc.prems(3) by linarith
    have d: "si_dynamic (obj ?w p) = si_dynamic ?s" by (rule ctor_step_obj(2) [OF m(2)])
    have "\<exists>w1. (if si_dynamic ?s \<noteq> 0 then walk_dyn mc (ctor_dyn (CallConstructors os n) p) (si_dynamic ?s) ?w
        else Some (True, ?w)) = Some (True, w1) \<and> ctor_step ?w w1 \<and> closed_marks ?w w1 LS \<and>
        (\<forall>q. needs_lib ?w LS p q \<longrightarrow> si_constructors_called (obj w1 q))"
    proof (cases "si_dynamic ?s = 0")
      case True
      then show ?thesis using ctor_step_refl closed_marks_logs [OF logs_refl] d by (simp add: needs_lib_def)
    next
      case False
      with r d Suc.prems(2) obtain es where es: "dyns_at (mc ?w) (si_dynamic ?s) es"
        "\<forall>e \<in> set es. needs_ok ?w LS (obj ?w p) e"
        unfolding ctors_ready_def by metis
      obtain w1 where w1: "walk_dyn mc (ctor_dyn (CallConstructors os n) p) (si_dynamic ?s) ?w = Some (True, w1)"
        "ctor_step ?w w1" "closed_marks ?w w1 LS"
        "\<forall>e \<in> set es. \<forall>q. names_lib ?w LS (obj ?w p) e q \<longrightarrow> si_constructors_called (obj w1 q)"
        using ctor_walk [OF es r Suc.prems(2) u Suc.IH] by blast
      have "\<forall>q. needs_lib ?w LS p q \<longrightarrow> si_constructors_called (obj w1 q)"
        using w1(4) dyns_at_unique [OF es(1)] d unfolding needs_lib_def by auto
      with w1 False show ?thesis by auto
    qed
    then obtain w1 where w1: "(if si_dynamic ?s \<noteq> 0
        then walk_dyn mc (ctor_dyn (CallConstructors os n) p) (si_dynamic ?s) ?w else Some (True, ?w)) = Some (True, w1)"
      and st: "ctor_step ?w w1" and cl: "closed_marks ?w w1 LS"
      and nd: "\<forall>q. needs_lib ?w LS p q \<longrightarrow> si_constructors_called (obj w1 q)" by blast
    have r1: "ctors_ready w1 LS FL" by (rule ctors_ready_step [OF st r])
    have s1: "sos w1 p = Some (obj w1 p)"
      using so_inv_live [of w1 LS FL p] r1 Suc.prems(2) by (auto simp: ctors_ready_def obj_def)
    obtain gs where "si_init_array (obj w1 p) \<noteq> 0 \<longrightarrow> funs_at w1 (si_init_array (obj w1 p)) gs \<and>
        si_init_array_count (obj w1 p) = of_nat (length gs)"
      using r1 Suc.prems(2) unfolding ctors_ready_def by metis
    then obtain w2 ev where w2: "call_init os p w1 = Some w2" "logs w1 w2 ev"
      using call_init_works [OF os s1, of gs] by blast
    have "CallConstructors os (Suc n) p w = Some w2"
      using s m(1) w1 w2(1) False by simp
    moreover have st2: "ctor_step ?w w2" using ctor_step_trans [OF st logs_ctor_step [OF w2(2)]] .
    moreover have "si_constructors_called (obj ?w p)" by (simp add: obj_def put_si_def)
    moreover have "closed_marks w w2 LS"
    proof -
      have "closed_marks ?w w2 LS"
        using closed_marks_trans [OF st logs_ctor_step [OF w2(2)] cl closed_marks_logs [OF w2(2)]] .
      moreover have "obj w r = obj ?w r" if "r \<noteq> p" for r using that by (simp add: obj_def put_si_def)
      moreover have "\<forall>q. needs_lib ?w LS p q \<longrightarrow> si_constructors_called (obj w2 q)"
        using nd ctor_step_obj(6) [OF logs_ctor_step [OF w2(2)]] by blast
      ultimately show ?thesis unfolding closed_marks_def needs_lib_step [OF m(2)] by metis
    qed
    ultimately show ?thesis using ctor_step_trans [OF m(2)] ctor_step_obj(6) by blast
  qed
qed

section \<open>Properties\<close>

text \<open>
  C18: Suppose that the list is well formed, that each registered library has a readable dynamic section
  whose needed names are all registered and a readable array of initialisation functions
  (\<open>ctors_ready\<close>), and that the system grants changes of protection.  Then \<open>CallConstructors\<close> returns on
  every registered library, also when libraries need each other in a cycle, with any recursion depth
  above the number of libraries not yet marked: a library is marked before the recursion.  Afterwards
  the library is marked, so that another call does nothing, and every library that has become marked
  has all libraries it needs marked.  Marks, lines added to the record and the protection of the pages
  of the pools are all that changed, in the linker's state as in the machine.
\<close>

theorem constructors_terminate:
  assumes "protects_pages os" and "ctors_ready w LS FL" and "p \<in> set LS" and "uncalled w LS < n"
  shows "\<exists>w'. CallConstructors os n p w = Some w' \<and> calls_only w w' \<and>
    si_constructors_called (obj w' p) \<and> CallConstructors os (Suc k) p w' = Some w' \<and>
    (\<forall>r q. si_constructors_called (obj w' r) \<and> \<not> si_constructors_called (obj w r) \<and> needs_lib w LS r q \<longrightarrow>
       si_constructors_called (obj w' q))"
proof -
  obtain w' where w': "CallConstructors os n p w = Some w'" "ctor_step w w'" "closed_marks w w' LS"
    "si_constructors_called (obj w' p)"
    using constructors_return [OF protects_pages_works [OF assms(1)] assms(2-4)] by blast
  have "sos w' p = Some (obj w' p)"
    using so_inv_live [of w' LS FL p] ctors_ready_step [OF w'(2) assms(2)] assms(3)
    by (auto simp: ctors_ready_def obj_def)
  with w' exact.constructors [OF w'(1)] assms(1) show ?thesis by (auto simp: closed_marks_def)
qed

text \<open>Two libraries that need each other.\<close>

definition demo_cycle_bytes :: "u8 list" where
  "demo_cycle_bytes =
     [1, 0, 0, 0, 0x20, 0, 0, 0, 0, 0, 0, 0, 0, 0, 0, 0,  1, 0, 0, 0, 0x22, 0, 0, 0, 0, 0, 0, 0, 0, 0, 0, 0,
      0x62, 0, 0x61, 0]"

definition demo_cycle :: world where
  "demo_cycle = demo_registry\<lparr>mc := mem_of 0x2000 demo_cycle_bytes,
     sos := [0x10000 \<mapsto> (demo_so ''a'' 0 0 0x20000)\<lparr>si_dynamic := 0x2000, si_strtab := 0x2000, si_init_func := 0x100\<rparr>,
             0x20000 \<mapsto> (demo_so ''b'' 0 0 0)\<lparr>si_dynamic := 0x2010, si_strtab := 0x2000, si_init_func := 0x200\<rparr>,
             0x30000 \<mapsto> zero_soinfo]\<rparr>"

lemma demo_cycle_load8:
  "load8 (mem_of 0x2000 demo_cycle_bytes) a =
     (if unat (a - 0x2000) < 36 then Some (demo_cycle_bytes ! unat (a - 0x2000)) else None)"
  by (simp add: load8_def mem_of_def in_block_def demo_cycle_bytes_def)

lemma demo_cycle_memory:
  "dyns_at (mem_of 0x2000 demo_cycle_bytes) 0x2000 [\<lparr>d_tag = 1, d_val = 0x20\<rparr>]"
  "dyns_at (mem_of 0x2000 demo_cycle_bytes) 0x2010 [\<lparr>d_tag = 1, d_val = 0x22\<rparr>]"
  "str_at (mem_of 0x2000 demo_cycle_bytes) 0x2020 ''b''" "str_at (mem_of 0x2000 demo_cycle_bytes) 0x2022 ''a''"
  by (simp_all add: read_dyn_def load32_def demo_cycle_load8) (simp_all add: demo_cycle_bytes_def le32_def char_byte_def)

lemma demo_cycle_objs:
  "obj demo_cycle 0x10000 = (demo_so ''a'' 0 0 0x20000)\<lparr>si_dynamic := 0x2000, si_strtab := 0x2000, si_init_func := 0x100\<rparr>"
  "obj demo_cycle 0x20000 = (demo_so ''b'' 0 0 0)\<lparr>si_dynamic := 0x2010, si_strtab := 0x2000, si_init_func := 0x200\<rparr>"
  by (simp_all add: obj_def demo_cycle_def)

lemma demo_cycle_ready: "ctors_ready demo_cycle [0x10000, 0x20000] [0x30000]"
proof -
  have m: "mc demo_cycle = mem_of 0x2000 demo_cycle_bytes" by (simp add: demo_cycle_def)
  have i: "so_inv demo_cycle [0x10000, 0x20000] [0x30000]"
    by (simp add: so_inv_def demo_cycle_def demo_registry_def demo_so_def zero_soinfo_def)
  let ?ok = "\<lambda>p. \<exists>es. dyns_at (mc demo_cycle) (si_dynamic (obj demo_cycle p)) es \<and>
      (\<forall>e \<in> set es. needs_ok demo_cycle [0x10000, 0x20000] (obj demo_cycle p) e)"
  have n: "si_name (obj demo_cycle 0x10000) = ''a''" "si_name (obj demo_cycle 0x20000) = ''b''"
    "si_strtab (obj demo_cycle 0x10000) = 0x2000" "si_strtab (obj demo_cycle 0x20000) = 0x2000"
    "si_init_array (obj demo_cycle 0x10000) = 0" "si_init_array (obj demo_cycle 0x20000) = 0"
    "si_dynamic (obj demo_cycle 0x10000) = 0x2000" "si_dynamic (obj demo_cycle 0x20000) = 0x2010"
    by (simp_all add: demo_cycle_objs demo_so_def zero_soinfo_def)
  have "needs_ok demo_cycle [0x10000, 0x20000] (obj demo_cycle 0x10000) \<lparr>d_tag = 1, d_val = 0x20\<rparr>"
    unfolding needs_ok_def m using demo_cycle_memory(3) n
    by (intro impI exI [of _ "''b''"]) (simp add: basename_def)
  then have "?ok 0x10000"
    using demo_cycle_memory(1) unfolding m n by (intro exI [of _ "[\<lparr>d_tag = 1, d_val = 0x20\<rparr>]"]) simp
  moreover have "needs_ok demo_cycle [0x10000, 0x20000] (obj demo_cycle 0x20000) \<lparr>d_tag = 1, d_val = 0x22\<rparr>"
    unfolding needs_ok_def m using demo_cycle_memory(4) n
    by (intro impI exI [of _ "''a''"]) (simp add: basename_def)
  then have "?ok 0x20000"
    using demo_cycle_memory(2) unfolding m n by (intro exI [of _ "[\<lparr>d_tag = 1, d_val = 0x22\<rparr>]"]) simp
  ultimately show ?thesis using i n(5,6) unfolding ctors_ready_def by simp
qed

lemma demo_protects_pages: "protects_pages demo_api"
  unfolding protects_pages_def
proof (intro allI)
  fix a l p m
  show "\<exists>vw. VirtualProtect demo_api a l p m = (True, m\<lparr>vwr := vw\<rparr>) \<and>
      (\<forall>x. \<not> on_pages a (unat l) x \<longrightarrow> vw x = vwr m x)"
    by (intro exI [of _ "vwr m"]) (simp add: demo_api_def)
qed

lemma demo_cycle_needs: "needs_lib demo_cycle [0x10000, 0x20000] 0x10000 0x20000"
proof -
  have m: "mc demo_cycle = mem_of 0x2000 demo_cycle_bytes" by (simp add: demo_cycle_def)
  have n: "si_name (obj demo_cycle 0x10000) = ''a''" "si_name (obj demo_cycle 0x20000) = ''b''"
    "si_strtab (obj demo_cycle 0x10000) = 0x2000" "si_dynamic (obj demo_cycle 0x10000) = 0x2000"
    by (simp_all add: demo_cycle_objs demo_so_def)
  have "names_lib demo_cycle [0x10000, 0x20000] (obj demo_cycle 0x10000) \<lparr>d_tag = 1, d_val = 0x20\<rparr> 0x20000"
    unfolding names_lib_def m using demo_cycle_memory(3) n
    by (intro conjI exI [of _ "''b''"]) (simp_all add: basename_def)
  with demo_cycle_memory(1) n show ?thesis
    unfolding needs_lib_def m by (intro conjI exI [of _ "[\<lparr>d_tag = 1, d_val = 0x20\<rparr>]"]) auto
qed

lemma constructors_terminate_witness:
  "\<exists>w'. CallConstructors demo_api 3 0x10000 demo_cycle = Some w' \<and> calls_only demo_cycle w' \<and>
     si_constructors_called (obj w' 0x10000) \<and> si_constructors_called (obj w' 0x20000) \<and>
     CallConstructors demo_api 1 0x10000 w' = Some w'"
proof -
  have "uncalled demo_cycle [0x10000, 0x20000] \<le> card (set [0x10000 :: u32, 0x20000])"
    unfolding uncalled_def by (intro card_mono) auto
  then have "uncalled demo_cycle [0x10000, 0x20000] < 3" by simp
  moreover have "\<not> si_constructors_called (obj demo_cycle 0x10000)"
    by (simp add: demo_cycle_objs demo_so_def zero_soinfo_def)
  ultimately show ?thesis
    using constructors_terminate [OF demo_protects_pages demo_cycle_ready, of "0x10000" 3 0] demo_cycle_needs
    by (auto simp del: CallConstructors.simps)
qed

end
