(* ===== verification/Link_Result.thy ===== *)
theory Link_Result
  imports Link_Needed Reloc_Types
begin

text \<open>
  \<open>soinfo_link_image\<close> on a library that lies in memory, with its results: without its tables, with a relocation that the
  linker refuses, and linked.
\<close>

section \<open>A table with an entry that is refused\<close>

lemma relocate_loop_continues:
  "relocate_loop w si s needed a n = Some (0, w1) \<Longrightarrow>
    relocate_loop w si s needed a (n + k) = relocate_loop w1 si s needed (a + 8 * of_nat n) k"
proof (induction n arbitrary: w a)
  case (Suc n)
  from Suc.prems obtain r w2 where r: "read_rel (mc w) a = Some r" "relocate_one w si s needed r = Some (True, w2)"
    and rest: "relocate_loop w2 si s needed (a + sizeof_Rel) n = Some (0, w1)"
    by (auto simp: Option.bind_eq_Some_conv split: if_splits)
  have "a + 8 * of_nat (Suc n) = a + sizeof_Rel + 8 * of_nat n" by (simp add: algebra_simps)
  with Suc.IH [OF rest] r show ?case by (simp add: ac_simps)
qed simp

lemma rels_at_entry: "rels_at m a (rs @ r # ts) \<Longrightarrow> read_rel m (a + 8 * of_nat (length rs)) = Some r"
proof (induction rs arbitrary: a)
  case (Cons q rs)
  have "a + 8 * of_nat (length (q # rs)) = a + sizeof_Rel + 8 * of_nat (length rs)" by (simp add: algebra_simps)
  with Cons.IH [of "a + sizeof_Rel"] Cons.prems show ?case by (simp add: ac_simps)
qed simp

lemma rels_at_front: "rels_at m a (rs @ ts) \<Longrightarrow> rels_at m a rs"
  by (induction rs arbitrary: a) simp_all

text \<open>The entries before the first one whose type the linker does not apply.\<close>

definition handled :: "Elf32_Rel list \<Rightarrow> Elf32_Rel list" where
  "handled rs = takeWhile (\<lambda>r. accepted_type (ELF32_R_TYPE (r_info r))) rs"

lemma handled_split:
  assumes "handled rs \<noteq> rs"
  obtains r ts where "rs = handled rs @ r # ts" and "\<not> accepted_type (ELF32_R_TYPE (r_info r))"
proof -
  let ?P = "\<lambda>r. accepted_type (ELF32_R_TYPE (r_info r))"
  have sp: "rs = takeWhile ?P rs @ dropWhile ?P rs" by simp
  with assms have "dropWhile ?P rs \<noteq> []" by (auto simp: handled_def)
  then obtain r ts where d: "dropWhile ?P rs = r # ts" by (cases "dropWhile ?P rs") auto
  with hd_dropWhile [of ?P rs] have "\<not> ?P r" by simp
  moreover have "rs = handled rs @ r # ts" using sp d by (simp add: handled_def)
  ultimately show thesis using that by blast
qed

lemma handled_append: "handled (rs @ qs) = (if handled rs = rs then rs @ handled qs else handled rs)"
proof (cases "handled rs = rs")
  case True
  then have "\<forall>r \<in> set rs. accepted_type (ELF32_R_TYPE (r_info r))" by (metis handled_def takeWhile_eq_all_conv)
  with True show ?thesis by (simp add: handled_def)
next
  case False
  then obtain r ts where "rs = handled rs @ r # ts" "\<not> accepted_type (ELF32_R_TYPE (r_info r))" by (rule handled_split)
  then have "\<not> (\<forall>r \<in> set rs. accepted_type (ELF32_R_TYPE (r_info r)))" by (metis in_set_conv_decomp)
  then have "handled (rs @ qs) = handled rs" unfolding handled_def by (subst takeWhile_append) auto
  with False show ?thesis by simp
qed

text \<open>The linker can tell what an entry that it refuses refers to: no symbol, or one that it can look up.\<close>

definition symbol_readable :: "world \<Rightarrow> u32 \<Rightarrow> soinfo \<Rightarrow> u32 list \<Rightarrow> Elf32_Rel \<Rightarrow> bool" where
  "symbol_readable w si s needed r \<longleftrightarrow>
     ELF32_R_SYM (r_info r) = 0 \<or> reloc_symbol w si s needed (ELF32_R_TYPE (r_info r)) (ELF32_R_SYM (r_info r)) \<noteq> None"

lemma table_stops:
  assumes s: "sos w si = Some s" "si_flags s AND FLAG_EXE = 0" and le: "mach_le h (mc w)"
    and tab: "table_at h rel cnt (rs @ r # ts)" and rdy: "entries_ready h w si s needed rs val" and ap: "places_apart s rs"
    and bad: "\<not> accepted_type (ELF32_R_TYPE (r_info r))" and sym: "symbol_readable (w\<lparr>mc := h\<rparr>) si s needed r"
  shows "\<exists>m'. relocate_table True si rel cnt needed w = Some (False, w\<lparr>mc := m'\<rparr>) \<and>
    (\<forall>r \<in> set rs. load32 m' (place s r) = Some (val r)) \<and>
    (\<forall>x. x \<notin> place_bytes s rs \<longrightarrow> load8 m' x = load8 (mc w) x) \<and> fds m' = fds (mc w) \<and> mach_le h m'"
proof -
  have rel: "rel \<noteq> 0" "length (rs @ r # ts) < 4294967296" "cnt = of_nat (length (rs @ r # ts))" "rels_at h rel (rs @ r # ts)"
    using tab by (auto simp: table_at_def split: if_splits)
  obtain m' where m': "relocate_loop w si s needed rel (length rs) = Some (0, w\<lparr>mc := m'\<rparr>)"
    "\<forall>r \<in> set rs. load32 m' (place s r) = Some (val r)"
    "\<forall>x. x \<notin> place_bytes s rs \<longrightarrow> load8 m' x = load8 (mc w) x" "m'\<lparr>vbytes := vbytes (mc w)\<rparr> = mc w"
    using table_loop [OF le rels_at_front [OF rel(4)] _ ap, of si needed val] rdy unfolding entries_ready_def by blast
  have le': "mach_le h m'"
    using mach_le_outside [OF le m'(3)] rdy by (auto simp: place_bytes_def entries_ready_def)
  have rd: "read_rel m' (rel + 8 * of_nat (length rs)) = Some r"
    by (rule shows_more.read_rel_more [OF shows_more.intro [OF le'] rels_at_entry [OF rel(4)]])
  have "symbol_readable (w\<lparr>mc := m'\<rparr>) si s needed r"
    using sym shows_more.reloc_symbol_more [OF shows_more.intro [OF le']] unfolding symbol_readable_def by blast
  then have "relocate_one (w\<lparr>mc := m'\<rparr>) si s needed r = Some (False, w\<lparr>mc := m'\<rparr>)"
    using foreign_fails [OF bad s(2), of "w\<lparr>mc := m'\<rparr>" si needed] by (auto simp: symbol_readable_def)
  with rd have "relocate_loop (w\<lparr>mc := m'\<rparr>) si s needed (rel + 8 * of_nat (length rs)) (length (r # ts)) =
      Some (-1, w\<lparr>mc := m'\<rparr>)" by simp
  with relocate_loop_continues [OF m'(1), of "length (r # ts)"]
  have "relocate_loop w si s needed rel (length (rs @ r # ts)) = Some (-1, w\<lparr>mc := m'\<rparr>)" by (simp del: relocate_loop.simps)
  moreover have "fds m' = fds (mc w)" using arg_cong [OF m'(4), of fds] by simp
  ultimately show ?thesis
    using m' s(1) rel(1-3) le'
    by (intro exI [of _ m']) (simp add: relocate_table_def soinfo_relocate_def unat_of_nat_u32 del: relocate_loop.simps of_nat_Suc of_nat_add)
qed

section \<open>The image\<close>

lemma image_result:
  assumes s: "sos w si = Some s" "si_flags s AND FLAG_EXE = 0" "\<not> si_has_text_relocations s" and le: "mach_le h (mc w)"
    and t1: "table_at h (si_plt_rel s) (si_plt_rel_count s) rs" and t2: "table_at h (si_rel s) (si_rel_count s) qs"
    and rdy: "entries_ready h w si s needed (handled (rs @ qs)) val" and ap: "places_apart s (handled (rs @ qs))"
    and sym: "\<And>r ts. rs @ qs = handled (rs @ qs) @ r # ts \<Longrightarrow> symbol_readable (w\<lparr>mc := h\<rparr>) si s needed r"
    and os: "protects os" and ps: "phdrs_at h (si_phdr s) ps" "length ps = unat (si_phnum s)"
  shows "\<exists>m'. relocate_image os si True needed w =
      (if handled (rs @ qs) = rs @ qs
       then Some (True, w\<lparr>sos := (sos w)(si \<mapsto> s\<lparr>si_flags := si_flags s OR FLAG_LINKED\<rparr>), mc := m'\<rparr>)
       else Some (False, w\<lparr>mc := m'\<rparr>)) \<and>
    (\<forall>r \<in> set (handled (rs @ qs)). load32 m' (place s r) = Some (val r)) \<and>
    (\<forall>x. x \<notin> place_bytes s (handled (rs @ qs)) \<longrightarrow> load8 m' x = load8 (mc w) x) \<and> fds m' = fds (mc w) \<and> mach_le h m'"
proof -
  consider (all) "handled (rs @ qs) = rs @ qs" | (first) "handled rs \<noteq> rs" | (second) "handled rs = rs" "handled qs \<noteq> qs"
    by (cases "handled rs = rs"; cases "handled qs = qs") (simp_all add: handled_append)
  then show ?thesis
  proof cases
    case all
    with image_relocated [OF s(1,3) le t1 t2 _ _ os ps, of needed val] rdy ap show ?thesis by simp
  next
    case first
    then obtain r ts where r: "rs = handled rs @ r # ts" "\<not> accepted_type (ELF32_R_TYPE (r_info r))" by (rule handled_split)
    have hd: "handled (rs @ qs) = handled rs" using first by (simp add: handled_append)
    have "rs @ qs = handled (rs @ qs) @ r # (ts @ qs)" using arg_cong [OF r(1), of "\<lambda>xs. xs @ qs"] by (simp add: hd)
    note y = sym [OF this]
    have t: "table_at h (si_plt_rel s) (si_plt_rel_count s) (handled rs @ r # ts)" using t1 r(1) by simp
    obtain m' where "relocate_table True si (si_plt_rel s) (si_plt_rel_count s) needed w = Some (False, w\<lparr>mc := m'\<rparr>)"
      and "\<forall>r \<in> set (handled rs). load32 m' (place s r) = Some (val r)"
      and "\<forall>x. x \<notin> place_bytes s (handled rs) \<longrightarrow> load8 m' x = load8 (mc w) x" "fds m' = fds (mc w)" "mach_le h m'"
      using table_stops [OF s(1,2) le t _ _ r(2) y, of val] rdy ap unfolding hd by blast
    moreover have "length (handled rs) < length (rs @ qs)" using arg_cong [OF r(1), of length] by simp
    then have "handled rs \<noteq> rs @ qs" by fastforce
    ultimately show ?thesis using s unfolding hd by (intro exI [of _ m']) (simp add: relocate_image_def)
  next
    case second
    obtain r ts where r: "qs = handled qs @ r # ts" "\<not> accepted_type (ELF32_R_TYPE (r_info r))" using second(2) by (rule handled_split)
    have hd: "handled (rs @ qs) = rs @ handled qs" using second by (simp add: handled_append)
    have "rs @ qs = handled (rs @ qs) @ r # ts" using r(1) by (simp add: hd)
    note y = sym [OF this]
    have t: "table_at h (si_rel s) (si_rel_count s) (handled qs @ r # ts)" using t2 r(1) by simp
    have ap1: "places_apart s rs" "places_apart s (handled qs)" and apq: "\<forall>r \<in> set rs. \<forall>q \<in> set (handled qs). apart4 (place s r) (place s q)"
      using ap unfolding hd by (simp_all add: places_apart_append)
    note rdy' = rdy [unfolded hd]
    obtain m1 where r1: "relocate_table True si (si_plt_rel s) (si_plt_rel_count s) needed w = Some (True, w\<lparr>mc := m1\<rparr>)"
      and v1: "\<forall>r \<in> set rs. load32 m1 (place s r) = Some (val r)"
      and f1: "\<forall>x. x \<notin> place_bytes s rs \<longrightarrow> load8 m1 x = load8 (mc w) x"
      and e1: "m1\<lparr>vbytes := vbytes (mc w)\<rparr> = mc w" and le1: "mach_le h m1"
      using table_relocated [OF s(1) le t1 entries_ready_append [OF rdy'] ap1(1)] by blast
    have rdy2: "entries_ready h (w\<lparr>mc := m1\<rparr>) si s needed (handled qs) val"
      by (rule entries_after [OF rdy' ap [unfolded hd] f1 e1 v1])
    have s1: "sos (w\<lparr>mc := m1\<rparr>) si = Some s" "mach_le h (mc (w\<lparr>mc := m1\<rparr>))"
      "symbol_readable ((w\<lparr>mc := m1\<rparr>)\<lparr>mc := h\<rparr>) si s needed r" using s le1 y by simp_all
    from table_stops [OF s1(1) s(2) s1(2) t rdy2 ap1(2) r(2) s1(3)] obtain m' where
      r2: "relocate_table True si (si_rel s) (si_rel_count s) needed (w\<lparr>mc := m1\<rparr>) = Some (False, w\<lparr>mc := m'\<rparr>)"
      and v2: "\<forall>q \<in> set (handled qs). load32 m' (place s q) = Some (val q)"
      and f2: "\<forall>x. x \<notin> place_bytes s (handled qs) \<longrightarrow> load8 m' x = load8 m1 x" and d2: "fds m' = fds m1" and le2: "mach_le h m'" by auto
    have "load32 m' (place s r) = load32 m1 (place s r)" if "r \<in> set rs" for r
      by (rule places_keep [OF f2]) (use apq that apart4_sym in blast)
    with v1 v2 have "\<forall>r \<in> set (rs @ handled qs). load32 m' (place s r) = Some (val r)" by auto
    moreover have "\<forall>x. x \<notin> place_bytes s (rs @ handled qs) \<longrightarrow> load8 m' x = load8 (mc w) x" using f1 f2 by simp
    moreover have "fds m' = fds (mc w)" using arg_cong [OF e1, of fds] d2 by simp
    ultimately show ?thesis
      using s r1 r2 le2 second(2) unfolding hd by (intro exI [of _ m']) (simp add: relocate_image_def)
  qed
qed

section \<open>Before the relocations\<close>

lemma needs_linked: "needs w LS strtab es ps \<Longrightarrow> p \<in> set ps \<Longrightarrow> is_linked w p"
  unfolding needs_def by (induction rule: list_all2_induct) auto

lemma link_not_linkable:
  assumes s: "sos w si = Some s" "si_flags s = 0"
    and dyn: "phdr_table_get_dynamic_section (mc w) (si_phdr s) (unat (si_phnum s)) (si_load_bias s) = Some (dyn, x)" "dyn \<noteq> 0"
    and ex: "phdr_table_get_arm_exidx (mc w) (si_phdr s) (unat (si_phnum s)) (si_load_bias s) = Some (r, a, c)"
    and es: "dyns_at (mc w) dyn es" "\<forall>e \<in> set es. dyn_accepted (mc w) (si_load_bias s) e"
    and t: "t = parsed (mc w) (si_load_bias s) es (s\<lparr>si_dynamic := dyn, si_ARM_exidx := a, si_ARM_exidx_count := c\<rparr>)"
    and lk: "\<not> linkable t"
  shows "soinfo_link_image os fl si breloc w = Some (False, put_si si t w)"
proof -
  obtain cnt fg where x: "x = (cnt, fg)" by (cases x)
  have w1: "walk_dyn (\<lambda>_. mc w) (parse_dyn (mc w) (si_load_bias s)) dyn
      (s\<lparr>si_dynamic := dyn, si_ARM_exidx := a, si_ARM_exidx_count := c\<rparr>, 0) =
      Some (True, t, 0 + of_nat (length (needed_names es)))"
    unfolding t by (simp only: parse_dyn_mem [OF es(1)] run_parse [OF es(2)])
  show ?thesis
    using s dyn ex lk by (auto simp: soinfo_link_image_def x w1 Let_def linkable_def)
qed

section \<open>Properties\<close>

text \<open>
  C11: The result of \<open>soinfo_link_image\<close> on a library that is not linked yet and not the executable, whose dynamic
  section is readable and of accepted entries, and whose needed libraries are registered and linked.  Without a hash
  table, a string table or a symbol table it is false, and only the fields of the library have changed.  Otherwise each needed
  library gets a reference for each time it is named, and the entries of the two relocation tables are applied
  in order up to the first one whose type the linker does not handle: at their places stand their values, no other
  byte has changed.  If there is no such entry, the result is true and the library is marked as linked; if
  there is one, the result is false, the library is not marked, and the references that were taken stay.  A part \<open>h\<close> of
  memory shows the tables, the headers and the symbols and none of the places; text relocations are left out,
  and the system grants the protection of the RELRO pages.
\<close>

theorem link_image_result:
  assumes "sos w si = Some s" and "si_flags s = 0"
    and "phdr_table_get_dynamic_section (mc w) (si_phdr s) (unat (si_phnum s)) (si_load_bias s) = Some (dyn, x)" and "dyn \<noteq> 0"
    and "phdr_table_get_arm_exidx (mc w) (si_phdr s) (unat (si_phnum s)) (si_load_bias s) = Some (r, a, c)"
    and "dyns_at (mc w) dyn es" and "\<forall>e \<in> set es. dyn_accepted (mc w) (si_load_bias s) e"
    and "t = parsed (mc w) (si_load_bias s) es (s\<lparr>si_dynamic := dyn, si_ARM_exidx := a, si_ARM_exidx_count := c\<rparr>)"
    and "\<not> si_has_text_relocations t" and "so_inv w LS FL" and "needs (put_si si t w) LS (si_strtab t) es ps"
    and "mach_le h (mc w)" and "phdrs_at h (si_phdr s) phs" and "length phs = unat (si_phnum s)"
    and "table_at h (si_plt_rel t) (si_plt_rel_count t) rs" and "table_at h (si_rel t) (si_rel_count t) qs"
    and "entries_ready h (referenced ps (put_si si t w)) si t ps (handled (rs @ qs)) val"
    and "places_apart t (handled (rs @ qs))"
    and "\<forall>r ts. rs @ qs = handled (rs @ qs) @ r # ts \<longrightarrow>
      symbol_readable ((referenced ps (put_si si t w))\<lparr>mc := h\<rparr>) si t ps r"
    and "protects os"
  shows "(\<not> linkable t \<longrightarrow>
      soinfo_link_image os (find_library os (Suc n)) si True w = Some (False, put_si si t w)) \<and>
    (linkable t \<longrightarrow> (\<exists>m'. soinfo_link_image os (find_library os (Suc n)) si True w =
      (if handled (rs @ qs) = rs @ qs
       then Some (True, (referenced ps (put_si si (t\<lparr>si_flags := FLAG_LINKED\<rparr>) w))\<lparr>mc := m'\<rparr>)
       else Some (False, (referenced ps (put_si si t w))\<lparr>mc := m'\<rparr>)) \<and>
      (\<forall>r \<in> set (handled (rs @ qs)). load32 m' (place t r) = Some (val r)) \<and>
      (\<forall>y. y \<notin> place_bytes t (handled (rs @ qs)) \<longrightarrow> load8 m' y = load8 (mc w) y) \<and> fds m' = fds (mc w)))"
proof (intro conjI impI)
  note s = assms(1,2) and dyn = assms(3,4) and ex = assms(5) and es = assms(6,7) and t = assms(8)
  have fl: "si_flags t = 0" using s(2) by (simp add: t)
  show "soinfo_link_image os (find_library os (Suc n)) si True w = Some (False, put_si si t w)" if "\<not> linkable t"
    using link_not_linkable [OF s dyn ex es t that] .
  assume lk: "linkable t"
  let ?w = "referenced ps (put_si si t w)"
  have "\<not> is_linked (put_si si t w) si" by (simp add: is_linked_def put_si_def fl)
  then have "si \<notin> set ps" using needs_linked [OF assms(11)] by blast
  then have cnt: "count_list ps si = 0" by (simp add: count_list_0_iff)
  have s3: "sos ?w si = Some t" using referenced_sos [of "put_si si t w" si t ps] by (simp add: put_si_def cnt)
  have m3: "mc ?w = mc w" by (simp add: put_si_def)
  have hd: "si_phdr t = si_phdr s" "si_phnum t = si_phnum s" by (simp_all add: t parsed_def)
  have upd: "?w\<lparr>sos := (sos ?w)(si \<mapsto> t\<lparr>si_flags := FLAG_LINKED\<rparr>), mc := m\<rparr> =
      (referenced ps (put_si si (t\<lparr>si_flags := FLAG_LINKED\<rparr>) w))\<lparr>mc := m\<rparr>" for m
    by (simp add: referenced_def put_si_def fun_eq_iff cnt)
  have "\<exists>m'. relocate_image os si True ps ?w =
      (if handled (rs @ qs) = rs @ qs
       then Some (True, ?w\<lparr>sos := (sos ?w)(si \<mapsto> t\<lparr>si_flags := si_flags t OR FLAG_LINKED\<rparr>), mc := m'\<rparr>)
       else Some (False, ?w\<lparr>mc := m'\<rparr>)) \<and>
    (\<forall>r \<in> set (handled (rs @ qs)). load32 m' (place t r) = Some (val r)) \<and>
    (\<forall>x. x \<notin> place_bytes t (handled (rs @ qs)) \<longrightarrow> load8 m' x = load8 (mc ?w) x) \<and> fds m' = fds (mc ?w) \<and> mach_le h m'"
    by (rule image_result [OF s3 _ assms(9) _ assms(15-18) assms(19) [rule_format] assms(20)],
        use fl m3 assms(12-14) hd in simp_all)
  then show "\<exists>m'. soinfo_link_image os (find_library os (Suc n)) si True w =
      (if handled (rs @ qs) = rs @ qs
       then Some (True, (referenced ps (put_si si (t\<lparr>si_flags := FLAG_LINKED\<rparr>) w))\<lparr>mc := m'\<rparr>)
       else Some (False, ?w\<lparr>mc := m'\<rparr>)) \<and>
      (\<forall>r \<in> set (handled (rs @ qs)). load32 m' (place t r) = Some (val r)) \<and>
      (\<forall>y. y \<notin> place_bytes t (handled (rs @ qs)) \<longrightarrow> load8 m' y = load8 (mc w) y) \<and> fds m' = fds (mc w)"
    using link_needs [OF s dyn ex es t lk assms(10,11), of os n True] fl unfolding m3 upd [symmetric] by auto
qed

text \<open>
  A library \<open>libnew.so\<close> in memory that needs \<open>libdl.so\<close>: the program header, the dynamic section at 32, the hash table at
  104, the strings at 112, a table of one entry at 124 and one of two at 132, of which the last has the type \<open>b\<close>, and
  the three words that they relocate.
\<close>

definition img_bytes :: "u8 \<Rightarrow> u8 list" where
  "img_bytes b =
     [2, 0, 0, 0,  0, 0, 0, 0,  32, 0, 0, 0,  0, 0, 0, 0,  72, 0, 0, 0,  72, 0, 0, 0,  4, 0, 0, 0,  4, 0, 0, 0,
      1, 0, 0, 0, 1, 0, 0, 0,  5, 0, 0, 0, 112, 0, 0, 0,  6, 0, 0, 0, 124, 0, 0, 0,  4, 0, 0, 0, 104, 0, 0, 0,
      23, 0, 0, 0, 124, 0, 0, 0,  2, 0, 0, 0, 8, 0, 0, 0,  17, 0, 0, 0, 132, 0, 0, 0,  18, 0, 0, 0, 16, 0, 0, 0,
      0, 0, 0, 0, 0, 0, 0, 0,  1, 0, 0, 0, 2, 0, 0, 0,
      0, 0x6c, 0x69, 0x62, 0x64, 0x6c, 0x2e, 0x73, 0x6f, 0, 0, 0,
      148, 0, 0, 0, 0x17, 0, 0, 0,  152, 0, 0, 0, 0x17, 0, 0, 0,  156, 0, 0, 0, b, 0, 0, 0,
      5, 0, 0, 0,  6, 0, 0, 0,  7, 0, 0, 0]"

definition img_dyns :: "Elf32_Dyn list" where
  "img_dyns = [\<lparr>d_tag = 1, d_val = 1\<rparr>, \<lparr>d_tag = 5, d_val = 112\<rparr>, \<lparr>d_tag = 6, d_val = 124\<rparr>, \<lparr>d_tag = 4, d_val = 104\<rparr>,
     \<lparr>d_tag = 23, d_val = 124\<rparr>, \<lparr>d_tag = 2, d_val = 8\<rparr>, \<lparr>d_tag = 17, d_val = 132\<rparr>, \<lparr>d_tag = 18, d_val = 16\<rparr>]"

definition img_world :: "u8 \<Rightarrow> world" where
  "img_world b = demo_libs\<lparr>mc := mem_of 0x40000000 (img_bytes b),
     sos := [0x10000 \<mapsto> demo_head, 0x20000 \<mapsto> demo_unlinked, 0x30000 \<mapsto> zero_soinfo]\<rparr>"

definition img_plt :: "Elf32_Rel list" where
  "img_plt = [\<lparr>r_offset = 148, r_info = 0x17\<rparr>]"

definition img_rel :: "u8 \<Rightarrow> Elf32_Rel list" where
  "img_rel b = [\<lparr>r_offset = 152, r_info = 0x17\<rparr>, \<lparr>r_offset = 156, r_info = ucast b\<rparr>]"

definition img_shown :: "u8 \<Rightarrow> mach" where
  "img_shown b = hide {x. in_block 0x40000094 12 x} (mem_of 0x40000000 (img_bytes b))"

definition img_object :: "u8 \<Rightarrow> soinfo" where
  "img_object b = parsed (mem_of 0x40000000 (img_bytes b)) 0x40000000 img_dyns
     (demo_unlinked\<lparr>si_dynamic := 0x40000020, si_ARM_exidx := 0, si_ARM_exidx_count := 0\<rparr>)"

lemma img_load8:
  "load8 (mem_of 0x40000000 (img_bytes b)) a =
     (if unat (a - 0x40000000) < 160 then Some (img_bytes b ! unat (a - 0x40000000)) else None)"
  by (simp add: load8_def mem_of_def in_block_def img_bytes_def)

lemma img_shown_load8:
  assumes "unat (a - 0x40000000) < 148"
  shows "load8 (img_shown b) a = Some (img_bytes b ! unat (a - 0x40000000))"
proof -
  have "\<not> in_block 0x40000094 12 a" using in_block_after [of "0x40000000" 148 12 a] assms by auto
  with assms show ?thesis by (simp add: img_shown_def load8_hide img_load8)
qed

lemma img_reads:
  "dyns_at (mem_of 0x40000000 (img_bytes b)) 0x40000020 img_dyns"
  "load32 (mem_of 0x40000000 (img_bytes b)) 0x40000068 = Some 1" "load32 (mem_of 0x40000000 (img_bytes b)) 0x4000006C = Some 2"
  "str_at (mem_of 0x40000000 (img_bytes b)) 0x40000071 ''libdl.so''"
  "load32 (mem_of 0x40000000 (img_bytes b)) 0x40000094 = Some 5" "load32 (mem_of 0x40000000 (img_bytes b)) 0x40000098 = Some 6"
  "load32 (mem_of 0x40000000 (img_bytes b)) 0x4000009C = Some 7"
  by (simp_all add: img_load8 img_dyns_def read_dyn_def load32_def) (simp_all add: img_bytes_def le32_def char_byte_def)

definition img_phdr :: Elf32_Phdr where
  "img_phdr = \<lparr>p_type = 2, p_offset = 0, p_vaddr = 32, p_paddr = 0, p_filesz = 72, p_memsz = 72, p_flags = 4, p_align = 4\<rparr>"

lemma img_phdrs: "phdrs_at (img_shown b) 0x40000000 [img_phdr]" "phdrs_at (mem_of 0x40000000 (img_bytes b)) 0x40000000 [img_phdr]"
proof -
  show s: "phdrs_at (img_shown b) 0x40000000 [img_phdr]"
    by (simp add: read_phdr_def load32_def img_shown_load8) (simp add: img_bytes_def le32_def img_phdr_def)
  show "phdrs_at (mem_of 0x40000000 (img_bytes b)) 0x40000000 [img_phdr]"
    using hidden.phdrs_at_more [of "{x. in_block 0x40000094 12 x}" "mem_of 0x40000000 (img_bytes b)"] s
    unfolding img_shown_def by blast
qed

lemma img_tables: "rels_at (img_shown b) 0x4000007C img_plt" "rels_at (img_shown b) 0x40000084 (img_rel b)"
  by (simp_all add: img_plt_def img_rel_def read_rel_def load32_def img_shown_load8) (simp_all add: img_bytes_def le32_def)

lemma img_object_sel:
  "si_flags (img_object b) = 0" "\<not> si_has_text_relocations (img_object b)" "si_strtab (img_object b) = 0x40000070"
  "si_plt_rel (img_object b) = 0x4000007C" "si_plt_rel_count (img_object b) = 1"
  "si_rel (img_object b) = 0x40000084" "si_rel_count (img_object b) = 2" "si_load_bias (img_object b) = 0x40000000"
  "si_base (img_object b) = 0x40000000" "linkable (img_object b)"
  using img_reads(2) [of b]
  by (simp_all add: img_object_def parsed_def dyn_last_def img_dyns_def demo_unlinked_sel linkable_def word_at_addr_def)
    (simp_all add: demo_unlinked_def zero_soinfo_def)

lemma img_section:
  "phdr_table_get_dynamic_section (mem_of 0x40000000 (img_bytes b)) 0x40000000 1 0x40000000 = Some (0x40000020, 9, Some 4)"
  "phdr_table_get_arm_exidx (mem_of 0x40000000 (img_bytes b)) 0x40000000 1 0x40000000 = Some (-1, 0, 0)"
  "\<forall>e \<in> set img_dyns. dyn_accepted (mem_of 0x40000000 (img_bytes b)) 0x40000000 e"
proof -
  have p: "read_phdr (mem_of 0x40000000 (img_bytes b)) 0x40000000 = Some img_phdr" using img_phdrs(2) by simp
  show "phdr_table_get_dynamic_section (mem_of 0x40000000 (img_bytes b)) 0x40000000 1 0x40000000 = Some (0x40000020, 9, Some 4)"
    "phdr_table_get_arm_exidx (mem_of 0x40000000 (img_bytes b)) 0x40000000 1 0x40000000 = Some (-1, 0, 0)"
    using p by (simp_all add: img_phdr_def)
  show "\<forall>e \<in> set img_dyns. dyn_accepted (mem_of 0x40000000 (img_bytes b)) 0x40000000 e"
    using img_reads(2,3) by (simp add: img_dyns_def dyn_accepted_def)
qed

lemma img_world_sel: "sos (img_world b) 0x20000 = Some demo_unlinked" "mc (img_world b) = mem_of 0x40000000 (img_bytes b)"
  "so_inv (img_world b) [0x10000, 0x20000] [0x30000]"
  by (simp_all add: img_world_def so_inv_def demo_defs demo_unlinked_def)

lemma img_needs:
  "needs (put_si 0x20000 (img_object b) (img_world b)) [0x10000, 0x20000] (si_strtab (img_object b)) img_dyns [0x10000]"
proof -
  have n: "needed_names img_dyns = [\<lparr>d_tag = 1, d_val = 1\<rparr>]" by (simp add: needed_names_def img_dyns_def)
  have "si_name (obj (put_si 0x20000 (img_object b) (img_world b)) 0x10000) = basename ''libdl.so''"
    "is_linked (put_si 0x20000 (img_object b) (img_world b)) 0x10000"
    by (simp_all add: put_si_def obj_def img_world_def is_linked_def basename_def demo_defs)
  then show ?thesis
    using img_reads(4) [of b]
    by (simp add: needs_def n img_object_sel) (intro exI [of _ "''libdl.so''"], simp add: put_si_def img_world_sel(2))
qed

lemma img_shows: "mach_le (img_shown b) (mem_of 0x40000000 (img_bytes b))"
  by (simp add: img_shown_def)

definition img_value :: "Elf32_Rel \<Rightarrow> u32" where
  "img_value r = (if r_offset r = 148 then 0x40000005 else if r_offset r = 152 then 0x40000006 else 0x40000007)"

lemma img_ready:
  "entries_ready (img_shown b) (referenced [0x10000] (put_si 0x20000 (img_object b) (img_world b))) 0x20000 (img_object b) [0x10000]
     (img_plt @ [\<lparr>r_offset = 152, r_info = 0x17\<rparr>, \<lparr>r_offset = 156, r_info = 0x17\<rparr>]) img_value"
proof -
  let ?w = "referenced [0x10000] (put_si 0x20000 (img_object b) (img_world b))"
  have m: "mc ?w = mem_of 0x40000000 (img_bytes b)" by (simp add: put_si_def img_world_sel)
  have len: "length (img_bytes b) = 160" by (simp add: img_bytes_def)
  have wr: "writable_block (mem_of 0x40000000 (img_bytes b)) 0x40000094 4"
    "writable_block (mem_of 0x40000000 (img_bytes b)) 0x40000098 4" "writable_block (mem_of 0x40000000 (img_bytes b)) 0x4000009C 4"
    using mem_of_writable [of 148 4 "img_bytes b" "0x40000000"] mem_of_writable [of 152 4 "img_bytes b" "0x40000000"]
      mem_of_writable [of 156 4 "img_bytes b" "0x40000000"] len by simp_all
  have hid: "load8 (img_shown b) x = None"
    if "in_block (0x40000094 :: u32) 4 x \<or> in_block (0x40000098 :: u32) 4 x \<or> in_block (0x4000009C :: u32) 4 x" for x
  proof -
    have "in_block (0x40000094 :: u32) 12 x" using that by (auto simp: in_block_no_wrap)
    then show ?thesis by (simp add: img_shown_def load8_hide)
  qed
  have pl: "place (img_object b) \<lparr>r_offset = 148, r_info = 0x17\<rparr> = 0x40000094"
    "place (img_object b) \<lparr>r_offset = 152, r_info = 0x17\<rparr> = 0x40000098" "place (img_object b) \<lparr>r_offset = 156, r_info = 0x17\<rparr> = 0x4000009C"
    by (simp_all add: place_def img_object_sel)
  have ty: "ELF32_R_SYM 0x17 = 0" "ELF32_R_TYPE 0x17 = 0x17" by (simp_all add: ELF32_R_SYM_def ELF32_R_TYPE_def drop_bit_eq_div)
  show ?thesis
    unfolding entries_ready_def m
    using wr hid img_reads(5-7) [of b]
    by (simp add: img_plt_def pl reloc_word_def relative_def ty img_object_sel img_value_def)
qed

lemma img_handled:
  "handled (img_plt @ img_rel 0x17) = img_plt @ img_rel 0x17" "handled (img_plt @ img_rel 1) = img_plt @ [\<lparr>r_offset = 152, r_info = 0x17\<rparr>]"
  by (simp_all add: handled_def img_plt_def img_rel_def accepted_type_eq ELF32_R_TYPE_def)

lemma img_tables_at:
  "table_at (img_shown b) (si_plt_rel (img_object b)) (si_plt_rel_count (img_object b)) img_plt"
  "table_at (img_shown b) (si_rel (img_object b)) (si_rel_count (img_object b)) (img_rel b)"
  using img_tables [of b] by (simp_all add: table_at_def img_object_sel, simp_all add: img_plt_def img_rel_def)

lemma img_apart: "places_apart (img_object b) (img_plt @ [\<lparr>r_offset = 152, r_info = 0x17\<rparr>, \<lparr>r_offset = 156, r_info = 0x17\<rparr>])"
  by (simp add: places_apart_def img_plt_def place_def img_object_sel apart4_def)

lemma entries_ready_prefix: "entries_ready h w si s needed rs val \<Longrightarrow> set qs \<subseteq> set rs \<Longrightarrow> entries_ready h w si s needed qs val"
  unfolding entries_ready_def by blast

lemma demo_protects: "protects demo_api"
  by (simp add: protects_def demo_api_def)

lemma link_image_result_witness:
  "(\<exists>w'. soinfo_link_image demo_api (find_library demo_api 1) 0x20000 True (img_world 0x17) = Some (True, w') \<and>
      is_linked w' 0x20000 \<and> load32 (mc w') 0x40000094 = Some 0x40000005 \<and> load32 (mc w') 0x4000009C = Some 0x40000007 \<and>
      si_ref_count (obj w' 0x10000) = 1) \<and>
   (\<exists>w'. soinfo_link_image demo_api (find_library demo_api 1) 0x20000 True (img_world 1) = Some (False, w') \<and>
      \<not> is_linked w' 0x20000 \<and> load32 (mc w') 0x40000094 = Some 0x40000005 \<and> load8 (mc w') 0x4000009C = Some 7 \<and>
      si_ref_count (obj w' 0x10000) = 1)"
proof -
  let ?w = "\<lambda>b. referenced [0x10000] (put_si 0x20000 (img_object b) (img_world b))"
  have d: "phdr_table_get_dynamic_section (mc (img_world b)) (si_phdr demo_unlinked) (unat (si_phnum demo_unlinked))
      (si_load_bias demo_unlinked) = Some (0x40000020, 9, Some 4)" for b
    using img_section(1) by (simp add: img_world_sel demo_unlinked_sel)
  have x: "phdr_table_get_arm_exidx (mc (img_world b)) (si_phdr demo_unlinked) (unat (si_phnum demo_unlinked))
      (si_load_bias demo_unlinked) = Some (-1, 0, 0)" for b
    using img_section(2) by (simp add: img_world_sel demo_unlinked_sel)
  have es: "dyns_at (mc (img_world b)) 0x40000020 img_dyns"
    "\<forall>e \<in> set img_dyns. dyn_accepted (mc (img_world b)) (si_load_bias demo_unlinked) e" for b
    using img_reads(1) img_section(3) by (simp_all add: img_world_sel demo_unlinked_sel)
  have t: "img_object b = parsed (mc (img_world b)) (si_load_bias demo_unlinked) img_dyns
      (demo_unlinked\<lparr>si_dynamic := 0x40000020, si_ARM_exidx := 0, si_ARM_exidx_count := 0\<rparr>)" for b
    by (simp add: img_object_def img_world_sel demo_unlinked_sel)
  have h: "mach_le (img_shown b) (mc (img_world b))" "phdrs_at (img_shown b) (si_phdr demo_unlinked) [img_phdr]"
    "length [img_phdr] = unat (si_phnum demo_unlinked)" for b
    using img_shows img_phdrs by (simp_all add: img_world_sel demo_unlinked_sel)
  have pre: "set (handled (img_plt @ img_rel b)) \<subseteq> set (img_plt @ [\<lparr>r_offset = 152, r_info = 0x17\<rparr>, \<lparr>r_offset = 156, r_info = 0x17\<rparr>])"
    "places_apart (img_object b) (handled (img_plt @ img_rel b))" if "b = 0x17 \<or> b = 1" for b
    using that img_handled img_apart [of b] by (auto simp: img_rel_def img_plt_def places_apart_def)
  have sym17: "\<forall>r ts. img_plt @ img_rel 0x17 = handled (img_plt @ img_rel 0x17) @ r # ts \<longrightarrow>
      symbol_readable (v\<lparr>mc := img_shown 0x17\<rparr>) 0x20000 (img_object 0x17) [0x10000] r" for v
    using img_handled by simp
  have sym1: "\<forall>r ts. img_plt @ img_rel 1 = handled (img_plt @ img_rel 1) @ r # ts \<longrightarrow>
      symbol_readable (v\<lparr>mc := img_shown 1\<rparr>) 0x20000 (img_object 1) [0x10000] r" for v
    using img_handled by (auto simp: symbol_readable_def img_rel_def ELF32_R_SYM_def)
  note start = img_world_sel(1) demo_unlinked_sel(4) d _ x es t img_object_sel(2) img_world_sel(3) img_needs h img_tables_at
  note p17 = pre [OF disjI1 [OF refl]] and p1 = pre [OF disjI2 [OF refl]]
  note r17 = link_image_result [OF start entries_ready_prefix [OF img_ready p17(1)] p17(2) sym17 demo_protects, where n = 0]
    and r1 = link_image_result [OF start entries_ready_prefix [OF img_ready p1(1)] p1(2) sym1 demo_protects, where n = 0]
  have pl: "place (img_object b) \<lparr>r_offset = 148, r_info = 0x17\<rparr> = 0x40000094" "place (img_object b) \<lparr>r_offset = 156, r_info = 0x17\<rparr> = 0x4000009C"
    "place (img_object b) \<lparr>r_offset = 152, r_info = 0x17\<rparr> = 0x40000098" for b
    by (simp_all add: place_def img_object_sel)
  have c: "si_ref_count (obj (referenced [0x10000] (put_si 0x20000 u (img_world b))) 0x10000) = 1" for u b
    by (simp add: referenced_def put_si_def obj_def img_world_def demo_defs)
  have l: "sos (referenced [0x10000] (put_si 0x20000 u (img_world b))) 0x20000 = Some u" for u b
    by (simp add: referenced_def put_si_def)
  from r17 obtain m where m: "soinfo_link_image demo_api (find_library demo_api 1) 0x20000 True (img_world 0x17) =
      Some (True, (referenced [0x10000] (put_si 0x20000 ((img_object 0x17)\<lparr>si_flags := FLAG_LINKED\<rparr>) (img_world 0x17)))\<lparr>mc := m\<rparr>)"
    "\<forall>r \<in> set (img_plt @ img_rel 0x17). load32 m (place (img_object 0x17) r) = Some (img_value r)"
    using img_handled(1) img_object_sel(10) by (auto simp del: find_library.simps)
  from r1 obtain k where k: "soinfo_link_image demo_api (find_library demo_api 1) 0x20000 True (img_world 1) =
      Some (False, (referenced [0x10000] (put_si 0x20000 (img_object 1) (img_world 1)))\<lparr>mc := k\<rparr>)"
    "\<forall>r \<in> set (img_plt @ [\<lparr>r_offset = 152, r_info = 0x17\<rparr>]). load32 k (place (img_object 1) r) = Some (img_value r)"
    "\<forall>y. y \<notin> place_bytes (img_object 1) (img_plt @ [\<lparr>r_offset = 152, r_info = 0x17\<rparr>]) \<longrightarrow> load8 k y = load8 (mc (img_world 1)) y"
    using img_handled(2) img_object_sel(10) by (auto simp: img_rel_def simp del: find_library.simps)
  have "load8 k 0x4000009C = Some 7"
    using k(3) by (simp add: place_bytes_def img_plt_def pl in_block_no_wrap img_world_sel img_load8) (simp add: img_bytes_def)
  with m k(1,2) show ?thesis
    by (simp add: img_plt_def img_rel_def pl img_value_def is_linked_def l c [unfolded obj_def] obj_def img_object_sel del: find_library.simps)
qed

end
