(* ===== verification/Load_Depth.thy ===== *)
theory Load_Depth
  imports Session Load_Nested
begin

text \<open>
  How deep libraries are loaded for one another.  A library enters the global list before the libraries that it needs
  are loaded, and a library in the list is not loaded again; so every library that is being loaded has
  a file on disk whose name no other one has, and the recursion of \<open>find_library\<close> is no deeper than the number of
  files whose names are not registered, also when libraries need each other in a cycle.
\<close>

section \<open>Loading with a given finder at the end of the depth\<close>

text \<open>\<open>find_library\<close> in which the calls at depth 0 are calls of \<open>deep\<close>.\<close>

fun find_over :: "win_api \<Rightarrow> finder \<Rightarrow> nat \<Rightarrow> finder" where
  "find_over os deep 0 name w = deep name w"
| "find_over os deep (Suc n) name w =
     do { (si, w) \<leftarrow> find_library_internal os (find_over os deep n) name w;
          (if si \<noteq> 0
           then do { w \<leftarrow> upd_si si (\<lambda>s. s\<lparr>si_ref_count := si_ref_count s + 1\<rparr>) w; Some (si, w) }
           else Some (si, w)) }"

lemma find_over_extends: "extends (find_library os n) (find_over os deep n)"
proof (induction n)
  case 0
  then show ?case by (simp add: extends_def)
next
  case (Suc n)
  show ?case
    unfolding extends_def
  proof (intro allI impI)
    fix name w r
    assume run: "find_library os (Suc n) name w = Some r"
    then obtain q where "find_library_internal os (find_library os n) name w = Some q"
      unfolding find_library.simps(2) by (elim bind_eq_SomeE)
    moreover from find_library_internal_mono [OF this Suc]
    have "find_library_internal os (find_over os deep n) name w = Some q" .
    ultimately show "find_over os deep (Suc n) name w = Some r" using run by simp
  qed
qed

section \<open>The files that are not registered\<close>

definition lib_names :: "world \<Rightarrow> u32 list \<Rightarrow> string set" where
  "lib_names w LS = (\<lambda>p. si_name (obj w p)) ` set LS"

definition unregistered :: "world \<Rightarrow> u32 list \<Rightarrow> string set" where
  "unregistered w LS = basename ` dom (fs (mc w)) - lib_names w LS"

text \<open>
  The lists are well formed, the disk holds finitely many files with proper names, and there is a free object for
  each of them that is not registered, so that no pool has to be made.
\<close>

definition disk_ready :: "world \<Rightarrow> u32 list \<Rightarrow> u32 list \<Rightarrow> bool" where
  "disk_ready w LS FL \<longleftrightarrow> so_inv w LS FL \<and> finite (dom (fs (mc w))) \<and> (\<forall>name \<in> dom (fs (mc w)). no_nul name) \<and>
     card (unregistered w LS) \<le> length FL"

text \<open>What a call of the loader keeps: the files, the head of the list, and the registered libraries.\<close>

definition grown :: "world \<Rightarrow> world \<Rightarrow> bool" where
  "grown w w' \<longleftrightarrow>
     (\<forall>LS FL. disk_ready w LS FL \<longrightarrow>
        (\<exists>LS' FL'. disk_ready w' LS' FL' \<and> fs (mc w') = fs (mc w) \<and> solist w' = solist w \<and> set LS \<subseteq> set LS' \<and>
           (\<forall>p \<in> set LS. si_name (obj w' p) = si_name (obj w p))))"

lemma grownD:
  assumes "grown w w'" and "disk_ready w LS FL"
  obtains LS' FL' where "disk_ready w' LS' FL'" "fs (mc w') = fs (mc w)" "solist w' = solist w" "set LS \<subseteq> set LS'"
    "\<forall>p \<in> set LS. si_name (obj w' p) = si_name (obj w p)"
  using assms unfolding grown_def by blast

lemma grownI:
  assumes "\<And>LS FL. disk_ready w LS FL \<Longrightarrow> \<exists>LS' FL'. disk_ready w' LS' FL' \<and> fs (mc w') = fs (mc w) \<and>
    solist w' = solist w \<and> set LS \<subseteq> set LS' \<and> (\<forall>p \<in> set LS. si_name (obj w' p) = si_name (obj w p))"
  shows "grown w w'"
  using assms unfolding grown_def by blast

lemma grown_trans:
  assumes a: "grown w1 w2" and b: "grown w2 w3"
  shows "grown w1 w3"
proof (rule grownI)
  fix LS FL
  assume "disk_ready w1 LS FL"
  with a obtain LS' FL' where 1: "disk_ready w2 LS' FL'" "fs (mc w2) = fs (mc w1)" "solist w2 = solist w1" "set LS \<subseteq> set LS'"
    "\<forall>p \<in> set LS. si_name (obj w2 p) = si_name (obj w1 p)" by (rule grownD)
  from b 1(1) obtain LS'' FL'' where 2: "disk_ready w3 LS'' FL''" "fs (mc w3) = fs (mc w2)" "solist w3 = solist w2"
    "set LS' \<subseteq> set LS''" "\<forall>p \<in> set LS'. si_name (obj w3 p) = si_name (obj w2 p)" by (rule grownD)
  from 1 2 show "\<exists>LS' FL'. disk_ready w3 LS' FL' \<and> fs (mc w3) = fs (mc w1) \<and> solist w3 = solist w1 \<and> set LS \<subseteq> set LS' \<and>
      (\<forall>p \<in> set LS. si_name (obj w3 p) = si_name (obj w1 p))"
    by (intro exI [of _ LS''] exI [of _ FL'']) auto
qed

lemma unregistered_names:
  "fs (mc w') = fs (mc w) \<Longrightarrow> (\<And>p. p \<in> set LS \<Longrightarrow> si_name (obj w' p) = si_name (obj w p)) \<Longrightarrow>
     unregistered w' LS = unregistered w LS"
  by (simp add: unregistered_def lib_names_def)

text \<open>A change of fields that are neither links nor names, and of the machine without its files.\<close>

lemma grown_same:
  assumes f: "fs (mc w') = fs (mc w)" and l: "\<And>x. map_option si_next (sos w' x) = map_option si_next (sos w x)"
    and n: "\<And>x. si_name (obj w' x) = si_name (obj w x)"
    and eq: "solist w' = solist w" "gSoInfoFreeList w' = gSoInfoFreeList w" "sonext w' = sonext w"
  shows "grown w w'"
proof -
  have "disk_ready w' LS FL = disk_ready w LS FL" for LS FL
    unfolding disk_ready_def so_inv_links [OF l eq] f unregistered_names [OF f n] ..
  then show ?thesis using f n eq(1) by (intro grownI) blast
qed

lemma grown_field:
  assumes "sos w p = Some s" and "si_next s' = si_next s" and "si_name s' = si_name s"
  shows "grown w (w\<lparr>sos := (sos w)(p \<mapsto> s')\<rparr>)"
  using assms by (intro grown_same) (auto simp: obj_def)

interpretation growing: image_frame os "\<lambda>m m'. keeps_files os \<longrightarrow> fs m' = fs m" "\<lambda>w w'. keeps_files os \<longrightarrow> grown w w'" for os
proof
  show "keeps_files os \<longrightarrow> grown w (w'\<lparr>gLdPreloads := ps\<rparr>)" if "keeps_files os \<longrightarrow> grown w w'" for w w' ps
  proof
    assume "keeps_files os"
    with that have "grown w w'" by blast
    moreover have "grown w' (w'\<lparr>gLdPreloads := ps\<rparr>)" by (rule grown_same) (simp_all add: obj_def)
    ultimately show "grown w (w'\<lparr>gLdPreloads := ps\<rparr>)" by (rule grown_trans)
  qed
  show "keeps_files os \<longrightarrow> grown w (w\<lparr>sos := (sos w)(p \<mapsto> s\<lparr>si_constructors_called := True\<rparr>)\<rparr>)"
    if "sos w p = Some s" for w p s
    using grown_field [OF that] by simp
qed (auto intro: grown_trans grown_field grown_same simp: obj_def)

section \<open>A file enters the list\<close>

lemma opened_file:
  assumes "open_library name paths m = (fd, m')" and "fd \<noteq> -1"
  shows "name \<in> dom (fs m)"
  using assms c_open_missing [of m name] by (auto simp: open_library_eq split: if_splits)

lemma no_nul_basename: "no_nul name \<Longrightarrow> no_nul (basename name)"
  using set_takeWhileD [of _ "\<lambda>c. c \<noteq> CHR ''/''" "rev name"] by (auto simp: no_nul_def basename_def)

lemma not_registered:
  assumes "find_loaded_library name w = Some 0" and inv: "so_inv w LS FL"
  shows "basename name \<notin> lib_names w LS"
proof (cases "find (\<lambda>p. basename name = si_name (obj w p)) LS")
  case None
  then show ?thesis by (auto simp: find_None_iff lib_names_def)
next
  case (Some q)
  then have "q \<in> set LS" by (auto simp: find_Some_iff)
  with assms(1) find_loaded_library_eq [OF inv, of name] so_inv_live [OF inv, of q] Some show ?thesis
    by (simp add: ptr_of_def)
qed

lemma load_registers:
  assumes os: "keeps_files os" and run: "load_library os name w = Some (p, w')" and d: "disk_ready w LS FL"
    and new: "find_loaded_library name w = Some 0"
  shows "fs (mc w') = fs (mc w) \<and> solist w' = solist w \<and> (\<forall>q \<in> set LS. si_name (obj w' q) = si_name (obj w q)) \<and>
    (if p = 0 then disk_ready w' LS FL
     else \<exists>FL'. disk_ready w' (LS @ [p]) FL' \<and> p \<notin> set LS \<and> card (unregistered w' (LS @ [p])) < card (unregistered w LS))"
proof -
  have D: "so_inv w LS FL" "finite (dom (fs (mc w)))" "\<And>n. n \<in> dom (fs (mc w)) \<Longrightarrow> no_nul n"
    "card (unregistered w LS) \<le> length FL" using d by (auto simp: disk_ready_def)
  have same: ?thesis if "p = 0" "w' = w\<lparr>mc := m\<rparr>" "fs m = fs (mc w)" for m
  proof -
    have "grown w w'" using that by (intro grown_same) (simp_all add: obj_def)
    moreover have "so_inv w' LS FL = so_inv w LS FL" by (rule so_inv_links) (simp_all add: that)
    moreover have "unregistered w' LS = unregistered w LS" by (rule unregistered_names) (simp_all add: that obj_def)
    ultimately show ?thesis using d that by (simp add: disk_ready_def obj_def)
  qed
  obtain fd m where o: "open_library name (gLdPaths w) (mc w) = (fd, m)" by (cases "open_library name (gLdPaths w) (mc w)")
  have m: "fs m = fs (mc w)" using disk.opens_library [OF o] os by blast
  show ?thesis
  proof (cases "fd = -1")
    case True
    with run o m same show ?thesis by (auto simp: load_library_def)
  next
    case False
    with run o obtain ok r m2 where l: "Load os (ElfReader name fd) m = Some (ok, r, m2)"
      and t: "(if \<not> ok then Some (0, w\<lparr>mc := ElfReader_destroy os r m2\<rparr>)
        else do {
          (si, w) \<leftarrow> soinfo_alloc os (basename name) (w\<lparr>mc := m2\<rparr>);
          (if si = 0 then Some (0, w\<lparr>mc := ElfReader_destroy os r (mc w)\<rparr>)
           else do {
             w \<leftarrow> upd_si si (\<lambda>s. s\<lparr>si_base := er_load_start r, si_size := er_load_size r,
                    si_load_bias := er_load_bias r, si_flags := 0, si_entry := 0, si_dynamic := 0,
                    si_phnum := er_phdr_num r, si_phdr := er_loaded_phdr r\<rparr>) w;
             Some (si, w\<lparr>mc := ElfReader_destroy os r (mc w)\<rparr>) }) }) = Some (p, w')"
      by (auto simp: load_library_def Let_def elim!: bind_eq_SomeE cong: if_cong)
    have m2: "fs m2 = fs (mc w)" using disk.loads_file [OF l] os m by simp
    have des: "fs (ElfReader_destroy os r k) = fs k" for k using disk.destroys os by blast
    show ?thesis
    proof (cases "\<not> ok \<or> 128 \<le> length (basename name)")
      case True
      with t same [of "ElfReader_destroy os r m2"] m2 des show ?thesis by (auto simp: soinfo_alloc_def split: if_splits)
    next
      case False
      have disk_file: "name \<in> dom (fs (mc w))" using opened_file [OF o] \<open>fd \<noteq> -1\<close> by blast
      let ?u = "unregistered w LS"
      have fin: "finite ?u" using D(2) by (simp add: unregistered_def)
      have nn: "basename name \<in> ?u" using disk_file not_registered [OF new D(1)] by (simp add: unregistered_def)
      then have "card ?u \<noteq> 0" using fin by auto
      with D(4) obtain f FL' where FL: "FL = f # FL'" by (cases FL) auto
      have inv: "so_inv (w\<lparr>mc := m2\<rparr>) LS (f # FL')" using so_inv_links [of "w\<lparr>mc := m2\<rparr>" w LS FL] D(1) by (simp add: FL)
      obtain w3 where a: "soinfo_alloc os (basename name) (w\<lparr>mc := m2\<rparr>) = Some (f, w3)" and i3: "so_inv w3 (LS @ [f]) FL'"
        and s3: "sos w3 f = Some (zero_soinfo\<lparr>si_name := basename name\<rparr>)"
        and oth: "\<forall>x. x \<noteq> f \<and> x \<noteq> last LS \<longrightarrow> sos w3 x = sos w x"
        and lst: "sos w3 (last LS) = map_option (\<lambda>s. s\<lparr>si_next := f\<rparr>) (sos w (last LS))" and mc3: "mc w3 = m2"
        using soinfo_alloc_cached [OF inv no_nul_basename [OF D(3) [OF disk_file]]] False by auto
      have f: "f \<noteq> 0" "f \<notin> set LS" using so_inv_live [OF i3, of f] so_invD(3) [OF i3] by auto
      have so3: "solist w3 = solist w"
        using a
      proof (cases rule: soinfo_alloc_cases)
        case (object w0 s nm t)
        from object(1) have "solist w0 = solist w" by (cases rule: ensure_free_list_cases) auto
        then show ?thesis by (simp add: object(5))
      qed simp
      from t a f False obtain w4 where w': "p = f" "w' = w4\<lparr>mc := ElfReader_destroy os r (mc w4)\<rparr>"
        and u: "upd_si f (\<lambda>s. s\<lparr>si_base := er_load_start r, si_size := er_load_size r,
                    si_load_bias := er_load_bias r, si_flags := 0, si_entry := 0, si_dynamic := 0,
                    si_phnum := er_phdr_num r, si_phdr := er_loaded_phdr r\<rparr>) w3 = Some w4"
        by (auto elim!: bind_eq_SomeE)
      have fs': "fs (mc w') = fs (mc w)" using u by (auto simp: w'(2) des upd_si_def s3 mc3 m2)
      have so': "solist w' = solist w" using u so3 by (auto simp: w'(2) upd_si_def s3)
      have nm3: "si_name (obj w' f) = basename name" using u by (auto simp: w'(2) upd_si_def s3 obj_def)
      have nm: "si_name (obj w' q) = si_name (obj w q)" if "q \<in> set LS" for q
      proof -
        have "q \<noteq> f" using that f by blast
        then have "obj w' q = obj w3 q" using u by (auto simp: w'(2) upd_si_def s3 obj_def)
        moreover have "si_name (obj w3 q) = si_name (obj w q)"
          using oth lst \<open>q \<noteq> f\<close> by (cases "q = last LS") (auto simp: obj_def split: option.split)
        ultimately show ?thesis by simp
      qed
      have "so_inv w' (LS @ [f]) FL' = so_inv w3 (LS @ [f]) FL'"
        using u by (intro so_inv_links) (auto simp: w'(2) upd_si_def s3)
      with i3 have i': "so_inv w' (LS @ [f]) FL'" by simp
      have "lib_names w' LS = lib_names w LS" using nm by (simp add: lib_names_def)
      moreover have "lib_names w' (LS @ [f]) = insert (si_name (obj w' f)) (lib_names w' LS)" by (simp add: lib_names_def)
      ultimately have un: "unregistered w' (LS @ [f]) = ?u - {basename name}"
        by (auto simp: unregistered_def fs' nm3)
      have "card (unregistered w' (LS @ [f])) < card ?u" unfolding un using fin nn by (rule card_Diff1_less)
      moreover from this have "disk_ready w' (LS @ [f]) FL'"
        using i' D(2-4) by (simp add: disk_ready_def fs' FL)
      ultimately show ?thesis using fs' so' nm f by (auto simp: w'(1))
    qed
  qed
qed

section \<open>The loader keeps what is registered\<close>

lemma free_names: "soinfo_free p w = Some w' \<Longrightarrow> si_name (obj w' x) = si_name (obj w x)"
  by (cases rule: soinfo_free_cases) (auto simp: obj_def split: option.split if_splits)

lemma free_registered:
  assumes d: "disk_ready w LS FL" and p: "p \<in> set LS" "p \<noteq> solist w" and run: "soinfo_free p w = Some w'"
  shows "\<exists>LS'. disk_ready w' LS' (p # FL) \<and> set LS' = set LS - {p}"
proof -
  have inv: "so_inv w LS FL" using d by (simp add: disk_ready_def)
  obtain as bs where LS: "LS = as @ p # bs" using p(1) by (auto dest: split_list)
  have "as \<noteq> []" using p(2) so_invD(1) [OF inv] by (auto simp: LS)
  with soinfo_free_present [of w as p bs FL] inv run have i': "so_inv w' (as @ bs) (p # FL)" and m: "mc w' = mc w"
    by (auto simp: LS)
  have "distinct LS" using so_invD(3) [OF inv] .
  then have st: "set (as @ bs) = set LS - {p}" by (auto simp: LS)
  have fin: "finite (basename ` dom (fs (mc w)))" using d by (simp add: disk_ready_def)
  have "lib_names w LS = insert (si_name (obj w p)) (lib_names w (as @ bs))" by (auto simp: lib_names_def LS)
  moreover have "lib_names w' (as @ bs) = lib_names w (as @ bs)" by (simp add: lib_names_def free_names [OF run])
  ultimately have "unregistered w' (as @ bs) \<subseteq> insert (si_name (obj w p)) (unregistered w LS)"
    by (auto simp: unregistered_def m)
  then have "card (unregistered w' (as @ bs)) \<le> card (insert (si_name (obj w p)) (unregistered w LS))"
    using fin by (intro card_mono) (auto simp: unregistered_def)
  also have "\<dots> \<le> Suc (card (unregistered w LS))" by (rule card_insert_le_m1) simp_all
  finally have "disk_ready w' (as @ bs) (p # FL)" using d i' m by (simp add: disk_ready_def)
  with st show ?thesis by blast
qed

lemma grown_internal:
  assumes os: "keeps_files os" and fl: "\<And>name w p w'. fl name w = Some (p, w') \<Longrightarrow> grown w w'"
    and run: "find_library_internal os fl name w = Some (p, w')"
  shows "grown w w'"
proof (cases name)
  case None
  with run show ?thesis by (auto simp: find_library_internal_def intro: grown_same)
next
  case (Some nm)
  with run obtain si where f: "find_loaded_library nm w = Some si"
    unfolding find_library_internal_def by (auto elim!: bind_eq_SomeE)
  show ?thesis
  proof (cases "si = 0")
    case False
    with run Some f have "w' = w" by (auto simp: find_library_internal_def Option.bind_eq_Some_conv)
    then show ?thesis by (simp add: grown_same)
  next
    case True
    with run Some f obtain q w1 where l: "load_library os nm w = Some (q, w1)"
      and t: "(if q = 0 then Some (0, w1)
         else do {
           (ok, w) \<leftarrow> soinfo_link_image os fl q True w1;
           (if ok then Some (q, w)
            else do {
              s \<leftarrow> sos w q;
              let w = w\<lparr>mc := snd (s_munmap os (si_base s) (si_size s) (mc w))\<rparr>;
              w \<leftarrow> soinfo_free q w;
              Some (0, w) }) }) = Some (p, w')"
      unfolding find_library_internal_def by (auto elim!: bind_eq_SomeE)
    show ?thesis
    proof (rule grownI)
      fix LS FL
      assume d: "disk_ready w LS FL"
      note L = load_registers [OF os l d f [unfolded True]]
      show "\<exists>LS' FL'. disk_ready w' LS' FL' \<and> fs (mc w') = fs (mc w) \<and> solist w' = solist w \<and> set LS \<subseteq> set LS' \<and>
          (\<forall>p \<in> set LS. si_name (obj w' p) = si_name (obj w p))"
      proof (cases "q = 0")
        case True
        with L t show ?thesis by auto
      next
        case False
        with L obtain FL1 where d1: "disk_ready w1 (LS @ [q]) FL1" and q: "q \<notin> set LS" by auto
        from t False obtain ok w2 where k: "soinfo_link_image os fl q True w1 = Some (ok, w2)"
          and u: "(if ok then Some (q, w2)
            else do {
              s \<leftarrow> sos w2 q;
              let w = w2\<lparr>mc := snd (s_munmap os (si_base s) (si_size s) (mc w2))\<rparr>;
              w \<leftarrow> soinfo_free q w;
              Some (0, w) }) = Some (p, w')"
          by (auto elim!: bind_eq_SomeE)
        have "grown w1 w2"
          using growing.link [OF k] os fl unfolding growing.keeps_finder_def by blast
        from this d1 obtain LS2 FL2 where d2: "disk_ready w2 LS2 FL2" and e2: "fs (mc w2) = fs (mc w1)" "solist w2 = solist w1"
          "set (LS @ [q]) \<subseteq> set LS2" "\<forall>p \<in> set (LS @ [q]). si_name (obj w2 p) = si_name (obj w1 p)" by (rule grownD)
        show ?thesis
        proof (cases ok)
          case True
          with u L d2 e2 show ?thesis by (intro exI [of _ LS2] exI [of _ FL2]) auto
        next
          case False
          with u obtain s where s: "sos w2 q = Some s"
            and fr: "soinfo_free q (w2\<lparr>mc := snd (s_munmap os (si_base s) (si_size s) (mc w2))\<rparr>) = Some w'"
            by (auto simp: Let_def elim!: bind_eq_SomeE)
          let ?w = "w2\<lparr>mc := snd (s_munmap os (si_base s) (si_size s) (mc w2))\<rparr>"
          have "fs (snd (s_munmap os (si_base s) (si_size s) (mc w2))) = fs (mc w2)" using disk.unmaps os by blast
          then have "grown w2 ?w" by (intro grown_same) (simp_all add: obj_def)
          have i2: "so_inv ?w LS2 FL2" using d2 so_inv_links [of ?w w2] by (simp add: disk_ready_def)
          have d3: "disk_ready ?w LS2 FL2"
            using d2 i2 \<open>fs (snd _) = _\<close> by (simp add: disk_ready_def unregistered_def lib_names_def obj_def)
          have "q \<noteq> solist ?w"
          proof -
            have inv: "so_inv w1 (LS @ [q]) FL1" and "LS \<noteq> []" using d1 d by (auto simp: disk_ready_def so_inv_def)
            then have "solist w1 = hd LS" using so_invD(1) [OF inv] by (cases LS) auto
            with q \<open>LS \<noteq> []\<close> e2(2) show ?thesis by auto
          qed
          with free_registered [OF d3 _ _ fr] e2(3) obtain LS3 where d4: "disk_ready w' LS3 (q # FL2)" "set LS3 = set LS2 - {q}" by auto
          have m: "mc w' = mc ?w" "solist w' = solist ?w" using fr by (cases rule: soinfo_free_cases; simp)+
          have "si_name (obj w' x) = si_name (obj w x)" if "x \<in> set LS" for x
            using free_names [OF fr] e2(4) L that by (simp add: obj_def)
          with d4 m e2 L q \<open>fs (snd _) = _\<close> show ?thesis by (intro exI [of _ LS3] exI [of _ "q # FL2"]) auto
        qed
      qed
    qed
  qed
qed

lemma grown_library:
  assumes os: "keeps_files os"
  shows "find_library os n name w = Some (p, w') \<Longrightarrow> grown w w'"
proof (induction n arbitrary: name w p w')
  case 0
  then show ?case by simp
next
  case (Suc n)
  then obtain q w1 where f: "find_library_internal os (find_library os n) name w = Some (q, w1)"
    and u: "(if q \<noteq> 0
         then do { w \<leftarrow> upd_si q (\<lambda>s. s\<lparr>si_ref_count := si_ref_count s + 1\<rparr>) w1; Some (q, w) }
         else Some (q, w1)) = Some (p, w')"
    by (auto elim!: bind_eq_SomeE)
  have "grown w1 w'"
    using u os growing.update [of q _ w1 w' os] growing.refl [of os w1]
    by (auto simp: Option.bind_eq_Some_conv split: if_splits)
  with grown_internal [OF os Suc.IH f] show ?case by (rule grown_trans)
qed

section \<open>Room for the libraries that are still to be loaded\<close>

definition room :: "nat \<Rightarrow> world \<Rightarrow> bool" where
  "room n w \<longleftrightarrow> (\<exists>LS FL. disk_ready w LS FL \<and> card (unregistered w LS) < n)"

lemma room_grown:
  assumes "room n w" and g: "grown w w'"
  shows "room n w'"
proof -
  obtain LS FL where d: "disk_ready w LS FL" "card (unregistered w LS) < n" using assms(1) by (auto simp: room_def)
  from g d(1) obtain LS' FL' where e: "disk_ready w' LS' FL'" "fs (mc w') = fs (mc w)" "set LS \<subseteq> set LS'"
    "\<forall>p \<in> set LS. si_name (obj w' p) = si_name (obj w p)" by (rule grownD)
  have "lib_names w LS = lib_names w' LS" using e(4) by (simp add: lib_names_def)
  also have "\<dots> \<subseteq> lib_names w' LS'" using e(3) by (auto simp: lib_names_def)
  finally have "unregistered w' LS' \<subseteq> unregistered w LS" using e(2) by (auto simp: unregistered_def)
  then have "card (unregistered w' LS') \<le> card (unregistered w LS)"
    using d(1) by (intro card_mono) (auto simp: disk_ready_def unregistered_def)
  with d(2) e(1) show ?thesis unfolding room_def by (intro exI [of _ LS'] exI [of _ FL'] conjI) simp_all
qed

text \<open>A walk whose body agrees with another one as long as there is room.\<close>

lemma walk_dyn_within:
  assumes run: "walk_dyn mem b1 d st = Some r" and st: "P st"
    and body: "\<And>e st ok st'. P st \<Longrightarrow> b1 e st = Some (ok, st') \<Longrightarrow> b2 e st = Some (ok, st') \<and> P st'"
  shows "walk_dyn mem b2 d st = Some r \<and> P (snd r)"
proof -
  let ?B = "\<lambda>b. \<forall>e st ok st'. P st \<longrightarrow> b e st = Some (ok, st') \<longrightarrow> b2 e st = Some (ok, st') \<and> P st'"
  have "?B b1 \<longrightarrow> P st \<longrightarrow> walk_dyn mem b2 d st = Some r \<and> P (snd r)"
  proof (rule walk_dyn.raw_induct [where P = "\<lambda>mem b d st r. ?B b \<longrightarrow> P st \<longrightarrow> walk_dyn mem b2 d st = Some r \<and> P (snd r)", OF _ run])
    fix wd mem and b :: "Elf32_Dyn \<Rightarrow> 'a \<Rightarrow> (bool \<times> 'a) option" and d st r
    assume IH: "\<And>mem b d st r. wd mem b d st = Some r \<Longrightarrow> ?B b \<longrightarrow> P st \<longrightarrow> walk_dyn mem b2 d st = Some r \<and> P (snd r)"
      and run: "do { e \<leftarrow> read_dyn (mem st) d;
          (if d_tag e = DT_NULL then Some (True, st)
           else do { (ok, st) \<leftarrow> b e st;
                     (if ok then wd mem b (d + sizeof_Dyn) st else Some (False, st)) }) } = Some r"
    show "?B b \<longrightarrow> P st \<longrightarrow> walk_dyn mem b2 d st = Some r \<and> P (snd r)"
    proof (intro impI)
      assume B: "?B b" and st: "P st"
      from run obtain e where e: "read_dyn (mem st) d = Some e" by (auto elim: bind_eq_SomeE)
      show "walk_dyn mem b2 d st = Some r \<and> P (snd r)"
      proof (cases "d_tag e = DT_NULL")
        case True
        with run e st show ?thesis by (subst walk_dyn.simps) auto
      next
        case False
        with run e obtain ok st' where b: "b e st = Some (ok, st')"
          and n: "(if ok then wd mem b (d + sizeof_Dyn) st' else Some (False, st')) = Some r"
          by (auto elim!: bind_eq_SomeE)
        have b2: "b2 e st = Some (ok, st')" "P st'" using b B st by blast+
        have k: "(if ok then walk_dyn mem b2 (d + sizeof_Dyn) st' else Some (False, st')) = Some r \<and> P (snd r)"
        proof (cases ok)
          case True
          with n have "wd mem b (d + sizeof_Dyn) st' = Some r" by simp
          from IH [OF this] B b2(2) True show ?thesis by simp
        next
          case False
          with n b2(2) show ?thesis by auto
        qed
        have "walk_dyn mem b2 d st = Some r"
          using False e b2(1) conjunct1 [OF k] by (subst walk_dyn.simps) simp
        with k show ?thesis by blast
      qed
    qed
  qed
  with body st show ?thesis by blast
qed

text \<open>Two finders of which the second returns what the first returns, as long as there is room, and keeps the room.\<close>

definition within :: "nat \<Rightarrow> finder \<Rightarrow> finder \<Rightarrow> bool" where
  "within n f g \<longleftrightarrow> (\<forall>name w p w'. room n w \<longrightarrow> f name w = Some (p, w') \<longrightarrow> g name w = Some (p, w') \<and> room n w')"

lemma withinD: "within n f g \<Longrightarrow> room n w \<Longrightarrow> f name w = Some (p, w') \<Longrightarrow> g name w = Some (p, w') \<and> room n w'"
  unfolding within_def by blast

lemma room_preloads: "room n w \<Longrightarrow> room n (w\<lparr>gLdPreloads := ps\<rparr>)"
  by (erule room_grown) (simp add: grown_same obj_def)

lemma preloads_within:
  "load_preloads f names w = Some w' \<Longrightarrow> within n f g \<Longrightarrow> room n w \<Longrightarrow> load_preloads g names w = Some w' \<and> room n w'"
proof (induction names arbitrary: w)
  case (Cons name names)
  from Cons.prems(1) obtain lsi w1 where f: "f (Some name) w = Some (lsi, w1)"
    and l: "load_preloads f names (if lsi \<noteq> 0 then w1\<lparr>gLdPreloads := gLdPreloads w1 @ [lsi]\<rparr> else w1) = Some w'"
    by (auto simp: Option.bind_eq_Some_conv)
  note g = withinD [OF Cons.prems(2,3) f]
  then have "room n (if lsi \<noteq> 0 then w1\<lparr>gLdPreloads := gLdPreloads w1 @ [lsi]\<rparr> else w1)" using room_preloads by auto
  from Cons.IH [OF l Cons.prems(2) this] g show ?case by simp
qed simp

lemma need_dyn_within:
  assumes "within n f g" and "room n (snd st)" and "need_dyn f si e st = Some (ok, st')"
  shows "need_dyn g si e st = Some (ok, st') \<and> room n (snd st')"
  using assms withinD [OF assms(1)]
  by (cases st) (auto simp: need_dyn_def Option.bind_eq_Some_conv split: if_splits)

section \<open>Linking with one finder or the other\<close>

text \<open>The part of \<open>soinfo_link_image\<close> that calls the finder.\<close>

definition link_rest :: "win_api \<Rightarrow> finder \<Rightarrow> u32 \<Rightarrow> bool \<Rightarrow> soinfo \<Rightarrow> u32 \<Rightarrow> world \<Rightarrow> (bool \<times> world) option" where
  "link_rest os fl si breloc s dyn w =
     do { w \<leftarrow> (if si_flags s AND FLAG_EXE \<noteq> 0
                then load_preloads fl (gLdPreloadNames w) (w\<lparr>gLdPreloads := []\<rparr>) else Some w);
          (ok, needed, w) \<leftarrow> walk_dyn (\<lambda>st. mc (snd st)) (need_dyn fl si) dyn ([], w);
          (if \<not> ok then Some (False, w) else relocate_image os si breloc needed w) }"

lemma link_image_cases:
  obtains (none) r where "\<And>fl. soinfo_link_image os fl si breloc w = r"
  | (rest) s s' dyn where "sos w si = Some s" "si_next s' = si_next s" "si_name s' = si_name s" "si_flags s' = si_flags s"
      "\<And>fl. soinfo_link_image os fl si breloc w = link_rest os fl si breloc s' dyn (put_si si s' w)"
proof (cases "sos w si")
  case None
  then show thesis by (intro none [of None]) (simp add: soinfo_link_image_def)
next
  case s: (Some s)
  show thesis
  proof (cases "phdr_table_get_dynamic_section (mc w) (si_phdr s) (unat (si_phnum s)) (si_load_bias s)")
    case None
    with s show thesis by (intro none [of None]) (simp add: soinfo_link_image_def)
  next
    case d: (Some d)
    obtain dyn c fg where dyn: "d = (dyn, c, fg)" by (cases d)
    show thesis
    proof (cases "dyn = 0")
      case True
      with s d dyn show thesis by (intro none [of "Some (False, put_si si (s\<lparr>si_dynamic := dyn\<rparr>) w)"]) (simp add: soinfo_link_image_def)
    next
      case nz: False
      show thesis
      proof (cases "phdr_table_get_arm_exidx (mc w) (si_phdr s) (unat (si_phnum s)) (si_load_bias s)")
        case None
        with s d dyn nz show thesis by (intro none [of None]) (simp add: soinfo_link_image_def)
      next
        case x: (Some x)
        obtain r a k where exidx: "x = (r, a, k)" by (cases x)
        show thesis
        proof (cases "walk_dyn (\<lambda>_. mc w) (parse_dyn (mc w) (si_load_bias s)) dyn
            (s\<lparr>si_dynamic := dyn, si_ARM_exidx := a, si_ARM_exidx_count := k\<rparr>, 0)")
          case None
          with s d dyn nz x exidx show thesis by (intro none [of None]) (simp add: soinfo_link_image_def)
        next
          case p: (Some p)
          obtain ok s' n where q: "p = (ok, s', n)" by (cases p)
          let ?bad = "\<not> ok \<or> (si_flags s AND FLAG_LINKER \<noteq> 0 \<and> n \<noteq> 0) \<or> si_nbucket s' = 0 \<or> si_strtab s' = 0 \<or> si_symtab s' = 0"
          note keeps = parse_walk_keeps [OF p [unfolded q]]
          have e: "soinfo_link_image os fl si breloc w =
              (if ?bad then Some (False, put_si si s' w) else link_rest os fl si breloc s' dyn (put_si si s' w))" for fl
            using s d dyn nz x exidx p q keeps
            by (simp add: soinfo_link_image_def link_rest_def Let_def del: FLAG_EXE_def FLAG_LINKER_def)
          show thesis
          proof (cases ?bad)
            case True
            show thesis by (rule none, unfold e if_P [OF True], rule refl)
          next
            case False
            have "si_next s' = si_next s" "si_name s' = si_name s" "si_flags s' = si_flags s" using keeps by simp_all
            from rest [OF s this] show thesis unfolding e if_not_P [OF False] by blast
          qed
        qed
      qed
    qed
  qed
qed

lemma link_within:
  assumes run: "soinfo_link_image os f si breloc w = Some r" and fg: "within n f g" and rm: "room n w"
  shows "soinfo_link_image os g si breloc w = Some r"
proof (cases rule: link_image_cases [of os si breloc w])
  case (none r')
  with run show ?thesis by metis
next
  case (rest s s' dyn)
  have "grown w (put_si si s' w)" using grown_field [OF rest(1-3)] by (simp add: put_si_def)
  then have rm: "room n (put_si si s' w)" using rm by (rule room_grown [rotated])
  have "link_rest os f si breloc s' dyn (put_si si s' w) = Some r" using run rest(5) [of f] by simp
  then obtain w1 ok ns w2
    where p: "(if si_flags s' AND FLAG_EXE \<noteq> 0
        then load_preloads f (gLdPreloadNames (put_si si s' w)) ((put_si si s' w)\<lparr>gLdPreloads := []\<rparr>) else Some (put_si si s' w)) = Some w1"
      and k: "walk_dyn (\<lambda>st. mc (snd st)) (need_dyn f si) dyn ([], w1) = Some (ok, ns, w2)"
      and i: "(if \<not> ok then Some (False, w2) else relocate_image os si breloc ns w2) = Some r"
    unfolding link_rest_def by (elim bind_eq_SomeE) (auto elim!: bind_eq_SomeE)
  have p': "(if si_flags s' AND FLAG_EXE \<noteq> 0
        then load_preloads g (gLdPreloadNames (put_si si s' w)) ((put_si si s' w)\<lparr>gLdPreloads := []\<rparr>) else Some (put_si si s' w)) = Some w1 \<and>
      room n w1"
    using p rm preloads_within [OF _ fg room_preloads [OF rm]] by (auto split: if_splits)
  have "walk_dyn (\<lambda>st. mc (snd st)) (need_dyn g si) dyn ([], w1) = Some (ok, ns, w2)"
    using walk_dyn_within [OF k, of "\<lambda>st. room n (snd st)"] need_dyn_within [OF fg] p' by simp
  with p' i rest(5) [of g] show ?thesis by (simp add: link_rest_def del: FLAG_EXE_def)
qed

section \<open>The depth is never reached\<close>

lemma internal_within:
  assumes os: "keeps_files os" and run: "find_library_internal os f name w = Some r" and fg: "within n f g"
    and rm: "room (Suc n) w"
  shows "find_library_internal os g name w = Some r"
proof (cases name)
  case None
  with run show ?thesis by (simp add: find_library_internal_def)
next
  case (Some nm)
  with run obtain si where fl: "find_loaded_library nm w = Some si"
    unfolding find_library_internal_def by (auto elim!: bind_eq_SomeE)
  show ?thesis
  proof (cases "si = 0")
    case False
    with run Some fl show ?thesis by (simp add: find_library_internal_def)
  next
    case True
    let ?link = "\<lambda>f q w1. do {
        (ok, w) \<leftarrow> soinfo_link_image os f q True w1;
        (if ok then Some (q, w)
         else do { s \<leftarrow> sos w q;
                   let w = w\<lparr>mc := snd (s_munmap os (si_base s) (si_size s) (mc w))\<rparr>;
                   w \<leftarrow> soinfo_free q w;
                   Some (0, w) }) }"
    from run Some fl True obtain q w1 where l: "load_library os nm w = Some (q, w1)"
      and t: "(if q = 0 then Some (0, w1) else ?link f q w1) = Some r"
      unfolding find_library_internal_def by (auto elim!: bind_eq_SomeE)
    have "(if q = 0 then Some (0, w1) else ?link g q w1) = Some r"
    proof (cases "q = 0")
      case False
      obtain LS FL where d: "disk_ready w LS FL" "card (unregistered w LS) < Suc n" using rm by (auto simp: room_def)
      have "room n w1"
        using load_registers [OF os l d(1) fl [unfolded True]] False d(2) unfolding room_def by auto
      from t False obtain ok w2 where k: "soinfo_link_image os f q True w1 = Some (ok, w2)" by (auto elim!: bind_eq_SomeE)
      from link_within [OF k fg \<open>room n w1\<close>] t k False show ?thesis by simp
    qed (use t in simp)
    with Some fl True l show ?thesis by (simp add: find_library_internal_def)
  qed
qed

lemma find_over_within: "keeps_files os \<Longrightarrow> within n (find_over os deep n) (find_library os n)"
proof (induction n)
  case 0
  then show ?case by (simp add: within_def room_def)
next
  case (Suc n)
  show ?case
    unfolding within_def
  proof (intro allI impI)
    fix name w p w'
    assume rm: "room (Suc n) w" and run: "find_over os deep (Suc n) name w = Some (p, w')"
    then obtain q where q: "find_library_internal os (find_over os deep n) name w = Some q"
      by (auto elim!: bind_eq_SomeE)
    from internal_within [OF Suc.prems q Suc.IH [OF Suc.prems] rm]
    have "find_library_internal os (find_library os n) name w = Some q" .
    with run q have f: "find_library os (Suc n) name w = Some (p, w')" by simp
    with room_grown [OF rm grown_library [OF Suc.prems f]]
    show "find_library os (Suc n) name w = Some (p, w') \<and> room (Suc n) w'" by blast
  qed
qed

lemma find_over_library: "find_over os (find_library os k) n = find_library os (n + k)"
proof (induction n)
  case 0
  show ?case by (intro ext) simp
next
  case (Suc n)
  show ?case by (intro ext) (simp add: Suc.IH)
qed

section \<open>Properties\<close>

text \<open>
  C36: Loading ends also when libraries need each other in a cycle.  Let the lists be well formed, with a free object for
  each file on disk whose name is not registered (finitely many files, with proper names, which the Win32
  functions leave alone).  With a depth above the number of these files, \<open>find_library\<close> never makes the call at the
  end of the depth: whatever finder stands there, the outcome is the same, faults included; in particular a
  greater depth changes nothing.  For each file is loaded at most once within the calls that load it, because a
  library enters the list before the libraries that it needs are looked for.  Whatever is found or fails,
  every library that was registered before the call is registered after it, under its name.
\<close>

theorem loading_depth_bounded:
  assumes "keeps_files os" and "so_inv w LS FL" and "finite (dom (fs (mc w)))"
    and "\<forall>name \<in> dom (fs (mc w)). no_nul name"
    and "card (unregistered w LS) \<le> length FL" and "card (unregistered w LS) < n"
  shows "find_over os deep n name w = find_library os n name w \<and>
    find_library os (n + k) name w = find_library os n name w \<and>
    (\<forall>p w'. find_library os n name w = Some (p, w') \<longrightarrow>
       (\<exists>LS' FL'. so_inv w' LS' FL' \<and> set LS \<subseteq> set LS' \<and> (\<forall>q \<in> set LS. si_name (obj w' q) = si_name (obj w q))))"
proof -
  have d: "disk_ready w LS FL" using assms(2-5) by (simp add: disk_ready_def)
  have rm: "room n w" using d assms(6) unfolding room_def by blast
  have same: "find_over os f n name w = find_library os n name w" for f
  proof (cases "find_over os f n name w")
    case None
    show ?thesis
    proof (cases "find_library os n name w")
      case (Some r)
      then have "find_over os f n name w = Some r" using find_over_extends unfolding extends_def by blast
      with None show ?thesis by simp
    qed (use None in simp)
  next
    case (Some r)
    obtain p w' where r: "r = (p, w')" by (cases r)
    from withinD [OF find_over_within [OF assms(1)] rm Some [unfolded r]] Some r show ?thesis by simp
  qed
  have "\<exists>LS' FL'. so_inv w' LS' FL' \<and> set LS \<subseteq> set LS' \<and> (\<forall>q \<in> set LS. si_name (obj w' q) = si_name (obj w q))"
    if "find_library os n name w = Some (p, w')" for p w'
    using grown_library [OF assms(1) that] d by (rule grownD) (auto simp: disk_ready_def)
  with same [of deep] same [of "find_library os k"] show ?thesis unfolding find_over_library by blast
qed

lemma nest_keeps_files: "keeps_files nest_api"
  by (simp add: keeps_files_def nest_api_def demo_api_def shows_at_def)

lemma nest_unregistered: "card (unregistered nest_world [0x10000, 0x20000]) \<le> 2"
proof -
  have "unregistered nest_world [0x10000, 0x20000] \<subseteq> {basename ''libfull.so'', basename ''ab''}"
    by (auto simp: unregistered_def nest_world_sel(1) split: if_splits)
  then have "card (unregistered nest_world [0x10000, 0x20000]) \<le> card {basename ''libfull.so'', basename ''ab''}"
    by (rule card_mono [rotated]) simp
  also have "\<dots> \<le> 2" by (simp add: card_insert_if)
  finally show ?thesis .
qed

lemma loading_depth_bounded_witness:
  "\<exists>w'. find_library nest_api 3 (Some ''libfull.so'') nest_world = Some (0x30000, w') \<and>
     find_library nest_api 40 (Some ''libfull.so'') nest_world = Some (0x30000, w') \<and>
     find_over nest_api (\<lambda>_ v. Some (0x99, v)) 3 (Some ''libfull.so'') nest_world = Some (0x30000, w') \<and>
     find_over nest_api (\<lambda>_ v. Some (0x99, v)) 3 (Some ''libnone.so'') nest_world =
       find_library nest_api 3 (Some ''libnone.so'') nest_world"
proof -
  have disk: "finite (dom (fs (mc nest_world)))" "\<forall>name \<in> dom (fs (mc nest_world)). no_nul name"
    by (auto simp: nest_world_sel(1) no_nul_def char_byte_def split: if_splits)
  have c: "card (unregistered nest_world [0x10000, 0x20000]) \<le> length [0x30000 :: u32, 0x40000]"
    "card (unregistered nest_world [0x10000, 0x20000]) < 3" using nest_unregistered by simp_all
  note depth = loading_depth_bounded [OF nest_keeps_files nest_world_sel(4) disk c, of "\<lambda>_ v. Some (0x99, v)"]
  obtain m1 m2 w1 w3
    where v: "view_granted nest_api 0 nest_page 0 4096 (set_fd 0 (Some \<lparr>f_data = nest_page, f_pos = 52\<rparr>) nest_opened) 0x1000 m1"
    and b: "block_granted nest_api 4096 m1 0x10000 m2"
    and ll: "load_library nest_api ''libfull.so'' nest_world = Some (0x30000, w1)"
    and f: "found nest_api 1 0x30000 [''ab''] (before_needs w1 0x30000 0x10078 nest_dyns) [0x40000] w3"
    and rel: "relocatable w3 nest_page 0x10000 0x30000 [0x40000] [] [] (\<lambda>_. 0)"
    using nest_ready by blast
  from finds_nested [where n = 0, OF nest_disk(1,2) headed_elf [OF nest_headed] nest_needs nest_world_sel(3),
      unfolded headed_table [OF nest_headed] One_nat_def [symmetric] nest_disk(4),
      OF v b nest_api_works nest_world_sel(4) full_name(1,2) nest_disk(3) ll f rel]
  obtain w' where run: "find_library nest_api (Suc 1) (Some ''libfull.so'') nest_world = Some (0x30000, w')" by blast
  from find_library_fuel [OF _ run, of 3] have "find_library nest_api 3 (Some ''libfull.so'') nest_world = Some (0x30000, w')" by simp
  with depth [of "Some ''libfull.so''" 37] depth [of "Some ''libnone.so''" 0] show ?thesis
    by (intro exI [of _ w']) (simp del: find_library.simps find_over.simps)
qed

end
