(* ===== verification/Spec2Isabelle.thy ===== *)
theory Spec2Isabelle
  imports Engine Session Link_Fails Load_Nested Reloc_Types Emulate_File Constructors Link_Result Load_Depth
begin

text \<open>
  The Android linker of and-emu, and the program around it.

  The program (emulator/emulator.cpp) loads the ARM shared libraries of Android on 32-bit Windows with a port of
  the Bionic linker, looks up \<open>JNI_OnLoad\<close> in one of them, copies that library's image into a Unicorn engine
  and runs two functions there.  The development follows the code from the machine upwards; each theory
  names the functions it models by the names they have in the source.

  \<^bold>\<open>The parts and their theories.\<close>

  \<^item> Prelude: lemmas on lists, words and the option monad that the other theories share.
  \<^item> Machine: the address space as a byte map with a set of writable addresses, files,
    descriptors and errno.  A load from an unmapped address and a store to a read-only one have no result
    (\<open>None\<close>): that is how the model shows a crash.
  \<^item> Elf (emulator/elf.h): the structures, their layout in memory and the packing macros.
  \<^item> Pages (the page macros of emulator/linker.h), Engine (emulator/engine.cpp).
  \<^item> Memmap (emulator/memory.cpp): \<open>s_mmap\<close>, \<open>s_mprotect\<close>, \<open>s_msync\<close>, \<open>s_munmap\<close> over the
    Win32 functions, which are a parameter (record \<open>win_api\<close>).
  \<^item> Phdr, Elf_Reader, Segment_Image (emulator/linker_phdr.cpp): the functions over a program header
    table, the class \<open>ElfReader\<close> from the header to the loaded segments, and what the loaded
    segments contain.  Load_File: \<open>ElfReader::Load\<close> on a well-formed file (\<open>elf_file\<close>), from the first
    read to the address of the loaded program header table.
  \<^item> Soinfo, Registry (emulator/linker.cpp, linker.h): the linker's objects and global variables (the
    records \<open>soinfo\<close> and \<open>world\<close>), the pools, the free list, the global list and the searches along it.
  \<^item> Lookup: hash tables, the scopes of \<open>soinfo_do_lookup\<close>, the searches of \<open>dlsym\<close> and \<open>dladdr\<close>.
  \<^item> Relocate: \<open>soinfo_relocate\<close>, for the relocation types of ARM.  Reads: memories ordered by what they show
    (\<open>mach_le\<close>), and the reads of the linker along that order (locale \<open>shows_more\<close>).  Reloc_Table: a whole table of
    entries of all kinds, each entry on the memory that the earlier ones leave.  Reloc_Types: the relocation types of elf.h,
    which of them are applied, how a table ends at one that is not, and what a table may write.
  \<^item> Linker: \<open>soinfo_link_image\<close>, \<open>load_library\<close>, \<open>find_library\<close>.
    Load_Library: the whole way of a library without dependencies from a file on disk to a linked entry of the global list.
    Link_Needed: linking against libraries that are loaded, with both relocation tables (locale \<open>scope_more\<close>).
    Link_Result: the results of \<open>soinfo_link_image\<close>, failures included.
    Load_Needed, Load_Linked: the whole way of a library with dependencies and relocations.  Load_Nested: the same when
    the needed libraries are loaded on the way, by calls of \<open>find_library\<close> from within \<open>soinfo_link_image\<close>.
    Load_Depth: how deep these calls go.
  \<^item> Lifecycle: constructors, destructors, \<open>do_dlopen\<close>, \<open>soinfo_unload\<close>, \<open>do_dlclose\<close>.  Constructors: the whole
    run of \<open>CallConstructors\<close> on libraries that need each other.  Dlopen_File: \<open>dlopen\<close> of a
    file from end to end.
  \<^item> Dlfcn (emulator/dlfcn.cpp): the static description of libdl.so, and the calls \<open>dlopen\<close>, \<open>dlsym\<close>,
    \<open>dladdr\<close>, \<open>dlclose\<close>.
  \<^item> Emulator (emulator/emulator.cpp): the callbacks, \<open>load_android_so\<close>, \<open>start_vm\<close> and
    \<open>main\<close> over the Unicorn functions (record \<open>unicorn\<close>).  Emulate_File: a library from its file to the memory of
    the engine.
  \<^item> Machine_Frame, Frame, Session: what every call of the linker leaves alone, in the machine and in the
    linker's state, and the sequences of calls that a process makes.
  \<^item> Ledger, Refcounts, Dlopen_Ledger: an abstract account of the reference counts (\<open>ledger\<close>), which the linker's calls
    refine; when closing works (\<open>balanced\<close>); and that loading a file enters it in the ledger.  Link_Fails: linking that
    stops at a needed library that cannot be had, and the ledger after it.

  \<^bold>\<open>How the code is rendered.\<close>  Machine words keep their width: addresses and sizes are \<open>u32\<close>, and every sum
  wraps as it does in the code.  Linker objects live in a map from addresses to records (\<open>sos\<close>), so
  that the links of the lists are addresses as in C; the list of pools, and the null-terminated arrays, are
  lists.  Functions that may fault have type \<open>option\<close>, and \<open>None\<close> stands for a fault, an abort
  or a loop that does not end; an error that the code reports is an ordinary value (\<open>False\<close>, -1, 0).
  Output arguments and assigned members are returned with the result.  The printing macros are left out, but the
  lines of \<open>CallFunction\<close> are kept (\<open>out_log\<close>), as they show the order of the calls.  The mapped
  functions do not run here: calling a constructor prints its two lines and changes nothing else.

  \<^bold>\<open>Loops and fuel.\<close>  Loops with a bound are structural recursion on it; loops over the dynamic section,
  along lists and along hash chains, which data can keep from ending, are partial functions, and lemmas
  show that they return on well-formed data.  The three recursions through dependencies (\<open>find_library\<close>,
  \<open>CallConstructors\<close>, \<open>soinfo_unload\<close>) take a depth.  A larger depth never changes
  a result of \<open>find_library\<close> (\<open>find_library_fuel\<close>).  \<open>loading_depth_bounded\<close> shows that a depth above the number of files on disk whose
  names are not registered is never used up by \<open>find_library\<close>, \<open>constructors_terminate\<close> that a depth above the
  number of libraries whose constructors have not been called is enough, both for cycles of dependencies too, and
  \<open>held_reference_can_be_closed\<close> the depth that is enough for unloading.

  \<^bold>\<open>What is shown.\<close>

  \<^item> Loading: the header that \<open>ReadElfHeader\<close> accepts, the bounds of the program header table, the place
    of the reservation, and the bytes of the loaded segments: file bytes, zeros to the end of the page.
    \<open>Load_image\<close> composes the four steps of \<open>Load\<close> for every file that is \<open>elf_file\<close>.
  \<^item> Registry: \<open>so_inv\<close> (two disjoint lists, \<open>sonext\<close> the last entry of the global one) is kept by allocation,
    with and without a new pool, and by release; the locale \<open>object_registry\<close> states this contract of
    the allocator and is interpreted on the code's functions.
  \<^item> Lookup: \<open>elfhash\<close> is the hash function of the ABI; on a sound hash table a lookup returns and is
    complete; the order of the scopes.
  \<^item> Relocation: the values stored for each kind of reference, a whole table of relative and symbolic entries
    (\<open>relocate_whole_table\<close>), that only the words at the places of the entries before the end or the first failure change
    (\<open>relocate_frame\<close>), that an entry of a type which the linker does not apply fails the table
    (\<open>foreign_type_rejected\<close>), and which undefined references are allowed (\<open>undefined_reference\<close>; for weak ones of
    relative types the code departs from the rule in its comment).
  \<^item> Linking: the fields read from the dynamic section; the results of \<open>soinfo_link_image\<close>, with the relocated words, the
    references taken and \<open>FLAG_LINKED\<close> (\<open>link_image_result\<close>); (\<open>find_library_loads_file\<close>) a leaf library from its file (\<open>leaf_file\<close>: what its bytes must say) to the list, and
    (\<open>find_library_links_file\<close>) a library that needs others which are loaded, from its file to the relocated image.
    \<open>links_with\<close> says what such a file must contain, and \<open>rel_value\<close> the value of each relocation, both in terms of the
    state before the call.  \<open>find_library_nested\<close> composes the calls for libraries that must be loaded first: whatever
    way they are found, the library is relocated in the state that they leave, and the whole call is again one that leaves
    the others undisturbed.  Libraries that need each other cannot be loaded, as the one that is being linked is
    registered but not marked, but the attempt ends; \<open>dlopen_missing_needed\<close> says what such a failure, or a missing file, leaves behind.
  \<^item> Life cycle: order of the calls, constructors of all that a library needs and nothing else touched
    (\<open>constructors_terminate\<close>), unloading at the last reference,
    \<open>dlopen\<close> followed by \<open>dlclose\<close>; \<open>dlopen_loads_file\<close> composes loading, linking and the constructors, with the order of
    their calls (\<open>init_entries\<close>: the array of constructors as it is after relocation).
  \<^item> Emulator: what \<open>start_vm\<close> asks of the engine, and \<open>engine_holds_file\<close>: after loading a file and setting the engine
    up, the engine shows the relocated image of the file at the linker's addresses (\<open>engine_view\<close>).
  \<^item> Interface: the eight names of libdl.so resolve to their functions; what \<open>dlsym\<close> and \<open>dladdr\<close> return.
  \<^item> Interfaces: \<open>shows_more\<close> (a memory that shows all that another shows gives the same reads) is interpreted on a memory
    with hidden places, and \<open>scope_more\<close>, which extends it by the libraries of a scope, on the state after references
    have been taken; with them, what is read before relocation holds while it goes on.
  \<^item> Sessions: the locales \<open>machine_frame\<close> (Machine_Frame), \<open>call_frame\<close>, \<open>world_frame\<close>, \<open>fields_frame\<close>, \<open>unload_frame\<close>, \<open>image_frame\<close> and
    \<open>link_frame\<close> (Frame) reduce a reflexive and transitive relation between states to the few elementary moves of
    the machine and of the linker.  The interpretations: the parts for an executable stay unused, the lists stay
    well formed, constructors keep libraries linked, unloading allocates nothing (Session); calls of functions
    add marks and lines only (\<open>calls_only\<close>, Constructors); loading keeps the files and the
    registered names (\<open>disk\<close> and \<open>grown\<close>, Load_Depth).  From them follow the invariants of every
    sequence of calls from the start of the process, and what \<open>main\<close> needs to return.
  \<^item> Reference counts: \<open>session_follows_ledger\<close> shows that openings and closings of loaded libraries do what the ledger
    says (the interface is the locale \<open>counted_libraries\<close>), unloading with all that it releases in turn included;
    \<open>held_reference_can_be_closed\<close> that a reference which is held can always be given back; and
    \<open>dlopen_enters_ledger\<close> that what is loaded from a file comes under both.
  \<^item> Faults of the code that the model shows are theorems too: a wrapped program header table is accepted, a failed
    reservation goes unseen, a library's own symbols are not searched, the last close of
    the first library writes through null.

  \<^bold>\<open>Parameters and hypotheses.\<close>  The Win32 functions, the Unicorn functions, the addresses that the compiler gives
  to static data and functions, and the frame pointer with which \<open>dlsym\<close> runs are arguments of the
  definitions.  What a property needs of them is a hypothesis of it: \<open>protect_works\<close> (every change of protection is granted and
  leaves the memory's contents alone), \<open>protects\<close> (the same, and the open files stay as they are) and
  \<open>protects_pages\<close> (the same, and other pages keep their protection): these are asked of every call of
  \<open>VirtualProtect\<close>, which is more than its documentation promises, so that the properties that
  assume them describe the runs in which no change of protection is refused.  For constructors, closing and unloading only calls on
  pages of the pools occur; for linking also those on the RELRO pages of the image.  Further \<open>keeps_files\<close> (no Win32
  function changes a file on disk), \<open>fresh_pools\<close> (a new pool lies where no object
  is), \<open>view_granted\<close> and \<open>block_granted\<close> (a mapped view of a file shows its bytes, a reservation is zeroed and
  writable, both on fresh addresses; files stay as they are), \<open>unmaps_view\<close> (removing a view
  leaves other contents alone), \<open>accounts\<close> (the ledger describes the registered libraries, whose tables lie
  in their own blocks; \<open>tables_inside\<close> is this of a library that is about to be loaded), \<open>unicorn_laws\<close> (memory and registers read back what was written), each with an instance
  (\<open>demo_api\<close>, \<open>file_api\<close>, \<open>nest_api\<close>, \<open>demo_start\<close>, \<open>demo_unicorn\<close>).

  \<^bold>\<open>Not modelled.\<close>  The code inside Unicorn and the declarations of its other architectures
  (include/unicorn/x86.h, arm64.h, mips.h, sparc.h, m68k.h); the branches for MIPS and x86 of the linker, which the
  build does not compile; \<open>linker_init\<close> and \<open>linker_uninit\<close>, which are empty; the error buffers,
  into which nothing is written; constants of elf.h and win.h that
  no function reads; the structures and macros of type.h (signals, sockets, \<open>ioctl\<close> numbers, character classes), which no
  other file of the program uses; the library functions of C, beyond what the modelled calls use of them.
\<close>

end
